(* ===== verification/Larenor_Prelude.thy ===== *)
theory Larenor_Prelude
  imports Complex_Main "HOL-Library.AList"
begin

text \<open>
  Shared vocabulary of the development: the error values that cross the service
  boundary, the transaction discipline of the SQLite wrapper
  (\<open>server/larenor_server/database.py\<close>), the way the pydantic contracts are
  represented, and generic lemmas on key-indexed tables used by every component.

  Time stamps are exact rationals where the source uses \<open>time.time()\<close> floats and
  integers where the source uses integer milliseconds; IEEE rounding is not modelled.
\<close>

section \<open>Collections of facts\<close>

named_theorems table_simps "rewrite rules for key-indexed tables"
named_theorems result_simps "rewrite rules for results and transactions"

section \<open>Errors and results\<close>

text \<open>
  \<open>ApiError\<close> is the class of \<open>errors.py\<close>: a static code and an HTTP status.
  \<open>IntegrityError\<close> is what SQLite raises on a violated constraint,
  \<open>ValidationError\<close> what a contract raises when its own output is malformed, 
  \<open>UnicodeError\<close> what encoding a lone surrogate raises, and \<open>TypeError\<close> what
  \<open>secrets.compare_digest\<close> raises on a string that is not ASCII. \<open>StartupError\<close> is the
  other class of \<open>errors.py\<close>, for stored state that does not verify,
  \<open>PantryConflict\<close> the error of \<open>pantry_stock/ledger.py\<close>, and
  \<open>OverflowError\<close> stands for the date arithmetic errors of \<open>datetime\<close>;
  \<open>ValueError\<close>, \<open>KeyError\<close>, \<open>IndexError\<close> and \<open>StopIteration\<close> are Python's own, where no handler catches them.
\<close>

datatype error =
    ApiError string nat
  | StartupError string
  | PantryConflict string
  | IntegrityError
  | ValidationError
  | UnicodeError
  | TypeError
  | ValueError
  | KeyError
  | IndexError
  | StopIteration
  | OverflowError

type_synonym 'a result = "error + 'a"

type_synonym time = rat

text \<open>\<open>ApiError(code)\<close> without a status: the class default is 400.\<close>

abbreviation ApiError400 :: "string \<Rightarrow> error" where
  "ApiError400 c \<equiv> ApiError c 400"

definition bind_res :: "'a result \<Rightarrow> ('a \<Rightarrow> 'b result) \<Rightarrow> 'b result" where
  "bind_res m f = (case m of Inl e \<Rightarrow> Inl e | Inr x \<Rightarrow> f x)"

lemma bind_res_simps [simp, result_simps]:
  "bind_res (Inl e) f = Inl e"
  "bind_res (Inr x) f = f x"
  by (simp_all add: bind_res_def)

lemma bind_res_Inr_iff [result_simps]:
  "bind_res m f = Inr y \<longleftrightarrow> (\<exists>x. m = Inr x \<and> f x = Inr y)"
  by (cases m) simp_all

lemma bind_res_Inl_iff [result_simps]:
  "bind_res m f = Inl e \<longleftrightarrow> m = Inl e \<or> (\<exists>x. m = Inr x \<and> f x = Inl e)"
  by (cases m) simp_all

lemma if_Inl_eq_Inr: "(if c then Inl e else m) = Inr y \<longleftrightarrow> \<not> c \<and> m = Inr y"
  by simp

text \<open>Run a checked step over a list, stopping at the first error, as a Python
  \<open>for\<close> loop with a \<open>raise\<close> in its body does.\<close>

fun fold_res :: "('x \<Rightarrow> 's \<Rightarrow> 's result) \<Rightarrow> 'x list \<Rightarrow> 's \<Rightarrow> 's result" where
  "fold_res f [] s = Inr s"
| "fold_res f (x # xs) s = bind_res (f x s) (fold_res f xs)"

lemma fold_res_append:
  "fold_res f (xs @ ys) s = bind_res (fold_res f xs s) (fold_res f ys)"
  by (induction xs arbitrary: s) (simp_all add: bind_res_def split: sum.splits)

lemma fold_res_invariant:
  assumes "fold_res f xs s = Inr t" and "P s"
    and "\<And>x s t. x \<in> set xs \<Longrightarrow> P s \<Longrightarrow> f x s = Inr t \<Longrightarrow> P t"
  shows "P t"
  using assms
  by (induction xs arbitrary: s) (auto simp: bind_res_Inr_iff)

lemma fold_res_error:
  "fold_res f xs s = Inl e \<Longrightarrow> \<exists>x t. x \<in> set xs \<and> f x t = Inl e"
proof (induction xs arbitrary: s)
  case (Cons x xs)
  show ?case
  proof (cases "f x s")
    case (Inl e')
    then show ?thesis using Cons.prems by auto
  next
    case (Inr t)
    then show ?thesis using Cons.prems Cons.IH [of t] by auto
  qed
qed simp

section \<open>Transactions\<close>

text \<open>
  \<open>Database.transaction\<close>: a body either commits a new state with a value or raises,
  and then the connection is rolled back to the state it began with.
\<close>

type_synonym ('s, 'a) tx = "'s \<Rightarrow> ('a \<times> 's) result"

definition transaction :: "('s, 'a) tx \<Rightarrow> 's \<Rightarrow> 'a result \<times> 's" where
  "transaction body s = (case body s of Inl e \<Rightarrow> (Inl e, s) | Inr (v, s') \<Rightarrow> (Inr v, s'))"

lemma transaction_commit [result_simps]:
  "body s = Inr (v, s') \<Longrightarrow> transaction body s = (Inr v, s')"
  by (simp add: transaction_def)

lemma transaction_rollback [result_simps]:
  "body s = Inl e \<Longrightarrow> transaction body s = (Inl e, s)"
  by (simp add: transaction_def)

lemma transaction_cases:
  assumes "transaction body s = (r, s')"
  obtains e where "body s = Inl e" "r = Inl e" "s' = s"
  | v where "body s = Inr (v, s')" "r = Inr v"
  using assms by (auto simp: transaction_def split: sum.splits prod.splits)

lemma transaction_preserves:
  assumes "P s" and "\<And>v t. body s = Inr (v, t) \<Longrightarrow> P t"
  shows "P (snd (transaction body s))"
  using assms by (auto simp: transaction_def split: sum.splits prod.splits)

text \<open>
  Most mutating operations of the services have one shape: inside the transaction, a guard
  on the acting principal is checked again and then a body runs. The interface is the
  guard, the body and the invariant the body keeps.
\<close>

definition guarded :: "('p \<Rightarrow> 's \<Rightarrow> unit result) \<Rightarrow> ('p \<Rightarrow> ('s, 'a) tx) \<Rightarrow> 'p \<Rightarrow> 's \<Rightarrow> 'a result \<times> 's" where
  "guarded guard body p s = transaction (\<lambda>s. bind_res (guard p s) (\<lambda>_. body p s)) s"

locale guarded_tx =
  fixes inv :: "'s \<Rightarrow> bool"
    and guard :: "'p \<Rightarrow> 's \<Rightarrow> unit result"
    and body :: "'p \<Rightarrow> ('s, 'a) tx"
  assumes body_inv: "inv s \<Longrightarrow> guard p s = Inr () \<Longrightarrow> body p s = Inr (v, s') \<Longrightarrow> inv s'"
begin

lemma run_refused: "guard p s = Inl e \<Longrightarrow> guarded guard body p s = (Inl e, s)"
  by (simp add: guarded_def transaction_def)

lemma run_committed:
  assumes "guarded guard body p s = (Inr v, s')"
  shows "guard p s = Inr () \<and> body p s = Inr (v, s')"
  using assms
  by (auto simp: guarded_def transaction_def bind_res_def split: sum.splits)

lemma run_failed: "guarded guard body p s = (Inl e, s') \<Longrightarrow> s' = s"
  by (auto simp: guarded_def transaction_def split: sum.splits)

lemma run_inv: "inv s \<Longrightarrow> inv (snd (guarded guard body p s))"
  using body_inv
  by (auto simp: guarded_def transaction_def bind_res_def split: sum.splits)

end

text \<open>
  A store changes by steps that keep an invariant; what holds at one time then holds at every later
  time. The second interface is that of a service with idempotent calls: a call that is accepted is
  recorded with its answer, a record survives every later step, and a recorded call is answered
  from the record, whatever the attempt draws anew (clock, identifiers, nonces).
\<close>

locale stable_step =
  fixes step :: "'s \<Rightarrow> 's \<Rightarrow> bool" and inv :: "'s \<Rightarrow> bool"
  assumes step_inv: "step s t \<Longrightarrow> inv s \<Longrightarrow> inv t"
begin

lemma steps_inv: "step\<^sup>*\<^sup>* s t \<Longrightarrow> inv s \<Longrightarrow> inv t"
  by (induction rule: rtranclp_induct) (auto intro: step_inv)

lemma steps_keep:
  assumes "step\<^sup>*\<^sup>* s t" and "inv s" and "P s" and "\<And>u v. inv u \<Longrightarrow> step u v \<Longrightarrow> P u \<Longrightarrow> P v"
  shows "P t"
  using assms(1,2,3) by (induction rule: rtranclp_induct) (auto intro: assms(4) steps_inv)

end

locale idempotent_calls = stable_step step inv
  for step :: "'s \<Rightarrow> 's \<Rightarrow> bool" and inv :: "'s \<Rightarrow> bool" +
  fixes run :: "'d \<Rightarrow> 'c \<Rightarrow> 's \<Rightarrow> 'r result \<times> 's" and recorded :: "'c \<Rightarrow> 'r \<Rightarrow> 's \<Rightarrow> bool"
  assumes accepted: "inv s \<Longrightarrow> run d c s = (Inr r, s') \<Longrightarrow> inv s' \<and> recorded c r s'"
    and recorded_kept: "inv s \<Longrightarrow> step s t \<Longrightarrow> recorded c r s \<Longrightarrow> recorded c r t"
    and replays: "inv s \<Longrightarrow> recorded c r s \<Longrightarrow> run d c s = (Inr r, s)"
begin

lemma retry_any_time:
  assumes "inv s" and "run d c s = (Inr r, s1)" and "step\<^sup>*\<^sup>* s1 t"
  shows "run d' c t = (Inr r, t)"
proof -
  have s1: "inv s1" "recorded c r s1" using accepted [OF assms(1,2)] by simp_all
  have "recorded c r t" by (rule steps_keep [where P = "recorded c r", OF assms(3) s1]) (rule recorded_kept)
  then show ?thesis by (rule replays [OF steps_inv [OF assms(3) s1(1)]])
qed

end

text \<open>
  The third is that of a boundary to devices: commands are sent for a request that has no answer yet,
  at most one per target, and the request is answered in the same step. Whatever happens before and
  after, no target is then driven twice for one request.
\<close>

locale dispatch_log = stable_step step inv
  for step :: "'s \<Rightarrow> 's \<Rightarrow> bool" and inv :: "'s \<Rightarrow> bool" +
  fixes sent :: "'s \<Rightarrow> 'c list" and request :: "'c \<Rightarrow> 'r" and target :: "'c \<Rightarrow> 't" and answered :: "'s \<Rightarrow> 'r set"
  assumes step_sends: "inv s \<Longrightarrow> step s t \<Longrightarrow>
    answered s \<subseteq> answered t \<and>
    (sent t = sent s \<or>
     (\<exists>r cs. r \<notin> answered s \<and> r \<in> answered t \<and> sent t = sent s @ cs \<and> (\<forall>c \<in> set cs. request c = r) \<and>
        distinct (map target cs)))"
begin

definition orderly :: "'s \<Rightarrow> bool" where
  "orderly s \<longleftrightarrow> request ` set (sent s) \<subseteq> answered s \<and> distinct (map (\<lambda>c. (request c, target c)) (sent s))"

lemma step_orderly:
  assumes "inv s" and "step s t" and "orderly s"
  shows "orderly t"
  using step_sends [OF assms(1,2)]
proof (elim conjE disjE exE)
  fix r cs
  assume new: "r \<notin> answered s" "r \<in> answered t" "sent t = sent s @ cs" "\<forall>c \<in> set cs. request c = r"
    "distinct (map target cs)" and mono: "answered s \<subseteq> answered t"
  have "distinct (map (\<lambda>c. (request c, target c)) cs)"
    using new(5) by (auto simp: distinct_map inj_on_def)
  moreover have "(\<lambda>c. (request c, target c)) ` set (sent s) \<inter> (\<lambda>c. (request c, target c)) ` set cs = {}"
    using assms(3) new(1,4) by (auto simp: orderly_def)
  ultimately show ?thesis using assms(3) new mono by (auto simp: orderly_def)
qed (use assms(3) in \<open>auto simp: orderly_def\<close>)

lemma sent_once:
  assumes "step\<^sup>*\<^sup>* s t" and "inv s" and "sent s = []"
  shows "distinct (map (\<lambda>c. (request c, target c)) (sent t)) \<and> request ` set (sent t) \<subseteq> answered t"
proof -
  have "orderly s" using assms(3) by (simp add: orderly_def)
  then have "orderly t" by (rule steps_keep [where P = orderly, OF assms(1,2)]) (rule step_orderly)
  then show ?thesis by (simp add: orderly_def)
qed

end

section \<open>Contracts\<close>

text \<open>
  A pydantic contract is a record type together with a boolean \<open>valid\<close> that states its
  field bounds and validators. A presented value is \<open>None\<close> when it does not have the
  field names and types of the contract at all (all contracts are strict and forbid extra
  fields) and \<open>Some v\<close> when it does; \<open>model_validate\<close> accepts it when the
  bounds and validators hold as well.
\<close>

type_synonym 'a raw = "'a option"

definition model_validate :: "('a \<Rightarrow> bool) \<Rightarrow> 'a raw \<Rightarrow> 'a option" where
  "model_validate valid raw = (case raw of None \<Rightarrow> None | Some v \<Rightarrow> if valid v then Some v else None)"

lemma model_validate_Some_iff [simp]:
  "model_validate valid raw = Some v \<longleftrightarrow> raw = Some v \<and> valid v"
  by (auto simp: model_validate_def split: option.splits)

lemma model_validate_None_iff:
  "model_validate valid raw = None \<longleftrightarrow> (\<forall>v. raw = Some v \<longrightarrow> \<not> valid v)"
  by (auto simp: model_validate_def split: option.splits)

text \<open>\<open>[Model.model_validate(item) for item in raw]\<close>: one bad item rejects the list.\<close>

fun validate_all :: "('a \<Rightarrow> bool) \<Rightarrow> 'a raw list \<Rightarrow> 'a list option" where
  "validate_all valid [] = Some []"
| "validate_all valid (r # rs) =
     (case model_validate valid r of
        None \<Rightarrow> None
      | Some v \<Rightarrow> map_option (Cons v) (validate_all valid rs))"

lemma validate_all_Some_iff:
  "validate_all valid rs = Some vs \<longleftrightarrow> rs = map Some vs \<and> list_all valid vs"
proof (induction rs arbitrary: vs)
  case Nil
  then show ?case by auto
next
  case (Cons r rs)
  show ?case
    by (cases vs) (auto simp: Cons.IH model_validate_None_iff split: option.splits)
qed

section \<open>Revision-bound authority\<close>

text \<open>
  Several services accept a presented contract only when an injected resolver, asked for
  the same key, answers with the identical value. A resolver may raise, answer \<open>None\<close>, or
  answer something that is validated again. The codes differ per service, the shape does
  not.
\<close>

datatype 'a lookup = Raised | Missing | Found "'a raw"

abbreviation revision_conflict :: error where "revision_conflict \<equiv> ApiError ''revision_conflict'' 409"
abbreviation forbidden :: error where "forbidden \<equiv> ApiError ''forbidden'' 403"
abbreviation not_found :: error where "not_found \<equiv> ApiError ''not_found'' 404"
abbreviation bad_request :: error where "bad_request \<equiv> ApiError400 ''invalid_request''"
abbreviation authority_changed :: error where "authority_changed \<equiv> ApiError ''authority_changed'' 409"
abbreviation command_conflict :: error where "command_conflict \<equiv> ApiError ''idempotency_conflict'' 409"

definition resolve_current :: "('a \<Rightarrow> bool) \<Rightarrow> ('k \<Rightarrow> 'a lookup) \<Rightarrow> ('a \<Rightarrow> 'k) \<Rightarrow> error \<Rightarrow> error \<Rightarrow> error
    \<Rightarrow> 'a raw \<Rightarrow> 'a result" where
  "resolve_current valid resolve key bad raised missing presented =
     (case model_validate valid presented of
        None \<Rightarrow> Inl bad
      | Some v \<Rightarrow>
         (case resolve (key v) of
            Raised \<Rightarrow> Inl raised
          | Missing \<Rightarrow> Inl missing
          | Found r \<Rightarrow>
             (case model_validate valid r of
                None \<Rightarrow> Inl raised
              | Some current \<Rightarrow> if current \<noteq> v then Inl revision_conflict else Inr v)))"

lemma resolve_current_Inr_iff:
  "resolve_current valid resolve key bad raised missing presented = Inr v \<longleftrightarrow>
     presented = Some v \<and> valid v \<and> resolve (key v) = Found (Some v)"
  by (auto simp: resolve_current_def split: option.splits lookup.splits if_splits)
    (auto simp: model_validate_def)

section \<open>Key-indexed tables\<close>

text \<open>
  A table is the list of its rows in insertion order, and \<open>key\<close> reads the primary key.
  \<open>select_key\<close> is \<open>SELECT * \<dots> WHERE key = ?\<close> with \<open>fetchone\<close>,
  \<open>update_where\<close> an \<open>UPDATE\<close>, \<open>delete_where\<close> a \<open>DELETE\<close>, and
  \<open>insert_row\<close> an \<open>INSERT\<close> that the primary key constraint may refuse.
\<close>

definition select_where :: "('r \<Rightarrow> bool) \<Rightarrow> 'r list \<Rightarrow> 'r option" where
  "select_where P rows = find P rows"

abbreviation select_key :: "('r \<Rightarrow> 'k) \<Rightarrow> 'k \<Rightarrow> 'r list \<Rightarrow> 'r option" where
  "select_key key k rows \<equiv> select_where (\<lambda>r. key r = k) rows"

definition update_where :: "('r \<Rightarrow> bool) \<Rightarrow> ('r \<Rightarrow> 'r) \<Rightarrow> 'r list \<Rightarrow> 'r list" where
  "update_where P f rows = map (\<lambda>r. if P r then f r else r) rows"

definition delete_where :: "('r \<Rightarrow> bool) \<Rightarrow> 'r list \<Rightarrow> 'r list" where
  "delete_where P rows = filter (\<lambda>r. \<not> P r) rows"

definition count_where :: "('r \<Rightarrow> bool) \<Rightarrow> 'r list \<Rightarrow> nat" where
  "count_where P rows = length (filter P rows)"

definition unique_on :: "('r \<Rightarrow> 'k) \<Rightarrow> 'r list \<Rightarrow> bool" where
  "unique_on key rows = distinct (map key rows)"

lemma select_where_Some:
  "select_where P rows = Some r \<Longrightarrow> P r \<and> r \<in> set rows"
  by (auto simp: select_where_def find_Some_iff)

lemma select_where_None_iff [table_simps]:
  "select_where P rows = None \<longleftrightarrow> (\<forall>r \<in> set rows. \<not> P r)"
  by (auto simp: select_where_def find_None_iff)

lemma select_where_Nil [simp]: "select_where P [] = None"
  by (simp add: select_where_def)

lemma select_where_Cons [simp]:
  "select_where P (r # rows) = (if P r then Some r else select_where P rows)"
  by (simp add: select_where_def)

lemma select_where_append [table_simps]:
  "select_where P (xs @ ys) = (case select_where P xs of None \<Rightarrow> select_where P ys | Some r \<Rightarrow> Some r)"
  by (induction xs) auto

lemma select_key_unique:
  assumes "unique_on key rows" and "r \<in> set rows"
  shows "select_key key (key r) rows = Some r"
  using assms
  by (induction rows) (auto simp: unique_on_def)

lemma select_key_append_single:
  "key r \<notin> key ` set rows \<Longrightarrow>
     select_key key k (rows @ [r]) = (if k = key r then Some r else select_key key k rows)"
  by (induction rows) auto

lemma select_key_iff:
  "unique_on key rows \<Longrightarrow> select_key key k rows = Some r \<longleftrightarrow> r \<in> set rows \<and> key r = k"
  using select_key_unique select_where_Some by fastforce

lemma unique_on_inj:
  "unique_on key rows \<Longrightarrow> r \<in> set rows \<Longrightarrow> s \<in> set rows \<Longrightarrow> key r = key s \<Longrightarrow> r = s"
  by (metis option.inject select_key_unique)

lemma unique_same_keys_length:
  assumes "unique_on f xs" and "unique_on g ys" and "f ` set xs = g ` set ys"
  shows "length xs = length ys"
proof -
  have "card (set (map f xs)) = length (map f xs)" "card (set (map g ys)) = length (map g ys)"
    using assms(1,2) by (simp_all only: unique_on_def distinct_card)
  then show ?thesis using assms(3) by simp
qed

lemma unique_on_Nil [simp]: "unique_on key []"
  by (simp add: unique_on_def)

lemma unique_on_append_single [table_simps]:
  "unique_on key (rows @ [r]) \<longleftrightarrow> unique_on key rows \<and> key r \<notin> key ` set rows"
  by (auto simp: unique_on_def)

lemma set_update_where [table_simps]:
  "set (update_where P f rows) = (\<lambda>r. if P r then f r else r) ` set rows"
  by (simp add: update_where_def)

lemma update_where_member:
  "r \<in> set (update_where P f rows) \<Longrightarrow> \<exists>q \<in> set rows. r = (if P q then f q else q)"
  by (auto simp: update_where_def)

lemma set_delete_where [table_simps]:
  "set (delete_where P rows) = {r \<in> set rows. \<not> P r}"
  by (auto simp: delete_where_def)

lemma update_where_Nil [simp]: "update_where P f [] = []"
  by (simp add: update_where_def)

lemma update_where_Cons [simp]:
  "update_where P f (r # rows) = (if P r then f r else r) # update_where P f rows"
  by (simp add: update_where_def)

lemma delete_where_Nil [simp]: "delete_where P [] = []"
  by (simp add: delete_where_def)

lemma delete_where_Cons [simp]:
  "delete_where P (r # rows) = (if P r then delete_where P rows else r # delete_where P rows)"
  by (simp add: delete_where_def)

lemma length_update_where [simp]: "length (update_where P f rows) = length rows"
  by (simp add: update_where_def)

lemma map_key_update_where:
  assumes "\<And>r. key (f r) = key r"
  shows "map key (update_where P f rows) = map key rows"
  using assms by (simp add: update_where_def)

lemma unique_on_update_where:
  assumes "\<And>r. key (f r) = key r" and "unique_on key rows"
  shows "unique_on key (update_where P f rows)"
  using assms by (simp add: unique_on_def map_key_update_where)

lemma unique_on_filter: "unique_on key rows \<Longrightarrow> unique_on key (filter P rows)"
  by (simp add: unique_on_def distinct_map_filter)

lemma count_where_other:
  assumes "unique_on key rows" and "1 < count_where P rows"
  shows "\<exists>r \<in> set rows. P r \<and> key r \<noteq> k"
proof (rule ccontr)
  assume "\<not> ?thesis"
  then have "\<forall>r \<in> set (filter P rows). key r = k" by auto
  moreover have "distinct (map key (filter P rows))"
    using assms(1) unique_on_filter by (auto simp: unique_on_def)
  ultimately have "length (filter P rows) \<le> 1"
    by (cases "filter P rows"; cases "tl (filter P rows)") auto
  with assms(2) show False by (simp add: count_where_def)
qed

lemma unique_on_sort_key [table_simps]: "unique_on key (sort_key f rows) = unique_on key rows"
  by (simp add: unique_on_def distinct_map)

lemma unique_on_delete_where: "unique_on key rows \<Longrightarrow> unique_on key (delete_where P rows)"
  by (simp add: delete_where_def unique_on_filter)

lemma image_key_update_where:
  assumes "\<And>r. key (f r) = key r"
  shows "key ` set (update_where P f rows) = key ` set rows"
proof -
  have "set (map key (update_where P f rows)) = set (map key rows)"
    using map_key_update_where [of key f P rows] assms by simp
  then show ?thesis by simp
qed

lemma select_key_update_where:
  assumes "\<And>r. key (f r) = key r" and "unique_on key rows"
  shows "select_key key k (update_where P f rows) =
    map_option (\<lambda>r. if P r then f r else r) (select_key key k rows)"
  using assms by (induction rows) (auto simp: unique_on_def)

lemma select_where_cong:
  "(\<And>r. r \<in> set rows \<Longrightarrow> P r = Q r) \<Longrightarrow> select_where P rows = select_where Q rows"
  by (induction rows) auto

section \<open>Bounded retention\<close>

text \<open>
  \<open>DELETE \<dots> WHERE key IN (SELECT key \<dots> ORDER BY m DESC LIMIT -1 OFFSET n)\<close>
  keeps the \<open>n\<close> rows that come first when the table is sorted by \<open>m\<close>, largest
  first. Rows with equal \<open>m\<close> are ordered as they were inserted.
\<close>

definition newest_first :: "('r \<Rightarrow> 'm::linorder) \<Rightarrow> 'r list \<Rightarrow> 'r list" where
  "newest_first m rows = rev (sort_key m (rev rows))"

definition keep_newest :: "nat \<Rightarrow> ('r \<Rightarrow> 'm::linorder) \<Rightarrow> ('r \<Rightarrow> 'k) \<Rightarrow> 'r list \<Rightarrow> 'r list" where
  "keep_newest n m key rows =
     (let old = map key (drop n (newest_first m rows))
      in delete_where (\<lambda>r. key r \<in> set old) rows)"

lemma set_newest_first [simp]: "set (newest_first m rows) = set rows"
  by (simp add: newest_first_def)

lemma length_newest_first [simp]: "length (newest_first m rows) = length rows"
  by (simp add: newest_first_def)

lemma distinct_map_newest_first:
  "distinct (map key (newest_first m rows)) = distinct (map key rows)"
proof -
  have "distinct (map key (newest_first m rows)) = distinct (map key (sort_key m (rev rows)))"
    by (simp add: newest_first_def rev_map [symmetric])
  also have "\<dots> = distinct (map key (rev rows))"
    by (metis distinct_map distinct_sort set_sort)
  finally show ?thesis by (simp add: rev_map [symmetric])
qed

lemma keep_newest_unique:
  "unique_on key rows \<Longrightarrow> unique_on key (keep_newest n m key rows)"
  by (simp add: keep_newest_def Let_def unique_on_delete_where)

lemma keep_newest_subset: "set (keep_newest n m key rows) \<subseteq> set rows"
  by (auto simp: keep_newest_def Let_def set_delete_where)

lemma keep_newest_small: "length rows \<le> n \<Longrightarrow> keep_newest n m key rows = rows"
  by (simp add: keep_newest_def delete_where_def)

lemma keep_newest_set:
  assumes "unique_on key rows"
  shows "set (keep_newest n m key rows) = set (take n (newest_first m rows))"
proof -
  let ?s = "newest_first m rows"
  have d: "distinct (map key (take n ?s @ drop n ?s))"
    using assms by (simp add: unique_on_def distinct_map_newest_first)
  then have disj: "key ` set (take n ?s) \<inter> key ` set (drop n ?s) = {}"
    by (simp only: map_append distinct_append set_map)
  have all: "set rows = set (take n ?s) \<union> set (drop n ?s)"
    by (metis append_take_drop_id set_append set_newest_first)
  show ?thesis
    using disj by (fastforce simp: keep_newest_def Let_def set_delete_where all)
qed

lemma keep_newest_length:
  assumes "unique_on key rows"
  shows "length (keep_newest n m key rows) \<le> n"
proof -
  have "distinct (keep_newest n m key rows)"
    using keep_newest_unique [OF assms, of n m] by (simp add: unique_on_def distinct_map)
  then have "length (keep_newest n m key rows) = card (set (keep_newest n m key rows))"
    by (simp add: distinct_card)
  also have "\<dots> = card (set (take n (newest_first m rows)))"
    by (simp add: keep_newest_set [OF assms])
  also have "\<dots> \<le> n"
    by (rule order_trans [OF card_length]) simp
  finally show ?thesis .
qed

lemma newest_first_hd:
  assumes "rows \<noteq> []" and "r \<in> set rows"
  shows "m r \<le> m (hd (newest_first m rows))"
proof -
  have ne: "sort_key m (rev rows) \<noteq> []" using assms(1) by (metis length_0_conv length_rev length_sort)
  have "r \<in> set (sort_key m (rev rows))" using assms(2) by simp
  then obtain i where i: "i < length (sort_key m (rev rows))" "sort_key m (rev rows) ! i = r"
    by (meson in_set_conv_nth)
  have "m (sort_key m (rev rows) ! i) \<le> m (sort_key m (rev rows) ! (length (sort_key m (rev rows)) - 1))"
    using sorted_nth_mono [OF sorted_sort_key [of m "rev rows"], of i "length (sort_key m (rev rows)) - 1"] i
    by simp
  then show ?thesis using i ne by (simp add: newest_first_def hd_rev last_conv_nth)
qed

lemma keep_newest_max:
  assumes "unique_on m rows" and "r \<in> set rows" and "\<forall>q \<in> set rows. m q \<le> m r" and "0 < n"
  shows "r \<in> set (keep_newest n m m rows)"
proof -
  let ?h = "hd (newest_first m rows)"
  have ne: "newest_first m rows \<noteq> []" using assms(2) by (metis list.set(1) empty_iff set_newest_first)
  then have h: "?h \<in> set rows" by (metis hd_in_set set_newest_first)
  have "m r \<le> m ?h" using newest_first_hd [of rows r m] assms(2) by fastforce
  then have "m ?h = m r" using assms(3) h by fastforce
  then have "?h = r" using unique_on_inj [OF assms(1) h assms(2)] by simp
  moreover have "?h \<in> set (take n (newest_first m rows))"
    using ne assms(4) by (cases "newest_first m rows"; cases n) auto
  ultimately show ?thesis by (simp add: keep_newest_set [OF assms(1)])
qed

lemma sort_key_append_max:
  assumes "\<And>y. y \<in> set xs \<Longrightarrow> f y \<le> f x"
  shows "sort_key f (xs @ [x]) = sort_key f xs @ [x]"
proof -
  have insort: "f y \<le> f x \<Longrightarrow> insort_key f y (zs @ [x]) = insort_key f y zs @ [x]" for y zs
    by (induction zs) auto
  show ?thesis using assms by (induction xs) (simp_all add: insort)
qed

section \<open>Integer ranges\<close>

abbreviation between :: "int \<Rightarrow> int \<Rightarrow> int \<Rightarrow> bool" where
  "between lo hi x \<equiv> lo \<le> x \<and> x \<le> hi"

text \<open>\<open>Revision\<close> and \<open>TimestampMs\<close> of the contracts.\<close>

definition is_revision :: "int \<Rightarrow> bool" where
  "is_revision r = between 1 (2 ^ 63 - 1) r"

definition is_timestamp :: "int \<Rightarrow> bool" where
  "is_timestamp t = between 0 (2 ^ 63 - 1) t"

lemma is_revision_code [code]: "is_revision r = between 1 9223372036854775807 r"
  by (simp add: is_revision_def)

lemma is_timestamp_code [code]: "is_timestamp t = between 0 9223372036854775807 t"
  by (simp add: is_timestamp_def)

section \<open>Strings\<close>

text \<open>\<open>str.lower()\<close> on the ASCII alphabet that the user-name contract admits.\<close>

definition ascii_lower :: "char \<Rightarrow> char" where
  "ascii_lower c =
     (let n = of_char c :: nat in if 65 \<le> n \<and> n \<le> 90 then char_of (n + 32) else c)"

definition lower :: "string \<Rightarrow> string" where
  "lower s = map ascii_lower s"

lemma ascii_lower_idem [simp]: "ascii_lower (ascii_lower c) = ascii_lower c"
  by (auto simp: ascii_lower_def Let_def)

lemma lower_idem [simp]: "lower (lower s) = lower s"
  by (simp add: lower_def)

text \<open>\<open>any(ord(char) < 32 or ord(char) == 127 for char in value)\<close>\<close>

definition has_control :: "string \<Rightarrow> bool" where
  "has_control s = list_ex (\<lambda>c. (of_char c :: nat) < 32 \<or> (of_char c :: nat) = 127) s"

text \<open>\<open>value.encode("ascii")\<close> raises on any other character.\<close>

definition is_ascii :: "string \<Rightarrow> bool" where
  "is_ascii s = list_all (\<lambda>c. (of_char c :: nat) < 128) s"

definition lower_hex :: "char \<Rightarrow> bool" where
  "lower_hex c = (let n = of_char c :: nat in (48 \<le> n \<and> n \<le> 57) \<or> (97 \<le> n \<and> n \<le> 102))"

text \<open>The same on the bits of the character, which is what evaluation uses.\<close>

lemma lower_hex_bits [code]:
  "lower_hex (Char b0 b1 b2 b3 b4 b5 b6 b7) =
     (\<not> b7 \<and> b5 \<and> b4 \<and> \<not> b6 \<and> (\<not> b3 \<or> \<not> b2 \<and> \<not> b1) \<or>
      \<not> b7 \<and> b5 \<and> \<not> b4 \<and> b6 \<and> \<not> b3 \<and> (b0 \<or> b1 \<or> b2) \<and> (\<not> b0 \<or> \<not> b1 \<or> \<not> b2))"
  by (cases b0; cases b1; cases b2; cases b3; cases b4; cases b5; cases b6; cases b7)
    (simp_all add: lower_hex_def)

text \<open>\<open>[0-9a-f]{32}\<close>, the form of every identity, and \<open>[0-9a-f]{64}\<close>, of every digest.\<close>

definition is_identity :: "string \<Rightarrow> bool" where
  "is_identity s = (length s = 32 \<and> list_all lower_hex s)"

definition is_snapshot :: "string \<Rightarrow> bool" where
  "is_snapshot s = (length s = 64 \<and> list_all lower_hex s)"

text \<open>\<open>str.isalnum\<close> and \<open>str.strip\<close> on the 256 characters of \<open>string\<close>, and the
  identifier syntax several services share: 1 to 128 characters, alphanumeric or one of
  \<open>-_.:\<close>.\<close>

definition char_isalnum :: "char \<Rightarrow> bool" where
  "char_isalnum c = (let n = of_char c :: nat in
     (48 \<le> n \<and> n \<le> 57) \<or> (65 \<le> n \<and> n \<le> 90) \<or> (97 \<le> n \<and> n \<le> 122) \<or>
     n = 170 \<or> n = 178 \<or> n = 179 \<or> n = 181 \<or> n = 185 \<or> n = 186 \<or> (188 \<le> n \<and> n \<le> 190) \<or>
     (192 \<le> n \<and> n \<noteq> 215 \<and> n \<noteq> 247))"

definition char_isspace :: "char \<Rightarrow> bool" where
  "char_isspace c = (let n = of_char c :: nat in
     (9 \<le> n \<and> n \<le> 13) \<or> (28 \<le> n \<and> n \<le> 32) \<or> n = 133 \<or> n = 160)"

definition py_strip :: "string \<Rightarrow> string" where
  "py_strip s = rev (dropWhile char_isspace (rev (dropWhile char_isspace s)))"

definition is_identifier :: "string \<Rightarrow> bool" where
  "is_identifier s = (1 \<le> length s \<and> length s \<le> 128 \<and>
     list_all (\<lambda>c. char_isalnum c \<or> c \<in> set ''-_.:'') s)"

text \<open>A dictionary of 1 to 32 identities, and one built from a list of that length.\<close>

definition revision_dict :: "('v \<Rightarrow> bool) \<Rightarrow> (string \<times> 'v) list \<Rightarrow> bool" where
  "revision_dict ok d =
     (1 \<le> length d \<and> length d \<le> 32 \<and> list_all (\<lambda>(k, v). is_identity k \<and> ok v) d)"

lemma revision_dict_map:
  assumes "1 \<le> length xs" "length xs \<le> 32" "\<forall>x \<in> set xs. is_identity (k x) \<and> ok (v x)"
  shows "revision_dict ok (map (\<lambda>x. (k x, v x)) xs)"
  using assms by (simp add: revision_dict_def list_all_iff)

lemma update_fresh: "k \<notin> fst ` set al \<Longrightarrow> AList.update k v al = al @ [(k, v)]"
  by (induction al) auto

lemma take_snapshot: "is_snapshot h \<Longrightarrow> is_identity (take 32 h)"
  by (auto simp: is_snapshot_def is_identity_def list_all_iff dest: in_set_takeD)

text \<open>Identities for the concrete instances that witness the theorems.\<close>

definition id_of :: "char \<Rightarrow> string" where "id_of c = replicate 32 c"
definition digest_of :: "char \<Rightarrow> string" where "digest_of c = replicate 64 c"

end
