(* ===== verification/Auth_Sessions.thy ===== *)
theory Auth_Sessions
  imports Larenor_Prelude
begin

text \<open>
  Accounts and sessions: the schema of \<open>server/larenor_server/database.py\<close> and the whole
  of \<open>server/larenor_server/auth.py\<close>. A database is a record of tables; each statement of
  the source that changes a table is a function on the record, and the primary key, unique
  and foreign key constraints of the schema are checked where SQLite checks them.

  What is not under the sources is a parameter: the Argon2 verifier and hasher, SHA-256
  and HMAC, the random identifiers and tokens, and the clock. The clock is a separate
  argument for each time the source reads it, so time may advance between two reads. Where
  the source leaves the database between a read and its transaction, an argument
  \<open>interfere\<close> stands for what other requests committed in between.
\<close>

section \<open>The schema\<close>

datatype role = Admin | Member

record user_row =
  u_id :: string
  u_username :: string
  u_role :: role
  u_password_hash :: string
  u_must_change_password :: bool
  u_created_at :: time
  u_disabled :: bool
  u_revision :: int

record family_row =
  f_id :: string
  f_user_id :: string
  f_device_name :: string
  f_created_at :: time
  f_expires_at :: time
  f_revoked_at :: "time option"

record token_row =
  t_id :: string
  t_family_id :: string
  t_access_hash :: string
  t_refresh_hash :: string
  t_access_expires_at :: time
  t_refresh_expires_at :: time
  t_created_at :: time
  t_rotated_at :: "time option"

record rate_row =
  rl_key :: string
  rl_window :: int
  rl_count :: int
  rl_touched_at :: time

record vault_row =
  v_user_id :: string
  v_revision :: int
  v_nonce :: string
  v_ciphertext :: string
  v_updated_at :: time

datatype audit_object = UserObject | SessionObject
datatype audit_status = Success | Denied

record audit_row =
  a_id :: int
  a_event :: string
  a_action :: string
  a_object :: audit_object
  a_status :: audit_status
  a_timestamp :: time
  a_actor_id :: string
  a_target_id :: "string option"

record db =
  users :: "user_row list"
  session_families :: "family_row list"
  session_tokens :: "token_row list"
  rate_limits :: "rate_row list"
  vaults :: "vault_row list"
  admin_audit :: "audit_row list"
  audit_sequence :: int

text \<open>\<open>INSERT\<close> under the schema's constraints. \<open>users.id\<close> and \<open>users.username\<close>
  are unique and revisions are positive; a family belongs to a user, a token to a family,
  and both token digests are unique.\<close>

definition insert_user :: "user_row \<Rightarrow> db \<Rightarrow> db result" where
  "insert_user u s =
     (if u_id u \<in> u_id ` set (users s) \<or> u_username u \<in> u_username ` set (users s)
         \<or> u_revision u \<le> 0
      then Inl IntegrityError
      else Inr (s\<lparr>users := users s @ [u]\<rparr>))"

definition insert_family :: "family_row \<Rightarrow> db \<Rightarrow> db result" where
  "insert_family f s =
     (if f_id f \<in> f_id ` set (session_families s) \<or> f_user_id f \<notin> u_id ` set (users s)
      then Inl IntegrityError
      else Inr (s\<lparr>session_families := session_families s @ [f]\<rparr>))"

definition insert_token :: "token_row \<Rightarrow> db \<Rightarrow> db result" where
  "insert_token t s =
     (if t_id t \<in> t_id ` set (session_tokens s)
         \<or> t_access_hash t \<in> t_access_hash ` set (session_tokens s)
         \<or> t_refresh_hash t \<in> t_refresh_hash ` set (session_tokens s)
         \<or> t_family_id t \<notin> f_id ` set (session_families s)
      then Inl IntegrityError
      else Inr (s\<lparr>session_tokens := session_tokens s @ [t]\<rparr>))"

text \<open>\<open>DELETE FROM session_families WHERE id = ?\<close> is refused while a token refers to it.\<close>

definition delete_family :: "string \<Rightarrow> db \<Rightarrow> db result" where
  "delete_family fid s =
     (if fid \<in> t_family_id ` set (session_tokens s) then Inl IntegrityError
      else Inr (s\<lparr>session_families := delete_where (\<lambda>f. f_id f = fid) (session_families s)\<rparr>))"

definition delete_family_tokens :: "string \<Rightarrow> db \<Rightarrow> db" where
  "delete_family_tokens fid s =
     s\<lparr>session_tokens := delete_where (\<lambda>t. t_family_id t = fid) (session_tokens s)\<rparr>"

definition update_users :: "(user_row \<Rightarrow> bool) \<Rightarrow> (user_row \<Rightarrow> user_row) \<Rightarrow> db \<Rightarrow> db" where
  "update_users P f s = s\<lparr>users := update_where P f (users s)\<rparr>"

definition revoke_where :: "(family_row \<Rightarrow> bool) \<Rightarrow> time \<Rightarrow> db \<Rightarrow> db" where
  "revoke_where P now s =
     s\<lparr>session_families := update_where P (\<lambda>f. f\<lparr>f_revoked_at := Some now\<rparr>) (session_families s)\<rparr>"

definition rotate_token :: "string \<Rightarrow> time \<Rightarrow> db \<Rightarrow> db" where
  "rotate_token tid now s =
     s\<lparr>session_tokens := update_where (\<lambda>t. t_id t = tid) (\<lambda>t. t\<lparr>t_rotated_at := Some now\<rparr>)
        (session_tokens s)\<rparr>"

section \<open>Parameters of the service\<close>

record settings =
  access_ttl_seconds :: int
  refresh_ttl_seconds :: int
  login_ip_limit :: int
  login_account_limit :: int
  login_global_limit :: int

text \<open>
  \<open>token_digest\<close> is the SHA-256 of \<open>token_hash\<close>, \<open>rate_digest\<close> the keyed HMAC of
  \<open>rate:category:identifier\<close>, \<open>verify_hash\<close> Argon2's \<open>verify\<close> with its
  exceptions as \<open>False\<close>, \<open>encode_hash\<close> a salted Argon2 hash (the salt is the first
  argument) and \<open>needs_rehash\<close> Argon2's \<open>check_needs_rehash\<close>.
\<close>

record crypto =
  token_digest :: "string \<Rightarrow> string"
  rate_digest :: "string \<Rightarrow> string \<Rightarrow> string"
  verify_hash :: "string \<Rightarrow> string \<Rightarrow> bool"
  encode_hash :: "string \<Rightarrow> string \<Rightarrow> string"
  needs_rehash :: "string \<Rightarrow> bool"
  dummy_hash :: string

text \<open>The random values one session issue draws.\<close>

record fresh =
  new_family_id :: string
  new_token_id :: string
  new_access :: string
  new_refresh :: string

record principal =
  p_id :: string
  p_username :: string
  p_role :: role
  p_must_change_password :: bool
  p_family_id :: string
  p_token_id :: string

record public_user =
  pu_id :: string
  pu_username :: string
  pu_role :: role
  pu_must_change_password :: bool

record session_pair =
  sp_access_token :: string
  sp_refresh_token :: string
  sp_expires_in :: int
  sp_session_family_id :: string
  sp_user :: public_user

definition principal_public_user :: "principal \<Rightarrow> public_user" where
  "principal_public_user p =
     \<lparr>pu_id = p_id p, pu_username = p_username p, pu_role = p_role p,
      pu_must_change_password = p_must_change_password p\<rparr>"

abbreviation rate_limited :: error where "rate_limited \<equiv> ApiError ''rate_limited'' 429"
abbreviation invalid_credentials :: error where
  "invalid_credentials \<equiv> ApiError ''invalid_credentials'' 401"
abbreviation invalid_session :: error where "invalid_session \<equiv> ApiError ''invalid_session'' 401"
abbreviation password_change_required :: error where
  "password_change_required \<equiv> ApiError ''password_change_required'' 403"

section \<open>Passwords\<close>

text \<open>Two bounded slots guard the expensive hash; \<open>slots\<close> is how many are free when the
  call asks without blocking. The slot is released on every path.\<close>

definition verify_password :: "crypto \<Rightarrow> nat \<Rightarrow> string \<Rightarrow> string \<Rightarrow> bool result" where
  "verify_password c slots encoded password =
     (if slots = 0 then Inl rate_limited else Inr (verify_hash c encoded password))"

definition hash_password :: "crypto \<Rightarrow> nat \<Rightarrow> string \<Rightarrow> string \<Rightarrow> string result" where
  "hash_password c slots salt password =
     (if slots = 0 then Inl rate_limited else Inr (encode_hash c salt password))"

section \<open>Rate limits\<close>

definition MAX_RATE_ROWS :: nat where "MAX_RATE_ROWS = 10000"

definition rate_window :: "time \<Rightarrow> int \<Rightarrow> int" where
  "rate_window now seconds = \<lfloor>now / of_int seconds\<rfloor>"

definition rate_upsert :: "rate_row \<Rightarrow> rate_row list \<Rightarrow> rate_row list" where
  "rate_upsert r rows =
     (if rl_key r \<in> rl_key ` set rows then update_where (\<lambda>q. rl_key q = rl_key r) (\<lambda>_. r) rows
      else rows @ [r])"

definition rate_count :: "rate_row list \<Rightarrow> string \<Rightarrow> int \<Rightarrow> int" where
  "rate_count rows key window =
     (case select_key rl_key key rows of
        Some old \<Rightarrow> if rl_window old = window then rl_count old + 1 else 1
      | None \<Rightarrow> 1)"

fun rate_loop :: "crypto \<Rightarrow> time \<Rightarrow> int \<Rightarrow> (string \<times> string \<times> int) list
    \<Rightarrow> rate_row list \<times> bool \<Rightarrow> rate_row list \<times> bool" where
  "rate_loop c now window [] st = st"
| "rate_loop c now window ((category, identifier, limit) # cs) (rows, denied) =
     (let digest = rate_digest c category identifier;
          count = rate_count rows digest window
      in rate_loop c now window cs
           (rate_upsert \<lparr>rl_key = digest, rl_window = window, rl_count = count,
                         rl_touched_at = now\<rparr> rows,
            denied \<or> count > limit))"

definition rate_limit :: "crypto \<Rightarrow> time \<Rightarrow> int \<Rightarrow> (string \<times> string \<times> int) list
    \<Rightarrow> db \<Rightarrow> unit result \<times> db" where
  "rate_limit c now seconds categories s =
     (let rows = delete_where (\<lambda>r. rl_touched_at r < now - 3600) (rate_limits s);
          (rows, denied) = rate_loop c now (rate_window now seconds) categories (rows, False);
          rows = keep_newest MAX_RATE_ROWS rl_touched_at rl_key rows
      in (if denied then Inl rate_limited else Inr (), s\<lparr>rate_limits := rows\<rparr>))"

section \<open>Issuing sessions\<close>

text \<open>\<open>int(x)\<close> truncates towards zero.\<close>

definition py_int :: "rat \<Rightarrow> int" where
  "py_int x = (if 0 \<le> x then \<lfloor>x\<rfloor> else \<lceil>x\<rceil>)"

definition session_ttl :: "settings \<Rightarrow> time \<Rightarrow> time \<Rightarrow> int" where
  "session_ttl st now expires_at =
     max 1 (py_int (min (of_int (access_ttl_seconds st)) (expires_at - now)))"

definition public_of :: "user_row \<Rightarrow> public_user" where
  "public_of u = \<lparr>pu_id = u_id u, pu_username = u_username u, pu_role = u_role u,
     pu_must_change_password = u_must_change_password u\<rparr>"

definition issue :: "settings \<Rightarrow> crypto \<Rightarrow> fresh \<Rightarrow> time \<Rightarrow> user_row \<Rightarrow> string \<Rightarrow> time
    \<Rightarrow> (db, session_pair) tx" where
  "issue st c fr now user family_id expires_at s =
     (let ttl = session_ttl st now expires_at;
          row = \<lparr>t_id = new_token_id fr, t_family_id = family_id,
                 t_access_hash = token_digest c (new_access fr),
                 t_refresh_hash = token_digest c (new_refresh fr),
                 t_access_expires_at = now + of_int ttl,
                 t_refresh_expires_at = expires_at,
                 t_created_at = now, t_rotated_at = None\<rparr>
      in bind_res (insert_token row s) (\<lambda>s'.
           Inr (\<lparr>sp_access_token = new_access fr, sp_refresh_token = new_refresh fr,
                 sp_expires_in = ttl, sp_session_family_id = family_id,
                 sp_user = public_of user\<rparr>, s')))"

definition FAMILY_LIMIT :: nat where "FAMILY_LIMIT = 31"

definition user_families :: "string \<Rightarrow> db \<Rightarrow> family_row list" where
  "user_families uid s =
     newest_first f_created_at (filter (\<lambda>f. f_user_id f = uid) (session_families s))"

definition drop_family :: "family_row \<Rightarrow> db \<Rightarrow> db result" where
  "drop_family f s = delete_family (f_id f) (delete_family_tokens (f_id f) s)"

definition new_family :: "settings \<Rightarrow> crypto \<Rightarrow> fresh \<Rightarrow> time \<Rightarrow> time \<Rightarrow> user_row \<Rightarrow> string
    \<Rightarrow> (db, session_pair) tx" where
  "new_family st c fr now now2 user device s =
     bind_res (fold_res drop_family (drop FAMILY_LIMIT (user_families (u_id user) s)) s) (\<lambda>s1.
       let expires_at = now + of_int (refresh_ttl_seconds st);
           row = \<lparr>f_id = new_family_id fr, f_user_id = u_id user, f_device_name = device,
                  f_created_at = now, f_expires_at = expires_at, f_revoked_at = None\<rparr>
       in bind_res (insert_family row s1) (\<lambda>s2.
            issue st c fr now2 user (new_family_id fr) expires_at s2))"

section \<open>Login\<close>

definition login_commit :: "settings \<Rightarrow> crypto \<Rightarrow> fresh \<Rightarrow> time \<Rightarrow> time \<Rightarrow> string \<Rightarrow> string
    \<Rightarrow> string option \<Rightarrow> string \<Rightarrow> (db, session_pair) tx" where
  "login_commit st c fr now now2 uid old_hash replacement device s =
     (case select_key u_id uid (users s) of
        None \<Rightarrow> Inl invalid_credentials
      | Some current \<Rightarrow>
          if u_disabled current \<or> u_password_hash current \<noteq> old_hash
          then Inl invalid_credentials
          else let s' = (case replacement of
                            None \<Rightarrow> s
                          | Some h \<Rightarrow> update_users (\<lambda>u. u_id u = u_id current)
                                       (\<lambda>u. u\<lparr>u_password_hash := h\<rparr>) s)
               in new_family st c fr now now2 current device s')"

definition login :: "settings \<Rightarrow> crypto \<Rightarrow> fresh \<Rightarrow> string \<Rightarrow> nat \<Rightarrow> nat \<Rightarrow> time \<Rightarrow> time \<Rightarrow> time
    \<Rightarrow> (db \<Rightarrow> db) \<Rightarrow> string \<Rightarrow> string \<Rightarrow> string \<Rightarrow> string \<Rightarrow> db \<Rightarrow> session_pair result \<times> db" where
  "login st c fr salt slots slots2 now0 now1 now2 interfere username0 password device peer s0 =
     (let username = lower username0 in
      case rate_limit c now0 60
             [(''login_ip'', peer, login_ip_limit st),
              (''login_account'', username, login_account_limit st),
              (''login_global'', ''all'', login_global_limit st)] s0 of
        (Inl e, s) \<Rightarrow> (Inl e, s)
      | (Inr _, s) \<Rightarrow>
         (let user = select_where (\<lambda>u. u_username u = username) (users s);
              old_hash = (case user of Some u \<Rightarrow> u_password_hash u | None \<Rightarrow> dummy_hash c)
          in case verify_password c slots old_hash password of
               Inl e \<Rightarrow> (Inl e, s)
             | Inr verified \<Rightarrow>
               (case user of
                  None \<Rightarrow> (Inl invalid_credentials, s)
                | Some u \<Rightarrow>
                  if \<not> verified \<or> u_disabled u then (Inl invalid_credentials, s)
                  else (case (if needs_rehash c old_hash
                              then map_sum id Some (hash_password c slots2 salt password)
                              else Inr None) of
                          Inl e \<Rightarrow> (Inl e, s)
                        | Inr replacement \<Rightarrow>
                            transaction
                              (login_commit st c fr now1 now2 (u_id u) old_hash replacement device)
                              (interfere s)))))"

section \<open>Looking tokens up\<close>

text \<open>The joined row of \<open>_lookup\<close>: a token, its family and the family's user.\<close>

definition lookup_token :: "(token_row \<Rightarrow> bool) \<Rightarrow> db
    \<Rightarrow> (token_row \<times> family_row \<times> user_row) option" where
  "lookup_token P s =
     (case select_where P (session_tokens s) of
        None \<Rightarrow> None
      | Some t \<Rightarrow>
         (case select_key f_id (t_family_id t) (session_families s) of
            None \<Rightarrow> None
          | Some f \<Rightarrow>
             (case select_key u_id (f_user_id f) (users s) of
                None \<Rightarrow> None
              | Some u \<Rightarrow> Some (t, f, u))))"

definition lookup_access :: "string \<Rightarrow> db \<Rightarrow> (token_row \<times> family_row \<times> user_row) option" where
  "lookup_access digest s = lookup_token (\<lambda>t. t_access_hash t = digest) s"

definition lookup_refresh :: "string \<Rightarrow> db \<Rightarrow> (token_row \<times> family_row \<times> user_row) option" where
  "lookup_refresh digest s = lookup_token (\<lambda>t. t_refresh_hash t = digest) s"

definition session_open :: "time \<Rightarrow> token_row \<Rightarrow> family_row \<Rightarrow> user_row \<Rightarrow> bool" where
  "session_open now t f u =
     (\<not> (u_disabled u \<or> f_revoked_at f \<noteq> None \<or> t_rotated_at t \<noteq> None
         \<or> now \<ge> t_access_expires_at t \<or> now \<ge> f_expires_at f))"

definition authenticate :: "crypto \<Rightarrow> time \<Rightarrow> string \<Rightarrow> db \<Rightarrow> principal result" where
  "authenticate c now access s =
     (if \<not> is_ascii access then Inl invalid_session else
      case lookup_access (token_digest c access) s of
        None \<Rightarrow> Inl invalid_session
      | Some (t, f, u) \<Rightarrow>
          if \<not> session_open now t f u then Inl invalid_session
          else Inr \<lparr>p_id = f_user_id f, p_username = u_username u, p_role = u_role u,
                    p_must_change_password = u_must_change_password u,
                    p_family_id = t_family_id t, p_token_id = t_id t\<rparr>)"

definition assert_current :: "time \<Rightarrow> principal \<Rightarrow> db \<Rightarrow> unit result" where
  "assert_current now p s =
     (case lookup_token (\<lambda>t. t_id t = p_token_id p) s of
        None \<Rightarrow> Inl invalid_session
      | Some (t, f, u) \<Rightarrow>
          if f_id f \<noteq> p_family_id p \<or> f_user_id f \<noteq> p_id p
             \<or> \<not> session_open now t f u
             \<or> u_role u \<noteq> p_role p \<or> u_must_change_password u \<noteq> p_must_change_password p
          then Inl invalid_session else Inr ())"

section \<open>Refresh, logout and password change\<close>

definition MAX_FAMILY_TOKENS :: nat where "MAX_FAMILY_TOKENS = 4096"

text \<open>The body of the transaction. Its value is \<open>None\<close> where the source sets
  \<open>invalid\<close>: the transaction still commits, and the error is raised after it.\<close>

definition refresh_body :: "settings \<Rightarrow> crypto \<Rightarrow> fresh \<Rightarrow> time \<Rightarrow> time \<Rightarrow> string
    \<Rightarrow> (db, session_pair option) tx" where
  "refresh_body st c fr now now2 digest s =
     (case lookup_refresh digest s of
        None \<Rightarrow> Inr (None, s)
      | Some (t, f, u) \<Rightarrow>
          if u_disabled u \<or> f_revoked_at f \<noteq> None then Inr (None, s)
          else if t_rotated_at t \<noteq> None
          then Inr (None, revoke_where (\<lambda>g. f_id g = t_family_id t) now s)
          else if now \<ge> t_refresh_expires_at t \<or> now \<ge> f_expires_at f
          then Inr (None, revoke_where (\<lambda>g. f_id g = t_family_id t) now s)
          else if u_must_change_password u then Inl password_change_required
          else if count_where (\<lambda>q. t_family_id q = t_family_id t) (session_tokens s)
                    \<ge> MAX_FAMILY_TOKENS
          then Inr (None, revoke_where (\<lambda>g. f_id g = t_family_id t) now s)
          else bind_res
                 (issue st c fr now2 u (t_family_id t) (f_expires_at f)
                    (rotate_token (t_id t) now s))
                 (\<lambda>(pair, s'). Inr (Some pair, s')))"

definition refresh :: "settings \<Rightarrow> crypto \<Rightarrow> fresh \<Rightarrow> time \<Rightarrow> time \<Rightarrow> time \<Rightarrow> string \<Rightarrow> string \<Rightarrow> db
    \<Rightarrow> session_pair result \<times> db" where
  "refresh st c fr now0 now1 now2 token peer s0 =
     (case rate_limit c now0 60 [(''refresh_ip'', peer, 30)] s0 of
        (Inl e, s) \<Rightarrow> (Inl e, s)
      | (Inr _, s) \<Rightarrow>
         (case transaction (refresh_body st c fr now1 now2 (token_digest c token)) s of
            (Inl e, s') \<Rightarrow> (Inl e, s')
          | (Inr None, s') \<Rightarrow> (Inl invalid_session, s')
          | (Inr (Some pair), s') \<Rightarrow> (Inr pair, s')))"

definition logout :: "time \<Rightarrow> time \<Rightarrow> principal \<Rightarrow> db \<Rightarrow> unit result \<times> db" where
  "logout now now2 p s =
     guarded (assert_current now) (\<lambda>p s.
       Inr ((), revoke_where (\<lambda>f. f_id f = p_family_id p \<and> f_user_id f = p_id p) now2 s)) p s"

definition change_password_commit :: "settings \<Rightarrow> crypto \<Rightarrow> fresh \<Rightarrow> time \<Rightarrow> time \<Rightarrow> time \<Rightarrow> time
    \<Rightarrow> principal \<Rightarrow> string \<Rightarrow> string \<Rightarrow> (db, session_pair) tx" where
  "change_password_commit st c fr now now1 now2 now3 p old_hash encoded s =
     bind_res (assert_current now p s) (\<lambda>_.
       case (select_key u_id (p_id p) (users s), select_key f_id (p_family_id p) (session_families s)) of
         (Some current, Some family) \<Rightarrow>
           if u_password_hash current \<noteq> old_hash \<or> f_revoked_at family \<noteq> None
              \<or> now1 \<ge> f_expires_at family
           then Inl invalid_session
           else
             (let s1 = update_users (\<lambda>u. u_id u = p_id p)
                         (\<lambda>u. u\<lparr>u_password_hash := encoded, u_must_change_password := False,
                                 u_revision := u_revision u + 1\<rparr>) s;
                  s2 = revoke_where (\<lambda>f. f_user_id f = p_id p) now1 s1
              in case select_key u_id (p_id p) (users s2) of
                   None \<Rightarrow> Inl IntegrityError
                 | Some updated \<Rightarrow> new_family st c fr now2 now3 updated (f_device_name family) s2)
       | _ \<Rightarrow> Inl invalid_session)"

definition change_password :: "settings \<Rightarrow> crypto \<Rightarrow> fresh \<Rightarrow> string \<Rightarrow> nat \<Rightarrow> nat
    \<Rightarrow> time \<Rightarrow> time \<Rightarrow> time \<Rightarrow> time \<Rightarrow> time \<Rightarrow> (db \<Rightarrow> db) \<Rightarrow> principal \<Rightarrow> string \<Rightarrow> string \<Rightarrow> db
    \<Rightarrow> session_pair result \<times> db" where
  "change_password st c fr salt slots slots2 now0 now1 now2 now3 now4 interfere p current_password
      new_password s0 =
     (case rate_limit c now0 60 [(''password_change'', p_id p, 5)] s0 of
        (Inl e, s) \<Rightarrow> (Inl e, s)
      | (Inr _, s) \<Rightarrow>
         (case select_key u_id (p_id p) (users s) of
            None \<Rightarrow> (Inl invalid_credentials, s)
          | Some user \<Rightarrow>
             (case verify_password c slots (u_password_hash user) current_password of
                Inl e \<Rightarrow> (Inl e, s)
              | Inr ok \<Rightarrow>
                  if \<not> ok then (Inl invalid_credentials, s)
                  else if current_password = new_password
                  then (Inl (ApiError ''password_unchanged'' 400), s)
                  else (case hash_password c slots2 salt new_password of
                          Inl e \<Rightarrow> (Inl e, s)
                        | Inr encoded \<Rightarrow>
                            transaction
                              (change_password_commit st c fr now1 now2 now3 now4 p
                                 (u_password_hash user) encoded)
                              (interfere s)))))"

section \<open>The database invariant\<close>

definition accounts_inv :: "db \<Rightarrow> bool" where
  "accounts_inv s =
     (unique_on u_id (users s) \<and> unique_on u_username (users s) \<and>
      (\<forall>u \<in> set (users s). 0 < u_revision u))"

definition sessions_inv :: "db \<Rightarrow> bool" where
  "sessions_inv s =
     (unique_on f_id (session_families s) \<and> unique_on t_id (session_tokens s) \<and>
      unique_on t_access_hash (session_tokens s) \<and> unique_on t_refresh_hash (session_tokens s) \<and>
      f_user_id ` set (session_families s) \<subseteq> u_id ` set (users s) \<and>
      t_family_id ` set (session_tokens s) \<subseteq> f_id ` set (session_families s))"

definition family_bound :: "db \<Rightarrow> bool" where
  "family_bound s = (\<forall>uid. count_where (\<lambda>f. f_user_id f = uid) (session_families s) \<le> 32)"

definition rate_inv :: "db \<Rightarrow> bool" where
  "rate_inv s = (unique_on rl_key (rate_limits s) \<and> length (rate_limits s) \<le> MAX_RATE_ROWS)"

definition vaults_inv :: "db \<Rightarrow> bool" where
  "vaults_inv s =
     (unique_on v_user_id (vaults s) \<and> v_user_id ` set (vaults s) \<subseteq> u_id ` set (users s) \<and>
      (\<forall>v \<in> set (vaults s). 0 < v_revision v))"

definition audit_inv :: "db \<Rightarrow> bool" where
  "audit_inv s =
     (unique_on a_id (admin_audit s) \<and> (\<forall>a \<in> set (admin_audit s). a_id a \<le> audit_sequence s))"

definition db_inv :: "db \<Rightarrow> bool" where
  "db_inv s = (accounts_inv s \<and> sessions_inv s \<and> family_bound s \<and> rate_inv s \<and> vaults_inv s
     \<and> audit_inv s)"

lemmas inv_defs = accounts_inv_def sessions_inv_def family_bound_def rate_inv_def vaults_inv_def
  audit_inv_def db_inv_def

lemma db_invD:
  assumes "db_inv s"
  shows "unique_on u_id (users s)" "unique_on u_username (users s)"
    "unique_on f_id (session_families s)" "unique_on t_id (session_tokens s)"
    "unique_on t_access_hash (session_tokens s)" "unique_on t_refresh_hash (session_tokens s)"
    "unique_on rl_key (rate_limits s)"
  using assms by (simp_all add: inv_defs)

subsection \<open>Each statement keeps it\<close>

lemma insert_user_inv:
  assumes "insert_user u s = Inr s'" and "db_inv s"
  shows "db_inv s'"
proof -
  have "s' = s\<lparr>users := users s @ [u]\<rparr>" "u_id u \<notin> u_id ` set (users s)"
    "u_username u \<notin> u_username ` set (users s)" "0 < u_revision u"
    using assms(1) by (auto simp: insert_user_def split: if_splits)
  with assms(2) show ?thesis
    by (simp add: inv_defs unique_on_append_single subset_insertI2)
qed

lemma insert_token_inv:
  assumes "insert_token t s = Inr s'" and "db_inv s"
  shows "db_inv s'"
proof -
  have "s' = s\<lparr>session_tokens := session_tokens s @ [t]\<rparr>" "t_id t \<notin> t_id ` set (session_tokens s)"
    "t_access_hash t \<notin> t_access_hash ` set (session_tokens s)"
    "t_refresh_hash t \<notin> t_refresh_hash ` set (session_tokens s)"
    "t_family_id t \<in> f_id ` set (session_families s)"
    using assms(1) by (auto simp: insert_token_def split: if_splits)
  with assms(2) show ?thesis
    by (simp add: inv_defs unique_on_append_single)
qed

lemma count_where_append_single [table_simps]:
  "count_where P (xs @ [x]) = count_where P xs + (if P x then 1 else 0)"
  by (simp add: count_where_def)

lemma insert_family_inv:
  assumes "insert_family f s = Inr s'" and "db_inv s"
    and "count_where (\<lambda>g. f_user_id g = f_user_id f) (session_families s) \<le> 31"
  shows "db_inv s'"
proof -
  have "s' = s\<lparr>session_families := session_families s @ [f]\<rparr>"
    "f_id f \<notin> f_id ` set (session_families s)" "f_user_id f \<in> u_id ` set (users s)"
    using assms(1) by (auto simp: insert_family_def split: if_splits)
  with assms(2,3) show ?thesis
    by (simp add: inv_defs unique_on_append_single count_where_append_single subset_insertI2)
qed

lemma count_where_delete_le: "count_where P (delete_where Q rows) \<le> count_where P rows"
  by (induction rows) (auto simp: count_where_def delete_where_def)

lemma count_where_update_same:
  assumes "\<And>r. P (f r) = P r"
  shows "count_where P (update_where Q f rows) = count_where P rows"
  using assms by (induction rows) (auto simp: count_where_def)

lemma image_delete_where_subset:
  "f ` set rows \<subseteq> A \<Longrightarrow> f ` set (delete_where P rows) \<subseteq> A"
  by (auto simp: set_delete_where)

lemma image_delete_where_eq:
  assumes "k \<notin> A" and "A \<subseteq> f ` set rows"
  shows "A \<subseteq> f ` set (delete_where (\<lambda>r. f r = k) rows)"
  using assms by (auto simp: set_delete_where image_iff subset_iff)

lemma delete_family_tokens_inv: "db_inv s \<Longrightarrow> db_inv (delete_family_tokens fid s)"
  by (simp add: delete_family_tokens_def inv_defs unique_on_delete_where image_delete_where_subset)

lemma delete_family_inv:
  assumes "delete_family fid s = Inr s'" and inv: "db_inv s"
  shows "db_inv s'"
proof -
  have fid: "fid \<notin> t_family_id ` set (session_tokens s)"
    and s': "s' = s\<lparr>session_families := delete_where (\<lambda>f. f_id f = fid) (session_families s)\<rparr>"
    using assms(1) by (auto simp: delete_family_def split: if_splits)
  have "family_bound s'"
    using inv by (auto simp: s' db_inv_def family_bound_def intro: order_trans [OF count_where_delete_le])
  with inv fid show ?thesis
    by (simp add: s' inv_defs unique_on_delete_where image_delete_where_subset image_delete_where_eq)
qed

lemma drop_family_inv: "drop_family f s = Inr s' \<Longrightarrow> db_inv s \<Longrightarrow> db_inv s'"
  by (auto simp: drop_family_def intro: delete_family_inv delete_family_tokens_inv)

lemma revoke_where_inv: "db_inv s \<Longrightarrow> db_inv (revoke_where P now s)"
  by (simp add: revoke_where_def inv_defs unique_on_update_where image_key_update_where
      count_where_update_same)

lemma rotate_token_inv: "db_inv s \<Longrightarrow> db_inv (rotate_token tid now s)"
  by (simp add: rotate_token_def inv_defs unique_on_update_where image_key_update_where)

lemma ball_update_where:
  "(\<And>r. Q r \<Longrightarrow> Q (g r)) \<Longrightarrow> \<forall>r \<in> set rows. Q r \<Longrightarrow> \<forall>r \<in> set (update_where P g rows). Q r"
  by (auto simp: update_where_def)

lemma update_users_inv:
  assumes "\<And>u. u_id (g u) = u_id u" and "\<And>u. u_username (g u) = u_username u"
    and "\<And>u. 0 < u_revision u \<Longrightarrow> 0 < u_revision (g u)" and "db_inv s"
  shows "db_inv (update_users P g s)"
proof -
  have "\<forall>u \<in> set (update_where P g (users s)). 0 < u_revision u"
    by (rule ball_update_where) (use assms in \<open>auto simp: db_inv_def accounts_inv_def\<close>)
  with assms show ?thesis
    by (simp add: update_users_def inv_defs unique_on_update_where image_key_update_where)
qed


subsection \<open>Rate limiting keeps it\<close>

lemma rate_upsert_unique: "unique_on rl_key rows \<Longrightarrow> unique_on rl_key (rate_upsert r rows)"
proof (cases "rl_key r \<in> rl_key ` set rows")
  case True
  assume u: "unique_on rl_key rows"
  have "map rl_key (update_where (\<lambda>q. rl_key q = rl_key r) (\<lambda>_. r) rows) = map rl_key rows"
    by (induction rows) auto
  with True u show ?thesis by (simp add: rate_upsert_def unique_on_def)
next
  case False
  then show "unique_on rl_key rows \<Longrightarrow> ?thesis"
    by (simp add: rate_upsert_def unique_on_append_single)
qed

lemma rate_loop_unique:
  "unique_on rl_key rows \<Longrightarrow> unique_on rl_key (fst (rate_loop c now w cs (rows, d)))"
proof (induction cs arbitrary: rows d)
  case (Cons x cs)
  then show ?case
    by (cases x) (simp add: Let_def rate_upsert_unique)
qed simp

lemma rate_limit_frame:
  assumes "rate_limit c now sec cats s = (r, s')"
  shows "s' = s\<lparr>rate_limits := rate_limits s'\<rparr>" "r = Inr () \<or> r = Inl rate_limited"
  using assms by (auto simp: rate_limit_def Let_def split: prod.splits if_splits)

lemma rate_limit_inv:
  assumes "rate_limit c now sec cats s = (r, s')" and "db_inv s"
  shows "db_inv s'"
proof -
  let ?old = "delete_where (\<lambda>r. rl_touched_at r < now - 3600) (rate_limits s)"
  let ?rows = "fst (rate_loop c now (rate_window now sec) cats (?old, False))"
  have s': "s' = s\<lparr>rate_limits := keep_newest MAX_RATE_ROWS rl_touched_at rl_key ?rows\<rparr>"
    using assms(1) by (auto simp: rate_limit_def Let_def split: prod.splits)
  have "unique_on rl_key ?rows"
    using assms(2) by (intro rate_loop_unique unique_on_delete_where db_invD)
  then show ?thesis
    using assms(2) by (simp add: s' inv_defs keep_newest_unique keep_newest_length)
qed

subsection \<open>Issuing a session keeps it\<close>

lemma issue_inv: "issue st c fr now u fid ex s = Inr (p, s') \<Longrightarrow> db_inv s \<Longrightarrow> db_inv s'"
  by (auto simp: issue_def Let_def bind_res_Inr_iff dest: insert_token_inv)

lemma drop_families_inv: "fold_res drop_family fs s = Inr s' \<Longrightarrow> db_inv s \<Longrightarrow> db_inv s'"
  by (rule fold_res_invariant [where P = db_inv]) (auto dest: drop_family_inv)

lemma drop_family_effect:
  assumes "drop_family f s = Inr s'"
  shows "session_families s' = delete_where (\<lambda>g. f_id g = f_id f) (session_families s)"
    "users s' = users s"
    "session_tokens s' = delete_where (\<lambda>t. t_family_id t = f_id f) (session_tokens s)"
  using assms
  by (auto simp: drop_family_def delete_family_def delete_family_tokens_def split: if_splits)

lemma drop_families_effect:
  assumes "fold_res drop_family fs s = Inr s'"
  shows "session_families s' = filter (\<lambda>g. f_id g \<notin> f_id ` set fs) (session_families s)"
    "users s' = users s"
    "session_tokens s' = filter (\<lambda>t. t_family_id t \<notin> f_id ` set fs) (session_tokens s)"
  using assms
  by (induction fs arbitrary: s)
    (auto simp: bind_res_Inr_iff drop_family_effect delete_where_def intro!: filter_cong)

lemma drop_families_succeed: "\<exists>s'. fold_res drop_family fs s = Inr s'"
proof (induction fs arbitrary: s)
  case (Cons f fs)
  have "\<exists>s'. drop_family f s = Inr s'"
    by (auto simp: drop_family_def delete_family_def delete_family_tokens_def set_delete_where)
  with Cons.IH show ?case by (auto simp: bind_res_Inr_iff)
qed simp

text \<open>After the oldest sessions are dropped a user has at most 31.\<close>

lemma drop_families_bound:
  assumes inv: "db_inv s"
    and "fold_res drop_family (drop FAMILY_LIMIT (user_families uid s)) s = Inr s'"
  shows "count_where (\<lambda>f. f_user_id f = uid) (session_families s') \<le> 31"
proof -
  let ?mine = "filter (\<lambda>f. f_user_id f = uid) (session_families s)"
  let ?old = "map f_id (drop 31 (newest_first f_created_at ?mine))"
  have u: "unique_on f_id ?mine" using inv by (simp add: unique_on_filter db_invD)
  have "filter (\<lambda>f. f_user_id f = uid) (session_families s')
      = keep_newest 31 f_created_at f_id ?mine"
    using drop_families_effect(1) [OF assms(2)]
    by (simp add: keep_newest_def Let_def delete_where_def user_families_def FAMILY_LIMIT_def conj_commute)
  then show ?thesis
    using keep_newest_length [OF u, of 31 f_created_at] by (simp add: count_where_def)
qed

lemma new_family_inv:
  assumes "new_family st c fr now now2 u dev s = Inr (p, s')" and inv: "db_inv s"
  shows "db_inv s'"
proof -
  obtain s1 s2 where
    s1: "fold_res drop_family (drop FAMILY_LIMIT (user_families (u_id u) s)) s = Inr s1"
    and s2: "insert_family \<lparr>f_id = new_family_id fr, f_user_id = u_id u, f_device_name = dev,
         f_created_at = now, f_expires_at = now + of_int (refresh_ttl_seconds st),
         f_revoked_at = None\<rparr> s1 = Inr s2"
    and p: "issue st c fr now2 u (new_family_id fr) (now + of_int (refresh_ttl_seconds st)) s2
         = Inr (p, s')"
    using assms(1) by (auto simp: new_family_def Let_def bind_res_Inr_iff)
  have "db_inv s1" by (rule drop_families_inv [OF s1 inv])
  then have "db_inv s2"
    using insert_family_inv [OF s2] drop_families_bound [OF inv s1] by simp
  then show ?thesis by (rule issue_inv [OF p])
qed


subsection \<open>Every operation keeps it\<close>

interpretation logout_tx: guarded_tx db_inv "assert_current now"
  "\<lambda>p s. Inr ((), revoke_where (\<lambda>f. f_id f = p_family_id p \<and> f_user_id f = p_id p) now2 s)"
  for now now2
  by unfold_locales (auto simp: revoke_where_inv)

lemma logout_inv: "db_inv s \<Longrightarrow> db_inv (snd (logout now now2 p s))"
  unfolding logout_def by (rule logout_tx.run_inv)

lemma login_commit_inv:
  assumes "login_commit st c fr now now2 uid h r dev s = Inr (p, s')" and "db_inv s"
  shows "db_inv s'"
  using assms
  by (auto simp: login_commit_def Let_def intro!: update_users_inv elim!: new_family_inv
      split: option.splits if_splits)

lemma login_inv:
  assumes "db_inv s0" and "\<And>s. db_inv s \<Longrightarrow> db_inv (interfere s)"
  shows "db_inv (snd (login st c fr salt sl sl2 n0 n1 n2 interfere name pw dev peer s0))"
proof -
  obtain r s where rl: "rate_limit c n0 60
             [(''login_ip'', peer, login_ip_limit st),
              (''login_account'', lower name, login_account_limit st),
              (''login_global'', ''all'', login_global_limit st)] s0 = (r, s)"
    by fastforce
  have s: "db_inv s" by (rule rate_limit_inv [OF rl assms(1)])
  have "db_inv (snd (transaction (login_commit st c fr n1 n2 uid h rep dev) (interfere s)))"
    for uid h rep
    by (rule transaction_preserves) (auto intro: assms(2) s login_commit_inv)
  with s show ?thesis
    by (simp add: login_def rl Let_def split: sum.split option.split)
qed

lemma refresh_body_inv:
  assumes "refresh_body st c fr now now2 d s = Inr (p, s')" and "db_inv s"
  shows "db_inv s'"
  using assms
  by (auto simp: refresh_body_def bind_res_Inr_iff revoke_where_inv
      dest: issue_inv [OF _ rotate_token_inv] split: option.splits if_splits)

lemma refresh_inv:
  assumes "db_inv s0"
  shows "db_inv (snd (refresh st c fr n0 n1 n2 tok peer s0))"
proof -
  obtain r s where rl: "rate_limit c n0 60 [(''refresh_ip'', peer, 30)] s0 = (r, s)" by fastforce
  have s: "db_inv s" by (rule rate_limit_inv [OF rl assms])
  have "db_inv (snd (transaction (refresh_body st c fr n1 n2 (token_digest c tok)) s))"
    by (rule transaction_preserves) (auto intro: s refresh_body_inv)
  with s show ?thesis
    by (auto simp: refresh_def rl split: sum.split option.split prod.splits)
qed

lemma change_password_commit_inv:
  assumes "change_password_commit st c fr now n1 n2 n3 p h enc s = Inr (q, s')" and "db_inv s"
  shows "db_inv s'"
  using assms
  by (auto simp: change_password_commit_def Let_def bind_res_Inr_iff
      intro!: update_users_inv revoke_where_inv elim!: new_family_inv
      split: option.splits if_splits)

lemma change_password_inv:
  assumes "db_inv s0" and "\<And>s. db_inv s \<Longrightarrow> db_inv (interfere s)"
  shows "db_inv (snd (change_password st c fr salt sl sl2 n0 n1 n2 n3 n4 interfere p cur new s0))"
proof -
  obtain r s where rl: "rate_limit c n0 60 [(''password_change'', p_id p, 5)] s0 = (r, s)"
    by fastforce
  have s: "db_inv s" by (rule rate_limit_inv [OF rl assms(1)])
  have "db_inv (snd (transaction (change_password_commit st c fr n1 n2 n3 n4 p h enc) (interfere s)))"
    for h enc
    by (rule transaction_preserves) (auto intro: assms(2) s change_password_commit_inv)
  with s show ?thesis
    by (simp add: change_password_def rl split: sum.split option.split)
qed


section \<open>What authentication means\<close>

lemma lookup_token_Some:
  assumes "lookup_token P s = Some (t, f, u)"
  shows "P t" "t \<in> set (session_tokens s)" "f \<in> set (session_families s)" "u \<in> set (users s)"
    "f_id f = t_family_id t" "u_id u = f_user_id f"
  using assms by (auto simp: lookup_token_def dest!: select_where_Some split: option.splits)

lemma lookup_token_intro:
  assumes "db_inv s" and "t \<in> set (session_tokens s)" and "\<And>q. q \<in> set (session_tokens s) \<Longrightarrow> P q = (q = t)"
  shows "\<exists>f u. lookup_token P s = Some (t, f, u)"
proof -
  have "select_where P (session_tokens s) = Some t"
    using assms(2,3) by (induction "session_tokens s" rule: list.induct)
      (metis (mono_tags, lifting) not_None_eq select_where_None_iff select_where_Some)+
  moreover obtain f where f: "f \<in> set (session_families s)" "f_id f = t_family_id t"
    using assms(1,2) by (force simp: inv_defs)
  moreover obtain u where "u \<in> set (users s)" "u_id u = f_user_id f"
    using assms(1) f(1) by (force simp: inv_defs)
  ultimately show ?thesis
    using select_key_unique [OF db_invD(3) [OF assms(1)] f(1)]
      select_key_unique [OF db_invD(1) [OF assms(1)], of u]
    by (auto simp: lookup_token_def)
qed

lemma authenticateD:
  assumes "authenticate c now access s = Inr p"
  obtains t f u where "t \<in> set (session_tokens s)" "f \<in> set (session_families s)"
    "u \<in> set (users s)" "t_access_hash t = token_digest c access"
    "f_id f = t_family_id t" "u_id u = f_user_id f" "session_open now t f u"
    "p_id p = u_id u" "p_family_id p = f_id f" "p_token_id p = t_id t"
    "p_role p = u_role u" "p_must_change_password p = u_must_change_password u"
proof -
  obtain t f u where l: "lookup_access (token_digest c access) s = Some (t, f, u)"
    and o: "session_open now t f u"
    and p: "p = \<lparr>p_id = f_user_id f, p_username = u_username u, p_role = u_role u,
             p_must_change_password = u_must_change_password u,
             p_family_id = t_family_id t, p_token_id = t_id t\<rparr>"
    using assms by (auto simp: authenticate_def split: if_splits option.splits)
  show ?thesis
    using lookup_token_Some [OF l [unfolded lookup_access_def]] o p by (auto intro!: that)
qed

text \<open>Once a family is revoked, or one of its tokens rotated, nothing authenticates through it.\<close>

lemma authenticate_revoked_family:
  assumes "\<And>f. f \<in> set (session_families s) \<Longrightarrow> f_id f = fid \<Longrightarrow> f_revoked_at f \<noteq> None"
    and "authenticate c now access s = Inr p"
  shows "p_family_id p \<noteq> fid"
  using assms by (metis authenticateD session_open_def)

lemma authenticate_rotated_token:
  assumes "\<And>t. t \<in> set (session_tokens s) \<Longrightarrow> t_id t = tid \<Longrightarrow> t_rotated_at t \<noteq> None"
    and "authenticate c now access s = Inr p"
  shows "p_token_id p \<noteq> tid"
  using assms by (metis authenticateD session_open_def)

lemma revoke_where_revoked:
  "f \<in> set (session_families (revoke_where P now s)) \<Longrightarrow> (\<And>g. P g = Q (f_id g) (f_user_id g))
   \<Longrightarrow> Q (f_id f) (f_user_id f) \<Longrightarrow> f_revoked_at f \<noteq> None"
  by (auto simp: revoke_where_def set_update_where split: if_splits)

lemma lookup_token_cong:
  assumes "users s = users t" "session_families s = session_families t"
    "session_tokens s = session_tokens t"
  shows "lookup_token P s = lookup_token P t"
  using assms by (simp add: lookup_token_def split: option.split)

lemma lookup_token_rate_frame [simp]:
  "lookup_token P (s\<lparr>rate_limits := rows\<rparr>) = lookup_token P s"
  by (simp add: lookup_token_def split: option.split)



section \<open>Rotation\<close>

lemma insert_token_effect:
  "insert_token t s = Inr s' \<Longrightarrow> s' = s\<lparr>session_tokens := session_tokens s @ [t]\<rparr>"
  by (auto simp: insert_token_def split: if_splits)

lemma issue_effect:
  assumes "issue st c fr now u fid ex s = Inr (pair, s')"
  obtains t where "s' = s\<lparr>session_tokens := session_tokens s @ [t]\<rparr>"
    "t_id t = new_token_id fr" "t_family_id t = fid"
    "t_access_hash t = token_digest c (new_access fr)" "t_rotated_at t = None"
    "t_access_expires_at t = now + of_int (sp_expires_in pair)" "t_refresh_expires_at t = ex"
    "t_id t \<notin> t_id ` set (session_tokens s)"
    "t_access_hash t \<notin> t_access_hash ` set (session_tokens s)"
    "sp_session_family_id pair = fid" "sp_access_token pair = new_access fr"
    "sp_expires_in pair = session_ttl st now ex" "sp_user pair = public_of u"
  using assms
  by (auto simp: issue_def Let_def bind_res_Inr_iff insert_token_def split: if_splits)

lemma rotate_token_ids [simp]:
  "t_id ` set (session_tokens (rotate_token tid now s)) = t_id ` set (session_tokens s)"
  by (simp add: rotate_token_def image_key_update_where)

lemma lookup_appended_token:
  assumes "t_access_hash n = digest" and "t_access_hash n \<notin> t_access_hash ` set (session_tokens s)"
    and "select_key f_id (t_family_id n) (session_families s) = Some f" and "select_key u_id (f_user_id f) (users s) = Some u"
  shows "lookup_access digest (s\<lparr>session_tokens := session_tokens s @ [n]\<rparr>) = Some (n, f, u)"
proof -
  have "select_where (\<lambda>q. t_access_hash q = digest) (session_tokens s) = None"
    using assms(1,2) by (auto simp: select_where_None_iff image_iff)
  then show ?thesis using assms by (simp add: lookup_access_def lookup_token_def select_where_append)
qed

text \<open>C17: Refresh rotation. A successful refresh leaves a new access token that
  authenticates as the same user and family until it or its family expires, and the token it
  replaced never authenticates again.\<close>

theorem refresh_rotates:
  assumes inv: "db_inv s" and run: "refresh st c fr now0 now1 now2 tok peer s = (Inr pair, s')"
    and ascii: "is_ascii (new_access fr)"
  shows "\<exists>t f u. lookup_refresh (token_digest c tok) s = Some (t, f, u)
    \<and> sp_session_family_id pair = t_family_id t
    \<and> (\<forall>now access p. authenticate c now access s' = Inr p \<longrightarrow> p_token_id p \<noteq> t_id t)
    \<and> (\<forall>now. now < now2 + of_int (sp_expires_in pair) \<longrightarrow> now < f_expires_at f \<longrightarrow>
         authenticate c now (sp_access_token pair) s' =
         Inr \<lparr>p_id = u_id u, p_username = u_username u, p_role = u_role u,
              p_must_change_password = False, p_family_id = t_family_id t,
              p_token_id = new_token_id fr\<rparr>)"
proof -
  obtain s1 where s1: "rate_limit c now0 60 [(''refresh_ip'', peer, 30)] s = (Inr (), s1)"
    and body: "refresh_body st c fr now1 now2 (token_digest c tok) s1 = Inr (Some pair, s')"
    using run
    by (auto simp: refresh_def transaction_def split: prod.splits sum.splits option.splits)
  have inv1: "db_inv s1" by (rule rate_limit_inv [OF s1 inv])
  obtain t f u where look1: "lookup_refresh (token_digest c tok) s1 = Some (t, f, u)"
    and fine: "\<not> u_disabled u" "f_revoked_at f = None" "\<not> u_must_change_password u"
    and iss: "issue st c fr now2 u (t_family_id t) (f_expires_at f) (rotate_token (t_id t) now1 s1)
                = Inr (pair, s')"
    using body
    by (auto simp: refresh_body_def bind_res_Inr_iff split: option.splits if_splits)
  have look: "lookup_refresh (token_digest c tok) s = Some (t, f, u)"
    using look1 rate_limit_frame(1) [OF s1] by (metis lookup_refresh_def lookup_token_rate_frame)
  note rows = lookup_token_Some [OF look1 [unfolded lookup_refresh_def]]
  let ?s2 = "rotate_token (t_id t) now1 s1"
  obtain n where s': "s' = ?s2\<lparr>session_tokens := session_tokens ?s2 @ [n]\<rparr>"
    and n: "t_id n = new_token_id fr" "t_family_id n = t_family_id t"
      "t_access_hash n = token_digest c (new_access fr)" "t_rotated_at n = None"
      "t_access_expires_at n = now2 + of_int (sp_expires_in pair)"
      "t_id n \<notin> t_id ` set (session_tokens ?s2)"
      "t_access_hash n \<notin> t_access_hash ` set (session_tokens ?s2)"
      "sp_session_family_id pair = t_family_id t" "sp_access_token pair = new_access fr"
    by (rule issue_effect [OF iss]) blast
  have "t_id n \<noteq> t_id t"
    using n(6) rows(2) by (force simp: rotate_token_ids)
  then have old: "authenticate c now access s' = Inr p \<Longrightarrow> p_token_id p \<noteq> t_id t" for now access p
    by (rule_tac authenticate_rotated_token [of s'])
      (auto simp: s' rotate_token_def set_update_where split: if_splits)
  have "lookup_access (token_digest c (new_access fr)) s' = Some (n, f, u)"
    unfolding s'
  proof (rule lookup_appended_token [OF n(3)])
    show "t_access_hash n \<notin> t_access_hash ` set (session_tokens ?s2)" by (rule n(7))
    show "select_key f_id (t_family_id n) (session_families ?s2) = Some f"
      using select_key_unique [OF db_invD(3) [OF inv1] rows(3)] rows(5) n(2) by (simp add: rotate_token_def)
    show "select_key u_id (f_user_id f) (users ?s2) = Some u"
      using select_key_unique [OF db_invD(1) [OF inv1] rows(4)] rows(6) by (simp add: rotate_token_def)
  qed
  then have "authenticate c now (sp_access_token pair) s' =
         Inr \<lparr>p_id = u_id u, p_username = u_username u, p_role = u_role u,
              p_must_change_password = False, p_family_id = t_family_id t,
              p_token_id = new_token_id fr\<rparr>"
    if "now < now2 + of_int (sp_expires_in pair)" "now < f_expires_at f" for now
    using that fine n rows(6) ascii by (simp add: authenticate_def session_open_def)
  with look n(8) old show ?thesis by blast
qed


section \<open>Login and password change\<close>

lemma new_family_effect:
  assumes "new_family st c fr now now2 u dev s = Inr (pair, s')"
  obtains keep nf where
    "session_families s' = filter keep (session_families s) @ [nf]"
    "f_id nf = new_family_id fr" "f_user_id nf = u_id u"
    "users s' = users s" "sp_session_family_id pair = new_family_id fr"
    "sp_user pair = public_of u"
proof -
  let ?row = "\<lparr>f_id = new_family_id fr, f_user_id = u_id u, f_device_name = dev,
         f_created_at = now, f_expires_at = now + of_int (refresh_ttl_seconds st),
         f_revoked_at = None\<rparr>"
  obtain s1 s2 where
    s1: "fold_res drop_family (drop FAMILY_LIMIT (user_families (u_id u) s)) s = Inr s1"
    and s2: "insert_family ?row s1 = Inr s2"
    and p: "issue st c fr now2 u (new_family_id fr) (now + of_int (refresh_ttl_seconds st)) s2
         = Inr (pair, s')"
    using assms by (auto simp: new_family_def Let_def bind_res_Inr_iff)
  have "s2 = s1\<lparr>session_families := session_families s1 @ [?row]\<rparr>"
    using s2 by (auto simp: insert_family_def split: if_splits)
  moreover have "session_families s' = session_families s2" "users s' = users s2"
    "sp_session_family_id pair = new_family_id fr" "sp_user pair = public_of u"
    using p by (auto elim: issue_effect)
  ultimately have fam: "session_families s' =
      filter (\<lambda>g. f_id g \<notin> f_id ` set (drop FAMILY_LIMIT (user_families (u_id u) s)))
        (session_families s) @ [?row]"
    and rest: "users s' = users s" "sp_session_family_id pair = new_family_id fr"
      "sp_user pair = public_of u"
    using drop_families_effect(1,2) [OF s1] by simp_all
  show ?thesis by (rule that [OF fam _ _ rest]) simp_all
qed

lemma users_frame [simp]:
  "users (revoke_where P now s) = users s"
  "users (rotate_token tid now s) = users s"
  "users (update_users Q g s) = update_where Q g (users s)"
  by (simp_all add: revoke_where_def rotate_token_def update_users_def)

text \<open>C18: Password change. When it succeeds, every session of the account but the one just
  issued is dead: any access token that authenticates as this user belongs to the new family
  and no longer asks for a password change, whatever other requests did in between.\<close>

theorem change_password_revokes_other_sessions:
  assumes run: "change_password st c fr salt sl sl2 n0 n1 n2 n3 n4 interfere p cur new s = (Inr pair, s')"
    and inv: "db_inv s" and env: "\<forall>t. db_inv t \<longrightarrow> db_inv (interfere t)"
  shows "\<forall>now access q. authenticate c now access s' = Inr q \<longrightarrow> p_id q = p_id p \<longrightarrow>
    p_family_id q = sp_session_family_id pair \<and> \<not> p_must_change_password q"
proof -
  obtain s1 h enc where
    rl: "rate_limit c n0 60 [(''password_change'', p_id p, 5)] s = (Inr (), s1)"
    and commit: "change_password_commit st c fr n1 n2 n3 n4 p h enc (interfere s1) = Inr (pair, s')"
    using run
    by (auto simp: change_password_def transaction_def
        split: prod.splits sum.splits option.splits if_splits)
  let ?s2 = "revoke_where (\<lambda>f. f_user_id f = p_id p) n2 (update_users (\<lambda>u. u_id u = p_id p)
      (\<lambda>u. u\<lparr>u_password_hash := enc, u_must_change_password := False,
              u_revision := u_revision u + 1\<rparr>) (interfere s1))"
  obtain u dev where u: "select_key u_id (p_id p) (users ?s2) = Some u"
    and nf: "new_family st c fr n3 n4 u dev ?s2 = Inr (pair, s')"
    using commit
    by (auto simp: change_password_commit_def Let_def bind_res_Inr_iff
        split: option.splits if_splits)
  obtain keep f where
    fams: "session_families s' = filter keep (session_families ?s2) @ [f]"
    and f: "f_id f = new_family_id fr" "f_user_id f = u_id u" "users s' = users ?s2"
      "sp_session_family_id pair = new_family_id fr"
    by (rule new_family_effect [OF nf]) blast
  show ?thesis
  proof (intro allI impI)
    fix now access q
    assume auth: "authenticate c now access s' = Inr q" and me: "p_id q = p_id p"
    obtain t g v where g: "g \<in> set (session_families s')" "v \<in> set (users s')"
      "u_id v = f_user_id g" "session_open now t g v" "p_id q = u_id v" "p_family_id q = f_id g"
      "p_must_change_password q = u_must_change_password v"
      using auth by (auto elim!: authenticateD)
    have "g = f"
    proof (rule ccontr)
      assume "g \<noteq> f"
      with g(1) fams have "g \<in> set (session_families ?s2)" by auto
      then have "f_revoked_at g \<noteq> None"
        using g(3,5) me by (intro revoke_where_revoked [where Q = "\<lambda>_ i. i = p_id p"]) auto
      with g(4) show False by (simp add: session_open_def)
    qed
    moreover have "\<not> u_must_change_password v"
    proof -
      obtain w where "v = (if u_id w = p_id p then w\<lparr>u_password_hash := enc,
            u_must_change_password := False, u_revision := u_revision w + 1\<rparr> else w)"
        using g(2) by (auto simp only: f(3) users_frame set_update_where image_iff)
      then show ?thesis using g(5) me by (simp split: if_splits)
    qed
    ultimately show "p_family_id q = sp_session_family_id pair \<and> \<not> p_must_change_password q"
      using g(6,7) f by simp
  qed
qed

text \<open>C19: Login checks the current credential. Whatever other requests commit between the
  expensive verification and the login transaction, a session is only issued for an account
  that is enabled at commit time and whose password hash at commit time is the one the
  presented password was verified against.\<close>

theorem login_checks_current_credential:
  assumes "login st c fr salt sl sl2 n0 n1 n2 interfere name pw dev peer s = (Inr pair, s')"
  shows "\<exists>s1 u. snd (rate_limit c n0 60
             [(''login_ip'', peer, login_ip_limit st),
              (''login_account'', lower name, login_account_limit st),
              (''login_global'', ''all'', login_global_limit st)] s) = s1
    \<and> u \<in> set (users (interfere s1)) \<and> pu_id (sp_user pair) = u_id u
    \<and> \<not> u_disabled u \<and> verify_hash c (u_password_hash u) pw"
proof -
  let ?cats = "[(''login_ip'', peer, login_ip_limit st),
              (''login_account'', lower name, login_account_limit st),
              (''login_global'', ''all'', login_global_limit st)]"
  obtain s1 where rl: "rate_limit c n0 60 ?cats s = (Inr (), s1)"
    using assms by (auto simp: login_def Let_def split: prod.splits sum.splits)
  obtain u where u: "select_where (\<lambda>u. u_username u = lower name) (users s1) = Some u"
    and ver: "verify_hash c (u_password_hash u) pw"
    using assms
    by (auto simp: login_def Let_def rl verify_password_def split: sum.splits option.splits if_splits)
  obtain rep where
    commit: "login_commit st c fr n1 n2 (u_id u) (u_password_hash u) rep dev (interfere s1)
                   = Inr (pair, s')"
    using assms
    by (simp add: login_def Let_def rl u verify_password_def transaction_def
        split: sum.splits if_splits prod.splits)
  obtain cur s2 where cur: "select_key u_id (u_id u) (users (interfere s1)) = Some cur"
    and fine: "\<not> u_disabled cur" "u_password_hash cur = u_password_hash u"
    and nf: "new_family st c fr n1 n2 cur dev s2 = Inr (pair, s')"
    using commit by (auto simp: login_commit_def Let_def split: option.splits if_splits)
  have "sp_user pair = public_of cur" by (rule new_family_effect [OF nf])
  then show ?thesis
    using select_where_Some [OF cur] fine ver rl by (auto simp: public_of_def)
qed


section \<open>The rate-limit budget\<close>

text \<open>Consecutive calls at the times \<open>nows\<close> under one category.\<close>

fun rate_run :: "crypto \<Rightarrow> int \<Rightarrow> string \<times> string \<times> int \<Rightarrow> time list \<Rightarrow> db \<Rightarrow> unit result list" where
  "rate_run c sec cat [] s = []"
| "rate_run c sec cat (now # nows) s =
     (let (r, s') = rate_limit c now sec [cat] s in r # rate_run c sec cat nows s')"

definition spent :: "rate_row list \<Rightarrow> string \<Rightarrow> int \<Rightarrow> int \<Rightarrow> nat \<Rightarrow> bool" where
  "spent rows k w sec n =
     (unique_on rl_key rows \<and> length rows \<le> MAX_RATE_ROWS \<and>
      (if n = 0 then k \<notin> rl_key ` set rows \<and> length rows < MAX_RATE_ROWS
       else \<exists>r \<in> set rows. rl_key r = k \<and> rl_window r = w \<and> rl_count r = int n
              \<and> rate_window (rl_touched_at r) sec = w))"

lemma same_window_close:
  assumes "rate_window a sec = rate_window b sec" and "0 < sec" "sec \<le> 3600"
  shows "b - 3600 \<le> a"
proof -
  let ?d = "of_int sec :: rat"
  have d: "0 < ?d" "?d \<le> 3600" using assms(2,3) by simp_all
  have fl: "\<lfloor>a / ?d\<rfloor> = \<lfloor>b / ?d\<rfloor>" using assms(1) by (simp add: rate_window_def)
  have "b / ?d < of_int \<lfloor>b / ?d\<rfloor> + 1" by linarith
  also have "\<dots> \<le> a / ?d + 1" unfolding fl [symmetric] by linarith
  finally have "b < a + ?d" using d(1) by (simp add: field_simps)
  with d(2) show ?thesis by linarith
qed

lemma rate_upsert_new:
  "rl_key r \<notin> rl_key ` set rows \<Longrightarrow> rate_upsert r rows = rows @ [r]"
  by (simp add: rate_upsert_def)

lemma rate_upsert_old_length:
  "rl_key r \<in> rl_key ` set rows \<Longrightarrow> length (rate_upsert r rows) = length rows"
  by (simp add: rate_upsert_def)

lemma rate_upsert_in: "r \<in> set (rate_upsert r rows)"
  by (auto simp: rate_upsert_def set_update_where)

lemma rate_limit_spent:
  assumes sp: "spent (rate_limits s) k w sec n" and k: "k = rate_digest c cat ident"
    and w: "rate_window now sec = w" and sec: "0 < sec" "sec \<le> 3600"
  shows "\<exists>s'. rate_limit c now sec [(cat, ident, limit)] s =
      (if int n < limit then Inr () else Inl rate_limited, s') \<and> spent (rate_limits s') k w sec (Suc n)"
proof -
  let ?old = "delete_where (\<lambda>r. rl_touched_at r < now - 3600) (rate_limits s)"
  have u: "unique_on rl_key ?old" using sp by (simp add: spent_def unique_on_delete_where)
  have len: "length ?old \<le> length (rate_limits s)" by (simp add: delete_where_def)
  have cnt: "rate_count ?old k w = int (Suc n)"
    and grow: "k \<in> rl_key ` set ?old \<or> length ?old < MAX_RATE_ROWS"
  proof -
    consider "n = 0" | r where "n \<noteq> 0" "r \<in> set (rate_limits s)" "rl_key r = k" "rl_window r = w"
      "rl_count r = int n" "rate_window (rl_touched_at r) sec = w"
      using sp by (auto simp: spent_def split: if_splits)
    then have "rate_count ?old k w = int (Suc n) \<and> (k \<in> rl_key ` set ?old \<or> length ?old < MAX_RATE_ROWS)"
    proof cases
      case 1
      then have "select_key rl_key k ?old = None"
        using sp by (auto simp: spent_def select_where_None_iff set_delete_where)
      with 1 sp len show ?thesis by (simp add: rate_count_def spent_def)
    next
      case (2 r)
      have "\<not> rl_touched_at r < now - 3600"
        using same_window_close [of "rl_touched_at r" sec now] 2(6) w sec by simp
      with 2 have r: "r \<in> set ?old" by (simp add: set_delete_where)
      then have "select_key rl_key k ?old = Some r"
        using select_key_unique [OF u r] 2 by simp
      with 2 r show ?thesis by (force simp: rate_count_def)
    qed
    then show "rate_count ?old k w = int (Suc n)"
      and "k \<in> rl_key ` set ?old \<or> length ?old < MAX_RATE_ROWS" by blast+
  qed
  let ?r = "\<lparr>rl_key = k, rl_window = w, rl_count = int (Suc n), rl_touched_at = now\<rparr>"
  let ?new = "rate_upsert ?r ?old"
  have "length ?new \<le> MAX_RATE_ROWS"
    using grow len sp by (cases "k \<in> rl_key ` set ?old")
      (simp_all add: rate_upsert_old_length rate_upsert_new spent_def)
  then have "rate_limit c now sec [(cat, ident, limit)] s =
      (if int n < limit then Inr () else Inl rate_limited, s\<lparr>rate_limits := ?new\<rparr>)"
    using cnt by (simp add: rate_limit_def Let_def w k keep_newest_small)
  moreover have "spent ?new k w sec (Suc n)"
    using \<open>length ?new \<le> MAX_RATE_ROWS\<close> rate_upsert_unique [OF u] rate_upsert_in [of ?r ?old] w
    by (auto simp: spent_def intro!: bexI [of _ ?r])
  ultimately show ?thesis by auto
qed

lemma rate_run_spent:
  assumes "spent (rate_limits s) (rate_digest c cat ident) w sec n" "0 < sec" "sec \<le> 3600"
    and "\<forall>now \<in> set nows. rate_window now sec = w"
  shows "rate_run c sec (cat, ident, limit) nows s =
    map (\<lambda>i. if int i < limit then Inr () else Inl rate_limited) [n..<n + length nows]"
  using assms(1,4)
proof (induction nows arbitrary: s n)
  case (Cons now nows)
  obtain s' where s': "rate_limit c now sec [(cat, ident, limit)] s =
      (if int n < limit then Inr () else Inl rate_limited, s')"
    "spent (rate_limits s') (rate_digest c cat ident) w sec (Suc n)"
    using rate_limit_spent [OF Cons.prems(1) refl _ assms(2,3)] Cons.prems(2) by fastforce
  have "rate_run c sec (cat, ident, limit) nows s' =
    map (\<lambda>i. if int i < limit then Inr () else Inl rate_limited) [Suc n..<Suc n + length nows]"
    using Cons.IH [OF s'(2)] Cons.prems(2) by simp
  then show ?case by (simp add: s' upt_conv_Cons [of n] del: upt_Suc)
qed simp

text \<open>C14: Rate-limit budget. For a caller with no row yet and a table below its cap, of any
  number of calls inside one window exactly the first \<open>limit\<close> are admitted and every later
  one is refused with \<open>rate_limited\<close>.\<close>

theorem rate_limit_budget:
  assumes "unique_on rl_key (rate_limits s)" and "length (rate_limits s) < MAX_RATE_ROWS"
    and "rate_digest c cat ident \<notin> rl_key ` set (rate_limits s)"
    and "0 < sec" "sec \<le> 3600" and "\<forall>now \<in> set nows. rate_window now sec = w"
  shows "rate_run c sec (cat, ident, limit) nows s =
    map (\<lambda>i. if int i < limit then Inr () else Inl rate_limited) [0..<length nows]"
  using rate_run_spent [of s c cat ident w sec 0 nows limit] assms by (simp add: spent_def)

text \<open>The rate table is bounded. Whatever the categories, a call leaves at most ten
  thousand rows with unique keys, never touches accounts or sessions, and answers either
  admission or \<open>rate_limited\<close>.\<close>

theorem rate_limit_bounded:
  assumes "unique_on rl_key (rate_limits s)" and "rate_limit c now sec cats s = (r, s')"
  shows "length (rate_limits s') \<le> 10000 \<and> unique_on rl_key (rate_limits s')
    \<and> s' = s\<lparr>rate_limits := rate_limits s'\<rparr> \<and> (r = Inr () \<or> r = Inl rate_limited)"
proof -
  let ?rows = "fst (rate_loop c now (rate_window now sec) cats
      (delete_where (\<lambda>r. rl_touched_at r < now - 3600) (rate_limits s), False))"
  have "rate_limits s' = keep_newest MAX_RATE_ROWS rl_touched_at rl_key ?rows"
    using assms(2) by (auto simp: rate_limit_def Let_def split: prod.splits)
  moreover have "unique_on rl_key ?rows"
    using assms(1) by (intro rate_loop_unique unique_on_delete_where)
  ultimately show ?thesis
    using rate_limit_frame [OF assms(2)] keep_newest_length keep_newest_unique
    by (metis MAX_RATE_ROWS_def)
qed

section \<open>A concrete database\<close>

definition demo_settings :: settings where
  "demo_settings = \<lparr>access_ttl_seconds = 900, refresh_ttl_seconds = 86400, login_ip_limit = 10,
     login_account_limit = 10, login_global_limit = 100\<rparr>"

definition demo_crypto :: crypto where
  "demo_crypto = \<lparr>token_digest = (\<lambda>t. CHR ''h'' # t), rate_digest = (\<lambda>a b. a @ b),
     verify_hash = (\<lambda>h p. h = CHR ''k'' # p), encode_hash = (\<lambda>_ p. CHR ''k'' # p),
     needs_rehash = (\<lambda>_. False), dummy_hash = ''x''\<rparr>"

definition demo_fresh :: fresh where
  "demo_fresh = \<lparr>new_family_id = ''f9'', new_token_id = ''t9'', new_access = ''a9'', new_refresh = ''r9''\<rparr>"

definition demo_root :: user_row where
  "demo_root = \<lparr>u_id = ''u1'', u_username = ''root'', u_role = Admin, u_password_hash = ''kpw'',
     u_must_change_password = False, u_created_at = 0, u_disabled = False, u_revision = 1\<rparr>"

definition demo_member :: user_row where
  "demo_member = \<lparr>u_id = ''u2'', u_username = ''kim'', u_role = Member, u_password_hash = ''kpx'',
     u_must_change_password = False, u_created_at = 0, u_disabled = False, u_revision = 1\<rparr>"

definition demo_family :: "string \<Rightarrow> string \<Rightarrow> family_row" where
  "demo_family fid uid = \<lparr>f_id = fid, f_user_id = uid, f_device_name = ''tablet'', f_created_at = 0,
     f_expires_at = 1000, f_revoked_at = None\<rparr>"

definition demo_token :: "string \<Rightarrow> string \<Rightarrow> string \<Rightarrow> string \<Rightarrow> time option \<Rightarrow> token_row" where
  "demo_token tid fid a r rot = \<lparr>t_id = tid, t_family_id = fid, t_access_hash = a, t_refresh_hash = r,
     t_access_expires_at = 900, t_refresh_expires_at = 1000, t_created_at = 0, t_rotated_at = rot\<rparr>"

definition demo_db :: db where
  "demo_db = \<lparr>users = [demo_root, demo_member],
     session_families = [demo_family ''f1'' ''u1'', demo_family ''f2'' ''u2''],
     session_tokens = [demo_token ''t0'' ''f1'' ''ha0'' ''hr0'' (Some 1),
       demo_token ''t1'' ''f1'' ''ha1'' ''hr1'' None, demo_token ''t2'' ''f2'' ''ha2'' ''hr2'' None],
     rate_limits = [], vaults = [], admin_audit = [], audit_sequence = 0\<rparr>"

definition demo_principal :: principal where
  "demo_principal = \<lparr>p_id = ''u1'', p_username = ''root'', p_role = Admin,
     p_must_change_password = False, p_family_id = ''f1'', p_token_id = ''t1''\<rparr>"

lemmas demo_defs = demo_settings_def demo_crypto_def demo_fresh_def demo_root_def demo_member_def
  demo_family_def demo_token_def demo_db_def demo_principal_def

lemma demo_inv: "db_inv demo_db"
proof -
  have "count_where P (session_families demo_db) \<le> 32" for P
    by (rule order_trans [OF length_filter_le [of P, folded count_where_def]]) (simp add: demo_db_def)
  then show ?thesis by (simp add: inv_defs demo_defs unique_on_def MAX_RATE_ROWS_def)
qed

definition demo_refresh :: "string \<Rightarrow> session_pair result \<times> db" where
  "demo_refresh tok = refresh demo_settings demo_crypto demo_fresh 10 10 10 tok ''peer'' demo_db"


theorem refresh_rotates_witness:
  "\<exists>pair s'. demo_refresh ''r1'' = (Inr pair, s') \<and> sp_session_family_id pair = ''f1''"
proof -
  have "\<not> isl (fst (demo_refresh ''r1''))" by code_simp
  then obtain pair s' where run: "demo_refresh ''r1'' = (Inr pair, s')"
    by (metis isl_def prod.collapse sum.collapse(2))
  have "is_ascii (new_access demo_fresh)" by code_simp
  from refresh_rotates [OF demo_inv run [unfolded demo_refresh_def] this]
  obtain t f u where "lookup_refresh (token_digest demo_crypto ''r1'') demo_db = Some (t, f, u)"
    "sp_session_family_id pair = t_family_id t" by blast
  then have "sp_session_family_id pair = ''f1''"
    by (auto simp: lookup_refresh_def lookup_token_def demo_defs)
  with run show ?thesis by blast
qed

definition demo_change :: "session_pair result \<times> db" where
  "demo_change = change_password demo_settings demo_crypto demo_fresh ''s'' 2 2 10 10 10 10 10 id
     demo_principal ''pw'' ''pz'' demo_db"

theorem change_password_revokes_other_sessions_witness:
  "case authenticate demo_crypto 20 ''a9'' (snd demo_change) of
     Inl _ \<Rightarrow> False | Inr q \<Rightarrow> p_id q = ''u1'' \<and> p_family_id q = ''f9''"
proof -
  have "\<not> isl (fst demo_change)" by code_simp
  then obtain pair s' where run: "demo_change = (Inr pair, s')" by (metis isl_def prod.collapse sum.collapse(2))
  have "case fst demo_change of Inl _ \<Rightarrow> False | Inr q \<Rightarrow> sp_session_family_id q = ''f9''" by code_simp
  then have f: "sp_session_family_id pair = ''f9''" unfolding run by simp
  have "p_id demo_principal = ''u1''" by (simp add: demo_principal_def)
  with change_password_revokes_other_sessions [OF run [unfolded demo_change_def] demo_inv] f
  have "\<forall>now access q. authenticate demo_crypto now access s' = Inr q \<longrightarrow> p_id q = ''u1'' \<longrightarrow>
     p_family_id q = ''f9''" by simp
  moreover have "case authenticate demo_crypto 20 ''a9'' (snd demo_change) of
     Inl _ \<Rightarrow> False | Inr q \<Rightarrow> p_id q = ''u1''" by code_simp
  ultimately show ?thesis unfolding run by (simp split: sum.splits)
qed

definition demo_login :: "session_pair result \<times> db" where
  "demo_login = login demo_settings demo_crypto demo_fresh ''s'' 2 2 10 10 10 id ''Root'' ''pw'' ''tv'' ''peer'' demo_db"

theorem login_checks_current_credential_witness:
  "\<exists>pair s' (u :: user_row). demo_login = (Inr pair, s') \<and> pu_id (sp_user pair) = u_id u \<and>
     verify_hash demo_crypto (u_password_hash u) ''pw''"
proof -
  have "\<not> isl (fst demo_login)" by code_simp
  then obtain pair s' where run: "demo_login = (Inr pair, s')" by (metis isl_def prod.collapse sum.collapse(2))
  from login_checks_current_credential [OF this [unfolded demo_login_def]]
  obtain u :: user_row where "pu_id (sp_user pair) = u_id u" "verify_hash demo_crypto (u_password_hash u) ''pw''" by blast
  with run show ?thesis by blast
qed

theorem rate_limit_budget_witness:
  "rate_run demo_crypto 60 (''login_ip'', ''peer'', 2) [1, 2, 3] demo_db
     = [Inr (), Inr (), Inl rate_limited]"
proof -
  have "\<forall>now \<in> set [1, 2, 3]. rate_window now 60 = 0" by code_simp
  then show ?thesis
    using rate_limit_budget [of demo_db demo_crypto "''login_ip''" "''peer''" 60 "[1, 2, 3]" 0 2]
    by (simp add: demo_db_def MAX_RATE_ROWS_def upt_rec)
qed

theorem rate_limit_bounded_witness:
  "length (rate_limits (snd (rate_limit demo_crypto 1 60 [(''login_ip'', ''peer'', 2)] demo_db))) \<le> 10000"
  using rate_limit_bounded [of demo_db demo_crypto 1 60 "[(''login_ip'', ''peer'', 2)]"]
  by (simp add: demo_db_def prod_eq_iff)

end
