(* ===== verification/Admin_Accounts.thy ===== *)
theory Admin_Accounts
  imports Auth_Sessions "HOL-Library.List_Lexorder" "HOL-Library.Char_ord"
    "HOL-Library.Product_Lexorder"
begin

text \<open>
  Account administration: the whole of \<open>server/larenor_server/admin/service.py\<close>. Every
  mutation runs in one transaction that checks the actor again, runs its body inside a
  savepoint and appends an audit row; an \<open>ApiError\<close> of the body rolls back to the savepoint
  and is audited as denied, any other exception rolls the whole transaction back.
  Time stamps in the answers stay numbers: the ISO formatting of \<open>utc\<close> is not modelled.
\<close>

section \<open>Operations\<close>

definition MAX_USERS :: nat where "MAX_USERS = 256"
definition MAX_AUDIT_EVENTS :: nat where "MAX_AUDIT_EVENTS = 10000"

record admin_user =
  au_id :: string
  au_username :: string
  au_role :: role
  au_disabled :: bool
  au_must_change_password :: bool
  au_revision :: int
  au_created_at :: time

definition admin_public_user :: "user_row \<Rightarrow> admin_user" where
  "admin_public_user u =
     \<lparr>au_id = u_id u, au_username = u_username u, au_role = u_role u, au_disabled = u_disabled u,
      au_must_change_password = u_must_change_password u, au_revision = u_revision u,
      au_created_at = u_created_at u\<rparr>"

definition assert_admin :: "time \<Rightarrow> principal \<Rightarrow> db \<Rightarrow> unit result" where
  "assert_admin now actor s =
     bind_res (assert_current now actor s) (\<lambda>_.
       if p_must_change_password actor then Inl password_change_required
       else if p_role actor \<noteq> Admin then Inl (ApiError ''forbidden'' 403)
       else Inr ())"

definition admin_read :: "crypto \<Rightarrow> time \<Rightarrow> time \<Rightarrow> principal \<Rightarrow> (db \<Rightarrow> 'a result) \<Rightarrow> db
    \<Rightarrow> 'a result \<times> db" where
  "admin_read c now0 now1 actor body s =
     (case rate_limit c now0 60 [(''admin_read'', p_id actor, 120)] s of
        (Inl e, s') \<Rightarrow> (Inl e, s')
      | (Inr _, s') \<Rightarrow> (bind_res (assert_admin now1 actor s') (\<lambda>_. body s'), s'))"

datatype admin_action = Create | Update | ResetPassword | Revoke

fun action_name :: "admin_action \<Rightarrow> string" where
  "action_name Create = ''create''"
| "action_name Update = ''update''"
| "action_name ResetPassword = ''reset_password''"
| "action_name Revoke = ''revoke''"

fun action_event :: "admin_action \<Rightarrow> string \<times> audit_object" where
  "action_event Create = (''admin.user.created'', UserObject)"
| "action_event Update = (''admin.user.updated'', UserObject)"
| "action_event ResetPassword = (''admin.user.password_reset'', UserObject)"
| "action_event Revoke = (''admin.session.revoked'', SessionObject)"

text \<open>\<open>id INTEGER PRIMARY KEY AUTOINCREMENT\<close>: ids only grow, even past deleted rows.\<close>

definition record_audit :: "time \<Rightarrow> principal \<Rightarrow> admin_action \<Rightarrow> string option \<Rightarrow> audit_status \<Rightarrow> db \<Rightarrow> db"
where
  "record_audit now actor action target status s =
     (let row = \<lparr>a_id = audit_sequence s + 1, a_event = fst (action_event action),
                 a_action = action_name action, a_object = snd (action_event action),
                 a_status = status, a_timestamp = now, a_actor_id = p_id actor,
                 a_target_id = target\<rparr>
      in s\<lparr>admin_audit := keep_newest MAX_AUDIT_EVENTS a_id a_id (admin_audit s @ [row]),
           audit_sequence := audit_sequence s + 1\<rparr>)"

definition mutation_body :: "time \<Rightarrow> admin_action \<Rightarrow> string option \<Rightarrow> (db, 'a) tx \<Rightarrow> principal
    \<Rightarrow> (db, 'a result) tx" where
  "mutation_body now action target body actor s =
     (case body s of
        Inl (ApiError code status) \<Rightarrow>
          Inr (Inl (ApiError code status), record_audit now actor action target Denied s)
      | Inl e \<Rightarrow> Inl e
      | Inr (v, s') \<Rightarrow> Inr (Inr v, record_audit now actor action target Success s'))"

definition mutation :: "time \<Rightarrow> time \<Rightarrow> principal \<Rightarrow> admin_action \<Rightarrow> string option \<Rightarrow> (db, 'a) tx \<Rightarrow> db
    \<Rightarrow> 'a result \<times> db" where
  "mutation now now2 actor action target body s =
     (case guarded (assert_admin now) (mutation_body now2 action target body) actor s of
        (Inl e, s') \<Rightarrow> (Inl e, s')
      | (Inr r, s') \<Rightarrow> (r, s'))"

definition write_limit :: "crypto \<Rightarrow> time \<Rightarrow> principal \<Rightarrow> db \<Rightarrow> unit result \<times> db" where
  "write_limit c now actor s = rate_limit c now 60 [(''admin_write'', p_id actor, 20)] s"

definition find_user :: "string \<Rightarrow> int option \<Rightarrow> db \<Rightarrow> user_row result" where
  "find_user uid revision s =
     (case select_key u_id uid (users s) of
        None \<Rightarrow> Inl (ApiError ''not_found'' 404)
      | Some u \<Rightarrow> (case revision of
          Some r \<Rightarrow> if u_revision u \<noteq> r then Inl (ApiError ''revision_conflict'' 409) else Inr u
        | None \<Rightarrow> Inr u))"

definition list_users :: "crypto \<Rightarrow> time \<Rightarrow> time \<Rightarrow> principal \<Rightarrow> db \<Rightarrow> admin_user list result \<times> db" where
  "list_users c now0 now1 actor s =
     admin_read c now0 now1 actor (\<lambda>s.
       Inr (map admin_public_user
              (take MAX_USERS (sort_key (\<lambda>u. (u_username u, u_id u)) (users s))))) s"

record create_user_request =
  cr_username :: string
  cr_role :: role
  cr_initial_password :: string

definition create_user_body :: "time \<Rightarrow> string \<Rightarrow> string \<Rightarrow> create_user_request \<Rightarrow> (db, admin_user) tx" where
  "create_user_body now uid encoded body s =
     (if length (users s) \<ge> MAX_USERS then Inl (ApiError ''user_limit_reached'' 409)
      else if lower (cr_username body) \<in> u_username ` set (users s)
      then Inl (ApiError ''username_unavailable'' 409)
      else bind_res
        (insert_user \<lparr>u_id = uid, u_username = lower (cr_username body), u_role = cr_role body,
                      u_password_hash = encoded, u_must_change_password = True,
                      u_created_at = now, u_disabled = False, u_revision = 1\<rparr> s)
        (\<lambda>s'. bind_res (find_user uid None s') (\<lambda>u. Inr (admin_public_user u, s'))))"

definition create_user :: "crypto \<Rightarrow> nat \<Rightarrow> string \<Rightarrow> string \<Rightarrow> time \<Rightarrow> time \<Rightarrow> time \<Rightarrow> time \<Rightarrow> principal
    \<Rightarrow> create_user_request \<Rightarrow> db \<Rightarrow> admin_user result \<times> db" where
  "create_user c slots salt uid now0 now1 now2 now3 actor body s0 =
     (case write_limit c now0 actor s0 of
        (Inl e, s) \<Rightarrow> (Inl e, s)
      | (Inr _, s) \<Rightarrow>
         (case hash_password c slots salt (cr_initial_password body) of
            Inl e \<Rightarrow> (Inl e, s)
          | Inr encoded \<Rightarrow>
              mutation now1 now3 actor Create (Some uid) (create_user_body now2 uid encoded body) s))"

record update_user_request =
  ur_expected_revision :: int
  ur_role :: "role option"
  ur_disabled :: "bool option"

definition revoke_user :: "time \<Rightarrow> string \<Rightarrow> db \<Rightarrow> db" where
  "revoke_user now uid s = revoke_where (\<lambda>f. f_user_id f = uid \<and> f_revoked_at f = None) now s"

definition active_admin :: "user_row \<Rightarrow> bool" where
  "active_admin u = (u_role u = Admin \<and> \<not> u_disabled u)"

definition update_user_body :: "time \<Rightarrow> string \<Rightarrow> update_user_request \<Rightarrow> (db, admin_user) tx" where
  "update_user_body now uid body s =
     bind_res (find_user uid (Some (ur_expected_revision body)) s) (\<lambda>row.
       let role = (case ur_role body of Some r \<Rightarrow> r | None \<Rightarrow> u_role row);
           disabled = (case ur_disabled body of Some d \<Rightarrow> d | None \<Rightarrow> u_disabled row)
       in if u_role row = Admin \<and> \<not> u_disabled row \<and> (role \<noteq> Admin \<or> disabled)
             \<and> count_where active_admin (users s) \<le> 1
          then Inl (ApiError ''last_active_admin'' 409)
          else let s' = (if role \<noteq> u_role row \<or> disabled \<noteq> u_disabled row
                         then revoke_user now uid
                                (update_users (\<lambda>u. u_id u = uid)
                                  (\<lambda>u. u\<lparr>u_role := role, u_disabled := disabled,
                                          u_revision := u_revision u + 1\<rparr>) s)
                         else s)
               in bind_res (find_user uid None s') (\<lambda>u. Inr (admin_public_user u, s')))"

definition update_user :: "crypto \<Rightarrow> time \<Rightarrow> time \<Rightarrow> time \<Rightarrow> time \<Rightarrow> principal \<Rightarrow> string
    \<Rightarrow> update_user_request \<Rightarrow> db \<Rightarrow> admin_user result \<times> db" where
  "update_user c now0 now1 now2 now3 actor uid body s0 =
     (case write_limit c now0 actor s0 of
        (Inl e, s) \<Rightarrow> (Inl e, s)
      | (Inr _, s) \<Rightarrow> mutation now1 now3 actor Update (Some uid) (update_user_body now2 uid body) s)"

record reset_password_request =
  rr_expected_revision :: int
  rr_temporary_password :: string

definition reset_password_body :: "time \<Rightarrow> string \<Rightarrow> string \<Rightarrow> reset_password_request
    \<Rightarrow> (db, admin_user) tx" where
  "reset_password_body now uid encoded body s =
     bind_res (find_user uid (Some (rr_expected_revision body)) s) (\<lambda>_.
       let s' = revoke_user now uid
                  (update_users (\<lambda>u. u_id u = uid)
                    (\<lambda>u. u\<lparr>u_password_hash := encoded, u_must_change_password := True,
                            u_revision := u_revision u + 1\<rparr>) s)
       in bind_res (find_user uid None s') (\<lambda>u. Inr (admin_public_user u, s')))"

definition reset_password :: "crypto \<Rightarrow> nat \<Rightarrow> string \<Rightarrow> time \<Rightarrow> time \<Rightarrow> time \<Rightarrow> time \<Rightarrow> principal \<Rightarrow> string
    \<Rightarrow> reset_password_request \<Rightarrow> db \<Rightarrow> admin_user result \<times> db" where
  "reset_password c slots salt now0 now1 now2 now3 actor uid body s0 =
     (case write_limit c now0 actor s0 of
        (Inl e, s) \<Rightarrow> (Inl e, s)
      | (Inr _, s) \<Rightarrow>
         if p_id actor = uid
         then mutation now1 now3 actor ResetPassword (Some uid)
                (\<lambda>_. Inl (ApiError ''self_password_reset_forbidden'' 403)) s
         else (case hash_password c slots salt (rr_temporary_password body) of
                 Inl e \<Rightarrow> (Inl e, s)
               | Inr encoded \<Rightarrow>
                   mutation now1 now3 actor ResetPassword (Some uid)
                     (reset_password_body now2 uid encoded body) s))"

definition revoke_session_body :: "time \<Rightarrow> string \<Rightarrow> (db, unit) tx" where
  "revoke_session_body now fid s =
     (case select_key f_id fid (session_families s) of
        None \<Rightarrow> Inl (ApiError ''not_found'' 404)
      | Some _ \<Rightarrow> Inr ((), revoke_where (\<lambda>f. f_id f = fid \<and> f_revoked_at f = None) now s))"

definition revoke_session :: "crypto \<Rightarrow> time \<Rightarrow> time \<Rightarrow> time \<Rightarrow> time \<Rightarrow> principal \<Rightarrow> string \<Rightarrow> db
    \<Rightarrow> unit result \<times> db" where
  "revoke_session c now0 now1 now2 now3 actor fid s0 =
     (case write_limit c now0 actor s0 of
        (Inl e, s) \<Rightarrow> (Inl e, s)
      | (Inr _, s) \<Rightarrow> mutation now1 now3 actor Revoke (Some fid) (revoke_session_body now2 fid) s)"

subsection \<open>Paged listings\<close>

datatype session_status = SRevoked | SExpired | SActive

record session_view =
  sv_id :: string
  sv_user_id :: string
  sv_device_name :: string
  sv_created_at :: time
  sv_expires_at :: time
  sv_revoked_at :: "time option"
  sv_status :: session_status

definition session_of :: "time \<Rightarrow> family_row \<Rightarrow> session_view" where
  "session_of now f =
     \<lparr>sv_id = f_id f, sv_user_id = f_user_id f, sv_device_name = f_device_name f,
      sv_created_at = f_created_at f, sv_expires_at = f_expires_at f,
      sv_revoked_at = f_revoked_at f,
      sv_status = (if f_revoked_at f \<noteq> None then SRevoked
                   else if now \<ge> f_expires_at f then SExpired else SActive)\<rparr>"

definition family_order :: "family_row \<Rightarrow> time \<times> string" where
  "family_order f = (f_created_at f, f_id f)"

definition descending :: "('r \<Rightarrow> 'm::linorder) \<Rightarrow> 'r list \<Rightarrow> 'r list" where
  "descending m rows = rev (sort_key m rows)"

definition page :: "nat \<Rightarrow> ('r \<Rightarrow> 'v) \<Rightarrow> ('r \<Rightarrow> 'k) \<Rightarrow> 'r list \<Rightarrow> 'v list \<times> 'k option" where
  "page limit view key rows =
     (map view (take limit rows),
      if length rows > limit then Some (key (rows ! (limit - 1))) else None)"

text \<open>\<open>if user_id:\<close> and \<open>if cursor:\<close> treat an empty string as absent.\<close>

definition truthy :: "string option \<Rightarrow> string option" where
  "truthy x = (case x of Some [] \<Rightarrow> None | _ \<Rightarrow> x)"

definition sessions_query :: "string option \<Rightarrow> string option \<Rightarrow> db \<Rightarrow> family_row list result" where
  "sessions_query user_id cursor s =
     bind_res (case user_id of
         Some uid \<Rightarrow> bind_res (find_user uid None s) (\<lambda>_. Inr (\<lambda>f. f_user_id f = uid))
       | None \<Rightarrow> Inr (\<lambda>_. True)) (\<lambda>mine.
     bind_res (case cursor of
         Some cur \<Rightarrow>
           (case select_key f_id cur (session_families s) of
              None \<Rightarrow> Inl (ApiError ''invalid_request'' 400)
            | Some anchor \<Rightarrow>
                if (case user_id of Some uid \<Rightarrow> f_user_id anchor \<noteq> uid | None \<Rightarrow> False)
                then Inl (ApiError ''invalid_request'' 400)
                else Inr (\<lambda>f. f_created_at f < f_created_at anchor
                            \<or> f_created_at f = f_created_at anchor \<and> f_id f < cur))
       | None \<Rightarrow> Inr (\<lambda>_. True)) (\<lambda>before.
     Inr (descending family_order (filter (\<lambda>f. mine f \<and> before f) (session_families s)))))"

definition sessions :: "crypto \<Rightarrow> time \<Rightarrow> time \<Rightarrow> time \<Rightarrow> principal \<Rightarrow> string option \<Rightarrow> string option \<Rightarrow> nat
    \<Rightarrow> db \<Rightarrow> (session_view list \<times> string option) result \<times> db" where
  "sessions c now0 now1 now2 actor user_id cursor limit s =
     admin_read c now0 now1 actor (\<lambda>s.
       bind_res (sessions_query (truthy user_id) (truthy cursor) s) (\<lambda>rows.
         Inr (page limit (session_of now2) f_id (take (limit + 1) rows)))) s"

definition audit :: "crypto \<Rightarrow> time \<Rightarrow> time \<Rightarrow> principal \<Rightarrow> int option \<Rightarrow> nat \<Rightarrow> db
    \<Rightarrow> (audit_row list \<times> int option) result \<times> db" where
  "audit c now0 now1 actor cursor limit s =
     admin_read c now0 now1 actor (\<lambda>s.
       let top = (case cursor of Some k \<Rightarrow> k | None \<Rightarrow> 2 ^ 63 - 1);
           rows = descending a_id (filter (\<lambda>a. a_id a < top) (admin_audit s))
       in Inr (page limit id a_id (take (limit + 1) rows))) s"


section \<open>The invariant\<close>

lemma record_audit_inv: "db_inv s \<Longrightarrow> db_inv (record_audit now actor act tgt stt s)"
proof -
  assume inv: "db_inv s"
  let ?row = "\<lparr>a_id = audit_sequence s + 1, a_event = fst (action_event act),
                 a_action = action_name act, a_object = snd (action_event act),
                 a_status = stt, a_timestamp = now, a_actor_id = p_id actor,
                 a_target_id = tgt\<rparr>"
  have "unique_on a_id (admin_audit s @ [?row])"
    using inv by (fastforce simp: inv_defs unique_on_append_single)
  moreover have "\<forall>a \<in> set (admin_audit s @ [?row]). a_id a \<le> audit_sequence s + 1"
    using inv by (fastforce simp: inv_defs)
  ultimately have "audit_inv (record_audit now actor act tgt stt s)"
    using keep_newest_subset [of MAX_AUDIT_EVENTS a_id a_id "admin_audit s @ [?row]"]
    by (auto simp: record_audit_def audit_inv_def Let_def keep_newest_unique)
  with inv show ?thesis by (simp add: record_audit_def inv_defs Let_def)
qed

lemma mutation_cases:
  assumes "mutation now now2 actor act tgt body s = (r, s')"
  obtains (refused) e where "assert_admin now actor s = Inl e" "r = Inl e" "s' = s"
  | (raised) e where "body s = Inl e" "r = Inl e" "s' = s"
  | (denied) e where "assert_admin now actor s = Inr ()" "body s = Inl e" "r = Inl e"
      "s' = record_audit now2 actor act tgt Denied s"
  | (succeeded) v t where "assert_admin now actor s = Inr ()" "body s = Inr (v, t)" "r = Inr v"
      "s' = record_audit now2 actor act tgt Success t"
proof (cases "assert_admin now actor s")
  case (Inl e)
  then have "r = Inl e" "s' = s"
    using assms by (simp_all add: mutation_def guarded_def transaction_def)
  with Inl show ?thesis by (rule refused)
next
  case (Inr u)
  show ?thesis
  proof (cases "body s")
    case (Inl e)
    have "r = Inl e" "s' = s \<or> s' = record_audit now2 actor act tgt Denied s"
      using assms Inl \<open>assert_admin now actor s = Inr u\<close>
      by (cases e; simp add: mutation_def guarded_def transaction_def mutation_body_def)+
    with Inl Inr raised denied show ?thesis by auto
  next
    case (Inr vt)
    obtain v t where vt: "vt = (v, t)" by fastforce
    have "r = Inr v" "s' = record_audit now2 actor act tgt Success t"
      using assms Inr vt \<open>assert_admin now actor s = Inr u\<close>
      by (simp_all add: mutation_def guarded_def transaction_def mutation_body_def)
    with Inr vt \<open>assert_admin now actor s = Inr u\<close> show ?thesis
      by (intro succeeded) simp_all
  qed
qed

lemma mutation_preserves:
  assumes "P s" and "\<And>v t. body s = Inr (v, t) \<Longrightarrow> P t"
    and "\<And>now stt t. P t \<Longrightarrow> P (record_audit now actor act tgt stt t)"
  shows "P (snd (mutation now now2 actor act tgt body s))"
  using assms by (cases "mutation now now2 actor act tgt body s" rule: prod.exhaust)
    (auto elim!: mutation_cases)

lemma revoke_user_inv: "db_inv s \<Longrightarrow> db_inv (revoke_user now uid s)"
  by (simp add: revoke_user_def revoke_where_inv)

lemma create_user_body_inv:
  "create_user_body now uid enc b s = Inr (v, t) \<Longrightarrow> db_inv s \<Longrightarrow> db_inv t"
  by (auto simp: create_user_body_def bind_res_Inr_iff dest: insert_user_inv split: if_splits)

lemma update_user_body_inv:
  "update_user_body now uid b s = Inr (v, t) \<Longrightarrow> db_inv s \<Longrightarrow> db_inv t"
  by (auto simp: update_user_body_def bind_res_Inr_iff Let_def
      intro!: revoke_user_inv update_users_inv split: if_splits)

lemma reset_password_body_inv:
  "reset_password_body now uid enc b s = Inr (v, t) \<Longrightarrow> db_inv s \<Longrightarrow> db_inv t"
  by (auto simp: reset_password_body_def bind_res_Inr_iff Let_def
      intro!: revoke_user_inv update_users_inv)

lemma revoke_session_body_inv:
  "revoke_session_body now fid s = Inr (v, t) \<Longrightarrow> db_inv s \<Longrightarrow> db_inv t"
  by (auto simp: revoke_session_body_def revoke_where_inv split: option.splits)

lemma write_limit_inv: "write_limit c now actor s = (r, s') \<Longrightarrow> db_inv s \<Longrightarrow> db_inv s'"
  unfolding write_limit_def by (rule rate_limit_inv)

lemma create_user_inv:
  assumes "db_inv s"
  shows "db_inv (snd (create_user c sl salt uid n0 n1 n2 n3 actor b s))"
  using assms
  by (auto simp: create_user_def split: prod.splits sum.splits dest!: write_limit_inv
      intro!: mutation_preserves [where P = db_inv] record_audit_inv intro: create_user_body_inv)

lemma update_user_inv:
  assumes "db_inv s"
  shows "db_inv (snd (update_user c n0 n1 n2 n3 actor uid b s))"
  using assms
  by (auto simp: update_user_def split: prod.splits sum.splits dest!: write_limit_inv
      intro!: mutation_preserves [where P = db_inv] record_audit_inv intro: update_user_body_inv)

lemma reset_password_inv:
  assumes "db_inv s"
  shows "db_inv (snd (reset_password c sl salt n0 n1 n2 n3 actor uid b s))"
  using assms
  by (auto simp: reset_password_def split: prod.splits sum.splits dest!: write_limit_inv
      intro!: mutation_preserves [where P = db_inv] record_audit_inv intro: reset_password_body_inv)

lemma revoke_session_inv:
  assumes "db_inv s"
  shows "db_inv (snd (revoke_session c n0 n1 n2 n3 actor fid s))"
  using assms
  by (auto simp: revoke_session_def split: prod.splits sum.splits dest!: write_limit_inv
      intro!: mutation_preserves [where P = db_inv] record_audit_inv intro: revoke_session_body_inv)

lemma admin_read_inv: "db_inv s \<Longrightarrow> db_inv (snd (admin_read c n0 n1 actor body s))"
  by (auto simp: admin_read_def split: prod.splits sum.splits dest!: rate_limit_inv)

section \<open>The last active administrator\<close>

definition has_admin :: "db \<Rightarrow> bool" where
  "has_admin s = (\<exists>u \<in> set (users s). active_admin u)"

lemma count_where_pos: "0 < count_where P rows \<longleftrightarrow> (\<exists>r \<in> set rows. P r)"
  by (simp add: count_where_def filter_empty_conv)

lemma update_user_body_admin:
  assumes "update_user_body now uid b s = Inr (v, t)" and inv: "db_inv s" and adm: "has_admin s"
  shows "has_admin t"
proof -
  obtain row where row: "find_user uid (Some (ur_expected_revision b)) s = Inr row"
    using assms(1) by (auto simp: update_user_body_def bind_res_Inr_iff)
  let ?role = "case ur_role b of Some r \<Rightarrow> r | None \<Rightarrow> u_role row"
  let ?dis = "case ur_disabled b of Some d \<Rightarrow> d | None \<Rightarrow> u_disabled row"
  let ?us = "update_where (\<lambda>u. u_id u = uid) (\<lambda>u. u\<lparr>u_role := ?role, u_disabled := ?dis,
      u_revision := u_revision u + 1\<rparr>) (users s)"
  have mem: "row \<in> set (users s)" "u_id row = uid"
    using row by (auto simp: find_user_def dest!: select_where_Some split: option.splits if_splits)
  have guard: "\<not> (active_admin row \<and> (?role \<noteq> Admin \<or> ?dis) \<and> count_where active_admin (users s) \<le> 1)"
    and t: "users t = users s \<or> users t = ?us"
    using assms(1) row
    by (auto simp: update_user_body_def Let_def bind_res_Inr_iff revoke_user_def active_admin_def
        split: if_splits)
  have "\<exists>u \<in> set ?us. active_admin u"
  proof (cases "active_admin row \<and> (?role \<noteq> Admin \<or> ?dis)")
    case True
    with guard obtain w where "w \<in> set (users s)" "active_admin w" "u_id w \<noteq> uid"
      using count_where_other [OF db_invD(1) [OF inv]] by (metis linorder_not_le)
    then show ?thesis by (force simp: set_update_where)
  next
    case False
    obtain w where w: "w \<in> set (users s)" "active_admin w"
      using adm by (auto simp: has_admin_def)
    let ?w = "if u_id w = uid then w\<lparr>u_role := ?role, u_disabled := ?dis,
      u_revision := u_revision w + 1\<rparr> else w"
    have "?w \<in> set ?us" using w(1) by (simp add: set_update_where)
    moreover have "active_admin ?w"
      using w False mem unique_on_inj [OF db_invD(1) [OF inv] w(1) mem(1)]
      by (auto simp: active_admin_def)
    ultimately show ?thesis by blast
  qed
  with t adm show ?thesis by (auto simp: has_admin_def)
qed


lemma users_rate_frame:
  "rate_limit c now sec cats s = (r, s') \<Longrightarrow> users s' = users s \<and> session_families s' = session_families s
    \<and> session_tokens s' = session_tokens s \<and> admin_audit s' = admin_audit s
    \<and> audit_sequence s' = audit_sequence s \<and> vaults s' = vaults s"
  by (drule rate_limit_frame(1)) (metis db.select_convs db.surjective db.update_convs(4))

lemma record_audit_frame [simp]:
  "users (record_audit now actor act tgt stt s) = users s"
  "session_families (record_audit now actor act tgt stt s) = session_families s"
  "session_tokens (record_audit now actor act tgt stt s) = session_tokens s"
  "audit_sequence (record_audit now actor act tgt stt s) = audit_sequence s + 1"
  by (simp_all add: record_audit_def Let_def)

lemma has_admin_cong: "users s = users t \<Longrightarrow> has_admin s = has_admin t"
  by (simp add: has_admin_def)

text \<open>The last active administrator. No account update, whatever it asks for and
  whether or not it is granted, leaves a database without an enabled administrator.\<close>

theorem update_user_keeps_an_admin:
  assumes "db_inv s" and "has_admin s"
  shows "has_admin (snd (update_user c n0 n1 n2 n3 actor uid b s))"
proof -
  obtain r s1 where s1: "write_limit c n0 actor s = (r, s1)" by fastforce
  have inv: "db_inv s1" by (rule write_limit_inv [OF s1 assms(1)])
  have adm: "has_admin s1"
    using assms(2) users_rate_frame [OF s1 [unfolded write_limit_def]] by (metis has_admin_cong)
  have "has_admin (snd (mutation n1 n3 actor Update (Some uid) (update_user_body n2 uid b) s1))"
    by (rule mutation_preserves [where P = has_admin])
      (auto simp: has_admin_def [of "record_audit _ _ _ _ _ _"] has_admin_def [symmetric]
        intro: adm update_user_body_admin [OF _ inv adm])
  with adm show ?thesis by (auto simp: update_user_def s1 split: sum.split)
qed

text \<open>Non-administrators. An account mutation attempted by a principal whose role is not
  administrator, or who still has to change the password, fails and changes nothing but the
  rate table: no account, no session, no audit row.\<close>

theorem update_user_needs_admin:
  assumes "p_role actor \<noteq> Admin \<or> p_must_change_password actor"
    and "update_user c n0 n1 n2 n3 actor uid b s = (r, s')"
  shows "isl r \<and> s' = s\<lparr>rate_limits := rate_limits s'\<rparr>"
proof -
  obtain r1 s1 where s1: "write_limit c n0 actor s = (r1, s1)" by fastforce
  have fr: "s1 = s\<lparr>rate_limits := rate_limits s1\<rparr>"
    using rate_limit_frame(1) [OF s1 [unfolded write_limit_def]] .
  show ?thesis
  proof (cases r1)
    case (Inl e)
    with assms(2) s1 fr show ?thesis by (auto simp: update_user_def)
  next
    case (Inr x)
    with assms(2) s1 have m: "mutation n1 n3 actor Update (Some uid) (update_user_body n2 uid b) s1 = (r, s')"
      by (simp add: update_user_def)
    have "\<exists>e. assert_admin n1 actor s1 = Inl e"
      using assms(1) by (cases "assert_current n1 actor s1") (auto simp: assert_admin_def)
    then have "isl r \<and> s' = s1"
      using m by (auto simp: mutation_def guarded_def transaction_def)
    with fr show ?thesis by metis
  qed
qed

lemma find_user_Inr:
  "find_user uid r s = Inr u \<Longrightarrow> u \<in> set (users s) \<and> u_id u = uid"
  by (auto simp: find_user_def dest!: select_where_Some split: option.splits if_splits)

lemma revoke_user_revokes:
  assumes "f \<in> set (session_families (revoke_user now uid s))" and "f_user_id f = uid"
  shows "f_revoked_at f \<noteq> None"
proof -
  obtain g where "f = (if f_user_id g = uid \<and> f_revoked_at g = None
      then g\<lparr>f_revoked_at := Some now\<rparr> else g)"
    using update_where_member assms(1) by (fastforce simp: revoke_user_def revoke_where_def)
  then show ?thesis using assms(2) by (auto split: if_splits)
qed

lemma find_user_Inl: "find_user uid r s = Inl e \<Longrightarrow> \<exists>code status. e = ApiError code status"
  by (auto simp: find_user_def split: option.splits if_splits)

text \<open>Role changes and deactivation end sessions. When an update changes the role or the
  disabled flag of an account, no access token issued before authenticates as that account
  afterwards.\<close>

theorem update_user_ends_sessions:
  assumes "update_user c n0 n1 n2 n3 actor uid b s = (Inr view, s')"
    and old: "u \<in> set (users s)" "u_id u = uid" and inv: "db_inv s"
    and changed: "au_role view \<noteq> u_role u \<or> au_disabled view \<noteq> u_disabled u"
  shows "authenticate c now access s' = Inr p \<Longrightarrow> p_id p \<noteq> uid"
proof -
  obtain r1 s1 where s1: "write_limit c n0 actor s = (r1, s1)" by fastforce
  have eq: "users s1 = users s" and inv1: "db_inv s1"
    using users_rate_frame [OF s1 [unfolded write_limit_def]] write_limit_inv [OF s1 inv] by auto
  have m: "mutation n1 n3 actor Update (Some uid) (update_user_body n2 uid b) s1 = (Inr view, s')"
    using assms(1) s1 by (auto simp: update_user_def split: sum.splits)
  obtain t where body: "update_user_body n2 uid b s1 = Inr (view, t)"
    and s': "s' = record_audit n3 actor Update (Some uid) Success t"
    by (rule mutation_cases [OF m]) auto
  obtain row where row: "find_user uid (Some (ur_expected_revision b)) s1 = Inr row"
    using body by (auto simp: update_user_body_def bind_res_Inr_iff)
  have "row = u"
    using find_user_Inr [OF row] old eq unique_on_inj [OF db_invD(1) [OF inv1]] by auto
  have "t \<noteq> s1"
  proof
    assume "t = s1"
    then have "find_user uid None s1 = Inr row"
      using row by (auto simp: find_user_def split: option.splits if_splits)
    with body \<open>t = s1\<close> have "view = admin_public_user row"
      by (auto simp: update_user_body_def Let_def bind_res_Inr_iff split: if_splits)
    with changed \<open>row = u\<close> show False by (simp add: admin_public_user_def)
  qed
  then have "\<exists>g. t = revoke_user n2 uid (update_users (\<lambda>u. u_id u = uid) g s1)"
    using body by (auto simp: update_user_body_def Let_def bind_res_Inr_iff split: if_splits)
  then have dead: "f \<in> set (session_families s') \<Longrightarrow> f_user_id f = uid \<Longrightarrow> f_revoked_at f \<noteq> None" for f
    by (metis s' record_audit_frame(2) revoke_user_revokes)
  show "authenticate c now access s' = Inr p \<Longrightarrow> p_id p \<noteq> uid"
    by (elim authenticateD) (metis dead session_open_def)
qed

text \<open>An update is answered with the account as it is stored.\<close>

lemma update_user_answer:
  assumes "update_user c n0 n1 n2 n3 actor uid b s = (Inr view, s')"
  obtains u where "select_key u_id uid (users s') = Some u" "admin_public_user u = view"
proof -
  obtain r1 s1 where s1: "write_limit c n0 actor s = (r1, s1)" by fastforce
  have m: "mutation n1 n3 actor Update (Some uid) (update_user_body n2 uid b) s1 = (Inr view, s')"
    using assms s1 by (auto simp: update_user_def split: sum.splits)
  obtain t where body: "update_user_body n2 uid b s1 = Inr (view, t)"
    and s': "s' = record_audit n3 actor Update (Some uid) Success t"
    by (rule mutation_cases [OF m]) auto
  have "\<exists>u. find_user uid None t = Inr u \<and> admin_public_user u = view"
    using body by (auto simp: update_user_body_def Let_def bind_res_Inr_iff split: if_splits)
  then show thesis using that by (auto simp: find_user_def s' record_audit_frame split: option.splits)
qed

lemma audit_row_kept:
  assumes "db_inv s"
  shows "\<exists>row \<in> set (admin_audit (record_audit now actor act tgt stt s)).
    a_id row = audit_sequence s + 1 \<and> a_actor_id row = p_id actor
    \<and> a_target_id row = tgt \<and> a_action row = action_name act \<and> a_status row = stt"
    "length (admin_audit (record_audit now actor act tgt stt s)) \<le> 10000"
proof -
  let ?row = "\<lparr>a_id = audit_sequence s + 1, a_event = fst (action_event act),
                 a_action = action_name act, a_object = snd (action_event act),
                 a_status = stt, a_timestamp = now, a_actor_id = p_id actor,
                 a_target_id = tgt\<rparr>"
  let ?rows = "admin_audit s @ [?row]"
  have u: "unique_on a_id ?rows"
    and top: "\<forall>a \<in> set (admin_audit s). a_id a \<le> audit_sequence s"
    using assms by (fastforce simp: inv_defs unique_on_append_single)+
  have "?row \<in> set (keep_newest MAX_AUDIT_EVENTS a_id a_id ?rows)"
    using top by (intro keep_newest_max [OF u]) (auto simp: MAX_AUDIT_EVENTS_def)
  then show "\<exists>row \<in> set (admin_audit (record_audit now actor act tgt stt s)).
    a_id row = audit_sequence s + 1 \<and> a_actor_id row = p_id actor
    \<and> a_target_id row = tgt \<and> a_action row = action_name act \<and> a_status row = stt"
    by (intro bexI [of _ ?row]) (simp_all add: record_audit_def Let_def)
  show "length (admin_audit (record_audit now actor act tgt stt s)) \<le> 10000"
    using keep_newest_length [OF u, of MAX_AUDIT_EVENTS a_id]
    by (simp add: record_audit_def Let_def MAX_AUDIT_EVENTS_def)
qed


lemma audit_frame:
  "audit_sequence (revoke_user now uid s) = audit_sequence s"
  "audit_sequence (update_users P g s) = audit_sequence s"
  by (simp_all add: revoke_user_def revoke_where_def update_users_def)

text \<open>The audit trail. Once the actor passed the administrator check, an account update
  leaves exactly one new audit row, numbered one past the last one ever written, that names
  the actor and the target and says whether the change was applied; a denied change leaves
  accounts and sessions untouched, and at most ten thousand rows are kept.\<close>

theorem update_user_audited:
  assumes inv: "db_inv s" and wl: "write_limit c n0 actor s = (Inr (), s1)"
    and adm: "assert_admin n1 actor s1 = Inr ()"
    and run: "update_user c n0 n1 n2 n3 actor uid b s = (r, s')"
  shows "audit_sequence s' = audit_sequence s + 1
    \<and> (\<exists>row \<in> set (admin_audit s'). a_id row = audit_sequence s + 1 \<and> a_actor_id row = p_id actor
          \<and> a_target_id row = Some uid \<and> a_action row = ''update''
          \<and> a_status row = (if isl r then Denied else Success))
    \<and> length (admin_audit s') \<le> 10000
    \<and> (isl r \<longrightarrow> users s' = users s \<and> session_families s' = session_families s)"
proof -
  have fr: "users s1 = users s" "session_families s1 = session_families s"
    "audit_sequence s1 = audit_sequence s"
    using users_rate_frame [OF wl [unfolded write_limit_def]] by auto
  have inv1: "db_inv s1" by (rule write_limit_inv [OF wl inv])
  have api: "update_user_body n2 uid b s1 = Inl e \<Longrightarrow> \<exists>code status. e = ApiError code status" for e
    by (auto simp: update_user_body_def bind_res_Inl_iff Let_def dest: find_user_Inl split: if_splits)
  have seq: "update_user_body n2 uid b s1 = Inr (v, t) \<Longrightarrow> audit_sequence t = audit_sequence s1" for v t
    by (auto simp: update_user_body_def Let_def bind_res_Inr_iff audit_frame split: if_splits)
  show ?thesis
  proof (cases "update_user_body n2 uid b s1")
    case (Inl e)
    with api obtain code status where "e = ApiError code status" by blast
    with run wl adm Inl have "r = Inl e" "s' = record_audit n3 actor Update (Some uid) Denied s1"
      by (simp_all add: update_user_def mutation_def guarded_def transaction_def mutation_body_def)
    with fr audit_row_kept [OF inv1, of n3 actor Update "Some uid" Denied] show ?thesis by simp
  next
    case (Inr vt)
    obtain v t where vt: "vt = (v, t)" by fastforce
    have "r = Inr v" "s' = record_audit n3 actor Update (Some uid) Success t"
      using run wl adm Inr vt
      by (simp_all add: update_user_def mutation_def guarded_def transaction_def mutation_body_def)
    with fr seq [of v t] Inr vt update_user_body_inv [of n2 uid b s1 v t]
      audit_row_kept [of t n3 actor Update "Some uid" Success] inv1
    show ?thesis by simp
  qed
qed

section \<open>Paging\<close>

lemma filter_strictly_descending:
  fixes m :: "'r \<Rightarrow> 'm::linorder"
  assumes "sorted_wrt (\<lambda>a b. m b < m a) xs" and "k < length xs"
  shows "filter (\<lambda>r. m r < m (xs ! k)) xs = drop (Suc k) xs"
  using assms
proof (induction xs arbitrary: k)
  case (Cons x xs)
  show ?case
  proof (cases k)
    case 0
    with Cons.prems show ?thesis by (auto simp: filter_id_conv)
  next
    case (Suc j)
    with Cons.prems have "m (xs ! j) < m x" by simp
    then have "\<not> m x < m (xs ! j)" by simp
    with Suc Cons show ?thesis by simp
  qed
qed simp

lemma descending_strict:
  assumes "distinct (map m rows)"
  shows "sorted_wrt (\<lambda>a b. m b < m a) (descending m rows)"
proof -
  have "distinct (map m (sort_key m rows))"
    by (metis assms distinct_map distinct_sort set_sort)
  then have "sorted_wrt (<) (map m (sort_key m rows))"
    by (simp add: strict_sorted_iff)
  then show ?thesis by (simp add: descending_def sorted_wrt_rev sorted_wrt_map)
qed

lemma descending_filter: "descending m (filter P rows) = filter P (descending m rows)"
  by (simp add: descending_def rev_filter flip: filter_sort)

lemma descending_after:
  assumes "distinct (map m rows)" and "k < length (descending m rows)"
  shows "descending m (filter (\<lambda>r. m r < m (descending m rows ! k)) rows) = drop (Suc k) (descending m rows)"
  using filter_strictly_descending [OF descending_strict [OF assms(1)] assms(2)]
  by (simp add: descending_filter)

lemma set_descending [simp]: "set (descending m rows) = set rows"
  by (simp add: descending_def)

text \<open>Session paging. The page that starts at a cursor continues the listing exactly
  after the session the cursor names: nothing is skipped and nothing is repeated.\<close>

theorem sessions_cursor_resumes:
  assumes inv: "db_inv s" and all: "sessions_query user_id None s = Inr all" and k: "k < length all"
  shows "sessions_query user_id (Some (f_id (all ! k))) s = Inr (drop (Suc k) all)"
proof -
  let ?mine = "\<lambda>f. case user_id of Some uid \<Rightarrow> f_user_id f = uid | None \<Rightarrow> True"
  let ?rows = "filter ?mine (session_families s)"
  let ?x = "all ! k"
  have all': "all = descending family_order ?rows"
    using all by (auto simp: sessions_query_def bind_res_Inr_iff split: option.splits)
  have "?x \<in> set ?rows" using k all' by (metis nth_mem set_descending)
  then have x: "?x \<in> set (session_families s)" "?mine ?x" by auto
  have sel: "select_key f_id (f_id ?x) (session_families s) = Some ?x"
    by (rule select_key_unique [OF db_invD(3) [OF inv] x(1)])
  have "inj_on family_order (set (session_families s))"
    using unique_on_inj [OF db_invD(3) [OF inv]] by (auto simp: inj_on_def family_order_def)
  moreover have "distinct (session_families s)"
    using db_invD(3) [OF inv] by (simp add: unique_on_def distinct_map)
  ultimately have "distinct (map family_order ?rows)"
    by (auto simp: distinct_map intro: inj_on_subset)
  then have "descending family_order (filter (\<lambda>f. family_order f < family_order ?x) ?rows)
      = drop (Suc k) all"
    using descending_after [of family_order ?rows k] k all' by simp
  moreover have "(\<lambda>f. ?mine f \<and> (f_created_at f < f_created_at ?x
      \<or> f_created_at f = f_created_at ?x \<and> f_id f < f_id ?x))
      = (\<lambda>f. ?mine f \<and> family_order f < family_order ?x)"
    by (auto simp: family_order_def less_prod_def)
  ultimately show ?thesis
    using all sel x(2) by (cases user_id) (simp_all add: sessions_query_def bind_res_Inr_iff conj_commute)
qed

section \<open>A concrete administration\<close>

definition demo_update :: "principal \<Rightarrow> string \<Rightarrow> role option \<Rightarrow> bool option \<Rightarrow> admin_user result \<times> db" where
  "demo_update actor uid r d = update_user demo_crypto 10 10 10 10 actor uid
     \<lparr>ur_expected_revision = 1, ur_role = r, ur_disabled = d\<rparr> demo_db"

lemma demo_has_admin: "has_admin demo_db"
  by (simp add: has_admin_def demo_defs active_admin_def)

theorem update_user_keeps_an_admin_witness:
  "fst (demo_update demo_principal ''u1'' (Some Member) None) = Inl (ApiError ''last_active_admin'' 409) \<and>
   has_admin (snd (demo_update demo_principal ''u1'' (Some Member) None))"
proof -
  have "fst (demo_update demo_principal ''u1'' (Some Member) None) = Inl (ApiError ''last_active_admin'' 409)"
    by code_simp
  with update_user_keeps_an_admin [OF demo_inv demo_has_admin] show ?thesis by (simp add: demo_update_def)
qed

theorem update_user_needs_admin_witness:
  "isl (fst (demo_update (demo_principal\<lparr>p_role := Member\<rparr>) ''u2'' None (Some True)))"
  using update_user_needs_admin [of "demo_principal\<lparr>p_role := Member\<rparr>", OF _ surjective_pairing]
  by (simp add: demo_update_def)

theorem update_user_ends_sessions_witness:
  "\<not> isl (authenticate demo_crypto 20 ''a2'' demo_db) \<and>
   (case authenticate demo_crypto 20 ''a2'' (snd (demo_update demo_principal ''u2'' None (Some True))) of
      Inl _ \<Rightarrow> True | Inr p \<Rightarrow> p_id p \<noteq> ''u2'')"
proof -
  have "case fst (demo_update demo_principal ''u2'' None (Some True)) of
      Inl _ \<Rightarrow> False | Inr v \<Rightarrow> au_disabled v" by code_simp
  then obtain v where v: "demo_update demo_principal ''u2'' None (Some True)
      = (Inr v, snd (demo_update demo_principal ''u2'' None (Some True)))" "au_disabled v"
    by (metis (no_types, lifting) prod.collapse sum.case_eq_if sum.collapse(2))
  have u: "demo_member \<in> set (users demo_db)" "u_id demo_member = ''u2''" "\<not> u_disabled demo_member"
    by (simp_all add: demo_defs)
  have "au_role v \<noteq> u_role demo_member \<or> au_disabled v \<noteq> u_disabled demo_member" using v(2) u(3) by simp
  note ends = update_user_ends_sessions [OF v(1) [unfolded demo_update_def] u(1,2) demo_inv this]
  have "\<not> isl (authenticate demo_crypto 20 ''a2'' demo_db)" by code_simp
  then show ?thesis using ends by (auto simp: demo_update_def split: sum.split)
qed

theorem update_user_audited_witness:
  "audit_sequence (snd (demo_update demo_principal ''u2'' None (Some True))) = 1"
proof -
  have "fst (write_limit demo_crypto 10 demo_principal demo_db) = Inr ()" by code_simp
  then have wl: "write_limit demo_crypto 10 demo_principal demo_db
      = (Inr (), snd (write_limit demo_crypto 10 demo_principal demo_db))" by (metis prod.collapse)
  have "assert_admin 10 demo_principal (snd (write_limit demo_crypto 10 demo_principal demo_db)) = Inr ()"
    by code_simp
  from update_user_audited [OF demo_inv wl this surjective_pairing, of 10 10 "''u2''"
      "\<lparr>ur_expected_revision = 1, ur_role = None, ur_disabled = Some True\<rparr>"]
  show ?thesis by (simp add: demo_update_def demo_db_def)
qed

theorem sessions_cursor_resumes_witness:
  "sessions_query None (Some ''f2'') demo_db = Inr [demo_family ''f1'' ''u1'']"
proof -
  have "sessions_query None None demo_db = Inr [demo_family ''f2'' ''u2'', demo_family ''f1'' ''u1'']"
    by code_simp
  from sessions_cursor_resumes [OF demo_inv this, of 0] show ?thesis by (simp add: demo_family_def)
qed

end
