(* ===== verification/Vault.thy ===== *)
theory Vault
  imports Auth_Sessions
begin

text \<open>
  The encrypted configuration vault: the whole of \<open>server/larenor_server/vault.py\<close>. A JSON
  document is a tree whose strings are lists of Unicode code points, so that the UTF-8 and
  UTF-16 lengths the code computes can be written out. AES-GCM, \<open>json.dumps\<close>,
  \<open>json.loads\<close> and \<open>datetime.fromisoformat\<close> are parameters.
\<close>

section \<open>JSON values\<close>

type_synonym codepoints = "nat list"

definition cp :: "string \<Rightarrow> codepoints" where
  "cp s = map of_char s"

datatype pyfloat = Finite rat | NonFinite

datatype json =
    JNull
  | JBool bool
  | JInt int
  | JFloat pyfloat
  | JStr codepoints
  | JArr "json list"
  | JObj "(codepoints \<times> json) list"
  | JOther

text \<open>UTF-8 and UTF-16 lengths; a surrogate code point cannot be encoded.\<close>

definition surrogate :: "nat \<Rightarrow> bool" where
  "surrogate n = (0xD800 \<le> n \<and> n \<le> 0xDFFF)"

definition utf8_length :: "codepoints \<Rightarrow> nat option" where
  "utf8_length s =
     (if list_ex surrogate s then None
      else Some (sum_list (map (\<lambda>n. if n < 0x80 then 1 else if n < 0x800 then 2
                                   else if n < 0x10000 then 3 else 4) s)))"

definition utf16_length :: "codepoints \<Rightarrow> nat option" where
  "utf16_length s =
     (if list_ex surrogate s then None
      else Some (sum_list (map (\<lambda>n. if n < 0x10000 then 1 else 2) s)))"

section \<open>Bounds\<close>

abbreviation invalid_request :: error where "invalid_request \<equiv> ApiError400 ''invalid_request''"

definition MAX_DEPTH :: nat where "MAX_DEPTH = 16"
definition MAX_NODES :: nat where "MAX_NODES = 40000"
definition MAX_KEYS :: nat where "MAX_KEYS = 10000"
definition MAX_ITEMS :: nat where "MAX_ITEMS = 10000"
definition MAX_STRING :: nat where "MAX_STRING = 65536"

definition check_string :: "codepoints \<Rightarrow> unit result" where
  "check_string s =
     (case utf8_length s of
        None \<Rightarrow> Inl UnicodeError
      | Some n \<Rightarrow> if n > MAX_STRING then Inl invalid_request else Inr ())"

fun check_keys :: "codepoints list \<Rightarrow> unit result" where
  "check_keys [] = Inr ()"
| "check_keys (k # ks) = bind_res (check_string k) (\<lambda>_. check_keys ks)"

text \<open>What popping one item does: the children to push (in the order the code appends
  them) and the number of keys counted so far.\<close>

fun expand :: "json \<Rightarrow> nat \<Rightarrow> (json list \<times> nat) result" where
  "expand (JObj kvs) keys =
     (if keys + length kvs > MAX_KEYS then Inl invalid_request
      else bind_res (check_keys (map fst kvs)) (\<lambda>_. Inr (map snd kvs, keys + length kvs)))"
| "expand (JArr xs) keys = (if length xs > MAX_ITEMS then Inl invalid_request else Inr (xs, keys))"
| "expand (JStr s) keys = bind_res (check_string s) (\<lambda>_. Inr ([], keys))"
| "expand (JFloat NonFinite) keys = Inl invalid_request"
| "expand (JFloat (Finite _)) keys = Inr ([], keys)"
| "expand JOther keys = Inl invalid_request"
| "expand _ keys = Inr ([], keys)"

fun json_nodes :: "json \<Rightarrow> nat" where
  "json_nodes (JArr xs) = Suc (sum_list (map json_nodes xs))"
| "json_nodes (JObj kvs) = Suc (sum_list (map (json_nodes \<circ> snd) kvs))"
| "json_nodes _ = 1"

lemma json_nodes_pos: "0 < json_nodes v"
  by (cases v) simp_all

lemma expand_nodes: "expand v keys = Inr (xs, keys') \<Longrightarrow> json_nodes v = Suc (sum_list (map json_nodes xs))"
  by (induction v keys rule: expand.induct)
    (auto simp: bind_res_Inr_iff split: if_splits)

text \<open>The explicit stack of the source, its top first.\<close>

function walk :: "(json \<times> nat) list \<Rightarrow> nat \<Rightarrow> nat \<Rightarrow> unit result" where
  "walk [] keys nodes = Inr ()"
| "walk ((item, depth) # stack) keys nodes =
     (if depth > MAX_DEPTH \<or> nodes + 1 > MAX_NODES then Inl invalid_request
      else case expand item keys of
             Inl e \<Rightarrow> Inl e
           | Inr (children, keys') \<Rightarrow>
               walk (rev (map (\<lambda>c. (c, depth + 1)) children) @ stack) keys' (nodes + 1))"
  by pat_completeness auto
termination
  by (relation "measure (\<lambda>(stack, _, _). sum_list (map (json_nodes \<circ> fst) stack))")
    (auto simp: expand_nodes comp_def rev_map [symmetric])

definition validate_json_bounds :: "json \<Rightarrow> unit result" where
  "validate_json_bounds v = walk [(v, 1)] 0 0"

text \<open>The same loop cut off after a number of turns: \<open>None\<close> when the stack is not empty by then.\<close>

fun walk_within :: "nat \<Rightarrow> (json \<times> nat) list \<Rightarrow> nat \<Rightarrow> nat \<Rightarrow> unit result option" where
  "walk_within n [] keys nodes = Some (Inr ())"
| "walk_within 0 (x # stack) keys nodes = None"
| "walk_within (Suc n) ((item, depth) # stack) keys nodes =
     (if depth > MAX_DEPTH \<or> nodes + 1 > MAX_NODES then Some (Inl invalid_request)
      else case expand item keys of
             Inl e \<Rightarrow> Some (Inl e)
           | Inr (children, keys') \<Rightarrow>
               walk_within n (rev (map (\<lambda>c. (c, depth + 1)) children) @ stack) keys' (nodes + 1))"

section \<open>The document\<close>

record codec =
  iso_ok :: "codepoints \<Rightarrow> bool"
  dumps :: "json \<Rightarrow> string option"
  loads :: "string \<Rightarrow> json option"

definition get_field :: "string \<Rightarrow> (codepoints \<times> json) list \<Rightarrow> json" where
  "get_field k kvs = (case map_of kvs (cp k) of Some v \<Rightarrow> v | None \<Rightarrow> JNull)"

definition keys_are :: "string list \<Rightarrow> (codepoints \<times> json) list \<Rightarrow> bool" where
  "keys_are ks kvs = (set (map fst kvs) = set (map cp ks))"

definition has_key :: "string \<Rightarrow> (codepoints \<times> json) list \<Rightarrow> bool" where
  "has_key k kvs = (cp k \<in> set (map fst kvs))"

text \<open>\<open>[0-9a-f]{32}\<close> and \<open>sensor\.[a-z0-9_]+\<close> on code points.\<close>

definition hex32 :: "codepoints \<Rightarrow> bool" where
  "hex32 s = (length s = 32 \<and> list_all (\<lambda>n. (48 \<le> n \<and> n \<le> 57) \<or> (97 \<le> n \<and> n \<le> 102)) s)"

definition sensor_id :: "codepoints \<Rightarrow> bool" where
  "sensor_id s =
     (take 7 s = cp ''sensor.'' \<and> length s > 7 \<and>
      list_all (\<lambda>n. (97 \<le> n \<and> n \<le> 122) \<or> (48 \<le> n \<and> n \<le> 57) \<or> n = 95) (drop 7 s))"

definition control_free :: "codepoints \<Rightarrow> bool" where
  "control_free s = list_all (\<lambda>n. \<not> (n < 32 \<or> n = 127)) s"

definition validate_scope :: "json \<Rightarrow> bool" where
  "validate_scope scope =
     (case scope of
        JObj kvs \<Rightarrow>
          keys_are [''coreId'', ''homeId'', ''userId''] kvs \<and>
          (case (get_field ''coreId'' kvs, get_field ''homeId'' kvs, get_field ''userId'' kvs) of
             (JStr core, JStr home, JStr user) \<Rightarrow>
               hex32 core \<and> hex32 home \<and> user \<noteq> [] \<and> control_free user \<and>
               (case utf16_length user of None \<Rightarrow> False | Some n \<Rightarrow> n \<le> 128)
           | _ \<Rightarrow> False)
      | _ \<Rightarrow> False)"

definition validate_dashboard_owner :: "(codepoints \<times> json) list \<Rightarrow> bool" where
  "validate_dashboard_owner owner =
     (let source = get_field ''source'' owner in
      if source = JStr (cp ''directLocal'') then keys_are [''source''] owner
      else source = JStr (cp ''verifiedCore'') \<and> keys_are [''source'', ''scope''] owner
           \<and> validate_scope (get_field ''scope'' owner))"

definition validate_privacy :: "(codepoints \<times> json) list \<Rightarrow> bool" where
  "validate_privacy privacy =
     (keys_are [''version'', ''entityIds'', ''reviewRequired''] privacy \<and>
      get_field ''version'' privacy = JInt 1 \<and>
      (case (get_field ''reviewRequired'' privacy, get_field ''entityIds'' privacy) of
         (JBool _, JArr ids) \<Rightarrow>
           length ids \<le> 256 \<and>
           list_all (\<lambda>i. case i of JStr s \<Rightarrow> length s \<le> 255 \<and> sensor_id s | _ \<Rightarrow> False) ids \<and>
           distinct ids
       | _ \<Rightarrow> False))"

definition object_of :: "json \<Rightarrow> (codepoints \<times> json) list" where
  "object_of v = (case v of JObj kvs \<Rightarrow> kvs | _ \<Rightarrow> [])"

definition is_object :: "json \<Rightarrow> bool" where
  "is_object v = (case v of JObj _ \<Rightarrow> True | _ \<Rightarrow> False)"

definition validate_groups :: "int \<Rightarrow> json \<Rightarrow> bool" where
  "validate_groups version groups =
     (case groups of
        JObj gs \<Rightarrow>
          (let names = set (map fst gs);
               allowed = set (map cp ([''privacy'', ''settings'', ''dashboard'', ''connections'']
                            @ (if version = 3 then [''dashboardOwner''] else [])))
           in names \<subseteq> allowed \<and> has_key ''privacy'' gs \<and>
              names - {cp ''privacy'', cp ''dashboardOwner''} \<noteq> {} \<and>
              list_all (\<lambda>kv. is_object (snd kv)) gs \<and>
              (version = 3 \<longrightarrow>
                 has_key ''dashboard'' gs = has_key ''dashboardOwner'' gs \<and>
                 (has_key ''dashboardOwner'' gs \<longrightarrow>
                    validate_dashboard_owner (object_of (get_field ''dashboardOwner'' gs)))) \<and>
              validate_privacy (object_of (get_field ''privacy'' gs)))
      | _ \<Rightarrow> False)"

text \<open>\<open>createdAt.replace("Z", "+00:00")\<close>\<close>

definition replace_Z :: "codepoints \<Rightarrow> codepoints" where
  "replace_Z s = concat (map (\<lambda>n. if n = 90 then cp ''+00:00'' else [n]) s)"

definition validate_snapshot :: "codec \<Rightarrow> json \<Rightarrow> bool" where
  "validate_snapshot cd snapshot =
     (case snapshot of
        JObj kvs \<Rightarrow>
          keys_are [''version'', ''createdAt'', ''groups''] kvs \<and>
          (case (get_field ''version'' kvs, get_field ''createdAt'' kvs) of
             (JInt version, JStr created) \<Rightarrow>
               (version = 2 \<or> version = 3) \<and> length created \<le> 40 \<and> iso_ok cd (replace_Z created) \<and>
               validate_groups version (get_field ''groups'' kvs)
           | _ \<Rightarrow> False)
      | _ \<Rightarrow> False)"

definition MAX_JSON_BYTES :: nat where "MAX_JSON_BYTES = 2 * 1024 * 1024"

definition validate_document :: "codec \<Rightarrow> json \<Rightarrow> string result" where
  "validate_document cd document =
     bind_res (validate_json_bounds document) (\<lambda>_.
       case document of
         JObj kvs \<Rightarrow>
           if \<not> keys_are [''version'', ''snapshot''] kvs \<or> get_field ''version'' kvs \<noteq> JInt 1
              \<or> \<not> validate_snapshot cd (get_field ''snapshot'' kvs)
           then Inl invalid_request
           else (case dumps cd document of
                   None \<Rightarrow> Inl invalid_request
                 | Some encoded \<Rightarrow>
                     if length encoded > MAX_JSON_BYTES then Inl (ApiError ''payload_too_large'' 413)
                     else Inr encoded)
       | _ \<Rightarrow> Inl invalid_request)"

section \<open>The store\<close>

text \<open>\<open>aead_encrypt nonce plaintext aad\<close> and \<open>aead_decrypt nonce ciphertext aad\<close> under
  the vault key; decryption is \<open>None\<close> where the library raises \<open>InvalidTag\<close>.\<close>

record aead =
  aead_encrypt :: "string \<Rightarrow> string \<Rightarrow> string \<Rightarrow> string"
  aead_decrypt :: "string \<Rightarrow> string \<Rightarrow> string \<Rightarrow> string option"

fun digits :: "nat \<Rightarrow> string" where
  "digits n = (if n < 10 then [char_of (48 + n)] else digits (n div 10) @ [char_of (48 + n mod 10)])"

declare digits.simps [simp del]

definition show_int :: "int \<Rightarrow> string" where
  "show_int i = (if i < 0 then ''-'' @ digits (nat (- i)) else digits (nat i))"

definition vault_aad :: "string \<Rightarrow> int \<Rightarrow> string" where
  "vault_aad user_id revision =
     ''larenor:vault:schema=1:user='' @ user_id @ '':revision='' @ show_int revision"

record vault_answer =
  va_revision :: int
  va_document :: "json option"

abbreviation vault_unavailable :: error where
  "vault_unavailable \<equiv> ApiError ''vault_unavailable'' 503"

definition vault_get :: "codec \<Rightarrow> aead \<Rightarrow> time \<Rightarrow> principal \<Rightarrow> db \<Rightarrow> vault_answer result" where
  "vault_get cd ae now p s =
     bind_res (assert_current now p s) (\<lambda>_.
       case select_key v_user_id (p_id p) (vaults s) of
         None \<Rightarrow> Inr \<lparr>va_revision = 0, va_document = None\<rparr>
       | Some row \<Rightarrow>
           (case aead_decrypt ae (v_nonce row) (v_ciphertext row) (vault_aad (p_id p) (v_revision row)) of
              None \<Rightarrow> Inl vault_unavailable
            | Some plaintext \<Rightarrow>
                (case loads cd plaintext of
                   None \<Rightarrow> Inl vault_unavailable
                 | Some document \<Rightarrow>
                     (case validate_document cd document of
                        Inl _ \<Rightarrow> Inl vault_unavailable
                      | Inr _ \<Rightarrow> Inr \<lparr>va_revision = v_revision row, va_document = Some document\<rparr>))))"

definition upsert_vault :: "vault_row \<Rightarrow> db \<Rightarrow> db result" where
  "upsert_vault v s =
     (if v_user_id v \<notin> u_id ` set (users s) \<or> v_revision v \<le> 0 then Inl IntegrityError
      else Inr (if v_user_id v \<in> v_user_id ` set (vaults s)
                then s\<lparr>vaults := update_where (\<lambda>w. v_user_id w = v_user_id v) (\<lambda>_. v) (vaults s)\<rparr>
                else s\<lparr>vaults := vaults s @ [v]\<rparr>))"

definition vault_put_body :: "aead \<Rightarrow> string \<Rightarrow> time \<Rightarrow> int \<Rightarrow> string \<Rightarrow> principal \<Rightarrow> (db, int) tx" where
  "vault_put_body ae nonce now2 expected plaintext p s =
     (let current = (case select_key v_user_id (p_id p) (vaults s) of
                       Some row \<Rightarrow> v_revision row | None \<Rightarrow> 0)
      in if expected \<noteq> current then Inl (ApiError ''revision_conflict'' 409)
         else let revision = current + 1 in
              bind_res (upsert_vault
                \<lparr>v_user_id = p_id p, v_revision = revision, v_nonce = nonce,
                 v_ciphertext = aead_encrypt ae nonce plaintext (vault_aad (p_id p) revision),
                 v_updated_at = now2\<rparr> s)
              (\<lambda>s'. Inr (revision, s')))"

definition vault_put :: "codec \<Rightarrow> aead \<Rightarrow> string \<Rightarrow> time \<Rightarrow> time \<Rightarrow> principal \<Rightarrow> int \<Rightarrow> json \<Rightarrow> db
    \<Rightarrow> vault_answer result \<times> db" where
  "vault_put cd ae nonce now now2 p expected document s =
     (case validate_document cd document of
        Inl e \<Rightarrow> (Inl e, s)
      | Inr plaintext \<Rightarrow>
         (case guarded (assert_current now) (vault_put_body ae nonce now2 expected plaintext) p s of
            (Inl e, s') \<Rightarrow> (Inl e, s')
          | (Inr revision, s') \<Rightarrow>
              (Inr \<lparr>va_revision = revision, va_document = loads cd plaintext\<rparr>, s')))"


section \<open>What the bounds check accepts\<close>

text \<open>A direct recursive reading of the limits: depth, node count, key count, and the
  conditions on single values.\<close>

fun children :: "json \<Rightarrow> json list" where
  "children (JArr xs) = xs"
| "children (JObj kvs) = map snd kvs"
| "children _ = []"

fun own_keys :: "json \<Rightarrow> nat" where
  "own_keys (JObj kvs) = length kvs"
| "own_keys _ = 0"

definition string_ok :: "codepoints \<Rightarrow> bool" where
  "string_ok s = (case utf8_length s of None \<Rightarrow> False | Some n \<Rightarrow> n \<le> 65536)"

fun local_ok :: "json \<Rightarrow> bool" where
  "local_ok (JObj kvs) = list_all (string_ok \<circ> fst) kvs"
| "local_ok (JArr xs) = (length xs \<le> 10000)"
| "local_ok (JStr s) = string_ok s"
| "local_ok (JFloat f) = (f \<noteq> NonFinite)"
| "local_ok JOther = False"
| "local_ok _ = True"

fun json_depth :: "json \<Rightarrow> nat" where
  "json_depth (JArr xs) = Suc (foldr max (map json_depth xs) 0)"
| "json_depth (JObj kvs) = Suc (foldr max (map (json_depth \<circ> snd) kvs) 0)"
| "json_depth _ = 1"

fun json_keys :: "json \<Rightarrow> nat" where
  "json_keys (JArr xs) = sum_list (map json_keys xs)"
| "json_keys (JObj kvs) = length kvs + sum_list (map (json_keys \<circ> snd) kvs)"
| "json_keys _ = 0"

fun json_ok :: "json \<Rightarrow> bool" where
  "json_ok (JArr xs) = (local_ok (JArr xs) \<and> list_all json_ok xs)"
| "json_ok (JObj kvs) = (local_ok (JObj kvs) \<and> list_all (json_ok \<circ> snd) kvs)"
| "json_ok v = local_ok v"

lemma check_string_ok: "check_string s = Inr () \<longleftrightarrow> string_ok s"
  by (simp add: check_string_def string_ok_def MAX_STRING_def split: option.split)

lemma check_keys_ok: "check_keys ks = Inr () \<longleftrightarrow> list_all string_ok ks"
  by (induction ks) (auto simp: bind_res_Inr_iff check_string_ok)

lemma expand_Inr_iff:
  assumes "keys \<le> MAX_KEYS"
  shows "expand v keys = Inr (cs, k) \<longleftrightarrow>
    local_ok v \<and> cs = children v \<and> k = keys + own_keys v \<and> k \<le> MAX_KEYS"
proof (cases v)
  case (JFloat f)
  with assms show ?thesis by (cases f) auto
next
  case (JObj kvs)
  then show ?thesis
    by (auto simp: bind_res_Inr_iff check_keys_ok list.pred_map comp_def)
qed (use assms in \<open>auto simp: bind_res_Inr_iff check_string_ok MAX_ITEMS_def\<close>)

lemma foldr_max_le: "foldr max ns (0::nat) \<le> b \<longleftrightarrow> (\<forall>n \<in> set ns. n \<le> b)"
  by (induction ns) auto

lemma measures_children:
  "json_nodes v = Suc (sum_list (map json_nodes (children v)))"
  "json_keys v = own_keys v + sum_list (map json_keys (children v))"
  "json_ok v = (local_ok v \<and> list_all json_ok (children v))"
  by (cases v; simp add: comp_def list.pred_map)+

lemma depth_children:
  "d + json_depth v \<le> Suc b \<longleftrightarrow> d \<le> b \<and> (\<forall>c \<in> set (children v). Suc d + json_depth c \<le> Suc b)"
proof -
  have "json_depth v = Suc (foldr max (map json_depth (children v)) 0)"
    by (cases v) (simp_all add: comp_def)
  moreover have "d + foldr max ns 0 \<le> b \<longleftrightarrow> d \<le> b \<and> (\<forall>n \<in> set ns. d + n \<le> b)" for ns
    using foldr_max_le [of ns "b - d"] by (cases "d \<le> b") (auto simp: le_diff_conv2 add.commute)
  ultimately show ?thesis by auto
qed

definition stack_ok :: "(json \<times> nat) list \<Rightarrow> nat \<Rightarrow> nat \<Rightarrow> bool" where
  "stack_ok stack keys nodes =
     (list_all (\<lambda>(v, d). d + json_depth v \<le> Suc MAX_DEPTH \<and> json_ok v) stack \<and>
      nodes + sum_list (map (json_nodes \<circ> fst) stack) \<le> MAX_NODES \<and>
      keys + sum_list (map (json_keys \<circ> fst) stack) \<le> MAX_KEYS)"

lemma stack_ok_step:
  "stack_ok ((v, d) # stack) keys nodes \<longleftrightarrow>
     d \<le> MAX_DEPTH \<and> nodes + 1 \<le> MAX_NODES \<and> local_ok v \<and>
     stack_ok (rev (map (\<lambda>c. (c, d + 1)) (children v)) @ stack) (keys + own_keys v) (nodes + 1)"
  by (auto simp: stack_ok_def depth_children [of d v] measures_children [of v] list_all_iff
      ball_Un comp_def rev_map [symmetric] add.assoc)

lemma walk_iff:
  "keys \<le> MAX_KEYS \<Longrightarrow> nodes \<le> MAX_NODES \<Longrightarrow> walk stack keys nodes = Inr () \<longleftrightarrow> stack_ok stack keys nodes"
proof (induction stack keys nodes rule: walk.induct)
  case (1 keys nodes)
  then show ?case by (simp add: stack_ok_def)
next
  case (2 item depth stack keys nodes)
  show ?case
  proof (cases "depth > MAX_DEPTH \<or> nodes + 1 > MAX_NODES")
    case True
    then show ?thesis by (auto simp: stack_ok_step)
  next
    case False
    show ?thesis
    proof (cases "expand item keys")
      case (Inl e)
      then have "\<not> (local_ok item \<and> keys + own_keys item \<le> MAX_KEYS)"
        using expand_Inr_iff [OF "2.prems"(1), of item] by auto
      then have "\<not> stack_ok ((item, depth) # stack) keys nodes"
        unfolding stack_ok_step by (auto simp: stack_ok_def)
      with False Inl show ?thesis by simp
    next
      case (Inr ck)
      obtain cs k where ck: "ck = (cs, k)" by fastforce
      then have e: "local_ok item" "cs = children item" "k = keys + own_keys item" "k \<le> MAX_KEYS"
        using expand_Inr_iff [OF "2.prems"(1), of item] Inr by auto
      have "walk (rev (map (\<lambda>c. (c, depth + 1)) cs) @ stack) k (nodes + 1) = Inr () \<longleftrightarrow>
          stack_ok (rev (map (\<lambda>c. (c, depth + 1)) cs) @ stack) k (nodes + 1)"
        using "2.IH" [OF False Inr] ck e(4) False by simp
      with False Inr ck e show ?thesis by (simp add: stack_ok_step)
    qed
  qed
qed

text \<open>C20: The document bounds. The iterative check with its explicit stack accepts a value
  exactly when the value nests at most 16 levels, has at most 40000 nodes and 10000 object
  keys in all, and every string, key, array and number in it is within its own limit.\<close>

theorem validate_json_bounds_iff:
  "validate_json_bounds v = Inr () \<longleftrightarrow>
     json_depth v \<le> 16 \<and> json_nodes v \<le> 40000 \<and> json_keys v \<le> 10000 \<and> json_ok v"
  unfolding validate_json_bounds_def
  by (subst walk_iff) (auto simp: stack_ok_def MAX_DEPTH_def MAX_NODES_def MAX_KEYS_def)

lemma walk_within_enough:
  "nodes \<le> MAX_NODES \<Longrightarrow> MAX_NODES < n + nodes \<Longrightarrow> walk_within n stack keys nodes = Some (walk stack keys nodes)"
proof (induction n stack keys nodes rule: walk_within.induct)
  case (3 n item depth stack keys nodes)
  show ?case
  proof (cases "depth > MAX_DEPTH \<or> nodes + 1 > MAX_NODES")
    case False
    then show ?thesis using 3 by (cases "expand item keys") (auto split: prod.split)
  qed simp
qed simp_all

text \<open>C21: Checking a value takes a bounded time, however large it is. For every value, also one of
  millions of nodes, the loop has ended with its answer after 40001 turns.\<close>

theorem validate_json_bounds_terminates:
  "walk_within 40001 [(v, 1)] 0 0 = Some (validate_json_bounds v)"
  unfolding validate_json_bounds_def by (rule walk_within_enough) (simp_all add: MAX_NODES_def)

section \<open>The store\<close>

lemma upsert_vault_inv:
  assumes "upsert_vault v s = Inr s'" and "db_inv s"
  shows "db_inv s'"
proof -
  have v: "v_user_id v \<in> u_id ` set (users s)" "0 < v_revision v"
    using assms(1) by (auto simp: upsert_vault_def split: if_splits)
  have m: "map v_user_id (update_where (\<lambda>w. v_user_id w = v_user_id v) (\<lambda>_. v) rows) = map v_user_id rows"
    for rows by (induction rows) auto
  have "vaults_inv s'"
  proof (cases "v_user_id v \<in> v_user_id ` set (vaults s)")
    case True
    then have s': "s' = s\<lparr>vaults := update_where (\<lambda>w. v_user_id w = v_user_id v) (\<lambda>_. v) (vaults s)\<rparr>"
      using assms(1) by (auto simp: upsert_vault_def split: if_splits)
    have "\<forall>w \<in> set (vaults s'). 0 < v_revision w"
      using assms(2) v by (auto simp: s' db_inv_def vaults_inv_def dest!: update_where_member)
    moreover have "v_user_id ` set (vaults s') = v_user_id ` set (vaults s)"
    proof -
      have "set (map v_user_id (vaults s')) = set (map v_user_id (vaults s))" by (simp add: s' m del: set_map)
      then show ?thesis by simp
    qed
    ultimately show ?thesis
      using assms(2) m by (simp add: s' db_inv_def vaults_inv_def unique_on_def)
  next
    case False
    have "s' = s\<lparr>vaults := vaults s @ [v]\<rparr>"
      using assms(1) False by (auto simp: upsert_vault_def split: if_splits)
    with assms(2) v False show ?thesis
      by (simp add: db_inv_def vaults_inv_def unique_on_append_single)
  qed
  moreover obtain rows where "s' = s\<lparr>vaults := rows\<rparr>"
    using assms(1) by (auto simp: upsert_vault_def split: if_splits)
  ultimately show ?thesis
    using assms(2) by (simp add: db_inv_def accounts_inv_def sessions_inv_def family_bound_def
        rate_inv_def audit_inv_def)
qed

lemma vault_put_body_inv:
  "vault_put_body ae nonce now2 ex pt p s = Inr (v, s') \<Longrightarrow> db_inv s \<Longrightarrow> db_inv s'"
  by (auto simp: vault_put_body_def Let_def bind_res_Inr_iff dest: upsert_vault_inv split: if_splits)

interpretation vault_tx: guarded_tx db_inv "assert_current now" "vault_put_body ae nonce now2 ex pt"
  for now ae nonce now2 ex pt
  by unfold_locales (rule vault_put_body_inv)

lemma vault_put_inv: "db_inv s \<Longrightarrow> db_inv (snd (vault_put cd ae nonce now now2 p ex doc s))"
  using vault_tx.run_inv [of s]
  by (auto simp: vault_put_def split: sum.split prod.split) (metis snd_conv)+


lemma vault_put_cases:
  assumes "vault_put cd ae nonce now now2 p ex doc s = (Inr ans, s')"
  obtains pt where "validate_document cd doc = Inr pt" "assert_current now p s = Inr ()"
    "vault_put_body ae nonce now2 ex pt p s = Inr (va_revision ans, s')"
    "va_document ans = loads cd pt"
proof -
  obtain pt where pt: "validate_document cd doc = Inr pt"
    using assms by (auto simp: vault_put_def split: sum.splits)
  obtain rev where g: "guarded (assert_current now) (vault_put_body ae nonce now2 ex pt) p s = (Inr rev, s')"
    and ans: "ans = \<lparr>va_revision = rev, va_document = loads cd pt\<rparr>"
    using assms pt by (auto simp: vault_put_def split: sum.splits prod.splits)
  show ?thesis
    using vault_tx.run_committed [OF g] ans by (intro that [OF pt]) auto
qed

lemma validate_document_encodes:
  "validate_document cd doc = Inr pt \<Longrightarrow> dumps cd doc = Some pt"
  by (auto simp: validate_document_def bind_res_Inr_iff split: json.splits if_splits option.splits)

lemma vault_put_body_effect:
  assumes "vault_put_body ae nonce now2 ex pt p s = Inr (rv, s')"
  shows "rv = ex + 1"
    "ex = (case select_key v_user_id (p_id p) (vaults s) of Some row \<Rightarrow> v_revision row | None \<Rightarrow> 0)"
    "select_key v_user_id (p_id p) (vaults s') =
       Some \<lparr>v_user_id = p_id p, v_revision = rv, v_nonce = nonce,
             v_ciphertext = aead_encrypt ae nonce pt (vault_aad (p_id p) rv), v_updated_at = now2\<rparr>"
    "uid \<noteq> p_id p \<Longrightarrow> select_key v_user_id uid (vaults s') = select_key v_user_id uid (vaults s)"
proof -
  let ?row = "\<lparr>v_user_id = p_id p, v_revision = rv, v_nonce = nonce,
             v_ciphertext = aead_encrypt ae nonce pt (vault_aad (p_id p) rv), v_updated_at = now2\<rparr>"
  have up: "upsert_vault ?row s = Inr s'" and "rv = ex + 1"
    and "ex = (case select_key v_user_id (p_id p) (vaults s) of Some row \<Rightarrow> v_revision row | None \<Rightarrow> 0)"
    using assms by (auto simp: vault_put_body_def Let_def bind_res_Inr_iff split: if_splits)
  then show "rv = ex + 1"
    and "ex = (case select_key v_user_id (p_id p) (vaults s) of Some row \<Rightarrow> v_revision row | None \<Rightarrow> 0)"
    by blast+
  have upd: "select_key v_user_id k (update_where (\<lambda>w. v_user_id w = v_user_id ?row) (\<lambda>_. ?row) rows) =
      (if k = v_user_id ?row \<and> v_user_id ?row \<in> v_user_id ` set rows then Some ?row
       else select_key v_user_id k rows)" for k rows
    by (induction rows) auto
  have app: "v_user_id ?row \<notin> v_user_id ` set (vaults s) \<Longrightarrow> select_key v_user_id k (vaults s @ [?row]) =
      (if k = v_user_id ?row then Some ?row else select_key v_user_id k (vaults s))" for k
    by (rule select_key_append_single)
  have look: "select_key v_user_id k (vaults s') =
      (if k = p_id p then Some ?row else select_key v_user_id k (vaults s))" for k
    using up upd [of k "vaults s"] app [of k]
    by (auto simp: upsert_vault_def split: if_splits)
  show "select_key v_user_id (p_id p) (vaults s') = Some ?row"
    and "uid \<noteq> p_id p \<Longrightarrow> select_key v_user_id uid (vaults s') = select_key v_user_id uid (vaults s)"
    by (simp_all add: look)
qed

text \<open>C22: Vault round trip. With a cipher that decrypts what it encrypted under the same
  associated data and a JSON codec that reads back what it wrote, a document that was stored
  is what the same user reads while the session is current, at the revision after the
  expected one.\<close>

theorem vault_put_get:
  assumes put: "vault_put cd ae nonce now now2 p ex doc s = (Inr ans, s')"
    and cipher: "\<forall>n t a. aead_decrypt ae n (aead_encrypt ae n t a) a = Some t"
    and json: "\<forall>d e. dumps cd d = Some e \<longrightarrow> loads cd e = Some d"
    and cur: "assert_current now3 p s' = Inr ()"
  shows "vault_get cd ae now3 p s' = Inr ans \<and> ans = \<lparr>va_revision = ex + 1, va_document = Some doc\<rparr>"
proof -
  obtain pt where pt: "validate_document cd doc = Inr pt"
    and body: "vault_put_body ae nonce now2 ex pt p s = Inr (va_revision ans, s')"
    and "va_document ans = loads cd pt"
    by (rule vault_put_cases [OF put])
  moreover have "loads cd pt = Some doc" using validate_document_encodes [OF pt] json by blast
  ultimately show ?thesis
    using vault_put_body_effect(1,3) [OF body] cipher cur pt by (simp add: vault_get_def)
qed

text \<open>C19: Optimistic concurrency. A write that was prepared against another revision than the
  stored one fails with \<open>revision_conflict\<close> and leaves the database as it was; two writes
  against the same revision never both succeed.\<close>

theorem vault_put_conflict:
  assumes "vault_put cd ae nonce now now2 p ex doc s = (Inr ans, s')"
    and "vault_put cd ae nonce2 now3 now4 q ex doc2 s' = (r, s'')" and "p_id q = p_id p"
  shows "isl r \<and> s'' = s'"
proof -
  obtain pt where body: "vault_put_body ae nonce now2 ex pt p s = Inr (va_revision ans, s')"
    by (rule vault_put_cases [OF assms(1)])
  note eff = vault_put_body_effect [OF body]
  have stale: "vault_put_body ae nonce2 now4 ex pt2 q s' = Inl (ApiError ''revision_conflict'' 409)" for pt2
    using eff(1,3) assms(3) by (simp add: vault_put_body_def)
  show ?thesis
    using assms(2) stale
    by (auto simp: vault_put_def guarded_def transaction_def bind_res_def split: sum.splits prod.splits)
qed

text \<open>Vault isolation. Whatever a user stores, every other user's vault reads exactly as
  before.\<close>

theorem vault_put_isolated:
  assumes "vault_put cd ae nonce now now2 p ex doc s = (r, s')" and "p_id q \<noteq> p_id p"
  shows "vault_get cd ae now3 q s' = vault_get cd ae now3 q s"
proof (cases r)
  case (Inl e)
  then have "s' = s"
    using assms(1) by (auto simp: vault_put_def split: sum.splits prod.splits dest: vault_tx.run_failed)
  then show ?thesis by simp
next
  case (Inr ans)
  with assms(1) obtain pt where body: "vault_put_body ae nonce now2 ex pt p s = Inr (va_revision ans, s')"
    using vault_put_cases by blast
  have "select_key v_user_id (p_id q) (vaults s') = select_key v_user_id (p_id q) (vaults s)"
    using vault_put_body_effect(4) [OF body] assms(2) by simp
  moreover have "users s' = users s" "session_families s' = session_families s"
    "session_tokens s' = session_tokens s"
    using body by (auto simp: vault_put_body_def upsert_vault_def Let_def bind_res_Inr_iff split: if_splits)
  then have "assert_current now3 q s' = assert_current now3 q s"
    by (simp add: assert_current_def lookup_token_cong [of s' s])
  ultimately show ?thesis by (simp add: vault_get_def)
qed

section \<open>A concrete document\<close>

definition demo_document :: json where
  "demo_document = JObj [(cp ''version'', JInt 1), (cp ''snapshot'', JObj
     [(cp ''version'', JInt 2), (cp ''createdAt'', JStr (cp ''2026-01-01'')), (cp ''groups'', JObj
        [(cp ''privacy'', JObj [(cp ''version'', JInt 1), (cp ''entityIds'', JArr [JStr (cp ''sensor.door'')]),
            (cp ''reviewRequired'', JBool True)]),
         (cp ''settings'', JObj [])])])]"

definition demo_codec :: codec where
  "demo_codec = \<lparr>iso_ok = (\<lambda>s. s \<noteq> []), dumps = (\<lambda>d. if d = demo_document then Some ''doc'' else None),
     loads = (\<lambda>t. if t = ''doc'' then Some demo_document else None)\<rparr>"

definition demo_aead :: aead where
  "demo_aead = \<lparr>aead_encrypt = (\<lambda>n t a. t), aead_decrypt = (\<lambda>n t a. Some t)\<rparr>"

definition demo_put :: "int \<Rightarrow> db \<Rightarrow> vault_answer result \<times> db" where
  "demo_put ex s = vault_put demo_codec demo_aead ''n'' 10 10 demo_principal ex demo_document s"

lemma demo_document_small: "json_depth demo_document \<le> 16 \<and> json_nodes demo_document \<le> 40000 \<and>
    json_keys demo_document \<le> 10000 \<and> json_ok demo_document"
  by (simp add: demo_document_def cp_def string_ok_def utf8_length_def surrogate_def MAX_STRING_def MAX_ITEMS_def)

lemma demo_document_bounds: "validate_json_bounds demo_document = Inr ()"
  unfolding validate_json_bounds_def
  by (subst walk_iff) (use demo_document_small in \<open>simp_all add: stack_ok_def MAX_DEPTH_def MAX_NODES_def MAX_KEYS_def\<close>)

lemma demo_document_valid: "validate_document demo_codec demo_document = Inr ''doc''"
proof -
  obtain kvs where d: "demo_document = JObj kvs" by (simp add: demo_document_def)
  have "keys_are [''version'', ''snapshot''] (object_of demo_document)"
    "get_field ''version'' (object_of demo_document) = JInt 1"
    "validate_snapshot demo_codec (get_field ''snapshot'' (object_of demo_document))"
    by code_simp+
  then have "keys_are [''version'', ''snapshot''] kvs" "get_field ''version'' kvs = JInt 1"
    "validate_snapshot demo_codec (get_field ''snapshot'' kvs)" unfolding d by (simp_all add: object_of_def)
  moreover have "dumps demo_codec demo_document = Some ''doc''" by (simp add: demo_codec_def)
  moreover have "\<not> MAX_JSON_BYTES < length ''doc''" by (simp add: MAX_JSON_BYTES_def)
  ultimately show ?thesis
    using demo_document_bounds unfolding d by (simp add: validate_document_def)
qed

lemma demo_put_run:
  "demo_put 0 demo_db = (Inr \<lparr>va_revision = 1, va_document = Some demo_document\<rparr>,
     demo_db\<lparr>vaults := [\<lparr>v_user_id = ''u1'', v_revision = 1, v_nonce = ''n'', v_ciphertext = ''doc'',
       v_updated_at = 10\<rparr>]\<rparr>)"
proof -
  have "guarded (assert_current 10) (vault_put_body demo_aead ''n'' 10 0 ''doc'') demo_principal demo_db =
    (Inr 1, demo_db\<lparr>vaults := [\<lparr>v_user_id = ''u1'', v_revision = 1, v_nonce = ''n'', v_ciphertext = ''doc'',
       v_updated_at = 10\<rparr>]\<rparr>)" by code_simp
  then show ?thesis by (simp add: demo_put_def vault_put_def demo_document_valid) (simp add: demo_codec_def)
qed

lemma demo_principal_current: "assert_current 11 demo_principal (snd (demo_put 0 demo_db)) = Inr ()"
  unfolding demo_put_run by code_simp

theorem vault_put_get_witness:
  "vault_get demo_codec demo_aead 11 demo_principal (snd (demo_put 0 demo_db))
     = Inr \<lparr>va_revision = 1, va_document = Some demo_document\<rparr>"
proof -
  obtain ans where run: "demo_put 0 demo_db = (Inr ans, snd (demo_put 0 demo_db))" by (simp add: demo_put_run)
  have "\<forall>n t a. aead_decrypt demo_aead n (aead_encrypt demo_aead n t a) a = Some t"
    by (simp add: demo_aead_def)
  moreover have "\<forall>d e. dumps demo_codec d = Some e \<longrightarrow> loads demo_codec e = Some d"
    by (simp add: demo_codec_def)
  ultimately show ?thesis
    using vault_put_get [OF run [unfolded demo_put_def]] demo_principal_current [unfolded demo_put_def]
    by (simp add: demo_put_def)
qed

theorem vault_put_conflict_witness:
  "isl (fst (demo_put 0 (snd (demo_put 0 demo_db)))) \<and>
   snd (demo_put 0 (snd (demo_put 0 demo_db))) = snd (demo_put 0 demo_db)"
proof -
  let ?s = "snd (demo_put 0 demo_db)"
  obtain ans where run: "demo_put 0 demo_db = (Inr ans, ?s)" by (simp add: demo_put_run)
  have "demo_put 0 ?s = (fst (demo_put 0 ?s), snd (demo_put 0 ?s))" by simp
  from vault_put_conflict [OF run [unfolded demo_put_def] this [unfolded demo_put_def] refl]
  show ?thesis by (simp only: demo_put_def)
qed

theorem vault_put_isolated_witness:
  "vault_get demo_codec demo_aead 11 \<lparr>p_id = ''u2'', p_username = ''kim'', p_role = Member,
       p_must_change_password = False, p_family_id = ''f2'', p_token_id = ''t2''\<rparr> (snd (demo_put 0 demo_db))
     = vault_get demo_codec demo_aead 11 \<lparr>p_id = ''u2'', p_username = ''kim'', p_role = Member,
       p_must_change_password = False, p_family_id = ''f2'', p_token_id = ''t2''\<rparr> demo_db"
  unfolding demo_put_def
  by (rule vault_put_isolated [OF surjective_pairing]) (simp add: demo_principal_def)

end
