(* ===== verification/Accounts_System.thy ===== *)
theory Accounts_System
  imports Admin_Accounts Vault
begin

text \<open>
  The account services as one system. Every database transaction the session, administration
  and vault services run is one step of a relation on the database; requests interleave, so a
  call that runs two transactions is two steps with steps of other requests in between. What
  holds of the database at every moment is proved by induction over the steps.
\<close>

section \<open>Transactions of the account services\<close>

inductive account_step :: "db \<Rightarrow> db \<Rightarrow> bool" where
  step_rate: "account_step s (snd (rate_limit c now sec cats s))"
| step_login: "account_step s (snd (transaction (login_commit st c fr now now2 uid old_hash repl device) s))"
| step_refresh: "account_step s (snd (transaction (refresh_body st c fr now now2 digest) s))"
| step_logout: "account_step s (snd (logout now now2 p s))"
| step_password: "account_step s
    (snd (transaction (change_password_commit st c fr now now1 now2 now3 p old_hash encoded) s))"
| step_create: "account_step s (snd (mutation now now2 actor Create (Some uid) (create_user_body now3 uid encoded b) s))"
| step_update: "account_step s (snd (mutation now now2 actor Update (Some uid) (update_user_body now3 uid u) s))"
| step_reset: "account_step s
    (snd (mutation now now2 actor ResetPassword (Some uid) (reset_password_body now3 uid encoded q) s))"
| step_self_reset: "account_step s (snd (mutation now now2 actor ResetPassword (Some uid)
    (\<lambda>_. Inl (ApiError ''self_password_reset_forbidden'' 403) :: (admin_user \<times> db) result) s))"
| step_revoke: "account_step s (snd (mutation now now2 actor Revoke (Some fid) (revoke_session_body now3 fid) s))"
| step_vault: "account_step s (snd (vault_put cd ae nonce now now2 p ex doc s))"

inductive_cases account_stepE: "account_step s t"

definition system_inv :: "db \<Rightarrow> bool" where
  "system_inv s = (db_inv s \<and> has_admin s)"

section \<open>Frames\<close>

text \<open>Apart from \<open>update_user\<close>, no transaction changes a role or disables an account.\<close>

lemma update_users_admin:
  assumes "\<And>u. active_admin u \<Longrightarrow> active_admin (f u)" and "has_admin s"
  shows "has_admin (update_users P f s)"
proof -
  obtain u where u: "u \<in> set (users s)" "active_admin u" using assms(2) by (auto simp: has_admin_def)
  have "(if P u then f u else u) \<in> set (users (update_users P f s))"
    using u(1) by (auto simp: update_users_def set_update_where)
  moreover have "active_admin (if P u then f u else u)" using u(2) assms(1) by simp
  ultimately show ?thesis unfolding has_admin_def by blast
qed

lemma new_family_users: "new_family st c fr now now2 u dev s = Inr (p, t) \<Longrightarrow> users t = users s"
  by (drule new_family_effect) auto

lemma password_keeps_admin: "has_admin s \<Longrightarrow> has_admin (update_users P (\<lambda>u. u\<lparr>u_password_hash := h\<rparr>) s)"
  by (rule update_users_admin) (simp_all add: active_admin_def)

lemma login_commit_admin:
  assumes "login_commit st c fr now now2 uid h r dev s = Inr (p, t)" and "has_admin s"
  shows "has_admin t"
proof -
  obtain u where u: "new_family st c fr now now2 u dev (case r of None \<Rightarrow> s | Some h' \<Rightarrow>
      update_users (\<lambda>v. u_id v = u_id u) (\<lambda>v. v\<lparr>u_password_hash := h'\<rparr>) s) = Inr (p, t)"
    using assms(1) by (auto simp: login_commit_def Let_def split: option.splits if_splits)
  have "has_admin (case r of None \<Rightarrow> s | Some h' \<Rightarrow>
      update_users (\<lambda>v. u_id v = u_id u) (\<lambda>v. v\<lparr>u_password_hash := h'\<rparr>) s)"
    using assms(2) by (simp add: password_keeps_admin split: option.split)
  then show ?thesis using new_family_users [OF u] has_admin_cong by metis
qed

lemma issue_users: "issue st c fr now u fid ex s = Inr (pair, t) \<Longrightarrow> users t = users s"
  by (erule issue_effect) simp

lemma refresh_body_users: "refresh_body st c fr now now2 d s = Inr (r, t) \<Longrightarrow> users t = users s"
  by (auto simp: refresh_body_def bind_res_Inr_iff split: option.splits if_splits dest!: issue_users)

lemma logout_users: "users (snd (logout now now2 p s)) = users s"
  by (auto simp: logout_def guarded_def transaction_def bind_res_def split: sum.split)

lemma change_password_commit_admin:
  assumes "change_password_commit st c fr n n1 n2 n3 p h enc s = Inr (r, t)" and "has_admin s"
  shows "has_admin t"
proof -
  let ?f = "\<lambda>u. u\<lparr>u_password_hash := enc, u_must_change_password := False, u_revision := u_revision u + 1\<rparr>"
  have "users t = users (update_users (\<lambda>u. u_id u = p_id p) ?f s)"
    using assms(1) by (auto simp: change_password_commit_def bind_res_Inr_iff Let_def
        split: option.splits if_splits dest!: new_family_users)
  moreover have "has_admin (update_users (\<lambda>u. u_id u = p_id p) ?f s)"
    using assms(2) by (intro update_users_admin) (simp_all add: active_admin_def)
  ultimately show ?thesis using has_admin_cong by metis
qed

lemma create_user_body_admin:
  "create_user_body now uid enc b s = Inr (v, t) \<Longrightarrow> has_admin s \<Longrightarrow> has_admin t"
  by (auto simp: create_user_body_def bind_res_Inr_iff insert_user_def has_admin_def split: if_splits)

lemma reset_password_body_admin:
  assumes "reset_password_body now uid enc b s = Inr (v, t)" and "has_admin s"
  shows "has_admin t"
proof -
  let ?f = "\<lambda>u. u\<lparr>u_password_hash := enc, u_must_change_password := True, u_revision := u_revision u + 1\<rparr>"
  have "users t = users (update_users (\<lambda>u. u_id u = uid) ?f s)"
    using assms(1) by (auto simp: reset_password_body_def bind_res_Inr_iff Let_def revoke_user_def)
  moreover have "has_admin (update_users (\<lambda>u. u_id u = uid) ?f s)"
    using assms(2) by (intro update_users_admin) (simp_all add: active_admin_def)
  ultimately show ?thesis using has_admin_cong by metis
qed

lemma revoke_session_body_admin:
  "revoke_session_body now fid s = Inr (v, t) \<Longrightarrow> has_admin s \<Longrightarrow> has_admin t"
  by (auto simp: revoke_session_body_def has_admin_def split: option.splits)

lemma vault_put_users: "users (snd (vault_put cd ae nonce now now2 p ex doc s)) = users s"
proof -
  have "users t = users s" if "vault_put_body ae nonce now2 ex pt p s = Inr (r, t)" for pt r t
    using that by (auto simp: vault_put_body_def upsert_vault_def bind_res_Inr_iff Let_def
        split: option.splits if_splits)
  then show ?thesis
    by (auto simp: vault_put_def guarded_def transaction_def bind_res_def split: sum.split prod.split)
qed

section \<open>The invariant of the system\<close>

lemma record_audit_system: "system_inv s \<Longrightarrow> system_inv (record_audit now actor act tgt stt s)"
  by (simp add: system_inv_def record_audit_inv has_admin_cong [of "record_audit now actor act tgt stt s" s])

lemma tx_system:
  assumes "system_inv s" and "\<And>v t. body s = Inr (v, t) \<Longrightarrow> system_inv t"
  shows "system_inv (snd (transaction body s))"
  using assms by (rule transaction_preserves)

lemma mutation_system:
  assumes "system_inv s" and "\<And>v t. body s = Inr (v, t) \<Longrightarrow> system_inv t"
  shows "system_inv (snd (mutation now now2 actor act tgt body s))"
  using assms record_audit_system by (rule mutation_preserves)

lemma account_step_inv: "account_step s t \<Longrightarrow> system_inv s \<Longrightarrow> system_inv t"
proof (induction rule: account_step.induct)
  case (step_rate s c now sec cats)
  obtain r t where rl: "rate_limit c now sec cats s = (r, t)" by fastforce
  with step_rate rate_limit_inv [OF rl] users_rate_frame [OF rl] show ?case
    by (auto simp: system_inv_def has_admin_def)
next
  case step_login
  then show ?case
    by (intro tx_system) (auto simp: system_inv_def intro: login_commit_inv login_commit_admin)
next
  case step_refresh
  then show ?case
    by (intro tx_system)
      (auto simp: system_inv_def intro: refresh_body_inv has_admin_cong [THEN iffD1, OF refresh_body_users [symmetric]])
next
  case step_logout
  then show ?case by (auto simp: system_inv_def logout_inv has_admin_def logout_users)
next
  case step_password
  then show ?case
    by (intro tx_system)
      (auto simp: system_inv_def intro: change_password_commit_inv change_password_commit_admin)
next
  case step_create
  then show ?case
    by (intro mutation_system) (auto simp: system_inv_def intro: create_user_body_inv create_user_body_admin)
next
  case step_update
  then show ?case
    by (intro mutation_system) (auto simp: system_inv_def intro: update_user_body_inv update_user_body_admin)
next
  case step_reset
  then show ?case
    by (intro mutation_system)
      (auto simp: system_inv_def intro: reset_password_body_inv reset_password_body_admin)
next
  case step_self_reset
  then show ?case by (intro mutation_system) simp_all
next
  case step_revoke
  then show ?case
    by (intro mutation_system)
      (auto simp: system_inv_def intro: revoke_session_body_inv revoke_session_body_admin)
next
  case step_vault
  then show ?case by (auto simp: system_inv_def vault_put_inv has_admin_def vault_put_users)
qed

interpretation accounts: stable_step account_step system_inv
  by unfold_locales (rule account_step_inv)

text \<open>C2: whatever transactions the account services run, in any number and order, with any
  clock, any random values and any principals, the database keeps its integrity (keys, foreign
  keys, at most 32 session families per account, bounded rate and audit tables) and at least
  one enabled administrator.\<close>

theorem account_system_safe:
  assumes "account_step\<^sup>*\<^sup>* s t" and "db_inv s" and "has_admin s"
  shows "db_inv t \<and> has_admin t"
  using accounts.steps_inv [OF assms(1)] assms(2,3) by (simp add: system_inv_def)

section \<open>Calls are sequences of transactions\<close>

lemma rate_steps: "rate_limit c now sec cats s = (r, t) \<Longrightarrow> account_step\<^sup>*\<^sup>* s t"
  using step_rate [of s c now sec cats] by auto

lemma then_step: "account_step\<^sup>*\<^sup>* s t \<Longrightarrow> account_step t u \<Longrightarrow> account_step\<^sup>*\<^sup>* s u"
  by (rule rtranclp.rtrancl_into_rtrancl)

lemma login_steps:
  assumes "\<And>u. account_step\<^sup>*\<^sup>* u (interfere u)"
  shows "account_step\<^sup>*\<^sup>* s (snd (login st c fr salt sl sl2 n0 n1 n2 interfere name pw dev peer s))"
proof -
  obtain r t where rl: "rate_limit c n0 60
       [(''login_ip'', peer, login_ip_limit st), (''login_account'', lower name, login_account_limit st),
        (''login_global'', ''all'', login_global_limit st)] s = (r, t)" by fastforce
  have t: "account_step\<^sup>*\<^sup>* s t" by (rule rate_steps [OF rl])
  then have "account_step\<^sup>*\<^sup>* s (snd (transaction (login_commit st c fr n1 n2 uid h rp dev) (interfere t)))" for uid h rp
    using assms [of t] by (meson then_step rtranclp_trans step_login)
  with t show ?thesis
    by (auto simp: login_def Let_def rl split: sum.splits option.splits)
qed

lemma change_password_steps:
  assumes "\<And>u. account_step\<^sup>*\<^sup>* u (interfere u)"
  shows "account_step\<^sup>*\<^sup>* s
    (snd (change_password st c fr salt sl sl2 n0 n1 n2 n3 n4 interfere p cur new s))"
proof -
  obtain r t where rl: "rate_limit c n0 60 [(''password_change'', p_id p, 5)] s = (r, t)" by fastforce
  have t: "account_step\<^sup>*\<^sup>* s t" by (rule rate_steps [OF rl])
  then have "account_step\<^sup>*\<^sup>* s
      (snd (transaction (change_password_commit st c fr n1 n2 n3 n4 p h enc) (interfere t)))" for h enc
    using assms [of t] by (meson then_step rtranclp_trans step_password)
  with t show ?thesis
    by (auto simp: change_password_def rl split: sum.splits option.splits)
qed

lemma refresh_steps: "account_step\<^sup>*\<^sup>* s (snd (refresh st c fr n0 n1 n2 tok peer s))"
proof -
  obtain r t where rl: "rate_limit c n0 60 [(''refresh_ip'', peer, 30)] s = (r, t)" by fastforce
  have t: "account_step\<^sup>*\<^sup>* s t" by (rule rate_steps [OF rl])
  then have "account_step\<^sup>*\<^sup>* s (snd (transaction (refresh_body st c fr n1 n2 (token_digest c tok)) t))"
    by (rule then_step) (rule step_refresh)
  with t show ?thesis by (auto simp: refresh_def rl split: sum.splits option.splits prod.splits)
qed

lemma admin_steps:
  "account_step\<^sup>*\<^sup>* s (snd (create_user c sl salt uid n0 n1 n2 n3 actor b s))"
  "account_step\<^sup>*\<^sup>* s (snd (update_user c n0 n1 n2 n3 actor uid u s))"
  "account_step\<^sup>*\<^sup>* s (snd (reset_password c sl salt n0 n1 n2 n3 actor uid q s))"
  "account_step\<^sup>*\<^sup>* s (snd (revoke_session c n0 n1 n2 n3 actor fid s))"
proof -
  obtain r t where wl: "write_limit c n0 actor s = (r, t)" by fastforce
  have t: "account_step\<^sup>*\<^sup>* s t" by (rule rate_steps [OF wl [unfolded write_limit_def]])
  show "account_step\<^sup>*\<^sup>* s (snd (create_user c sl salt uid n0 n1 n2 n3 actor b s))"
    using then_step [OF t step_create] t by (simp add: create_user_def wl split: sum.split)
  show "account_step\<^sup>*\<^sup>* s (snd (update_user c n0 n1 n2 n3 actor uid u s))"
    using then_step [OF t step_update] t by (simp add: update_user_def wl split: sum.split)
  show "account_step\<^sup>*\<^sup>* s (snd (reset_password c sl salt n0 n1 n2 n3 actor uid q s))"
    using then_step [OF t step_reset] then_step [OF t step_self_reset] t
    by (simp add: reset_password_def wl split: sum.split)
  show "account_step\<^sup>*\<^sup>* s (snd (revoke_session c n0 n1 n2 n3 actor fid s))"
    using then_step [OF t step_revoke] t by (simp add: revoke_session_def wl split: sum.split)
qed


section \<open>A concrete history\<close>

theorem account_system_safe_witness:
  "db_inv (snd (logout 12 12 demo_principal (snd (demo_put 0 demo_db)))) \<and>
   has_admin (snd (logout 12 12 demo_principal (snd (demo_put 0 demo_db))))"
proof -
  have "account_step demo_db (snd (demo_put 0 demo_db))" unfolding demo_put_def by (rule step_vault)
  then have "account_step\<^sup>*\<^sup>* demo_db (snd (logout 12 12 demo_principal (snd (demo_put 0 demo_db))))"
    by (meson r_into_rtranclp then_step step_logout)
  from account_system_safe [OF this demo_inv demo_has_admin] show ?thesis .
qed


end
