(* ===== verification/Energy_Planner.thy ===== *)
theory Energy_Planner
  imports Larenor_Prelude
begin

text \<open>
  Solar and battery planning: the contracts of
  \<open>server/larenor_server/energy_priorities/models.py\<close> and the advisory planner of
  \<open>energy_priorities/planner.py\<close>. The SHA-256 digests of the inputs and of the plan payload
  are parameters.
\<close>

section \<open>Contracts\<close>

definition energy_wh :: "int \<Rightarrow> bool" where "energy_wh e = between 0 (10 ^ 12) e"
definition power_w :: "int \<Rightarrow> bool" where "power_w p = between 0 (10 ^ 9) p"
definition price_ok :: "int \<Rightarrow> bool" where "price_ok p = between (- (10 ^ 9)) (10 ^ 9) p"

datatype energy_role = EAdmin | EMember

record energy_authority =
  ea_coreId :: string
  ea_homeId :: string
  ea_homeRevision :: int
  ea_accountId :: string
  ea_accountRevision :: int
  ea_memberRevision :: int
  ea_sessionFamilyId :: string
  ea_role :: energy_role
  ea_active :: bool
  ea_canPlan :: bool
  ea_canControl :: bool

definition valid_energy_authority :: "energy_authority \<Rightarrow> bool" where
  "valid_energy_authority a =
     (is_identity (ea_coreId a) \<and> is_identity (ea_homeId a) \<and> is_revision (ea_homeRevision a) \<and>
      is_identity (ea_accountId a) \<and> is_revision (ea_accountRevision a) \<and>
      is_revision (ea_memberRevision a) \<and> is_identity (ea_sessionFamilyId a))"

record meter_input =
  me_resourceId :: string
  me_revision :: int
  me_providerRevision :: int
  me_capturedAtMs :: int
  me_gridImportPowerW :: int
  me_gridExportPowerW :: int

definition valid_meter :: "meter_input \<Rightarrow> bool" where
  "valid_meter m =
     (is_identity (me_resourceId m) \<and> is_revision (me_revision m) \<and> is_revision (me_providerRevision m) \<and>
      is_timestamp (me_capturedAtMs m) \<and> power_w (me_gridImportPowerW m) \<and>
      power_w (me_gridExportPowerW m) \<and>
      \<not> (me_gridImportPowerW m \<noteq> 0 \<and> me_gridExportPowerW m \<noteq> 0))"

record solar_forecast =
  fo_resourceId :: string
  fo_revision :: int
  fo_providerRevision :: int
  fo_generatedAtMs :: int
  fo_startsAtMs :: int
  fo_slotDurationSeconds :: int
  fo_solarEnergyWh :: "int list"
  fo_loadEnergyWh :: "int list"

definition slot_list :: "(int \<Rightarrow> bool) \<Rightarrow> int list \<Rightarrow> bool" where
  "slot_list ok xs = (1 \<le> length xs \<and> length xs \<le> 96 \<and> list_all ok xs)"

definition valid_forecast :: "solar_forecast \<Rightarrow> bool" where
  "valid_forecast f =
     (is_identity (fo_resourceId f) \<and> is_revision (fo_revision f) \<and> is_revision (fo_providerRevision f) \<and>
      is_timestamp (fo_generatedAtMs f) \<and> is_timestamp (fo_startsAtMs f) \<and>
      between 300 3600 (fo_slotDurationSeconds f) \<and>
      slot_list energy_wh (fo_solarEnergyWh f) \<and> slot_list energy_wh (fo_loadEnergyWh f) \<and>
      length (fo_solarEnergyWh f) = length (fo_loadEnergyWh f))"

record tariff_input =
  ta_resourceId :: string
  ta_revision :: int
  ta_startsAtMs :: int
  ta_slotDurationSeconds :: int
  ta_importPriceMicrosPerKwh :: "int list"
  ta_exportPriceMicrosPerKwh :: "int list"

definition valid_tariff :: "tariff_input \<Rightarrow> bool" where
  "valid_tariff t =
     (is_identity (ta_resourceId t) \<and> is_revision (ta_revision t) \<and> is_timestamp (ta_startsAtMs t) \<and>
      between 300 3600 (ta_slotDurationSeconds t) \<and>
      slot_list price_ok (ta_importPriceMicrosPerKwh t) \<and>
      slot_list price_ok (ta_exportPriceMicrosPerKwh t) \<and>
      length (ta_importPriceMicrosPerKwh t) = length (ta_exportPriceMicrosPerKwh t))"

record battery_input =
  ba_resourceId :: string
  ba_revision :: int
  ba_providerRevision :: int
  ba_capturedAtMs :: int
  ba_capacityWh :: int
  ba_stateOfChargeWh :: int
  ba_minimumSocWh :: int
  ba_maximumSocWh :: int
  ba_maxChargePowerW :: int
  ba_maxDischargePowerW :: int

definition valid_battery :: "battery_input \<Rightarrow> bool" where
  "valid_battery b =
     (is_identity (ba_resourceId b) \<and> is_revision (ba_revision b) \<and> is_revision (ba_providerRevision b) \<and>
      is_timestamp (ba_capturedAtMs b) \<and> energy_wh (ba_capacityWh b) \<and>
      energy_wh (ba_stateOfChargeWh b) \<and> energy_wh (ba_minimumSocWh b) \<and>
      energy_wh (ba_maximumSocWh b) \<and> power_w (ba_maxChargePowerW b) \<and>
      power_w (ba_maxDischargePowerW b) \<and>
      0 < ba_capacityWh b \<and>
      ba_minimumSocWh b \<le> ba_stateOfChargeWh b \<and> ba_stateOfChargeWh b \<le> ba_maximumSocWh b \<and>
      ba_minimumSocWh b < ba_maximumSocWh b \<and> ba_maximumSocWh b \<le> ba_capacityWh b \<and>
      ba_maxChargePowerW b > 0 \<and> ba_maxDischargePowerW b > 0)"

record reserve_policy =
  rp_revision :: int
  rp_backupReservePercent :: int

definition valid_reserve :: "reserve_policy \<Rightarrow> bool" where
  "valid_reserve r = (is_revision (rp_revision r) \<and> between 0 100 (rp_backupReservePercent r))"

datatype energy_mode = Charge | Discharge | Hold

record manual_override =
  mo_revision :: int
  mo_mode :: energy_mode
  mo_powerW :: int
  mo_expiresAtMs :: int

definition valid_override :: "manual_override \<Rightarrow> bool" where
  "valid_override m =
     (is_revision (mo_revision m) \<and> power_w (mo_powerW m) \<and> is_timestamp (mo_expiresAtMs m) \<and>
      \<not> (mo_mode m = Hold \<and> mo_powerW m \<noteq> 0) \<and> \<not> (mo_mode m \<noteq> Hold \<and> mo_powerW m = 0))"

record energy_inputs =
  ei_coreId :: string
  ei_homeId :: string
  ei_homeRevision :: int
  ei_meter :: meter_input
  ei_forecast :: solar_forecast
  ei_tariff :: tariff_input
  ei_battery :: battery_input
  ei_reserve :: reserve_policy
  ei_manualOverride :: "manual_override option"

definition valid_inputs :: "energy_inputs \<Rightarrow> bool" where
  "valid_inputs i =
     (is_identity (ei_coreId i) \<and> is_identity (ei_homeId i) \<and> is_revision (ei_homeRevision i) \<and>
      valid_meter (ei_meter i) \<and> valid_forecast (ei_forecast i) \<and> valid_tariff (ei_tariff i) \<and>
      valid_battery (ei_battery i) \<and> valid_reserve (ei_reserve i) \<and>
      (case ei_manualOverride i of None \<Rightarrow> True | Some m \<Rightarrow> valid_override m) \<and>
      length (ta_importPriceMicrosPerKwh (ei_tariff i)) = length (fo_solarEnergyWh (ei_forecast i)) \<and>
      ta_startsAtMs (ei_tariff i) = fo_startsAtMs (ei_forecast i) \<and>
      ta_slotDurationSeconds (ei_tariff i) = fo_slotDurationSeconds (ei_forecast i))"

datatype slot_reason =
  SolarSurplus | HighTariffDeficit | ManualOverride | SafetyLimit | Balanced

record plan_slot =
  ps_index :: int
  ps_startsAtMs :: int
  ps_action :: energy_mode
  ps_powerW :: int
  ps_projectedSocWh :: int
  ps_reason :: slot_reason

definition valid_slot :: "plan_slot \<Rightarrow> bool" where
  "valid_slot s =
     (between 0 95 (ps_index s) \<and> is_timestamp (ps_startsAtMs s) \<and> power_w (ps_powerW s) \<and>
      energy_wh (ps_projectedSocWh s))"

datatype override_status = NoOverride | Active | Expired

record energy_plan =
  pl_planId :: string
  pl_coreId :: string
  pl_homeId :: string
  pl_homeRevision :: int
  pl_batteryId :: string
  pl_batteryRevision :: int
  pl_batteryProviderRevision :: int
  pl_meterRevision :: int
  pl_forecastRevision :: int
  pl_forecastProviderRevision :: int
  pl_tariffRevision :: int
  pl_reserveRevision :: int
  pl_overrideRevision :: "int option"
  pl_inputDigest :: string
  pl_advisory :: bool
  pl_automaticExecutionAllowed :: bool
  pl_overrideStatus :: override_status
  pl_overrideExpiresAtMs :: "int option"
  pl_slots :: "plan_slot list"

definition valid_plan :: "energy_plan \<Rightarrow> bool" where
  "valid_plan p =
     (is_identity (pl_planId p) \<and> is_identity (pl_coreId p) \<and> is_identity (pl_homeId p) \<and>
      is_revision (pl_homeRevision p) \<and> is_identity (pl_batteryId p) \<and> is_revision (pl_batteryRevision p) \<and>
      is_revision (pl_batteryProviderRevision p) \<and> is_revision (pl_meterRevision p) \<and>
      is_revision (pl_forecastRevision p) \<and> is_revision (pl_forecastProviderRevision p) \<and>
      is_revision (pl_tariffRevision p) \<and> is_revision (pl_reserveRevision p) \<and>
      (case pl_overrideRevision p of None \<Rightarrow> True | Some r \<Rightarrow> is_revision r) \<and>
      is_snapshot (pl_inputDigest p) \<and> pl_advisory p \<and> \<not> pl_automaticExecutionAllowed p \<and>
      (case pl_overrideExpiresAtMs p of None \<Rightarrow> True | Some t \<Rightarrow> is_timestamp t) \<and>
      1 \<le> length (pl_slots p) \<and> length (pl_slots p) \<le> 96 \<and> list_all valid_slot (pl_slots p))"

section \<open>The planner\<close>

record planner_env =
  resolve_authority :: "string \<Rightarrow> energy_authority lookup"
  resolve_inputs :: "string \<Rightarrow> energy_inputs lookup"
  input_digest :: "energy_inputs \<Rightarrow> string"
  plan_digest :: "string \<Rightarrow> override_status \<Rightarrow> string"

definition planner_authority :: "planner_env \<Rightarrow> energy_authority raw \<Rightarrow> energy_authority result" where
  "planner_authority env presented =
     bind_res (resolve_current valid_energy_authority (resolve_authority env) ea_accountId
                 forbidden forbidden forbidden presented)
       (\<lambda>a. if \<not> ea_active a \<or> \<not> ea_canPlan a then Inl forbidden else Inr a)"

definition override_state :: "int \<Rightarrow> manual_override option \<Rightarrow> override_status" where
  "override_state now ov =
     (case ov of None \<Rightarrow> NoOverride | Some m \<Rightarrow> if now < mo_expiresAtMs m then Active else Expired)"

definition reserve_wh :: "energy_inputs \<Rightarrow> int" where
  "reserve_wh i =
     max (ba_minimumSocWh (ei_battery i))
         (ba_capacityWh (ei_battery i) * rp_backupReservePercent (ei_reserve i) div 100)"

text \<open>\<open>amount = min(wanted, limit, room)\<close>, and the action it gives when it is positive.\<close>

definition charge_by :: "energy_inputs \<Rightarrow> int \<Rightarrow> int \<Rightarrow> slot_reason \<Rightarrow> slot_reason
    \<Rightarrow> energy_mode \<times> int \<times> slot_reason \<times> int" where
  "charge_by i soc wanted reason otherwise =
     (let b = ei_battery i;
          secs = fo_slotDurationSeconds (ei_forecast i);
          max_charge_wh = ba_maxChargePowerW b * secs div 3600;
          amount = min wanted (min max_charge_wh (ba_maximumSocWh b - soc))
      in if amount > 0 then (Charge, amount * 3600 div secs, reason, soc + amount)
         else (Hold, 0, otherwise, soc))"

definition discharge_by :: "energy_inputs \<Rightarrow> int \<Rightarrow> int \<Rightarrow> slot_reason \<Rightarrow> slot_reason
    \<Rightarrow> energy_mode \<times> int \<times> slot_reason \<times> int" where
  "discharge_by i soc wanted reason otherwise =
     (let b = ei_battery i;
          secs = fo_slotDurationSeconds (ei_forecast i);
          max_discharge_wh = ba_maxDischargePowerW b * secs div 3600;
          amount = min wanted (min max_discharge_wh (soc - reserve_wh i))
      in if amount > 0 then (Discharge, amount * 3600 div secs, reason, soc - amount)
         else (Hold, 0, otherwise, soc))"

text \<open>The decision for one slot: the action, its power, the reason and the new charge.\<close>

definition plan_slot_step :: "energy_inputs \<Rightarrow> override_status \<Rightarrow> int \<Rightarrow> int \<Rightarrow> int \<Rightarrow> int \<Rightarrow> int \<Rightarrow> int
    \<Rightarrow> energy_mode \<times> int \<times> slot_reason \<times> int" where
  "plan_slot_step i status high low solar load tariff soc =
     (case (status, ei_manualOverride i) of
        (Active, Some ov) \<Rightarrow>
          (let requested = mo_powerW ov * fo_slotDurationSeconds (ei_forecast i) div 3600 in
           case mo_mode ov of
             Charge \<Rightarrow> charge_by i soc requested ManualOverride ManualOverride
           | Discharge \<Rightarrow> discharge_by i soc requested ManualOverride ManualOverride
           | Hold \<Rightarrow> (Hold, 0, ManualOverride, soc))
      | _ \<Rightarrow>
          (let surplus = max (solar - load) 0; deficit = max (load - solar) 0 in
           if surplus \<noteq> 0 then charge_by i soc surplus SolarSurplus SafetyLimit
           else if deficit \<noteq> 0 \<and> tariff = high \<and> high > low
           then discharge_by i soc deficit HighTariffDeficit SafetyLimit
           else (Hold, 0, Balanced, soc)))"

fun plan_loop :: "energy_inputs \<Rightarrow> override_status \<Rightarrow> int \<Rightarrow> int \<Rightarrow> (int \<times> int \<times> int) list \<Rightarrow> int \<Rightarrow> int
    \<Rightarrow> plan_slot list" where
  "plan_loop i status high low [] index soc = []"
| "plan_loop i status high low ((solar, load, tariff) # rest) index soc =
     (case plan_slot_step i status high low solar load tariff soc of
        (action, pw, reason, soc') \<Rightarrow>
          \<lparr>ps_index = index,
           ps_startsAtMs = fo_startsAtMs (ei_forecast i)
             + index * fo_slotDurationSeconds (ei_forecast i) * 1000,
           ps_action = action, ps_powerW = pw, ps_projectedSocWh = soc', ps_reason = reason\<rparr>
          # plan_loop i status high low rest (index + 1) soc')"

fun max_list :: "int list \<Rightarrow> int" where
  "max_list [] = 0"
| "max_list [x] = x"
| "max_list (x # xs) = max x (max_list xs)"

fun min_list_int :: "int list \<Rightarrow> int" where
  "min_list_int [] = 0"
| "min_list_int [x] = x"
| "min_list_int (x # xs) = min x (min_list_int xs)"

definition slot_inputs :: "energy_inputs \<Rightarrow> (int \<times> int \<times> int) list" where
  "slot_inputs i =
     zip (fo_solarEnergyWh (ei_forecast i))
         (zip (fo_loadEnergyWh (ei_forecast i)) (ta_importPriceMicrosPerKwh (ei_tariff i)))"

definition build_plan :: "planner_env \<Rightarrow> int \<Rightarrow> energy_inputs \<Rightarrow> energy_plan" where
  "build_plan env now i =
     (let ov = ei_manualOverride i;
          status = override_state now ov;
          prices = ta_importPriceMicrosPerKwh (ei_tariff i)
      in \<lparr>pl_planId = plan_digest env (input_digest env i) status,
          pl_coreId = ei_coreId i, pl_homeId = ei_homeId i, pl_homeRevision = ei_homeRevision i,
          pl_batteryId = ba_resourceId (ei_battery i),
          pl_batteryRevision = ba_revision (ei_battery i),
          pl_batteryProviderRevision = ba_providerRevision (ei_battery i),
          pl_meterRevision = me_revision (ei_meter i),
          pl_forecastRevision = fo_revision (ei_forecast i),
          pl_forecastProviderRevision = fo_providerRevision (ei_forecast i),
          pl_tariffRevision = ta_revision (ei_tariff i),
          pl_reserveRevision = rp_revision (ei_reserve i),
          pl_overrideRevision = map_option mo_revision ov,
          pl_inputDigest = input_digest env i,
          pl_advisory = True, pl_automaticExecutionAllowed = False,
          pl_overrideStatus = status,
          pl_overrideExpiresAtMs = map_option mo_expiresAtMs ov,
          pl_slots = plan_loop i status (max_list prices) (min_list_int prices) (slot_inputs i) 0
                       (ba_stateOfChargeWh (ei_battery i))\<rparr>)"

text \<open>\<open>EnergyPlanner.plan\<close>. The plan is a contract too: the constructor raises where one of
  its fields is out of range.\<close>

definition energy_plan_of :: "planner_env \<Rightarrow> int \<Rightarrow> energy_authority raw \<Rightarrow> energy_inputs raw
    \<Rightarrow> energy_plan result" where
  "energy_plan_of env now presented raw =
     bind_res (planner_authority env presented) (\<lambda>authority.
     bind_res (resolve_current valid_inputs (resolve_inputs env) (\<lambda>i. ba_resourceId (ei_battery i))
                 bad_request (ApiError ''server_unavailable'' 503) not_found raw) (\<lambda>source.
       if (ei_coreId source, ei_homeId source, ei_homeRevision source)
            \<noteq> (ea_coreId authority, ea_homeId authority, ea_homeRevision authority)
       then Inl revision_conflict
       else let plan = build_plan env now source in
            if valid_plan plan then Inr plan else Inl ValidationError))"


section \<open>Safety of a plan\<close>

lemma power_from_energy:
  fixes amount p secs :: int
  assumes "0 < amount" and "amount \<le> p * secs div 3600" and "0 < secs"
  shows "0 \<le> amount * 3600 div secs" "amount * 3600 div secs \<le> p"
proof -
  have "amount * 3600 \<le> p * secs"
    using assms(2) by linarith
  then have "amount * 3600 div secs \<le> p * secs div secs"
    using assms(3) by (rule zdiv_mono1)
  then show "amount * 3600 div secs \<le> p" using assms(3) by simp
  show "0 \<le> amount * 3600 div secs" using assms by (simp add: pos_imp_zdiv_nonneg_iff)
qed

text \<open>What one decision respects, from a charge level within the battery's limits.\<close>

definition step_safe :: "energy_inputs \<Rightarrow> int \<Rightarrow> energy_mode \<times> int \<times> slot_reason \<times> int \<Rightarrow> bool" where
  "step_safe i soc r =
     (case r of (action, pw, _, soc') \<Rightarrow>
        let b = ei_battery i in
        0 \<le> pw \<and> ba_minimumSocWh b \<le> soc' \<and> soc' \<le> ba_maximumSocWh b \<and>
        (case action of
           Hold \<Rightarrow> pw = 0 \<and> soc' = soc
         | Charge \<Rightarrow> pw \<le> ba_maxChargePowerW b \<and> soc < soc'
         | Discharge \<Rightarrow> pw \<le> ba_maxDischargePowerW b \<and> soc' < soc \<and> reserve_wh i \<le> soc'))"

lemma hold_safe:
  "ba_minimumSocWh (ei_battery i) \<le> soc \<Longrightarrow> soc \<le> ba_maximumSocWh (ei_battery i) \<Longrightarrow>
     step_safe i soc (Hold, 0, r, soc)"
  by (simp add: step_safe_def Let_def)

lemma charge_by_safe:
  assumes "ba_minimumSocWh (ei_battery i) \<le> soc" "soc \<le> ba_maximumSocWh (ei_battery i)"
    "0 < fo_slotDurationSeconds (ei_forecast i)"
  shows "step_safe i soc (charge_by i soc wanted r r')"
proof -
  let ?secs = "fo_slotDurationSeconds (ei_forecast i)"
  let ?lim = "ba_maxChargePowerW (ei_battery i) * ?secs div 3600"
  define amount where "amount = min wanted (min ?lim (ba_maximumSocWh (ei_battery i) - soc))"
  have le: "amount \<le> ?lim" "amount \<le> ba_maximumSocWh (ei_battery i) - soc"
    by (simp_all add: amount_def)
  have "step_safe i soc (Charge, amount * 3600 div ?secs, r, soc + amount)" if "0 < amount"
    using power_from_energy [OF that le(1) assms(3)] that le(2) assms(1)
    by (simp add: step_safe_def Let_def)
  with hold_safe [OF assms(1,2)] show ?thesis
    by (simp add: charge_by_def Let_def amount_def [symmetric] del: min_less_iff_conj)
qed

lemma discharge_by_safe:
  assumes "ba_minimumSocWh (ei_battery i) \<le> soc" "soc \<le> ba_maximumSocWh (ei_battery i)"
    "0 < fo_slotDurationSeconds (ei_forecast i)"
  shows "step_safe i soc (discharge_by i soc wanted r r')"
proof -
  let ?secs = "fo_slotDurationSeconds (ei_forecast i)"
  let ?lim = "ba_maxDischargePowerW (ei_battery i) * ?secs div 3600"
  define amount where "amount = min wanted (min ?lim (soc - reserve_wh i))"
  have le: "amount \<le> ?lim" "amount \<le> soc - reserve_wh i" by (simp_all add: amount_def)
  have "ba_minimumSocWh (ei_battery i) \<le> reserve_wh i" by (simp add: reserve_wh_def)
  then have "step_safe i soc (Discharge, amount * 3600 div ?secs, r, soc - amount)" if "0 < amount"
    using power_from_energy [OF that le(1) assms(3)] that le(2) assms(2)
    by (simp add: step_safe_def Let_def)
  with hold_safe [OF assms(1,2)] show ?thesis
    by (simp add: discharge_by_def Let_def amount_def [symmetric] del: min_less_iff_conj)
qed

lemma plan_slot_step_safe:
  assumes "valid_inputs i" and "ba_minimumSocWh (ei_battery i) \<le> soc" "soc \<le> ba_maximumSocWh (ei_battery i)"
  shows "step_safe i soc (plan_slot_step i status high low solar load tariff soc)"
proof -
  have secs: "0 < fo_slotDurationSeconds (ei_forecast i)"
    using assms(1) by (simp add: valid_inputs_def valid_forecast_def)
  show ?thesis
    by (simp add: plan_slot_step_def Let_def hold_safe charge_by_safe discharge_by_safe assms secs
        split: override_status.split option.split energy_mode.split)
qed

text \<open>A whole run of decisions.\<close>

fun slots_safe :: "energy_inputs \<Rightarrow> int \<Rightarrow> plan_slot list \<Rightarrow> bool" where
  "slots_safe i soc [] = True"
| "slots_safe i soc (s # ss) =
     (step_safe i soc (ps_action s, ps_powerW s, ps_reason s, ps_projectedSocWh s)
      \<and> slots_safe i (ps_projectedSocWh s) ss)"

lemma plan_loop_safe:
  assumes "valid_inputs i"
  shows "ba_minimumSocWh (ei_battery i) \<le> soc \<Longrightarrow> soc \<le> ba_maximumSocWh (ei_battery i) \<Longrightarrow>
    slots_safe i soc (plan_loop i status high low ins index soc)"
proof (induction ins arbitrary: index soc)
  case (Cons x ins)
  obtain solar load tariff where x: "x = (solar, load, tariff)" by (cases x)
  obtain a pw r soc' where st: "plan_slot_step i status high low solar load tariff soc = (a, pw, r, soc')"
    by (cases "plan_slot_step i status high low solar load tariff soc")
  have safe: "step_safe i soc (a, pw, r, soc')"
    using plan_slot_step_safe [OF assms Cons.prems] st by metis
  then have "ba_minimumSocWh (ei_battery i) \<le> soc'" "soc' \<le> ba_maximumSocWh (ei_battery i)"
    by (simp_all add: step_safe_def Let_def)
  with Cons.IH safe show ?case by (simp add: x st)
qed simp

lemma plan_loop_length: "length (plan_loop i status high low ins index soc) = length ins"
  by (induction ins arbitrary: index soc) (auto split: prod.splits)

lemma plan_loop_nth:
  "k < length ins \<Longrightarrow>
     ps_index (plan_loop i status high low ins index soc ! k) = index + int k \<and>
     ps_startsAtMs (plan_loop i status high low ins index soc ! k) =
       fo_startsAtMs (ei_forecast i) + (index + int k) * fo_slotDurationSeconds (ei_forecast i) * 1000"
proof (induction ins arbitrary: k index soc)
  case (Cons x ins)
  obtain solar load tariff where x: "x = (solar, load, tariff)" by (cases x)
  obtain a pw r soc' where st: "plan_slot_step i status high low solar load tariff soc = (a, pw, r, soc')"
    by (cases "plan_slot_step i status high low solar load tariff soc")
  show ?case
  proof (cases k)
    case 0
    then show ?thesis by (simp add: x st)
  next
    case (Suc j)
    then have "j < length ins" using Cons.prems by simp
    from Cons.IH [OF this, of "index + 1" soc'] Suc show ?thesis by (simp add: x st algebra_simps)
  qed
qed simp

lemma energy_plan_of_Inr:
  assumes "energy_plan_of env now presented raw = Inr plan"
  obtains i where "raw = Some i" "valid_inputs i" "plan = build_plan env now i" "valid_plan plan"
    "resolve_inputs env (ba_resourceId (ei_battery i)) = Found (Some i)"
  using assms
  by (auto simp: energy_plan_of_def bind_res_Inr_iff Let_def resolve_current_Inr_iff split: if_splits)


lemma slots_safe_member:
  assumes "slots_safe i soc ss" and "s \<in> set ss"
  shows "\<exists>soc0. step_safe i soc0 (ps_action s, ps_powerW s, ps_reason s, ps_projectedSocWh s)"
  using assms by (induction ss arbitrary: soc) auto

text \<open>C23: Battery limits. In every plan the planner returns, each slot keeps the projected
  charge between the battery's minimum and maximum, charges and discharges no faster than the
  battery allows, holds with zero power, and never discharges below the backup reserve.\<close>

theorem energy_plan_within_limits:
  assumes "energy_plan_of env now presented (Some i) = Inr plan" and "s \<in> set (pl_slots plan)"
  shows "ba_minimumSocWh (ei_battery i) \<le> ps_projectedSocWh s
    \<and> ps_projectedSocWh s \<le> ba_maximumSocWh (ei_battery i)
    \<and> (ps_action s = Charge \<longrightarrow> 0 \<le> ps_powerW s \<and> ps_powerW s \<le> ba_maxChargePowerW (ei_battery i))
    \<and> (ps_action s = Discharge \<longrightarrow> 0 \<le> ps_powerW s \<and> ps_powerW s \<le> ba_maxDischargePowerW (ei_battery i)
         \<and> reserve_wh i \<le> ps_projectedSocWh s)
    \<and> (ps_action s = Hold \<longrightarrow> ps_powerW s = 0)"
proof -
  have v: "valid_inputs i" and p: "plan = build_plan env now i"
    using assms(1) by (auto elim: energy_plan_of_Inr)
  have b: "ba_minimumSocWh (ei_battery i) \<le> ba_stateOfChargeWh (ei_battery i)"
    "ba_stateOfChargeWh (ei_battery i) \<le> ba_maximumSocWh (ei_battery i)"
    using v by (simp_all add: valid_inputs_def valid_battery_def)
  have "slots_safe i (ba_stateOfChargeWh (ei_battery i)) (pl_slots plan)"
    using plan_loop_safe [OF v b] by (simp add: p build_plan_def Let_def)
  from slots_safe_member [OF this assms(2)] show ?thesis
    by (auto simp: step_safe_def Let_def)
qed

lemma slot_inputs_length:
  "valid_inputs i \<Longrightarrow> length (slot_inputs i) = length (fo_solarEnergyWh (ei_forecast i))"
  by (auto simp: slot_inputs_def valid_inputs_def valid_forecast_def)

text \<open>The timeline. A plan has one slot for each forecast slot, numbered from zero, and
  slot \<open>k\<close> starts \<open>k\<close> slot lengths after the forecast does. The plan is marked
  advisory and never executable by itself.\<close>

theorem energy_plan_timeline:
  assumes "energy_plan_of env now presented (Some i) = Inr plan"
    and "k < length (fo_solarEnergyWh (ei_forecast i))"
  shows "length (pl_slots plan) = length (fo_solarEnergyWh (ei_forecast i))
    \<and> ps_index (pl_slots plan ! k) = int k
    \<and> ps_startsAtMs (pl_slots plan ! k) =
        fo_startsAtMs (ei_forecast i) + int k * fo_slotDurationSeconds (ei_forecast i) * 1000
    \<and> pl_advisory plan \<and> \<not> pl_automaticExecutionAllowed plan"
proof -
  have v: "valid_inputs i" and p: "plan = build_plan env now i"
    using assms(1) by (auto elim: energy_plan_of_Inr)
  show ?thesis
    using plan_loop_nth [of k "slot_inputs i" i _ _ _ 0] slot_inputs_length [OF v] assms(2)
    by (simp add: p build_plan_def Let_def plan_loop_length)
qed

text \<open>The plan is well formed unless its last slot starts after the largest time stamp.\<close>

definition last_start :: "energy_inputs \<Rightarrow> int" where
  "last_start i = fo_startsAtMs (ei_forecast i)
     + (int (length (fo_solarEnergyWh (ei_forecast i))) - 1) * fo_slotDurationSeconds (ei_forecast i) * 1000"

lemma slot_start_le_last:
  assumes "valid_inputs i" and "k < length (fo_solarEnergyWh (ei_forecast i))"
  shows "fo_startsAtMs (ei_forecast i) + int k * fo_slotDurationSeconds (ei_forecast i) * 1000 \<le> last_start i"
proof -
  have "0 < fo_slotDurationSeconds (ei_forecast i)"
    using assms(1) by (simp add: valid_inputs_def valid_forecast_def)
  moreover have "int k \<le> int (length (fo_solarEnergyWh (ei_forecast i))) - 1" using assms(2) by linarith
  ultimately show ?thesis by (simp add: last_start_def mult_right_mono)
qed

lemma build_plan_valid_iff:
  assumes v: "valid_inputs i" and dig: "is_snapshot (input_digest env i)"
    "is_identity (plan_digest env (input_digest env i) (override_state now (ei_manualOverride i)))"
  shows "valid_plan (build_plan env now i) \<longleftrightarrow> last_start i \<le> 2 ^ 63 - 1"
proof -
  let ?n = "length (fo_solarEnergyWh (ei_forecast i))"
  let ?slots = "pl_slots (build_plan env now i)"
  have n: "1 \<le> ?n" "?n \<le> 96" and start: "0 \<le> fo_startsAtMs (ei_forecast i)"
    and secs: "0 < fo_slotDurationSeconds (ei_forecast i)"
    using v by (auto simp: valid_inputs_def valid_forecast_def slot_list_def is_timestamp_def)
  have len: "length ?slots = ?n"
    using slot_inputs_length [OF v] by (simp add: build_plan_def Let_def plan_loop_length)
  have nth: "ps_index (?slots ! k) = int k" "ps_startsAtMs (?slots ! k) =
      fo_startsAtMs (ei_forecast i) + int k * fo_slotDurationSeconds (ei_forecast i) * 1000"
    if "k < ?n" for k
    using plan_loop_nth [of k "slot_inputs i" i _ _ _ 0] slot_inputs_length [OF v] that
    by (simp_all add: build_plan_def Let_def)
  have b: "ba_minimumSocWh (ei_battery i) \<le> ba_stateOfChargeWh (ei_battery i)"
    "ba_stateOfChargeWh (ei_battery i) \<le> ba_maximumSocWh (ei_battery i)"
    "0 \<le> ba_minimumSocWh (ei_battery i)" "ba_maximumSocWh (ei_battery i) \<le> 10 ^ 12"
    "ba_maxChargePowerW (ei_battery i) \<le> 10 ^ 9" "ba_maxDischargePowerW (ei_battery i) \<le> 10 ^ 9"
    using v by (simp_all add: valid_inputs_def valid_battery_def energy_wh_def power_w_def)
  have safe: "slots_safe i (ba_stateOfChargeWh (ei_battery i)) ?slots"
    using plan_loop_safe [OF v b(1,2)] by (simp add: build_plan_def Let_def)
  have fields: "power_w (ps_powerW s) \<and> energy_wh (ps_projectedSocWh s)" if "s \<in> set ?slots" for s
    using slots_safe_member [OF safe that] b(3-6)
    by (cases "ps_action s") (auto simp: step_safe_def Let_def power_w_def energy_wh_def)
  have "list_all valid_slot ?slots \<longleftrightarrow> (\<forall>k < ?n. ps_startsAtMs (?slots ! k) \<le> 2 ^ 63 - 1)"
    using fields nth n(2) start secs len
    by (auto simp: list_all_length valid_slot_def is_timestamp_def)
  also have "\<dots> \<longleftrightarrow> last_start i \<le> 2 ^ 63 - 1"
  proof
    assume all: "\<forall>k < ?n. ps_startsAtMs (?slots ! k) \<le> 2 ^ 63 - 1"
    have k: "?n - 1 < ?n" using n by simp
    have "last_start i = ps_startsAtMs (?slots ! (?n - 1))"
      using nth(2) [OF k] n by (simp add: last_start_def of_nat_diff)
    also have "\<dots> \<le> 2 ^ 63 - 1" using all k by blast
    finally show "last_start i \<le> 2 ^ 63 - 1" .
  next
    assume "last_start i \<le> 2 ^ 63 - 1"
    with slot_start_le_last [OF v] nth(2) show "\<forall>k < ?n. ps_startsAtMs (?slots ! k) \<le> 2 ^ 63 - 1"
      by (metis order_trans)
  qed
  finally have slots: "list_all valid_slot ?slots \<longleftrightarrow> last_start i \<le> 2 ^ 63 - 1" .
  have "valid_plan (build_plan env now i) \<longleftrightarrow> list_all valid_slot ?slots"
    using v dig n len
    by (auto simp: valid_plan_def build_plan_def Let_def valid_inputs_def valid_meter_def
        valid_forecast_def valid_tariff_def valid_battery_def valid_reserve_def valid_override_def
        split: option.splits)
  with slots show ?thesis by simp
qed

text \<open>C24: When planning answers. For an accepted authority and accepted inputs of the same
  home the planner returns a plan exactly when the last slot still starts within the time stamp
  range; past it the constructor of the plan raises an exception that is not an API error.\<close>

theorem energy_plan_total:
  assumes auth: "planner_authority env (Some a) = Inr a"
    and v: "valid_inputs i" and cur: "resolve_inputs env (ba_resourceId (ei_battery i)) = Found (Some i)"
    and home: "ei_coreId i = ea_coreId a" "ei_homeId i = ea_homeId a" "ei_homeRevision i = ea_homeRevision a"
    and dig: "is_snapshot (input_digest env i)"
      "is_identity (plan_digest env (input_digest env i) (override_state now (ei_manualOverride i)))"
  shows "energy_plan_of env now (Some a) (Some i) =
    (if last_start i \<le> 2 ^ 63 - 1 then Inr (build_plan env now i) else Inl ValidationError)"
proof -
  have "resolve_current valid_inputs (resolve_inputs env) (\<lambda>i. ba_resourceId (ei_battery i))
      bad_request (ApiError ''server_unavailable'' 503) not_found (Some i) = Inr i"
    using v cur by (simp add: resolve_current_Inr_iff)
  with auth home build_plan_valid_iff [OF v dig] show ?thesis
    by (simp add: energy_plan_of_def Let_def)
qed

section \<open>A concrete home\<close>

definition sample_authority :: energy_authority where
  "sample_authority = \<lparr>ea_coreId = id_of (CHR ''a''), ea_homeId = id_of (CHR ''b''), ea_homeRevision = 1,
     ea_accountId = id_of (CHR ''c''), ea_accountRevision = 1, ea_memberRevision = 1,
     ea_sessionFamilyId = id_of (CHR ''d''), ea_role = EAdmin, ea_active = True, ea_canPlan = True,
     ea_canControl = True\<rparr>"

definition sample_inputs :: energy_inputs where
  "sample_inputs = \<lparr>ei_coreId = id_of (CHR ''a''), ei_homeId = id_of (CHR ''b''), ei_homeRevision = 1,
     ei_meter = \<lparr>me_resourceId = id_of (CHR ''1''), me_revision = 1, me_providerRevision = 1,
       me_capturedAtMs = 0, me_gridImportPowerW = 0, me_gridExportPowerW = 0\<rparr>,
     ei_forecast = \<lparr>fo_resourceId = id_of (CHR ''2''), fo_revision = 1, fo_providerRevision = 1,
       fo_generatedAtMs = 0, fo_startsAtMs = 1000, fo_slotDurationSeconds = 3600,
       fo_solarEnergyWh = [3000, 0], fo_loadEnergyWh = [1000, 2500]\<rparr>,
     ei_tariff = \<lparr>ta_resourceId = id_of (CHR ''3''), ta_revision = 1, ta_startsAtMs = 1000,
       ta_slotDurationSeconds = 3600, ta_importPriceMicrosPerKwh = [1, 9],
       ta_exportPriceMicrosPerKwh = [1, 1]\<rparr>,
     ei_battery = \<lparr>ba_resourceId = id_of (CHR ''4''), ba_revision = 1, ba_providerRevision = 1,
       ba_capturedAtMs = 0, ba_capacityWh = 10000, ba_stateOfChargeWh = 4000,
       ba_minimumSocWh = 1000, ba_maximumSocWh = 9000, ba_maxChargePowerW = 1500,
       ba_maxDischargePowerW = 2000\<rparr>,
     ei_reserve = \<lparr>rp_revision = 1, rp_backupReservePercent = 40\<rparr>, ei_manualOverride = None\<rparr>"

definition sample_planner :: planner_env where
  "sample_planner = \<lparr>resolve_authority = (\<lambda>_. Found (Some sample_authority)),
     resolve_inputs = (\<lambda>_. Found (Some sample_inputs)),
     input_digest = (\<lambda>_. digest_of (CHR ''5'')), plan_digest = (\<lambda>_ _. id_of (CHR ''6''))\<rparr>"

lemma sample_plan_computed:
  "energy_plan_of sample_planner 0 (Some sample_authority) (Some sample_inputs)
     = Inr (build_plan sample_planner 0 sample_inputs)"
  by code_simp

theorem energy_plan_within_limits_witness:
  "reserve_wh sample_inputs \<le> ps_projectedSocWh (pl_slots (build_plan sample_planner 0 sample_inputs) ! 1)"
proof -
  let ?s = "pl_slots (build_plan sample_planner 0 sample_inputs) ! 1"
  have "?s \<in> set (pl_slots (build_plan sample_planner 0 sample_inputs))" "ps_action ?s = Discharge"
    by code_simp+
  with energy_plan_within_limits [OF sample_plan_computed, of ?s] show ?thesis by blast
qed

theorem energy_plan_timeline_witness:
  "ps_startsAtMs (pl_slots (build_plan sample_planner 0 sample_inputs) ! 1) = 3601000"
  using energy_plan_timeline [OF sample_plan_computed, of 1]
  by (simp add: sample_inputs_def)

theorem energy_plan_total_witness:
  "energy_plan_of sample_planner 0 (Some sample_authority) (Some sample_inputs)
     = Inr (build_plan sample_planner 0 sample_inputs)"
proof -
  have "planner_authority sample_planner (Some sample_authority) = Inr sample_authority"
    "valid_inputs sample_inputs"
    "resolve_inputs sample_planner (ba_resourceId (ei_battery sample_inputs)) = Found (Some sample_inputs)"
    "ei_coreId sample_inputs = ea_coreId sample_authority" "ei_homeId sample_inputs = ea_homeId sample_authority"
    "ei_homeRevision sample_inputs = ea_homeRevision sample_authority"
    "is_snapshot (input_digest sample_planner sample_inputs)"
    "is_identity (plan_digest sample_planner (input_digest sample_planner sample_inputs)
       (override_state 0 (ei_manualOverride sample_inputs)))"
    "last_start sample_inputs \<le> 2 ^ 63 - 1"
    by code_simp+
  with energy_plan_total [of sample_planner sample_authority sample_inputs 0] show ?thesis by simp
qed

end
