(* ===== verification/Energy_Commands.thy ===== *)
theory Energy_Commands
  imports Energy_Planner
begin

text \<open>
  Explicit inverter commands: the whole of \<open>energy_priorities/commands.py\<close> and its contracts
  in \<open>energy_priorities/models.py\<close>. The manager's dictionaries are association lists in
  insertion order, its lock makes every operation one step. The two keyed digests, the plan
  and authority resolvers and the inverter worker are parameters. To be able to state how
  often the worker is driven, the state records the commands sent to it.
\<close>

section \<open>State\<close>

definition MAX_COMMANDS :: nat where "MAX_COMMANDS = 1000"
definition MAX_AUDIT :: nat where "MAX_AUDIT = 10000"
definition ZERO_HASH :: string where "ZERO_HASH = replicate 64 (CHR ''0'')"

record inverter_preview =
  ip_requestId :: string
  ip_planId :: string
  ip_coreId :: string
  ip_homeId :: string
  ip_accountId :: string
  ip_accountRevision :: int
  ip_memberRevision :: int
  ip_sessionFamilyId :: string
  ip_inverterId :: string
  ip_expectedInverterRevision :: int
  ip_batteryId :: string
  ip_expectedBatteryRevision :: int
  ip_inputDigest :: string
  ip_targetPowerW :: int
  ip_expiresAtMs :: int
  ip_confirmationToken :: string

definition signed_power_ok :: "int \<Rightarrow> bool" where
  "signed_power_ok p = between (- (10 ^ 9)) (10 ^ 9) p"

definition valid_preview :: "inverter_preview \<Rightarrow> bool" where
  "valid_preview p =
     (is_identity (ip_requestId p) \<and> is_identity (ip_planId p) \<and> is_identity (ip_coreId p) \<and>
      is_identity (ip_homeId p) \<and> is_identity (ip_accountId p) \<and>
      is_revision (ip_accountRevision p) \<and> is_revision (ip_memberRevision p) \<and>
      is_identity (ip_sessionFamilyId p) \<and> is_identity (ip_inverterId p) \<and>
      is_revision (ip_expectedInverterRevision p) \<and> is_identity (ip_batteryId p) \<and>
      is_revision (ip_expectedBatteryRevision p) \<and> is_snapshot (ip_inputDigest p) \<and>
      signed_power_ok (ip_targetPowerW p) \<and> is_timestamp (ip_expiresAtMs p) \<and>
      is_snapshot (ip_confirmationToken p))"

record inverter_command =
  ic_requestId :: string
  ic_planId :: string
  ic_coreId :: string
  ic_homeId :: string
  ic_accountId :: string
  ic_accountRevision :: int
  ic_memberRevision :: int
  ic_sessionFamilyId :: string
  ic_inverterId :: string
  ic_expectedInverterRevision :: int
  ic_batteryId :: string
  ic_expectedBatteryRevision :: int
  ic_inputDigest :: string
  ic_targetPowerW :: int

record inverter_readback =
  ir_requestId :: string
  ir_coreId :: string
  ir_homeId :: string
  ir_inverterId :: string
  ir_inverterRevision :: int
  ir_batteryId :: string
  ir_batteryRevision :: int
  ir_inputDigest :: string
  ir_targetPowerW :: int
  ir_observedPowerW :: int

definition valid_readback :: "inverter_readback \<Rightarrow> bool" where
  "valid_readback r =
     (is_identity (ir_requestId r) \<and> is_identity (ir_coreId r) \<and> is_identity (ir_homeId r) \<and>
      is_identity (ir_inverterId r) \<and> is_revision (ir_inverterRevision r) \<and>
      is_identity (ir_batteryId r) \<and> is_revision (ir_batteryRevision r) \<and>
      is_snapshot (ir_inputDigest r) \<and> signed_power_ok (ir_targetPowerW r) \<and>
      signed_power_ok (ir_observedPowerW r))"

datatype command_status = Confirmed | Uncertain
datatype uncertain_reason = LostAck | ReadbackMismatch

record command_result =
  cr_requestId :: string
  cr_status :: command_status
  cr_reason :: "uncertain_reason option"
  cr_readbackVerified :: bool
  cr_readback :: "inverter_readback option"

definition coherent_result :: "command_result \<Rightarrow> bool" where
  "coherent_result r =
     (case cr_status r of
        Confirmed \<Rightarrow> cr_readbackVerified r \<and> cr_readback r \<noteq> None \<and> cr_reason r = None
      | Uncertain \<Rightarrow> \<not> cr_readbackVerified r \<and> cr_readback r = None \<and> cr_reason r \<noteq> None)"

datatype audit_action = Previewed | ConfirmedAction | UncertainAction

record audit_subject =
  as_requestId :: string
  as_planId :: string
  as_coreId :: string
  as_homeId :: string
  as_accountId :: string
  as_sessionFamilyId :: string
  as_inverterId :: string
  as_inputDigest :: string
  as_targetPowerW :: int

record audit_entry =
  ae_sequence :: nat
  ae_action :: audit_action
  ae_subject :: audit_subject
  ae_createdAtMs :: int
  ae_previousHash :: string
  ae_entryHash :: string

record command_state =
  cs_preview :: inverter_preview
  cs_plan :: energy_plan
  cs_result :: "command_result option"

record manager =
  commands :: "(string \<times> command_state) list"
  audit_log :: "audit_entry list"
  dispatched :: "inverter_command list"

record manager_env =
  auth_resolver :: "string \<Rightarrow> energy_authority lookup"
  plan_resolver :: "string \<Rightarrow> energy_plan lookup"
  worker :: "inverter_command \<Rightarrow> inverter_readback lookup"
  entry_hash :: "nat \<Rightarrow> audit_action \<Rightarrow> audit_subject \<Rightarrow> int \<Rightarrow> string \<Rightarrow> string"
  token_hash :: "inverter_preview \<Rightarrow> string"

section \<open>Operations\<close>

abbreviation integrity_failed :: error where
  "integrity_failed \<equiv> ApiError ''energy_command_integrity_failed'' 503"

definition control_authority :: "manager_env \<Rightarrow> energy_authority raw \<Rightarrow> energy_authority result" where
  "control_authority env presented =
     bind_res (resolve_current valid_energy_authority (auth_resolver env) ea_accountId
                 forbidden forbidden forbidden presented)
       (\<lambda>a. if \<not> ea_active a \<or> \<not> ea_canControl a \<or> ea_role a \<noteq> EAdmin
             then Inl forbidden else Inr a)"

text \<open>\<open>_preview_values\<close> leaves the confirmation token out of the digest that makes it.\<close>

definition blank :: "inverter_preview \<Rightarrow> inverter_preview" where
  "blank p = p\<lparr>ip_confirmationToken := ZERO_HASH\<rparr>"

definition subject_of :: "inverter_preview \<Rightarrow> audit_subject" where
  "subject_of p =
     \<lparr>as_requestId = ip_requestId p, as_planId = ip_planId p, as_coreId = ip_coreId p,
      as_homeId = ip_homeId p, as_accountId = ip_accountId p,
      as_sessionFamilyId = ip_sessionFamilyId p, as_inverterId = ip_inverterId p,
      as_inputDigest = ip_inputDigest p, as_targetPowerW = ip_targetPowerW p\<rparr>"

fun audit_chain :: "manager_env \<Rightarrow> nat \<Rightarrow> string \<Rightarrow> audit_entry list \<Rightarrow> bool" where
  "audit_chain env sequence previous [] = True"
| "audit_chain env sequence previous (e # es) =
     (ae_sequence e = sequence \<and> ae_previousHash e = previous \<and>
      ae_entryHash e = entry_hash env sequence (ae_action e) (ae_subject e) (ae_createdAtMs e) previous \<and>
      audit_chain env (sequence + 1) (ae_entryHash e) es)"

definition validate_audit :: "manager_env \<Rightarrow> manager \<Rightarrow> unit result" where
  "validate_audit env m =
     (if length (audit_log m) > MAX_AUDIT then Inl integrity_failed
      else if audit_chain env 1 ZERO_HASH (audit_log m) then Inr () else Inl integrity_failed)"

definition append_audit :: "manager_env \<Rightarrow> int \<Rightarrow> audit_action \<Rightarrow> inverter_preview \<Rightarrow> manager
    \<Rightarrow> manager result" where
  "append_audit env now action preview m =
     bind_res (validate_audit env m) (\<lambda>_.
       if length (audit_log m) \<ge> MAX_AUDIT then Inl integrity_failed
       else let sequence = length (audit_log m) + 1;
                previous = (case audit_log m of [] \<Rightarrow> ZERO_HASH | _ \<Rightarrow> ae_entryHash (last (audit_log m)))
            in Inr (m\<lparr>audit_log := audit_log m @
                 [\<lparr>ae_sequence = sequence, ae_action = action, ae_subject = subject_of preview,
                   ae_createdAtMs = now, ae_previousHash = previous,
                   ae_entryHash = entry_hash env sequence action (subject_of preview) now previous\<rparr>]\<rparr>))"

definition current_plan :: "manager_env \<Rightarrow> int \<Rightarrow> energy_plan \<Rightarrow> unit result" where
  "current_plan env now plan =
     (case plan_resolver env (pl_planId plan) of
        Raised \<Rightarrow> Inl revision_conflict
      | Missing \<Rightarrow> Inl revision_conflict
      | Found r \<Rightarrow>
         (case model_validate valid_plan r of
            None \<Rightarrow> Inl revision_conflict
          | Some current \<Rightarrow>
              if current \<noteq> plan then Inl revision_conflict
              else if pl_overrideStatus plan = Active \<and>
                      (case pl_overrideExpiresAtMs plan of Some t \<Rightarrow> now \<ge> t | None \<Rightarrow> False)
              then Inl revision_conflict
              else Inr ()))"

definition draft_preview :: "manager_env \<Rightarrow> int \<Rightarrow> int \<Rightarrow> energy_authority \<Rightarrow> energy_plan raw \<Rightarrow> int
    \<Rightarrow> string \<Rightarrow> string \<Rightarrow> int \<Rightarrow> (inverter_preview \<times> energy_plan) result" where
  "draft_preview env now now2 authority rawPlan slotIndex requestId inverterId expectedInverterRevision =
     (case model_validate valid_plan rawPlan of
        None \<Rightarrow> Inl bad_request
      | Some plan \<Rightarrow>
          if \<not> (0 \<le> slotIndex \<and> slotIndex < int (length (pl_slots plan))) then Inl bad_request
          else if pl_coreId plan \<noteq> ea_coreId authority \<or> pl_homeId plan \<noteq> ea_homeId authority
          then Inl bad_request
          else bind_res (current_plan env now plan) (\<lambda>_.
            let slot = pl_slots plan ! nat slotIndex;
                signed = (if ps_action slot = Charge then ps_powerW slot else - ps_powerW slot);
                draft = \<lparr>ip_requestId = requestId, ip_planId = pl_planId plan,
                  ip_coreId = pl_coreId plan, ip_homeId = pl_homeId plan,
                  ip_accountId = ea_accountId authority,
                  ip_accountRevision = ea_accountRevision authority,
                  ip_memberRevision = ea_memberRevision authority,
                  ip_sessionFamilyId = ea_sessionFamilyId authority,
                  ip_inverterId = inverterId,
                  ip_expectedInverterRevision = expectedInverterRevision,
                  ip_batteryId = pl_batteryId plan,
                  ip_expectedBatteryRevision = pl_batteryRevision plan,
                  ip_inputDigest = pl_inputDigest plan, ip_targetPowerW = signed,
                  ip_expiresAtMs = now2 + 60000, ip_confirmationToken = ZERO_HASH\<rparr>
            in if \<not> valid_preview draft then Inl bad_request
               else Inr (draft\<lparr>ip_confirmationToken := token_hash env draft\<rparr>, plan)))"

text \<open>\<open>preview\<close> and \<open>confirm\<close> mutate the manager in place: an error raised late leaves what
  was written before it, so each operation returns the new state along with its result.\<close>

definition preview :: "manager_env \<Rightarrow> int \<Rightarrow> int \<Rightarrow> int \<Rightarrow> energy_authority raw \<Rightarrow> energy_plan raw \<Rightarrow> int
    \<Rightarrow> string \<Rightarrow> string \<Rightarrow> int \<Rightarrow> manager \<Rightarrow> inverter_preview result \<times> manager" where
  "preview env now now2 now3 presented rawPlan slotIndex requestId inverterId expectedInverterRevision m =
     (case bind_res (control_authority env presented) (\<lambda>a.
             draft_preview env now now2 a rawPlan slotIndex requestId inverterId
               expectedInverterRevision) of
        Inl e \<Rightarrow> (Inl e, m)
      | Inr (pv, plan) \<Rightarrow>
         (case validate_audit env m of
            Inl e \<Rightarrow> (Inl e, m)
          | Inr _ \<Rightarrow>
             (case map_of (commands m) (ip_requestId pv) of
                Some prior \<Rightarrow>
                  if cs_preview prior \<noteq> pv then (Inl bad_request, m) else (Inr (cs_preview prior), m)
              | None \<Rightarrow>
                  if length (commands m) \<ge> MAX_COMMANDS then (Inl revision_conflict, m)
                  else let m1 = m\<lparr>commands := commands m @
                              [(ip_requestId pv, \<lparr>cs_preview = pv, cs_plan = plan, cs_result = None\<rparr>)]\<rparr>
                       in case append_audit env now3 Previewed pv m1 of
                            Inl e \<Rightarrow> (Inl e, m1)
                          | Inr m2 \<Rightarrow> (Inr pv, m2))))"

definition command_of :: "inverter_preview \<Rightarrow> inverter_command" where
  "command_of p =
     \<lparr>ic_requestId = ip_requestId p, ic_planId = ip_planId p, ic_coreId = ip_coreId p,
      ic_homeId = ip_homeId p, ic_accountId = ip_accountId p,
      ic_accountRevision = ip_accountRevision p, ic_memberRevision = ip_memberRevision p,
      ic_sessionFamilyId = ip_sessionFamilyId p, ic_inverterId = ip_inverterId p,
      ic_expectedInverterRevision = ip_expectedInverterRevision p, ic_batteryId = ip_batteryId p,
      ic_expectedBatteryRevision = ip_expectedBatteryRevision p,
      ic_inputDigest = ip_inputDigest p, ic_targetPowerW = ip_targetPowerW p\<rparr>"

definition expected_readback :: "inverter_command \<Rightarrow> inverter_readback" where
  "expected_readback c =
     \<lparr>ir_requestId = ic_requestId c, ir_coreId = ic_coreId c, ir_homeId = ic_homeId c,
      ir_inverterId = ic_inverterId c, ir_inverterRevision = ic_expectedInverterRevision c,
      ir_batteryId = ic_batteryId c, ir_batteryRevision = ic_expectedBatteryRevision c,
      ir_inputDigest = ic_inputDigest c, ir_targetPowerW = ic_targetPowerW c,
      ir_observedPowerW = ic_targetPowerW c\<rparr>"

definition read_worker :: "manager_env \<Rightarrow> inverter_command \<Rightarrow> inverter_readback option" where
  "read_worker env c =
     (case worker env c of
        Raised \<Rightarrow> None | Missing \<Rightarrow> None | Found r \<Rightarrow> model_validate valid_readback r)"

definition result_of :: "inverter_command \<Rightarrow> inverter_readback option \<Rightarrow> command_result" where
  "result_of c readback =
     (if readback = Some (expected_readback c)
      then \<lparr>cr_requestId = ic_requestId c, cr_status = Confirmed, cr_reason = None,
            cr_readbackVerified = True, cr_readback = readback\<rparr>
      else \<lparr>cr_requestId = ic_requestId c, cr_status = Uncertain,
            cr_reason = Some (if readback = None then LostAck else ReadbackMismatch),
            cr_readbackVerified = False, cr_readback = None\<rparr>)"

definition set_result :: "string \<Rightarrow> command_result \<Rightarrow> (string \<times> command_state) list
    \<Rightarrow> (string \<times> command_state) list" where
  "set_result rid r cs = map (\<lambda>(k, c). if k = rid then (k, c\<lparr>cs_result := Some r\<rparr>) else (k, c)) cs"

definition confirm :: "manager_env \<Rightarrow> int \<Rightarrow> int \<Rightarrow> int \<Rightarrow> energy_authority raw \<Rightarrow> inverter_preview raw
    \<Rightarrow> string \<Rightarrow> manager \<Rightarrow> command_result result \<times> manager" where
  "confirm env now now2 now3 presented rawPreview confirmationToken m =
     (case control_authority env presented of
        Inl e \<Rightarrow> (Inl e, m)
      | Inr a \<Rightarrow>
       (case model_validate valid_preview rawPreview of
          None \<Rightarrow> (Inl bad_request, m)
        | Some pv \<Rightarrow>
         (case validate_audit env m of
            Inl e \<Rightarrow> (Inl e, m)
          | Inr _ \<Rightarrow>
           (case map_of (commands m) (ip_requestId pv) of
              None \<Rightarrow> (Inl bad_request, m)
            | Some state \<Rightarrow>
                if cs_preview state \<noteq> pv
                   \<or> (ip_coreId pv, ip_homeId pv, ip_accountId pv, ip_accountRevision pv,
                       ip_memberRevision pv, ip_sessionFamilyId pv)
                      \<noteq> (ea_coreId a, ea_homeId a, ea_accountId a, ea_accountRevision a,
                         ea_memberRevision a, ea_sessionFamilyId a)
                then (Inl bad_request, m)
                else if \<not> is_ascii confirmationToken then (Inl TypeError, m)
                else if confirmationToken \<noteq> token_hash env (blank pv) then (Inl bad_request, m)
                else (case cs_result state of
                   Some r \<Rightarrow> (Inr r, m)
                 | None \<Rightarrow>
                    if now \<ge> ip_expiresAtMs pv then (Inl bad_request, m)
                    else (case current_plan env now2 (cs_plan state) of
                       Inl e \<Rightarrow> (Inl e, m)
                     | Inr _ \<Rightarrow>
                        (let c = command_of pv;
                             r = result_of c (read_worker env c);
                             m1 = m\<lparr>commands := set_result (ip_requestId pv) r (commands m),
                                    dispatched := dispatched m @ [c]\<rparr>;
                             action = (if cr_status r = Confirmed then ConfirmedAction else UncertainAction)
                         in case append_audit env now3 action pv m1 of
                              Inl e \<Rightarrow> (Inl e, m1)
                            | Inr m2 \<Rightarrow> (Inr r, m2))))))))"

definition command_result_of :: "manager_env \<Rightarrow> energy_authority raw \<Rightarrow> string \<Rightarrow> manager
    \<Rightarrow> command_result result" where
  "command_result_of env presented requestId m =
     bind_res (control_authority env presented) (\<lambda>a.
     bind_res (validate_audit env m) (\<lambda>_.
       case map_of (commands m) requestId of
         None \<Rightarrow> Inl not_found
       | Some state \<Rightarrow>
          (let pv = cs_preview state in
           if (ip_accountId pv, ip_accountRevision pv, ip_memberRevision pv, ip_sessionFamilyId pv)
                \<noteq> (ea_accountId a, ea_accountRevision a, ea_memberRevision a, ea_sessionFamilyId a)
           then Inl revision_conflict
           else case cs_result state of None \<Rightarrow> Inl revision_conflict | Some r \<Rightarrow> Inr r)))"


section \<open>Reachable managers\<close>

definition new_manager :: manager where
  "new_manager = \<lparr>commands = [], audit_log = [], dispatched = []\<rparr>"

text \<open>Resolvers and the worker may answer differently at every call; the audit key, and so the
  entry hash, is fixed for the life of the manager.\<close>

inductive manager_reach :: "(nat \<Rightarrow> audit_action \<Rightarrow> audit_subject \<Rightarrow> int \<Rightarrow> string \<Rightarrow> string) \<Rightarrow> manager \<Rightarrow> bool"
  for h where
  reach_new: "manager_reach h new_manager"
| reach_preview: "manager_reach h m \<Longrightarrow> entry_hash env = h \<Longrightarrow>
    manager_reach h (snd (preview env n1 n2 n3 auth plan slot rid inverter rv m))"
| reach_confirm: "manager_reach h m \<Longrightarrow> entry_hash env = h \<Longrightarrow>
    manager_reach h (snd (confirm env n1 n2 n3 auth pv token m))"

definition settled :: "(string \<times> command_state) list \<Rightarrow> (string \<times> command_state) list" where
  "settled cs = filter (\<lambda>(k, c). cs_result c \<noteq> None) cs"

definition state_ok :: "string \<times> command_state \<Rightarrow> bool" where
  "state_ok kc = (case kc of (k, c) \<Rightarrow>
     ip_requestId (cs_preview c) = k \<and>
     (case cs_result c of
        None \<Rightarrow> True
      | Some r \<Rightarrow> \<exists>rb. r = result_of (command_of (cs_preview c)) rb))"

definition manager_inv :: "(nat \<Rightarrow> audit_action \<Rightarrow> audit_subject \<Rightarrow> int \<Rightarrow> string \<Rightarrow> string) \<Rightarrow> manager \<Rightarrow> bool"
where
  "manager_inv h m =
     (distinct (map fst (commands m)) \<and> length (commands m) \<le> MAX_COMMANDS \<and>
      list_all state_ok (commands m) \<and>
      length (audit_log m) = length (commands m) + length (settled (commands m)) \<and>
      (\<forall>env. entry_hash env = h \<longrightarrow> audit_chain env 1 ZERO_HASH (audit_log m)) \<and>
      distinct (map ic_requestId (dispatched m)) \<and>
      (\<forall>c \<in> set (dispatched m). \<exists>k st. (k, st) \<in> set (settled (commands m)) \<and>
         c = command_of (cs_preview st)))"

lemma audit_chain_append:
  "audit_chain env n prev (xs @ [e]) \<longleftrightarrow>
     audit_chain env n prev xs \<and>
     audit_chain env (n + length xs) (case xs of [] \<Rightarrow> prev | _ \<Rightarrow> ae_entryHash (last xs)) [e]"
  by (induction xs arbitrary: n prev) (auto split: list.split)

lemma append_audit_ok:
  assumes "audit_chain env 1 ZERO_HASH (audit_log m)" and "length (audit_log m) < MAX_AUDIT"
  shows "\<exists>e. append_audit env now act pv m = Inr (m\<lparr>audit_log := audit_log m @ [e]\<rparr>)
    \<and> (\<forall>env'. entry_hash env' = entry_hash env \<longrightarrow> audit_chain env' 1 ZERO_HASH (audit_log m) \<longrightarrow>
         audit_chain env' 1 ZERO_HASH (audit_log m @ [e]))"
  using assms
  by (auto simp: append_audit_def validate_audit_def Let_def audit_chain_append)

lemma manager_inv_chain:
  assumes "manager_inv h m" and "entry_hash env = h"
  shows "validate_audit env m = Inr ()" "audit_chain env 1 ZERO_HASH (audit_log m)"
    "length (audit_log m) \<le> 2 * length (commands m)" "length (audit_log m) < MAX_AUDIT"
proof -
  have "length (settled (commands m)) \<le> length (commands m)" by (simp add: settled_def)
  with assms(1) show "length (audit_log m) \<le> 2 * length (commands m)"
    and "length (audit_log m) < MAX_AUDIT"
    by (auto simp: manager_inv_def MAX_COMMANDS_def MAX_AUDIT_def)
  then show "validate_audit env m = Inr ()" "audit_chain env 1 ZERO_HASH (audit_log m)"
    using assms by (simp_all add: manager_inv_def validate_audit_def)
qed

lemma manager_invD:
  assumes "manager_inv h m"
  shows "distinct (map fst (commands m))" "list_all state_ok (commands m)"
    "distinct (map ic_requestId (dispatched m))"
    "c \<in> set (dispatched m) \<Longrightarrow>
       \<exists>k st. (k, st) \<in> set (settled (commands m)) \<and> c = command_of (cs_preview st)"
proof -
  note parts = assms [unfolded manager_inv_def]
  show "distinct (map fst (commands m))" "list_all state_ok (commands m)"
    "distinct (map ic_requestId (dispatched m))" using parts by simp_all
  show "\<exists>k st. (k, st) \<in> set (settled (commands m)) \<and> c = command_of (cs_preview st)"
    if "c \<in> set (dispatched m)"
    using parts that by (elim conjE) (rule bspec)
qed

text \<open>Both operations either leave the state alone or do exactly one of two things.\<close>

lemma preview_effect:
  assumes "manager_inv (entry_hash env) m"
  shows "snd (preview env n1 n2 n3 auth plan slot rid inverter rv m) = m \<or>
    (\<exists>pv pl e. length (commands m) < MAX_COMMANDS \<and> map_of (commands m) (ip_requestId pv) = None \<and>
       snd (preview env n1 n2 n3 auth plan slot rid inverter rv m) =
         m\<lparr>commands := commands m @ [(ip_requestId pv, \<lparr>cs_preview = pv, cs_plan = pl, cs_result = None\<rparr>)],
           audit_log := audit_log m @ [e]\<rparr> \<and>
       (\<forall>env'. entry_hash env' = entry_hash env \<longrightarrow> audit_chain env' 1 ZERO_HASH (audit_log m) \<longrightarrow>
         audit_chain env' 1 ZERO_HASH (audit_log m @ [e])))"
proof -
  note ok = manager_inv_chain [OF assms refl]
  show ?thesis
  proof (cases "bind_res (control_authority env auth) (\<lambda>a. draft_preview env n1 n2 a plan slot rid inverter rv)")
    case (Inl e)
    then show ?thesis by (simp add: preview_def)
  next
    case (Inr pp)
    obtain pv pl where pp: "pp = (pv, pl)" by fastforce
    let ?m1 = "m\<lparr>commands := commands m @
        [(ip_requestId pv, \<lparr>cs_preview = pv, cs_plan = pl, cs_result = None\<rparr>)]\<rparr>"
    obtain e where e: "append_audit env n3 Previewed pv ?m1 = Inr (?m1\<lparr>audit_log := audit_log ?m1 @ [e]\<rparr>)"
      "\<forall>env'. entry_hash env' = entry_hash env \<longrightarrow> audit_chain env' 1 ZERO_HASH (audit_log m) \<longrightarrow>
         audit_chain env' 1 ZERO_HASH (audit_log m @ [e])"
      using append_audit_ok [of env ?m1 n3 Previewed pv] ok(2,4) by auto
    show ?thesis
    proof (cases "map_of (commands m) (ip_requestId pv) = None \<and> length (commands m) < MAX_COMMANDS")
      case True
      then have "snd (preview env n1 n2 n3 auth plan slot rid inverter rv m) =
          ?m1\<lparr>audit_log := audit_log ?m1 @ [e]\<rparr>"
        using Inr pp ok(1) e(1) by (simp add: preview_def)
      with True e(2) show ?thesis by (intro disjI2 exI [of _ pv] exI [of _ pl] exI [of _ e]) simp
    next
      case False
      then show ?thesis
        using Inr pp ok(1) by (auto simp: preview_def split: option.splits)
    qed
  qed
qed

text \<open>When \<open>confirm\<close> changes the state, it drives the worker once, for a stored command that
  has no result yet, and settles it.\<close>

definition confirm_ready :: "manager_env \<Rightarrow> int \<Rightarrow> int \<Rightarrow> energy_authority \<Rightarrow> inverter_preview \<Rightarrow> string
    \<Rightarrow> manager \<Rightarrow> command_state \<Rightarrow> bool" where
  "confirm_ready env now now2 a pv token m st \<longleftrightarrow>
     map_of (commands m) (ip_requestId pv) = Some st \<and> cs_preview st = pv \<and>
     (ip_coreId pv, ip_homeId pv, ip_accountId pv, ip_accountRevision pv,
        ip_memberRevision pv, ip_sessionFamilyId pv)
       = (ea_coreId a, ea_homeId a, ea_accountId a, ea_accountRevision a,
          ea_memberRevision a, ea_sessionFamilyId a) \<and>
     is_ascii token \<and> token = token_hash env (blank pv) \<and> cs_result st = None \<and>
     now < ip_expiresAtMs pv \<and> current_plan env now2 (cs_plan st) = Inr ()"

lemma confirm_effect:
  assumes "manager_inv (entry_hash env) m"
  obtains (same) "snd (confirm env n1 n2 n3 auth raw token m) = m"
    "\<And>r. fst (confirm env n1 n2 n3 auth raw token m) = Inr r \<Longrightarrow>
       \<exists>pv st. raw = Some pv \<and> map_of (commands m) (ip_requestId pv) = Some st \<and> cs_result st = Some r"
  | (sent) a pv st e where "control_authority env auth = Inr a" "raw = Some pv" "valid_preview pv"
      "confirm_ready env n1 n2 a pv token m st"
      "confirm env n1 n2 n3 auth raw token m =
         (Inr (result_of (command_of pv) (read_worker env (command_of pv))),
          m\<lparr>commands := set_result (ip_requestId pv)
               (result_of (command_of pv) (read_worker env (command_of pv))) (commands m),
            dispatched := dispatched m @ [command_of pv], audit_log := audit_log m @ [e]\<rparr>)"
      "\<forall>env'. entry_hash env' = entry_hash env \<longrightarrow> audit_chain env' 1 ZERO_HASH (audit_log m) \<longrightarrow>
         audit_chain env' 1 ZERO_HASH (audit_log m @ [e])"
proof (cases "\<exists>a pv st. control_authority env auth = Inr a \<and> raw = Some pv \<and> valid_preview pv \<and>
    confirm_ready env n1 n2 a pv token m st")
  case True
  then obtain a pv st where h: "control_authority env auth = Inr a" "raw = Some pv" "valid_preview pv"
    "confirm_ready env n1 n2 a pv token m st" by blast
  note ok = manager_inv_chain [OF assms refl]
  define r where "r = result_of (command_of pv) (read_worker env (command_of pv))"
  define m1 where "m1 = m\<lparr>commands := set_result (ip_requestId pv) r (commands m),
    dispatched := dispatched m @ [command_of pv]\<rparr>"
  define act where "act = (if cr_status r = Confirmed then ConfirmedAction else UncertainAction)"
  obtain e where e: "append_audit env n3 act pv m1 = Inr (m1\<lparr>audit_log := audit_log m1 @ [e]\<rparr>)"
    "\<forall>env'. entry_hash env' = entry_hash env \<longrightarrow> audit_chain env' 1 ZERO_HASH (audit_log m) \<longrightarrow>
       audit_chain env' 1 ZERO_HASH (audit_log m @ [e])"
    using append_audit_ok [of env m1 n3 act pv] ok(2,4) by (auto simp: m1_def)
  have "confirm env n1 n2 n3 auth raw token m = (Inr r, m1\<lparr>audit_log := audit_log m1 @ [e]\<rparr>)"
    using h ok(1) e(1) unfolding confirm_ready_def m1_def act_def r_def
    by (clarsimp simp: confirm_def Let_def model_validate_def)
  with h e(2) show thesis by (intro sent [of a pv st e]) (simp_all add: m1_def r_def)
next
  case False
  note ok = manager_inv_chain [OF assms refl]
  show thesis
  proof (rule same)
    show "snd (confirm env n1 n2 n3 auth raw token m) = m"
      using False ok(1)
      by (auto simp: confirm_def confirm_ready_def split: sum.splits option.splits)
    show "\<exists>pv st. raw = Some pv \<and> map_of (commands m) (ip_requestId pv) = Some st \<and> cs_result st = Some r"
      if "fst (confirm env n1 n2 n3 auth raw token m) = Inr r" for r
      using that False ok(1)
      by (auto simp: confirm_def confirm_ready_def split: sum.splits option.splits if_splits)
  qed
qed

lemma settled_append: "settled (xs @ ys) = settled xs @ settled ys"
  by (simp add: settled_def)

lemma set_result_keys [simp]: "map fst (set_result rid r cs) = map fst cs"
  by (induction cs) (auto simp: set_result_def)

lemma length_set_result [simp]: "length (set_result rid r cs) = length cs"
  by (simp add: set_result_def)

lemma set_result_other: "rid \<notin> fst ` set cs \<Longrightarrow> set_result rid r cs = cs"
  by (induction cs) (auto simp: set_result_def)

lemma length_settled_set_result:
  assumes "distinct (map fst cs)" and "(rid, st) \<in> set cs" and "cs_result st = None"
  shows "length (settled (set_result rid r cs)) = Suc (length (settled cs))"
  using assms
proof (induction cs)
  case (Cons kc cs)
  show ?case
  proof (cases "fst kc = rid")
    case True
    with Cons.prems have "kc = (rid, st)" "rid \<notin> fst ` set cs" by (auto simp: image_iff)
    then show ?thesis
      using set_result_other [of rid cs r] Cons.prems(3)
      by (simp add: settled_def set_result_def)
  next
    case False
    with Cons show ?thesis by (auto simp: settled_def set_result_def)
  qed
qed simp

lemma settled_set_result_mono:
  assumes "distinct (map fst cs)" and "(rid, st) \<in> set cs" and "cs_result st = None"
    and "kc \<in> set (settled cs)"
  shows "kc \<in> set (settled (set_result rid r cs))"
proof -
  have "fst kc \<noteq> rid"
    using assms by (auto simp: settled_def) (metis eq_key_imp_eq_value option.distinct(1) option.simps(3))
  then show ?thesis using assms(4) by (force simp: settled_def set_result_def)
qed

lemma set_result_settled:
  "(rid, st) \<in> set cs \<Longrightarrow> (rid, st\<lparr>cs_result := Some r\<rparr>) \<in> set (settled (set_result rid r cs))"
  by (force simp: settled_def set_result_def)

lemma preview_keeps_inv:
  assumes inv: "manager_inv (entry_hash env) m"
  shows "manager_inv (entry_hash env) (snd (preview env n1 n2 n3 auth plan slot rid inverter rv m))"
  using preview_effect [OF inv, of n1 n2 n3 auth plan slot rid inverter rv]
proof (elim disjE exE conjE)
  fix pv :: inverter_preview and pl :: energy_plan and e :: audit_entry
  assume h: "length (commands m) < MAX_COMMANDS" "map_of (commands m) (ip_requestId pv) = None"
    "\<forall>env'. entry_hash env' = entry_hash env \<longrightarrow> audit_chain env' 1 ZERO_HASH (audit_log m) \<longrightarrow>
       audit_chain env' 1 ZERO_HASH (audit_log m @ [e])"
  assume eq: "snd (preview env n1 n2 n3 auth plan slot rid inverter rv m) =
    m\<lparr>commands := commands m @ [(ip_requestId pv, \<lparr>cs_preview = pv, cs_plan = pl, cs_result = None\<rparr>)],
      audit_log := audit_log m @ [e]\<rparr>"
  have "settled (commands m @ [(ip_requestId pv, \<lparr>cs_preview = pv, cs_plan = pl, cs_result = None\<rparr>)])
      = settled (commands m)" by (simp add: settled_def)
  then show ?thesis
    unfolding eq using inv h by (simp add: manager_inv_def state_ok_def map_of_eq_None_iff)
qed (simp add: inv)

lemma confirm_keeps_inv:
  assumes inv: "manager_inv (entry_hash env) m"
  shows "manager_inv (entry_hash env) (snd (confirm env n1 n2 n3 auth raw token m))"
proof (rule confirm_effect [OF inv, of n1 n2 n3 auth raw token])
  assume "snd (confirm env n1 n2 n3 auth raw token m) = m"
  then show ?thesis using inv by simp
next
  fix a pv st e
  assume sent: "control_authority env auth = Inr a" "raw = Some pv" "valid_preview pv"
      "confirm_ready env n1 n2 a pv token m st"
      "confirm env n1 n2 n3 auth raw token m =
         (Inr (result_of (command_of pv) (read_worker env (command_of pv))),
          m\<lparr>commands := set_result (ip_requestId pv)
               (result_of (command_of pv) (read_worker env (command_of pv))) (commands m),
            dispatched := dispatched m @ [command_of pv], audit_log := audit_log m @ [e]\<rparr>)"
      "\<forall>env'. entry_hash env' = entry_hash env \<longrightarrow> audit_chain env' 1 ZERO_HASH (audit_log m) \<longrightarrow>
         audit_chain env' 1 ZERO_HASH (audit_log m @ [e])"
  let ?rid = "ip_requestId pv"
  let ?c = "command_of pv"
  let ?r = "result_of ?c (read_worker env ?c)"
  have st: "(?rid, st) \<in> set (commands m)" "cs_result st = None" "cs_preview st = pv"
    using sent(4) by (auto simp: confirm_ready_def dest: map_of_SomeD)
  have dk: "distinct (map fst (commands m))" using inv by (simp add: manager_inv_def)
  note grow = length_settled_set_result [OF dk st(1,2), of ?r]
    settled_set_result_mono [OF dk st(1,2), of _ ?r] set_result_settled [OF st(1), of ?r]
  have ok: "list_all state_ok (set_result ?rid ?r (commands m))"
  proof -
    have "state_ok kc'" if "kc' \<in> set (set_result ?rid ?r (commands m))" for kc'
    proof -
      from that obtain k c where kc: "(k, c) \<in> set (commands m)"
        "kc' = (if k = ?rid then (k, c\<lparr>cs_result := Some ?r\<rparr>) else (k, c))"
        by (auto simp: set_result_def)
      moreover have "state_ok (k, c)" using inv kc(1) by (auto simp: manager_inv_def list_all_iff)
      moreover have "k = ?rid \<Longrightarrow> c = st" using kc(1) st(1) dk eq_key_imp_eq_value by metis
      ultimately show ?thesis using st(3) by (auto simp: state_ok_def)
    qed
    then show ?thesis by (simp add: list_all_iff)
  qed
  have fresh: "ic_requestId ?c \<notin> ic_requestId ` set (dispatched m)"
  proof
    assume "ic_requestId ?c \<in> ic_requestId ` set (dispatched m)"
    then obtain k st' where d: "(k, st') \<in> set (settled (commands m))" "ip_requestId (cs_preview st') = ?rid"
      using inv by (fastforce simp: manager_inv_def command_of_def)
    then have "state_ok (k, st')" using inv by (auto simp: manager_inv_def list_all_iff settled_def)
    with d have "k = ?rid" by (auto simp: state_ok_def)
    with d(1) st dk have "st' = st" by (auto simp: settled_def dest: eq_key_imp_eq_value)
    with d(1) st(2) show False by (simp add: settled_def)
  qed
  have disp: "\<exists>k st'. (k, st') \<in> set (settled (set_result ?rid ?r (commands m))) \<and> c = command_of (cs_preview st')"
    if "c \<in> set (dispatched m @ [?c])" for c
  proof (cases "c \<in> set (dispatched m)")
    case True
    with inv grow(2) show ?thesis unfolding manager_inv_def by blast
  next
    case False
    with that grow(3) st(3) show ?thesis by fastforce
  qed
  have "snd (confirm env n1 n2 n3 auth raw token m) = m\<lparr>commands := set_result ?rid ?r (commands m),
      dispatched := dispatched m @ [?c], audit_log := audit_log m @ [e]\<rparr>"
    using sent(5) by simp
  then show ?thesis
    using inv ok fresh disp grow(1) sent(6) by (simp add: manager_inv_def del: set_append)
qed

lemma manager_reach_inv: "manager_reach h m \<Longrightarrow> manager_inv h m"
proof (induction rule: manager_reach.induct)
  case reach_new
  show ?case by (simp add: manager_inv_def new_manager_def settled_def MAX_COMMANDS_def)
next
  case (reach_preview m env n1 n2 n3 auth plan slot rid inverter rv)
  with preview_keeps_inv [of env m] show ?case by metis
next
  case (reach_confirm m env n1 n2 n3 auth pv token)
  with confirm_keeps_inv [of env m] show ?case by metis
qed

section \<open>Guarantees\<close>

text \<open>C4: the inverter worker is driven at most once per request id over the whole life of the
  manager, whatever the order of previews, confirmations and retries, and only for a
  previewed command whose outcome is recorded.\<close>

theorem dispatch_at_most_once:
  assumes "manager_reach h m"
  shows "distinct (map ic_requestId (dispatched m)) \<and>
    (\<forall>c \<in> set (dispatched m). \<exists>st. map_of (commands m) (ic_requestId c) = Some st \<and>
       c = command_of (cs_preview st) \<and> cs_result st \<noteq> None)"
proof -
  have inv: "manager_inv h m" using assms by (rule manager_reach_inv)
  have "\<exists>st. map_of (commands m) (ic_requestId c) = Some st \<and> c = command_of (cs_preview st) \<and>
      cs_result st \<noteq> None" if c: "c \<in> set (dispatched m)" for c
  proof -
    obtain k st where k: "(k, st) \<in> set (settled (commands m))" "c = command_of (cs_preview st)"
      using manager_invD(4) [OF inv c] by (elim exE conjE)
    then have mem: "(k, st) \<in> set (commands m)" "cs_result st \<noteq> None" by (auto simp: settled_def)
    then have "state_ok (k, st)" using manager_invD(2) [OF inv] by (auto simp: list_all_iff)
    then have "k = ic_requestId c" using k(2) by (simp add: state_ok_def command_of_def)
    moreover have "map_of (commands m) k = Some st"
      using manager_invD(1) [OF inv] mem(1) by (rule map_of_is_SomeI)
    ultimately show ?thesis using k(2) mem(2) by blast
  qed
  then show ?thesis using manager_invD(3) [OF inv] by blast
qed

text \<open>Whatever its history, the manager's audit log verifies under its key, holds at most
  2000 entries and therefore never refuses an append.\<close>

theorem audit_log_always_valid:
  assumes "manager_reach (entry_hash env) m"
  shows "validate_audit env m = Inr () \<and> length (audit_log m) \<le> 2000 \<and>
    (\<exists>m'. append_audit env now act pv m = Inr m' \<and> validate_audit env m' = Inr ())"
proof -
  have inv: "manager_inv (entry_hash env) m" using assms by (rule manager_reach_inv)
  note ok = manager_inv_chain [OF inv refl]
  have len: "length (audit_log m) \<le> 2000"
    using ok(3) inv by (simp add: manager_inv_def MAX_COMMANDS_def)
  obtain e where "append_audit env now act pv m = Inr (m\<lparr>audit_log := audit_log m @ [e]\<rparr>)"
    "audit_chain env 1 ZERO_HASH (audit_log m @ [e])"
    using append_audit_ok [OF ok(2,4)] ok(2) by blast
  with ok(1) len show ?thesis by (auto simp: validate_audit_def MAX_AUDIT_def)
qed

text \<open>C5: a confirmation that drives the inverter was made by a current controlling
  administrator with the token of an unexpired stored preview whose plan is still current; it
  sends exactly that command and reports it confirmed only when the readback is exactly the
  expected one.\<close>

theorem confirm_dispatch_guarded:
  assumes "manager_reach (entry_hash env) m"
    and "confirm env now now2 now3 auth raw token m = (r, m')" and "dispatched m' \<noteq> dispatched m"
  shows "\<exists>a pv st res. auth = Some a \<and> ea_active a \<and> ea_canControl a \<and> ea_role a = EAdmin \<and>
    auth_resolver env (ea_accountId a) = Found (Some a) \<and> raw = Some pv \<and>
    confirm_ready env now now2 a pv token m st \<and> plan_resolver env (pl_planId (cs_plan st)) = Found (Some (cs_plan st)) \<and>
    dispatched m' = dispatched m @ [command_of pv] \<and>
    r = Inr res \<and> coherent_result res \<and> map_of (commands m') (ip_requestId pv) = Some (st\<lparr>cs_result := Some res\<rparr>) \<and>
    (cr_status res = Confirmed \<longleftrightarrow>
       read_worker env (command_of pv) = Some (expected_readback (command_of pv)))"
proof (rule confirm_effect [OF manager_reach_inv [OF assms(1)], of now now2 now3 auth raw token])
  assume "snd (confirm env now now2 now3 auth raw token m) = m"
  with assms(2,3) show ?thesis by simp
next
  fix a pv st e
  let ?res = "result_of (command_of pv) (read_worker env (command_of pv))"
  assume c: "control_authority env auth = Inr a" "raw = Some pv" "confirm_ready env now now2 a pv token m st"
  assume eq: "confirm env now now2 now3 auth raw token m = (Inr ?res,
      m\<lparr>commands := set_result (ip_requestId pv) ?res (commands m),
        dispatched := dispatched m @ [command_of pv], audit_log := audit_log m @ [e]\<rparr>)"
  have a: "auth = Some a" "ea_active a" "ea_canControl a" "ea_role a = EAdmin"
    "auth_resolver env (ea_accountId a) = Found (Some a)"
    using c(1) by (auto simp: control_authority_def bind_res_Inr_iff resolve_current_Inr_iff split: if_splits)
  have p: "plan_resolver env (pl_planId (cs_plan st)) = Found (Some (cs_plan st))"
    using c(3) by (auto simp: confirm_ready_def current_plan_def split: lookup.splits option.splits if_splits)
  have "map_of (set_result k r cs) k = map_option (\<lambda>st. st\<lparr>cs_result := Some r\<rparr>) (map_of cs k)" for k r cs
    by (induction cs) (auto simp: set_result_def)
  moreover have "coherent_result ?res \<and> (cr_status ?res = Confirmed \<longleftrightarrow>
      read_worker env (command_of pv) = Some (expected_readback (command_of pv)))"
    by (simp add: result_of_def coherent_result_def)
  ultimately show ?thesis
    using a c(2,3) p eq assms(2) by (auto simp: confirm_ready_def)
qed

text \<open>Confirming is idempotent: once a confirmation has returned, presenting the same
  preview and token again, at any later time, returns the recorded result and changes nothing.\<close>

theorem confirm_retry_same_result:
  assumes "manager_reach (entry_hash env) m"
    and "confirm env now now2 now3 auth raw token m = (Inr res, m')"
    and "control_authority env' auth = control_authority env auth"
    and "token_hash env' = token_hash env" and "entry_hash env' = entry_hash env"
  shows "confirm env' t t2 t3 auth raw token m' = (Inr res, m')"
proof -
  have inv: "manager_inv (entry_hash env) m'"
    using confirm_keeps_inv [OF manager_reach_inv [OF assms(1)], of now now2 now3 auth raw token] assms(2)
    by simp
  have v': "validate_audit env' m' = Inr ()" using manager_inv_chain(1) [OF inv, of env'] assms(5) by simp
  have upd: "map_of (set_result k r cs) k = map_option (\<lambda>st. st\<lparr>cs_result := Some r\<rparr>) (map_of cs k)" for k r cs
    by (induction cs) (auto simp: set_result_def)
  obtain a pv st where c: "control_authority env auth = Inr a" "raw = Some pv" "valid_preview pv"
    "map_of (commands m) (ip_requestId pv) = Some st" "cs_preview st = pv"
    "(ip_coreId pv, ip_homeId pv, ip_accountId pv, ip_accountRevision pv,
        ip_memberRevision pv, ip_sessionFamilyId pv)
       = (ea_coreId a, ea_homeId a, ea_accountId a, ea_accountRevision a,
          ea_memberRevision a, ea_sessionFamilyId a)"
    "is_ascii token" "token = token_hash env (blank pv)"
    using assms(2) by (auto simp: confirm_def split: sum.splits option.splits if_splits)
  have "\<exists>st'. map_of (commands m') (ip_requestId pv) = Some st' \<and> cs_preview st' = pv \<and> cs_result st' = Some res"
  proof (rule confirm_effect [OF manager_reach_inv [OF assms(1)], of now now2 now3 auth raw token])
    assume "snd (confirm env now now2 now3 auth raw token m) = m"
    then have "m' = m" using assms(2) by simp
    moreover assume "\<And>r. fst (confirm env now now2 now3 auth raw token m) = Inr r \<Longrightarrow>
       \<exists>pv st. raw = Some pv \<and> map_of (commands m) (ip_requestId pv) = Some st \<and> cs_result st = Some r"
    then have "cs_result st = Some res" using assms(2) c(2,4) by force
    ultimately show ?thesis using c by auto
  next
    fix a' pv' st' e
    assume "raw = Some pv'" and "confirm env now now2 now3 auth raw token m =
         (Inr (result_of (command_of pv') (read_worker env (command_of pv'))),
          m\<lparr>commands := set_result (ip_requestId pv')
               (result_of (command_of pv') (read_worker env (command_of pv'))) (commands m),
            dispatched := dispatched m @ [command_of pv'], audit_log := audit_log m @ [e]\<rparr>)"
    with c assms(2) show ?thesis by (auto simp: upd)
  qed
  with c assms(3,4) v' show ?thesis
    by (clarsimp simp: confirm_def model_validate_def)
qed

lemma chain_sequence:
  "audit_chain env n prev (xs @ [e]) \<Longrightarrow> ae_sequence e = n + length xs"
  by (simp add: audit_chain_append)

lemma chain_last_hash:
  "audit_chain env n prev (xs @ [e]) \<Longrightarrow>
     ae_previousHash e = (case xs of [] \<Rightarrow> prev | _ \<Rightarrow> ae_entryHash (last xs))"
  by (simp add: audit_chain_append)

text \<open>The log is tamper evident: two logs that both verify under the key and end in the
  same hash are the same log, as long as no two different entries of theirs share a keyed hash.\<close>

theorem audit_log_tamper_evident:
  assumes "audit_chain env 1 ZERO_HASH xs" and "audit_chain env 1 ZERO_HASH ys"
    and "xs \<noteq> []" and "ys \<noteq> []" and "ae_entryHash (last xs) = ae_entryHash (last ys)"
    and "\<forall>e \<in> set xs. \<forall>f \<in> set ys. ae_entryHash e = ae_entryHash f \<longrightarrow>
      (ae_sequence e, ae_action e, ae_subject e, ae_createdAtMs e, ae_previousHash e)
        = (ae_sequence f, ae_action f, ae_subject f, ae_createdAtMs f, ae_previousHash f)"
  shows "xs = ys"
  using assms
proof (induction xs arbitrary: ys rule: rev_induct)
  case (snoc e xs)
  obtain f ys' where ys: "ys = ys' @ [f]" using snoc.prems(4) by (metis rev_exhaust)
  have hash: "ae_entryHash e = ae_entryHash f" using snoc.prems(5) ys by simp
  then have eq: "ae_sequence e = ae_sequence f" "ae_action e = ae_action f" "ae_subject e = ae_subject f"
    "ae_createdAtMs e = ae_createdAtMs f" "ae_previousHash e = ae_previousHash f"
    using snoc.prems(6) ys by auto
  have len: "length xs = length ys'"
    using chain_sequence [OF snoc.prems(1)] chain_sequence snoc.prems(2) eq(1) ys by fastforce
  have "xs = ys'"
  proof (cases "xs = []")
    case True
    then show ?thesis using len by simp
  next
    case False
    then have ne: "ys' \<noteq> []" using len by auto
    have "ae_entryHash (last xs) = ae_entryHash (last ys')"
      using chain_last_hash [OF snoc.prems(1)] chain_last_hash [of env 1 ZERO_HASH ys' f] snoc.prems(2)
        eq(5) ys False ne by (auto split: list.splits)
    then show ?thesis
      using snoc.IH [of ys'] snoc.prems(1,2,6) False ne ys by (auto simp: audit_chain_append)
  qed
  moreover have "e = f" using eq hash by (intro audit_entry.equality) simp_all
  ultimately show ?case using ys by simp
qed simp

lemma draft_preview_expiry:
  "draft_preview env n1 n2 a plan slot rid inverter rv = Inr (pv, pl) \<Longrightarrow>
     ip_expiresAtMs pv = n2 + 60000 \<and> ip_requestId pv = rid"
  by (auto simp: draft_preview_def bind_res_Inr_iff Let_def split: option.splits if_splits)

text \<open>A preview request id is spent by the first preview: repeating the identical request
  once the clock has moved is refused and changes nothing, because the new expiry makes the
  recomputed preview differ from the stored one.\<close>

theorem preview_retry_after_tick_refused:
  assumes "manager_reach (entry_hash env) m"
    and "preview env n1 n2 n3 auth plan slot rid inverter rv m = (Inr pv, m')"
    and "entry_hash env' = entry_hash env" and "t2 \<noteq> n2"
  shows "(\<exists>e. preview env' t1 t2 t3 auth' plan' slot' rid inverter' rv' m' = (Inl e, m'))"
proof -
  have inv: "manager_inv (entry_hash env) m" using assms(1) by (rule manager_reach_inv)
  note v = manager_inv_chain(1) [OF inv refl]
  have inv': "manager_inv (entry_hash env) m'"
    using preview_keeps_inv [OF inv, of n1 n2 n3 auth plan slot rid inverter rv] assms(2) by simp
  have v': "validate_audit env' m' = Inr ()" using manager_inv_chain(1) [OF inv', of env'] assms(3) by simp
  obtain a pl where d: "draft_preview env n1 n2 a plan slot rid inverter rv = Inr (pv, pl)"
    using assms(2) v
    by (auto simp: preview_def bind_res_def Let_def split: sum.splits option.splits if_splits)
  then have pv: "ip_expiresAtMs pv = n2 + 60000" "ip_requestId pv = rid"
    using draft_preview_expiry by blast+
  have stored: "\<exists>st. map_of (commands m') rid = Some st \<and> cs_preview st = pv"
    using assms(2) v pv(2)
    by (auto simp: preview_def bind_res_def Let_def append_audit_def map_add_def
        split: sum.splits option.splits if_splits)
  show ?thesis
  proof (cases "bind_res (control_authority env' auth') (\<lambda>a. draft_preview env' t1 t2 a plan' slot' rid inverter' rv')")
    case (Inl e)
    then show ?thesis by (simp add: preview_def)
  next
    case (Inr q)
    then obtain pv2 pl2 where q: "q = (pv2, pl2)" by fastforce
    have "ip_expiresAtMs pv2 = t2 + 60000" "ip_requestId pv2 = rid"
      using Inr q draft_preview_expiry by (fastforce simp: bind_res_Inr_iff)+
    then have "pv2 \<noteq> pv" "ip_requestId pv2 = rid" using pv(1) assms(4) by auto
    with Inr q v' stored show ?thesis by (auto simp: preview_def)
  qed
qed

section \<open>A concrete run\<close>

definition sample_plan :: energy_plan where
  "sample_plan = \<lparr>pl_planId = id_of (CHR ''6''), pl_coreId = id_of (CHR ''a''), pl_homeId = id_of (CHR ''b''),
     pl_homeRevision = 1, pl_batteryId = id_of (CHR ''4''), pl_batteryRevision = 1,
     pl_batteryProviderRevision = 1, pl_meterRevision = 1, pl_forecastRevision = 1,
     pl_forecastProviderRevision = 1, pl_tariffRevision = 1, pl_reserveRevision = 1,
     pl_overrideRevision = None, pl_inputDigest = digest_of (CHR ''5''), pl_advisory = True,
     pl_automaticExecutionAllowed = False, pl_overrideStatus = NoOverride, pl_overrideExpiresAtMs = None,
     pl_slots = [\<lparr>ps_index = 0, ps_startsAtMs = 1000, ps_action = Charge, ps_powerW = 1500,
       ps_projectedSocWh = 5500, ps_reason = SolarSurplus\<rparr>]\<rparr>"

definition sample_env :: manager_env where
  "sample_env = \<lparr>auth_resolver = (\<lambda>_. Found (Some sample_authority)),
     plan_resolver = (\<lambda>_. Found (Some sample_plan)),
     worker = (\<lambda>c. Found (Some (expected_readback c))),
     entry_hash = (\<lambda>n _ _ _ _. digest_of (if n = 1 then CHR ''7'' else CHR ''8'')),
     token_hash = (\<lambda>_. digest_of (CHR ''9''))\<rparr>"

definition sample_preview :: inverter_preview where
  "sample_preview = \<lparr>ip_requestId = id_of (CHR ''e''), ip_planId = id_of (CHR ''6''),
     ip_coreId = id_of (CHR ''a''), ip_homeId = id_of (CHR ''b''), ip_accountId = id_of (CHR ''c''),
     ip_accountRevision = 1, ip_memberRevision = 1, ip_sessionFamilyId = id_of (CHR ''d''),
     ip_inverterId = id_of (CHR ''f''), ip_expectedInverterRevision = 1, ip_batteryId = id_of (CHR ''4''),
     ip_expectedBatteryRevision = 1, ip_inputDigest = digest_of (CHR ''5''), ip_targetPowerW = 1500,
     ip_expiresAtMs = 60005, ip_confirmationToken = digest_of (CHR ''9'')\<rparr>"

definition sample_request :: "int \<Rightarrow> manager \<Rightarrow> inverter_preview result \<times> manager" where
  "sample_request now m = preview sample_env now now now (Some sample_authority) (Some sample_plan) 0
     (id_of (CHR ''e'')) (id_of (CHR ''f'')) 1 m"

definition sample_confirm :: "int \<Rightarrow> manager \<Rightarrow> command_result result \<times> manager" where
  "sample_confirm now m = confirm sample_env now now now (Some sample_authority) (Some sample_preview)
     (digest_of (CHR ''9'')) m"

definition sample_result :: command_result where
  "sample_result = result_of (command_of sample_preview) (Some (expected_readback (command_of sample_preview)))"

definition sample_entry :: "nat \<Rightarrow> audit_action \<Rightarrow> int \<Rightarrow> string \<Rightarrow> string \<Rightarrow> audit_entry" where
  "sample_entry n act t p h = \<lparr>ae_sequence = n, ae_action = act, ae_subject = subject_of sample_preview,
     ae_createdAtMs = t, ae_previousHash = p, ae_entryHash = h\<rparr>"

definition sample_previewed :: manager where
  "sample_previewed = \<lparr>commands = [(id_of (CHR ''e''),
       \<lparr>cs_preview = sample_preview, cs_plan = sample_plan, cs_result = None\<rparr>)],
     audit_log = [sample_entry 1 Previewed 5 ZERO_HASH (digest_of (CHR ''7''))], dispatched = []\<rparr>"

definition sample_confirmed :: manager where
  "sample_confirmed = \<lparr>commands = [(id_of (CHR ''e''),
       \<lparr>cs_preview = sample_preview, cs_plan = sample_plan, cs_result = Some sample_result\<rparr>)],
     audit_log = [sample_entry 1 Previewed 5 ZERO_HASH (digest_of (CHR ''7'')),
       sample_entry 2 ConfirmedAction 6 (digest_of (CHR ''7'')) (digest_of (CHR ''8''))],
     dispatched = [command_of sample_preview]\<rparr>"

lemma sample_request_run: "sample_request 5 new_manager = (Inr sample_preview, sample_previewed)"
  by code_simp

lemma sample_confirm_run: "sample_confirm 6 sample_previewed = (Inr sample_result, sample_confirmed)"
  by code_simp

lemma sample_reach:
  "manager_reach (entry_hash sample_env) new_manager"
  "manager_reach (entry_hash sample_env) sample_previewed"
  "manager_reach (entry_hash sample_env) sample_confirmed"
proof -
  show r0: "manager_reach (entry_hash sample_env) new_manager" by (rule reach_new)
  have "manager_reach (entry_hash sample_env) (snd (sample_request 5 new_manager))"
    unfolding sample_request_def using r0 by (rule reach_preview) (rule refl)
  then show r1: "manager_reach (entry_hash sample_env) sample_previewed" by (simp add: sample_request_run)
  have "manager_reach (entry_hash sample_env) (snd (sample_confirm 6 sample_previewed))"
    unfolding sample_confirm_def using r1 by (rule reach_confirm) (rule refl)
  then show "manager_reach (entry_hash sample_env) sample_confirmed" by (simp add: sample_confirm_run)
qed

theorem dispatch_at_most_once_witness:
  "distinct (map ic_requestId (dispatched sample_confirmed)) \<and> length (dispatched sample_confirmed) = 1"
proof -
  have "length (dispatched sample_confirmed) = 1" by (simp add: sample_confirmed_def)
  with dispatch_at_most_once [OF sample_reach(3)] show ?thesis by blast
qed

theorem audit_log_always_valid_witness:
  "validate_audit sample_env sample_confirmed = Inr () \<and> length (audit_log sample_confirmed) \<le> 2000"
  using audit_log_always_valid [OF sample_reach(3)] by blast

theorem confirm_dispatch_guarded_witness:
  "\<exists>a st. confirm_ready sample_env 6 6 a sample_preview (digest_of (CHR ''9'')) sample_previewed st"
proof -
  have "dispatched sample_confirmed \<noteq> dispatched sample_previewed"
    by (simp add: sample_confirmed_def sample_previewed_def)
  from confirm_dispatch_guarded [OF sample_reach(2) sample_confirm_run [unfolded sample_confirm_def] this]
  show ?thesis by blast
qed

theorem confirm_retry_same_result_witness:
  "sample_confirm 999999 sample_confirmed = (Inr sample_result, sample_confirmed)"
  using confirm_retry_same_result [OF sample_reach(2) sample_confirm_run [unfolded sample_confirm_def] refl refl refl]
  by (simp only: sample_confirm_def)

theorem audit_log_tamper_evident_witness:
  "\<forall>e. audit_chain sample_env 1 ZERO_HASH (audit_log sample_previewed @ [e]) \<and>
     ae_action e = ConfirmedAction \<and> ae_subject e = subject_of sample_preview \<and> ae_createdAtMs e = 6 \<longrightarrow>
     audit_log sample_previewed @ [e] = audit_log sample_confirmed"
proof (intro allI impI)
  fix e
  let ?xs = "audit_log sample_previewed @ [e]"
  assume e: "audit_chain sample_env 1 ZERO_HASH ?xs \<and>
     ae_action e = ConfirmedAction \<and> ae_subject e = subject_of sample_preview \<and> ae_createdAtMs e = 6"
  have v: "audit_chain sample_env 1 ZERO_HASH (audit_log sample_confirmed)"
    by (simp add: sample_confirmed_def sample_entry_def sample_env_def)
  have ne: "digest_of (CHR ''7'') \<noteq> digest_of (CHR ''8'')" by code_simp
  have h: "entry_hash sample_env (Suc (Suc 0)) act sub t p = digest_of (CHR ''8'')" for act sub t p
    by (simp add: sample_env_def)
  have ee: "ae_entryHash e = digest_of (CHR ''8'')" "ae_sequence e = 2" "ae_previousHash e = digest_of (CHR ''7'')"
    using e by (simp_all add: h sample_previewed_def sample_entry_def)
  show "?xs = audit_log sample_confirmed"
    using e ee ne by (intro audit_log_tamper_evident [of sample_env, OF _ v])
      (auto simp: sample_previewed_def sample_confirmed_def sample_entry_def)
qed

theorem preview_retry_after_tick_refused_witness:
  "\<exists>e. sample_request 6 sample_previewed = (Inl e, sample_previewed)"
  using preview_retry_after_tick_refused
    [OF sample_reach(1) sample_request_run [unfolded sample_request_def] refl, of 6]
  by (simp add: sample_request_def)

end
