(* ===== verification/Hash_Chain.thy ===== *)
theory Hash_Chain
  imports Larenor_Prelude
begin

text \<open>
  Keyed hash chains. Several services keep an append-only history whose entries carry the
  hash of the entry before them and a keyed hash of their own content. \<open>linked\<close> is the
  check they all make; the locale states what an entry type has to promise for the check to
  mean that a history with a known last hash cannot be altered.
\<close>

fun linked :: "('e \<Rightarrow> 'h) \<Rightarrow> ('e \<Rightarrow> 'h) \<Rightarrow> ('e \<Rightarrow> 'h) \<Rightarrow> 'h \<Rightarrow> 'e list \<Rightarrow> bool" where
  "linked mac prev stored start [] = True"
| "linked mac prev stored start (e # es) =
     (prev e = start \<and> stored e = mac e \<and> linked mac prev stored (stored e) es)"

definition tip :: "('e \<Rightarrow> 'h) \<Rightarrow> 'h \<Rightarrow> 'e list \<Rightarrow> 'h" where
  "tip stored start es = (if es = [] then start else stored (last es))"

lemma tip_simps [simp]:
  "tip stored start [] = start"
  "tip stored start (es @ [e]) = stored e"
  by (simp_all add: tip_def)

lemma tip_Cons [simp]: "tip stored start (e # es) = tip stored (stored e) es"
  by (simp add: tip_def)

lemma linked_append:
  "linked mac prev stored start (xs @ ys) \<longleftrightarrow>
     linked mac prev stored start xs \<and> linked mac prev stored (tip stored start xs) ys"
  by (induction xs arbitrary: start) auto

text \<open>\<open>SELECT COALESCE(MAX(sequence),0)+1\<close>: the number of the next entry of a log, and what
  appending an entry with that number does to \<open>WHERE \<dots> ORDER BY sequence\<close>.\<close>

definition next_number :: "('e \<Rightarrow> int) \<Rightarrow> 'e list \<Rightarrow> int" where
  "next_number num es = foldr (\<lambda>e m. max (num e) m) es 0 + 1"

lemma next_number_above: "e \<in> set es \<Longrightarrow> num e < next_number num es"
  by (induction es) (auto simp: next_number_def)

lemma numbered_append:
  assumes "num row = next_number num es"
  shows "sort_key num (filter P (es @ [row])) =
    (if P row then sort_key num (filter P es) @ [row] else sort_key num (filter P es))"
proof -
  have "num y \<le> num row" if "y \<in> set (filter P es)" for y
    using that next_number_above [of y es num] assms by simp
  then show ?thesis using sort_key_append_max [of "filter P es" num row] by simp
qed

text \<open>The content of an entry is what its hash covers: it fixes the previous hash and, with the
  stored hash, the entry.\<close>

locale hash_chain =
  fixes mac :: "'e \<Rightarrow> 'h" and prev :: "'e \<Rightarrow> 'h" and stored :: "'e \<Rightarrow> 'h" and content :: "'e \<Rightarrow> 'c"
  assumes covers_prev: "content e = content f \<Longrightarrow> prev e = prev f"
    and covers_entry: "content e = content f \<Longrightarrow> stored e = stored f \<Longrightarrow> e = f"
begin

lemma append_linked:
  assumes "linked mac prev stored start es" and "prev e = tip stored start es" and "stored e = mac e"
  shows "linked mac prev stored start (es @ [e])"
  using assms by (simp add: linked_append)

lemma same_tip_same_chain:
  assumes "linked mac prev stored start xs" and "linked mac prev stored start ys"
    and "tip stored start xs = tip stored start ys"
    and "\<forall>e \<in> set xs. \<forall>f \<in> set ys. mac e = mac f \<longrightarrow> content e = content f"
    and "\<forall>e \<in> set xs \<union> set ys. mac e \<noteq> start"
  shows "xs = ys"
  using assms
proof (induction xs arbitrary: ys rule: rev_induct)
  case Nil
  then show ?case by (cases ys rule: rev_cases) (auto simp: linked_append)
next
  case (snoc e xs)
  obtain f zs where ys: "ys = zs @ [f]"
    using snoc.prems by (cases ys rule: rev_cases) (auto simp: linked_append)
  have macs: "mac e = stored e" "mac f = stored f" "stored e = stored f"
    using snoc.prems ys by (auto simp: linked_append)
  then have c: "content e = content f" using snoc.prems(4) ys by auto
  have "tip stored start xs = tip stored start zs"
    using snoc.prems(1,2) ys covers_prev [OF c] by (simp add: linked_append)
  then have "xs = zs" using snoc.IH [of zs] snoc.prems ys by (simp add: linked_append)
  then show ?case using covers_entry [OF c macs(3)] ys by simp
qed

end

end
