(* ===== verification/Shared_Expenses.thy ===== *)
theory Shared_Expenses
  imports Hash_Chain Auth_Sessions "HOL-Library.List_Lexorder" "HOL-Library.Char_ord" "HOL-Library.Product_Lexorder"
begin

text \<open>
  The shared expense ledger, \<open>shared_expenses/service.py\<close> with the tables of
  \<open>shared_expenses/schema.py\<close>: splitting a total, the encrypted records, the keyed event
  chain with its per-home state row, idempotent creation, receipts and export. Canonical JSON
  followed by SHA-256 or HMAC, and AES-GCM, are parameters. The byte strings of
  plaintexts and ciphertexts are the type variables \<open>'raw\<close> and \<open>'ct\<close>.
\<close>

section \<open>Data\<close>

definition MAX_ACCOUNTS :: nat where "MAX_ACCOUNTS = 32"
definition MAX_HOUSEHOLD_MEMBERS :: nat where "MAX_HOUSEHOLD_MEMBERS = 256"
definition MAX_EXPENSES :: int where "MAX_EXPENSES = 1000"
definition EXPENSE_TITLE_LENGTH :: nat where "EXPENSE_TITLE_LENGTH = 200"
definition MAX_TOTAL_MINOR :: int where "MAX_TOTAL_MINOR = 10 ^ 12"

definition currency_scale :: "string \<Rightarrow> int option" where
  "currency_scale c = map_of [(''EUR'', 2), (''GBP'', 2), (''JPY'', 0), (''TRY'', 2), (''USD'', 2)] c"

record household_accounts =
  ha_revision :: int
  ha_ids :: "string list"

definition valid_accounts :: "household_accounts \<Rightarrow> bool" where
  "valid_accounts m = (1 \<le> ha_revision m \<and> 1 \<le> length (ha_ids m) \<and>
     length (ha_ids m) \<le> MAX_HOUSEHOLD_MEMBERS \<and> distinct (ha_ids m) \<and> list_all is_identifier (ha_ids m))"

record expense_share =
  sh_account :: string
  sh_amount :: int

text \<open>What a request asks for, and what is encrypted: the request without the expected
  revision, with its creation time.\<close>

record expense_request =
  rq_expected :: int
  rq_title :: string
  rq_currency :: string
  rq_scale :: int
  rq_total :: int
  rq_payer :: string
  rq_shares :: "expense_share list"
  rq_members_revision :: int

record expense_body =
  eb_title :: string
  eb_currency :: string
  eb_scale :: int
  eb_total :: int
  eb_payer :: string
  eb_shares :: "expense_share list"
  eb_members_revision :: int
  eb_created_at :: time

record expense_record =
  er_id :: string
  er_revision :: int
  er_body :: expense_body

record 'ct expense_row =
  x_id :: string
  x_core :: string
  x_home :: string
  x_revision :: int
  x_nonce :: string
  x_ciphertext :: 'ct
  x_payload_hash :: string
  x_created_at :: time

record event_content =
  e_sequence :: int
  e_event_id :: string
  e_core :: string
  e_home :: string
  e_command :: string
  e_action :: string
  e_actor :: string
  e_record :: string
  e_ledger_revision :: int
  e_occurred_at :: time
  e_request_hash :: string
  e_previous_hash :: string

record event_row =
  e_content :: event_content
  e_hash :: string

record state_row =
  s_core :: string
  s_home :: string
  s_revision :: int
  s_event_count :: int
  s_last_hash :: string
  s_state_hash :: string

record 'ct expense_db =
  x_rows :: "'ct expense_row list"
  x_events :: "event_row list"
  x_states :: "state_row list"

record expense_receipt =
  rc_event_id :: string
  rc_command_id :: string
  rc_ledger_revision :: int
  rc_expense :: expense_record

record expense_event =
  ev_event_id :: string
  ev_action :: string
  ev_actor_id :: string
  ev_record_id :: string
  ev_ledger_revision :: int
  ev_occurred_at :: time

record ('raw, 'ct) expense_crypto =
  state_mac :: "string \<Rightarrow> string \<Rightarrow> int \<Rightarrow> int \<Rightarrow> string \<Rightarrow> string"
  event_mac :: "event_content \<Rightarrow> string"
  request_digest :: "expense_request \<Rightarrow> string"
  body_encode :: "expense_body \<Rightarrow> 'raw"
  body_decode :: "'raw \<Rightarrow> expense_body option"
  body_digest :: "'raw \<Rightarrow> string"
  body_seal :: "string \<Rightarrow> 'raw \<Rightarrow> string \<Rightarrow> 'ct"
  body_open :: "string \<Rightarrow> 'ct \<Rightarrow> string \<Rightarrow> 'raw option"

abbreviation expense_history_invalid :: error where
  "expense_history_invalid \<equiv> StartupError ''shared_expense_history_invalid''"
abbreviation expense_storage_invalid :: error where
  "expense_storage_invalid \<equiv> StartupError ''shared_expense_storage_invalid''"
abbreviation idempotency_conflict :: error where
  "idempotency_conflict \<equiv> ApiError ''idempotency_conflict'' 409"

section \<open>Requests\<close>

definition check_scope :: "string \<Rightarrow> string \<Rightarrow> unit result" where
  "check_scope core home =
     (if \<not> is_identifier core \<or> \<not> is_identifier home then Inl bad_request else Inr ())"

definition authorize_member :: "principal \<Rightarrow> household_accounts \<Rightarrow> unit result" where
  "authorize_member actor members =
     (if p_role actor \<noteq> Admin \<and> p_id actor \<notin> set (ha_ids members) then Inl forbidden else Inr ())"

text \<open>\<open>base, remainder = divmod(total_minor, len(participants))\<close>, and the first
  \<open>remainder\<close> participants pay one minor unit more.\<close>

definition split_total :: "int \<Rightarrow> string list \<Rightarrow> expense_share list" where
  "split_total total_minor participants =
     map (\<lambda>(index, account).
            \<lparr>sh_account = account,
             sh_amount = total_minor div int (length participants)
               + (if int index < total_minor mod int (length participants) then 1 else 0)\<rparr>)
         (List.enumerate 0 participants)"

definition expense_request_of :: "int \<Rightarrow> string \<Rightarrow> string \<Rightarrow> int \<Rightarrow> string \<Rightarrow> string list
    \<Rightarrow> household_accounts \<Rightarrow> expense_request result" where
  "expense_request_of expected title currency total_minor payer participants members =
     (case currency_scale currency of
        None \<Rightarrow> Inl bad_request
      | Some scale \<Rightarrow>
          if expected < 1
             \<or> \<not> (1 \<le> length (py_strip title) \<and> length (py_strip title) \<le> EXPENSE_TITLE_LENGTH)
             \<or> \<not> (1 \<le> total_minor \<and> total_minor \<le> MAX_TOTAL_MINOR)
             \<or> \<not> is_identifier payer
             \<or> \<not> (1 \<le> length participants \<and> length participants \<le> MAX_ACCOUNTS)
             \<or> \<not> distinct participants
             \<or> list_ex (\<lambda>i. i \<notin> set (ha_ids members)) participants
             \<or> payer \<notin> set (ha_ids members)
          then Inl bad_request
          else Inr \<lparr>rq_expected = expected, rq_title = py_strip title, rq_currency = currency,
                    rq_scale = scale, rq_total = total_minor, rq_payer = payer,
                    rq_shares = split_total total_minor (sort participants),
                    rq_members_revision = ha_revision members\<rparr>)"

definition body_of :: "time \<Rightarrow> expense_request \<Rightarrow> expense_body" where
  "body_of now r =
     \<lparr>eb_title = rq_title r, eb_currency = rq_currency r, eb_scale = rq_scale r, eb_total = rq_total r,
      eb_payer = rq_payer r, eb_shares = rq_shares r, eb_members_revision = rq_members_revision r,
      eb_created_at = now\<rparr>"

section \<open>Reading and verifying\<close>

definition expense_aad :: "string \<Rightarrow> string \<Rightarrow> string \<Rightarrow> string" where
  "expense_aad core home rid = core @ [CHR 0x00] @ home @ [CHR 0x00] @ rid"

definition decrypt_row :: "('raw, 'ct) expense_crypto \<Rightarrow> 'ct expense_row \<Rightarrow> expense_record result" where
  "decrypt_row c row =
     (case body_open c (x_nonce row) (x_ciphertext row) (expense_aad (x_core row) (x_home row) (x_id row)) of
        None \<Rightarrow> Inl expense_storage_invalid
      | Some raw \<Rightarrow>
          if body_digest c raw \<noteq> x_payload_hash row then Inl expense_storage_invalid
          else (case body_decode c raw of
                  None \<Rightarrow> Inl expense_storage_invalid
                | Some b \<Rightarrow>
                    if sum_list (map sh_amount (eb_shares b)) \<noteq> eb_total b
                    then Inl expense_storage_invalid
                    else Inr \<lparr>er_id = x_id row, er_revision = x_revision row, er_body = b\<rparr>))"

definition load_record :: "('raw, 'ct) expense_crypto \<Rightarrow> string \<Rightarrow> 'ct expense_db \<Rightarrow> expense_record result" where
  "load_record c rid s =
     (case select_key x_id rid (x_rows s) of
        None \<Rightarrow> Inl expense_history_invalid
      | Some row \<Rightarrow> decrypt_row c row)"

definition ledger_state :: "('raw, 'ct) expense_crypto \<Rightarrow> string \<Rightarrow> string \<Rightarrow> 'ct expense_db \<Rightarrow> state_row option result" where
  "ledger_state c core home s =
     (case select_where (\<lambda>st. s_core st = core \<and> s_home st = home) (x_states s) of
        None \<Rightarrow> Inr None
      | Some st \<Rightarrow>
          if \<not> is_ascii (s_state_hash st) then Inl TypeError
          else if s_state_hash st \<noteq> state_mac c core home (s_revision st) (s_event_count st) (s_last_hash st)
          then Inl expense_history_invalid
          else Inr (Some st))"

definition scope_events :: "string \<Rightarrow> string \<Rightarrow> 'ct expense_db \<Rightarrow> event_row list" where
  "scope_events core home s =
     sort_key (\<lambda>e. e_sequence (e_content e))
       (filter (\<lambda>e. e_core (e_content e) = core \<and> e_home (e_content e) = home) (x_events s))"

definition recorded_request :: "int \<Rightarrow> expense_record \<Rightarrow> expense_request" where
  "recorded_request revision record =
     (let b = er_body record in
      \<lparr>rq_expected = revision - 1, rq_title = eb_title b, rq_currency = eb_currency b,
       rq_scale = eb_scale b, rq_total = eb_total b, rq_payer = eb_payer b, rq_shares = eb_shares b,
       rq_members_revision = eb_members_revision b\<rparr>)"

definition event_of :: "event_row \<Rightarrow> expense_event" where
  "event_of row =
     (let e = e_content row in
      \<lparr>ev_event_id = e_event_id e, ev_action = e_action e, ev_actor_id = e_actor e,
       ev_record_id = e_record e, ev_ledger_revision = e_ledger_revision e,
       ev_occurred_at = e_occurred_at e\<rparr>)"

fun verify_events :: "('raw, 'ct) expense_crypto \<Rightarrow> 'ct expense_db \<Rightarrow> string \<Rightarrow> event_row list
    \<Rightarrow> (string \<times> string set \<times> expense_event list) result" where
  "verify_events c s previous [] = Inr (previous, {}, [])"
| "verify_events c s previous (row # rows) =
     (let e = e_content row in
      if e_previous_hash e \<noteq> previous then Inl expense_history_invalid
      else if \<not> is_ascii (e_hash row) then Inl TypeError
      else if e_hash row \<noteq> event_mac c e then Inl expense_history_invalid
      else bind_res (load_record c (e_record e) s) (\<lambda>record.
        if request_digest c (recorded_request (e_ledger_revision e) record) \<noteq> e_request_hash e
        then Inl expense_history_invalid
        else bind_res (verify_events c s (e_hash row) rows) (\<lambda>(last, seen, events).
          Inr (last, insert (e_record e) seen, event_of row # events))))"

definition record_count :: "string \<Rightarrow> string \<Rightarrow> 'ct expense_db \<Rightarrow> nat" where
  "record_count core home s = count_where (\<lambda>r. x_core r = core \<and> x_home r = home) (x_rows s)"

definition verified_history :: "('raw, 'ct) expense_crypto \<Rightarrow> string \<Rightarrow> string \<Rightarrow> 'ct expense_db \<Rightarrow> expense_event list result" where
  "verified_history c core home s =
     bind_res (ledger_state c core home s) (\<lambda>state.
       let rows = scope_events core home s in
       case state of
         None \<Rightarrow> if rows \<noteq> [] then Inl expense_history_invalid else Inr []
       | Some st \<Rightarrow>
           bind_res (verify_events c s '''' rows) (\<lambda>(last, seen, events).
             if int (length rows) \<noteq> s_event_count st
                \<or> s_revision st \<noteq> int (length rows) + 1
                \<or> s_last_hash st \<noteq> last
                \<or> record_count core home s \<noteq> card seen
             then Inl expense_history_invalid
             else Inr events))"

section \<open>Operations\<close>

text \<open>\<open>INSERT\<close> under the constraints of the schema.\<close>

definition insert_expense_row :: "'ct expense_row \<Rightarrow> 'ct expense_db \<Rightarrow> 'ct expense_db result" where
  "insert_expense_row r s =
     (if x_id r \<in> x_id ` set (x_rows s) \<or> x_revision r \<le> 0 then Inl IntegrityError
      else Inr (s\<lparr>x_rows := x_rows s @ [r]\<rparr>))"

definition insert_event_row :: "event_row \<Rightarrow> 'ct expense_db \<Rightarrow> 'ct expense_db result" where
  "insert_event_row r s =
     (let e = e_content r in
      if e_sequence e \<in> (e_sequence \<circ> e_content) ` set (x_events s)
         \<or> e_event_id e \<in> (e_event_id \<circ> e_content) ` set (x_events s)
         \<or> (e_core e, e_home e, e_command e)
             \<in> (\<lambda>q. (e_core (e_content q), e_home (e_content q), e_command (e_content q))) ` set (x_events s)
         \<or> e_action e \<noteq> ''created'' \<or> e_ledger_revision e \<le> 1
         \<or> e_record e \<notin> x_id ` set (x_rows s)
      then Inl IntegrityError
      else Inr (s\<lparr>x_events := x_events s @ [r]\<rparr>))"

definition upsert_state_row :: "state_row \<Rightarrow> 'ct expense_db \<Rightarrow> 'ct expense_db result" where
  "upsert_state_row st s =
     (if s_revision st \<le> 1 \<or> s_event_count st \<le> 0 then Inl IntegrityError
      else Inr (if \<exists>q \<in> set (x_states s). s_core q = s_core st \<and> s_home q = s_home st
                then s\<lparr>x_states := update_where (\<lambda>q. s_core q = s_core st \<and> s_home q = s_home st)
                       (\<lambda>_. st) (x_states s)\<rparr>
                else s\<lparr>x_states := x_states s @ [st]\<rparr>))"

definition next_sequence :: "'ct expense_db \<Rightarrow> int" where
  "next_sequence s = next_number (\<lambda>e. e_sequence (e_content e)) (x_events s)"

definition find_command :: "string \<Rightarrow> string \<Rightarrow> string \<Rightarrow> 'ct expense_db \<Rightarrow> event_row option" where
  "find_command core home cmd s =
     select_where (\<lambda>r. e_core (e_content r) = core \<and> e_home (e_content r) = home
                      \<and> e_command (e_content r) = cmd) (x_events s)"

text \<open>The random identifiers one creation draws.\<close>

record expense_fresh =
  new_record :: string
  new_event :: string
  new_nonce :: string

definition receipt_of :: "('raw, 'ct) expense_crypto \<Rightarrow> event_row \<Rightarrow> string \<Rightarrow> 'ct expense_db \<Rightarrow> expense_receipt result" where
  "receipt_of c row cmd s =
     bind_res (load_record c (e_record (e_content row)) s) (\<lambda>record.
       Inr \<lparr>rc_event_id = e_event_id (e_content row), rc_command_id = cmd,
            rc_ledger_revision = e_ledger_revision (e_content row), rc_expense = record\<rparr>)"

definition new_event_row :: "('raw, 'ct) expense_crypto \<Rightarrow> expense_fresh \<Rightarrow> time \<Rightarrow> principal \<Rightarrow> string \<Rightarrow> string
    \<Rightarrow> string \<Rightarrow> string \<Rightarrow> int \<Rightarrow> int \<Rightarrow> string \<Rightarrow> event_row" where
  "new_event_row c fr now actor core home cmd request_hash sequence revision previous =
     (let e = \<lparr>e_sequence = sequence, e_event_id = new_event fr, e_core = core, e_home = home,
               e_command = cmd, e_action = ''created'', e_actor = p_id actor, e_record = new_record fr,
               e_ledger_revision = revision, e_occurred_at = now, e_request_hash = request_hash,
               e_previous_hash = previous\<rparr>
      in \<lparr>e_content = e, e_hash = event_mac c e\<rparr>)"

definition new_expense_row :: "('raw, 'ct) expense_crypto \<Rightarrow> expense_fresh \<Rightarrow> time \<Rightarrow> string \<Rightarrow> string \<Rightarrow> expense_request
    \<Rightarrow> 'ct expense_row" where
  "new_expense_row c fr now core home request =
     (let raw = body_encode c (body_of now request) in
      \<lparr>x_id = new_record fr, x_core = core, x_home = home, x_revision = 1, x_nonce = new_nonce fr,
       x_ciphertext = body_seal c (new_nonce fr) raw (expense_aad core home (new_record fr)),
       x_payload_hash = body_digest c raw, x_created_at = now\<rparr>)"

definition create_body :: "('raw, 'ct) expense_crypto \<Rightarrow> expense_fresh \<Rightarrow> time \<Rightarrow> principal \<Rightarrow> string \<Rightarrow> string
    \<Rightarrow> string \<Rightarrow> expense_request \<Rightarrow> ('ct expense_db, expense_receipt) tx" where
  "create_body c fr now actor core home cmd request s =
     bind_res (verified_history c core home s) (\<lambda>_.
       case find_command core home cmd s of
         Some replay \<Rightarrow>
           if e_actor (e_content replay) \<noteq> p_id actor
              \<or> e_request_hash (e_content replay) \<noteq> request_digest c request
           then Inl idempotency_conflict
           else bind_res (receipt_of c replay cmd s) (\<lambda>r. Inr (r, s))
       | None \<Rightarrow>
           bind_res (ledger_state c core home s) (\<lambda>state.
             let current = (case state of None \<Rightarrow> 1 | Some st \<Rightarrow> s_revision st);
                 count = (case state of None \<Rightarrow> 0 | Some st \<Rightarrow> s_event_count st);
                 previous = (case state of None \<Rightarrow> '''' | Some st \<Rightarrow> s_last_hash st)
             in if rq_expected request \<noteq> current then Inl revision_conflict
                else if count \<ge> MAX_EXPENSES then Inl (ApiError ''shared_expense_limit_reached'' 413)
                else
                  bind_res (insert_expense_row (new_expense_row c fr now core home request) s) (\<lambda>s1.
                  let row = new_event_row c fr now actor core home cmd (request_digest c request)
                              (next_sequence s1) (current + 1) previous
                  in bind_res (insert_event_row row s1) (\<lambda>s2.
                     bind_res (upsert_state_row
                       \<lparr>s_core = core, s_home = home, s_revision = current + 1, s_event_count = count + 1,
                        s_last_hash = e_hash row,
                        s_state_hash = state_mac c core home (current + 1) (count + 1) (e_hash row)\<rparr> s2) (\<lambda>s3.
                     bind_res (load_record c (new_record fr) s3) (\<lambda>record.
                       Inr (\<lparr>rc_event_id = new_event fr, rc_command_id = cmd,
                             rc_ledger_revision = current + 1, rc_expense = record\<rparr>, s3)))))))"

definition expense_create :: "('raw, 'ct) expense_crypto \<Rightarrow> expense_fresh \<Rightarrow> time \<Rightarrow> principal \<Rightarrow> string \<Rightarrow> string
    \<Rightarrow> int \<Rightarrow> string \<Rightarrow> string \<Rightarrow> string \<Rightarrow> int \<Rightarrow> string \<Rightarrow> string list \<Rightarrow> household_accounts
    \<Rightarrow> 'ct expense_db \<Rightarrow> expense_receipt result \<times> 'ct expense_db" where
  "expense_create c fr now actor core home expected cmd title currency total_minor payer participants members s =
     (case bind_res (check_scope core home) (\<lambda>_.
           bind_res (authorize_member actor members) (\<lambda>_.
             if \<not> is_identifier cmd then Inl bad_request
             else if p_role actor \<noteq> Admin \<and> p_id actor \<noteq> payer then Inl forbidden
             else expense_request_of expected title currency total_minor payer participants members)) of
        Inl e \<Rightarrow> (Inl e, s)
      | Inr request \<Rightarrow> transaction (create_body c fr now actor core home cmd request) s)"

definition expense_history :: "('raw, 'ct) expense_crypto \<Rightarrow> principal \<Rightarrow> string \<Rightarrow> string \<Rightarrow> household_accounts
    \<Rightarrow> 'ct expense_db \<Rightarrow> expense_event list result" where
  "expense_history c actor core home members s =
     bind_res (check_scope core home) (\<lambda>_.
     bind_res (authorize_member actor members) (\<lambda>_.
       verified_history c core home s))"

definition expense_receipt_of :: "('raw, 'ct) expense_crypto \<Rightarrow> principal \<Rightarrow> string \<Rightarrow> string \<Rightarrow> string
    \<Rightarrow> household_accounts \<Rightarrow> 'ct expense_db \<Rightarrow> expense_receipt option result" where
  "expense_receipt_of c actor cmd core home members s =
     bind_res (check_scope core home) (\<lambda>_.
     bind_res (authorize_member actor members) (\<lambda>_.
       if \<not> is_identifier cmd then Inl bad_request
       else bind_res (verified_history c core home s) (\<lambda>_.
         case find_command core home cmd s of
           None \<Rightarrow> Inr None
         | Some row \<Rightarrow>
             if e_actor (e_content row) \<noteq> p_id actor \<and> p_role actor \<noteq> Admin then Inl forbidden
             else bind_res (receipt_of c row (e_command (e_content row)) s) (\<lambda>r. Inr (Some r)))))"

fun decrypt_all :: "('raw, 'ct) expense_crypto \<Rightarrow> 'ct expense_row list \<Rightarrow> expense_record list result" where
  "decrypt_all c [] = Inr []"
| "decrypt_all c (row # rows) =
     bind_res (decrypt_row c row) (\<lambda>r. bind_res (decrypt_all c rows) (\<lambda>rs. Inr (r # rs)))"

definition visible_to :: "principal \<Rightarrow> expense_record \<Rightarrow> bool" where
  "visible_to actor r =
     (p_role actor = Admin \<or> p_id actor = eb_payer (er_body r)
      \<or> list_ex (\<lambda>sh. sh_account sh = p_id actor) (eb_shares (er_body r)))"

definition expense_export :: "('raw, 'ct) expense_crypto \<Rightarrow> principal \<Rightarrow> string \<Rightarrow> string \<Rightarrow> household_accounts
    \<Rightarrow> 'ct expense_db \<Rightarrow> (int \<times> expense_record list) result" where
  "expense_export c actor core home members s =
     bind_res (check_scope core home) (\<lambda>_.
     bind_res (authorize_member actor members) (\<lambda>_.
     bind_res (verified_history c core home s) (\<lambda>_.
     bind_res (ledger_state c core home s) (\<lambda>state.
       let rows = take (nat MAX_EXPENSES + 1) (sort_key (\<lambda>r. (x_created_at r, x_id r))
                    (filter (\<lambda>r. x_core r = core \<and> x_home r = home) (x_rows s)))
       in if int (length rows) > MAX_EXPENSES then Inl expense_storage_invalid
          else bind_res (decrypt_all c rows) (\<lambda>records.
            Inr (case state of None \<Rightarrow> 1 | Some st \<Rightarrow> s_revision st, filter (visible_to actor) records))))))"


section \<open>Fair splitting\<close>

lemma enumerate_nth: "List.enumerate 0 xs = map (\<lambda>i. (i, xs ! i)) [0..<length xs]"
  by (rule nth_equalityI) (simp_all add: nth_enumerate_eq)

lemma split_total_accounts: "map sh_account (split_total t ps) = ps"
  by (simp add: split_total_def enumerate_nth comp_def map_nth)

lemma split_total_amounts:
  "map sh_amount (split_total t ps) =
     map (\<lambda>i. t div int (length ps) + (if int i < t mod int (length ps) then 1 else 0)) [0..<length ps]"
  by (simp add: split_total_def enumerate_nth comp_def)

lemma extra_units:
  "0 \<le> r \<Longrightarrow> (\<Sum>i\<leftarrow>[0..<k]. if int i < r then 1 else 0 :: int) = min (int k) r"
  by (induction k) auto

lemma split_total_sum:
  assumes "ps \<noteq> []"
  shows "sum_list (map sh_amount (split_total t ps)) = t"
proof -
  let ?n = "int (length ps)"
  have n: "0 < ?n" using assms by simp
  have "sum_list (map sh_amount (split_total t ps)) =
      (\<Sum>i\<leftarrow>[0..<length ps]. t div ?n) + (\<Sum>i\<leftarrow>[0..<length ps]. if int i < t mod ?n then 1 else 0)"
    unfolding split_total_amounts by (simp add: sum_list_addf)
  also have "\<dots> = ?n * (t div ?n) + min ?n (t mod ?n)"
    using extra_units [of "t mod ?n" "length ps"] n by (simp add: sum_list_triv)
  also have "min ?n (t mod ?n) = t mod ?n" using pos_mod_bound [OF n, of t] by simp
  finally show ?thesis by simp
qed

section \<open>Verification as a property of the rows\<close>

text \<open>What one event row promises besides its place in the chain.\<close>

definition row_ok :: "('raw, 'ct) expense_crypto \<Rightarrow> 'ct expense_db \<Rightarrow> event_row \<Rightarrow> bool" where
  "row_ok c s row \<longleftrightarrow> is_ascii (e_hash row) \<and>
     (\<exists>rec. load_record c (e_record (e_content row)) s = Inr rec \<and>
        request_digest c (recorded_request (e_ledger_revision (e_content row)) rec)
          = e_request_hash (e_content row))"

abbreviation events_linked :: "('raw, 'ct) expense_crypto \<Rightarrow> string \<Rightarrow> event_row list \<Rightarrow> bool" where
  "events_linked c start rows \<equiv>
     linked (\<lambda>r. event_mac c (e_content r)) (\<lambda>r. e_previous_hash (e_content r)) e_hash start rows"

interpretation expense_chain: hash_chain "\<lambda>r :: event_row. event_mac c (e_content r)"
  "\<lambda>r. e_previous_hash (e_content r)" e_hash e_content for c
  by unfold_locales (simp_all add: event_row.equality)

lemma verify_events_iff:
  "verify_events c s p rows = Inr (l, seen, es) \<longleftrightarrow>
     events_linked c p rows \<and> (\<forall>row \<in> set rows. row_ok c s row) \<and> l = tip e_hash p rows \<and>
     seen = (\<lambda>r. e_record (e_content r)) ` set rows \<and> es = map event_of rows"
proof (induction rows arbitrary: p l seen es)
  case Nil
  then show ?case by auto
next
  case (Cons row rows)
  show ?case
    by (auto simp: Let_def bind_res_Inr_iff Cons.IH row_ok_def split: if_splits)
qed

lemma verified_history_iff:
  "verified_history c core home s = Inr es \<longleftrightarrow>
     (case select_where (\<lambda>st. s_core st = core \<and> s_home st = home) (x_states s) of
        None \<Rightarrow> scope_events core home s = [] \<and> es = []
      | Some st \<Rightarrow>
          is_ascii (s_state_hash st) \<and>
          s_state_hash st = state_mac c core home (s_revision st) (s_event_count st) (s_last_hash st) \<and>
          events_linked c '''' (scope_events core home s) \<and>
          (\<forall>row \<in> set (scope_events core home s). row_ok c s row) \<and>
          s_event_count st = int (length (scope_events core home s)) \<and>
          s_revision st = int (length (scope_events core home s)) + 1 \<and>
          s_last_hash st = tip e_hash '''' (scope_events core home s) \<and>
          record_count core home s = card ((\<lambda>r. e_record (e_content r)) ` set (scope_events core home s)) \<and>
          es = map event_of (scope_events core home s))"
  by (auto simp: verified_history_def ledger_state_def bind_res_Inr_iff verify_events_iff Let_def
      split: option.splits if_splits)

section \<open>Creation\<close>

definition sound_crypto :: "('raw, 'ct) expense_crypto \<Rightarrow> bool" where
  "sound_crypto c \<longleftrightarrow> (\<forall>n raw a. body_open c n (body_seal c n raw a) a = Some raw) \<and>
     (\<forall>b. body_decode c (body_encode c b) = Some b) \<and>
     (\<forall>e. is_ascii (event_mac c e)) \<and> (\<forall>a b i j l. is_ascii (state_mac c a b i j l))"

lemma load_new_row:
  assumes "sound_crypto c" and "sum_list (map sh_amount (rq_shares q)) = rq_total q"
  shows "decrypt_row c (new_expense_row c fr now core home q) =
    Inr \<lparr>er_id = new_record fr, er_revision = 1, er_body = body_of now q\<rparr>"
  using assms by (simp add: decrypt_row_def new_expense_row_def sound_crypto_def Let_def body_of_def)

lemma request_shares:
  assumes "expense_request_of expected title currency total_minor payer ps members = Inr q"
  shows "rq_shares q = split_total total_minor (sort ps)" "rq_total q = total_minor" "ps \<noteq> []"
    "sum_list (map sh_amount (rq_shares q)) = rq_total q" "rq_payer q = payer" "rq_expected q = expected"
    "1 \<le> expected"
proof -
  show q: "rq_shares q = split_total total_minor (sort ps)" "rq_total q = total_minor"
    and ps: "ps \<noteq> []" and "rq_payer q = payer" "rq_expected q = expected" "1 \<le> expected"
    using assms by (auto simp: expense_request_of_def split: option.splits if_splits)
  have "sort ps \<noteq> []" using ps by (metis set_empty set_sort)
  then show "sum_list (map sh_amount (rq_shares q)) = rq_total q" unfolding q by (rule split_total_sum)
qed

text \<open>A home whose history verifies and whose stored records are exactly those of its events.\<close>

definition home_ok :: "('raw, 'ct) expense_crypto \<Rightarrow> string \<Rightarrow> string \<Rightarrow> 'ct expense_db \<Rightarrow> bool" where
  "home_ok c core home s \<longleftrightarrow>
     verified_history c core home s = Inr (map event_of (scope_events core home s)) \<and>
     record_count core home s = card ((\<lambda>r. e_record (e_content r)) ` set (scope_events core home s))"

lemma home_okD:
  assumes "home_ok c core home s"
  shows "events_linked c '''' (scope_events core home s)"
    "\<forall>row \<in> set (scope_events core home s). row_ok c s row"
    "\<exists>st. ledger_state c core home s = Inr st \<and>
       (case st of None \<Rightarrow> 1 | Some st \<Rightarrow> s_revision st) = int (length (scope_events core home s)) + 1 \<and>
       (case st of None \<Rightarrow> 0 | Some st \<Rightarrow> s_event_count st) = int (length (scope_events core home s)) \<and>
       (case st of None \<Rightarrow> '''' | Some st \<Rightarrow> s_last_hash st) = tip e_hash '''' (scope_events core home s)"
  using assms
  by (auto simp: home_ok_def verified_history_iff ledger_state_def split: option.splits)

lemma load_record_append:
  assumes "load_record c rid s = Inr rec" and "x_rows t = x_rows s @ [new]"
  shows "load_record c rid t = Inr rec"
  using assms by (auto simp: load_record_def select_where_append split: option.splits)

lemma row_ok_append: "row_ok c s row \<Longrightarrow> x_rows t = x_rows s @ [new] \<Longrightarrow> row_ok c t row"
  by (auto simp: row_ok_def dest: load_record_append)

lemma insert_expense_row_Inr:
  "insert_expense_row r s = Inr t \<Longrightarrow> x_id r \<notin> x_id ` set (x_rows s) \<and> t = s\<lparr>x_rows := x_rows s @ [r]\<rparr>"
  by (auto simp: insert_expense_row_def split: if_splits)

lemma insert_event_row_Inr: "insert_event_row r s = Inr t \<Longrightarrow> t = s\<lparr>x_events := x_events s @ [r]\<rparr>"
  by (auto simp: insert_event_row_def Let_def split: if_splits)

lemma upsert_state_row_Inr:
  "upsert_state_row st s = Inr t \<Longrightarrow>
     t = s\<lparr>x_states := if \<exists>q \<in> set (x_states s). s_core q = s_core st \<and> s_home q = s_home st
       then update_where (\<lambda>q. s_core q = s_core st \<and> s_home q = s_home st) (\<lambda>_. st) (x_states s)
       else x_states s @ [st]\<rparr>"
  by (auto simp: upsert_state_row_def split: if_splits)

text \<open>The writes of one creation, as one update of the three tables.\<close>

lemma create_body_new:
  assumes "create_body c fr now actor core home cmd q s = Inr (r, s')" and "find_command core home cmd s = None"
    and "home_ok c core home s"
  obtains row states where
    "row = new_event_row c fr now actor core home cmd (request_digest c q) (next_sequence s)
       (int (length (scope_events core home s)) + 2) (tip e_hash '''' (scope_events core home s))"
    "s' = \<lparr>x_rows = x_rows s @ [new_expense_row c fr now core home q], x_events = x_events s @ [row],
           x_states = states\<rparr>"
    "new_record fr \<notin> x_id ` set (x_rows s)"
    "rq_expected q = int (length (scope_events core home s)) + 1"
    "int (length (scope_events core home s)) < MAX_EXPENSES"
    "rc_event_id r = new_event fr \<and> rc_command_id r = cmd \<and>
       rc_ledger_revision r = int (length (scope_events core home s)) + 2"
    "load_record c (new_record fr) s' = Inr (rc_expense r)"
    "select_where (\<lambda>st. s_core st = core \<and> s_home st = home) states =
       Some \<lparr>s_core = core, s_home = home, s_revision = int (length (scope_events core home s)) + 2,
             s_event_count = int (length (scope_events core home s)) + 1, s_last_hash = e_hash row,
             s_state_hash = state_mac c core home (int (length (scope_events core home s)) + 2)
               (int (length (scope_events core home s)) + 1) (e_hash row)\<rparr>"
    "\<And>core' home'. (core', home') \<noteq> (core, home) \<Longrightarrow>
       select_where (\<lambda>st. s_core st = core' \<and> s_home st = home') states =
       select_where (\<lambda>st. s_core st = core' \<and> s_home st = home') (x_states s)"
proof -
  let ?k = "int (length (scope_events core home s))"
  obtain st where st: "ledger_state c core home s = Inr st"
    "(case st of None \<Rightarrow> 1 | Some st \<Rightarrow> s_revision st) = ?k + 1"
    "(case st of None \<Rightarrow> 0 | Some st \<Rightarrow> s_event_count st) = ?k"
    "(case st of None \<Rightarrow> '''' | Some st \<Rightarrow> s_last_hash st) = tip e_hash '''' (scope_events core home s)"
    using home_okD(3) [OF assms(3)] by auto
  define row where "row = new_event_row c fr now actor core home cmd (request_digest c q) (next_sequence s)
       (?k + 2) (tip e_hash '''' (scope_events core home s))"
  define nst where "nst = \<lparr>s_core = core, s_home = home, s_revision = ?k + 2, s_event_count = ?k + 1,
      s_last_hash = e_hash row, s_state_hash = state_mac c core home (?k + 2) (?k + 1) (e_hash row)\<rparr>"
  define P where "P = (\<lambda>q :: state_row. s_core q = core \<and> s_home q = home)"
  define states where "states = (if \<exists>q \<in> set (x_states s). P q
      then update_where P (\<lambda>_. nst) (x_states s) else x_states s @ [nst])"
  have ns: "next_sequence (s\<lparr>x_rows := rs\<rparr>) = next_sequence s" for rs by (simp add: next_sequence_def)
  obtain s1 s2 s3 rec where steps: "rq_expected q = ?k + 1" "?k < MAX_EXPENSES"
    "insert_expense_row (new_expense_row c fr now core home q) s = Inr s1"
    "insert_event_row (new_event_row c fr now actor core home cmd (request_digest c q)
       (next_sequence s1) (?k + 1 + 1) (tip e_hash [] (scope_events core home s))) s1 = Inr s2"
    "upsert_state_row \<lparr>s_core = core, s_home = home, s_revision = ?k + 1 + 1, s_event_count = ?k + 1,
       s_last_hash = e_hash (new_event_row c fr now actor core home cmd (request_digest c q)
         (next_sequence s1) (?k + 1 + 1) (tip e_hash [] (scope_events core home s))),
       s_state_hash = state_mac c core home (?k + 1 + 1) (?k + 1)
         (e_hash (new_event_row c fr now actor core home cmd (request_digest c q)
           (next_sequence s1) (?k + 1 + 1) (tip e_hash [] (scope_events core home s))))\<rparr> s2 = Inr s3"
    "load_record c (new_record fr) s3 = Inr rec"
    "r = \<lparr>rc_event_id = new_event fr, rc_command_id = cmd, rc_ledger_revision = ?k + 1 + 1, rc_expense = rec\<rparr>"
    "s' = s3"
    using assms(1,2) st(1)
    by (auto simp: create_body_def bind_res_Inr_iff Let_def st(2-4) split: if_splits)
  have s1: "new_record fr \<notin> x_id ` set (x_rows s)"
    "s1 = s\<lparr>x_rows := x_rows s @ [new_expense_row c fr now core home q]\<rparr>"
    using insert_expense_row_Inr [OF steps(3)] by (simp_all add: new_expense_row_def Let_def)
  have two: "?k + 1 + 1 = ?k + 2" by simp
  have row': "new_event_row c fr now actor core home cmd (request_digest c q)
       (next_sequence s1) (?k + 1 + 1) (tip e_hash [] (scope_events core home s)) = row"
    by (simp only: row_def s1 ns two)
  have scope: "s_core nst = core" "s_home nst = home" by (simp_all add: nst_def)
  have s3: "s3 = s2\<lparr>x_states := if \<exists>q \<in> set (x_states s2). P q
      then update_where P (\<lambda>_. nst) (x_states s2) else x_states s2 @ [nst]\<rparr>"
    using upsert_state_row_Inr [OF steps(5) [unfolded row', unfolded two, folded nst_def]]
    by (simp only: P_def scope)
  have s2: "s2 = s1\<lparr>x_events := x_events s1 @ [row]\<rparr>"
    using insert_event_row_Inr [OF steps(4) [unfolded row']] .
  have body: "rq_expected q = ?k + 1" "?k < MAX_EXPENSES" "new_record fr \<notin> x_id ` set (x_rows s)"
    "s' = \<lparr>x_rows = x_rows s @ [new_expense_row c fr now core home q], x_events = x_events s @ [row],
           x_states = states\<rparr>"
    "rc_event_id r = new_event fr \<and> rc_command_id r = cmd \<and> rc_ledger_revision r = ?k + 2"
    "load_record c (new_record fr) s' = Inr (rc_expense r)"
    using steps(1,2,6,7,8) s1 s2 s3 by (simp_all add: states_def)
  have upd: "select_where Q (update_where P (\<lambda>_. nst) xs) =
      (if \<exists>q \<in> set xs. P q then Some nst else None)" if "Q = P" for Q xs
    using that by (induction xs) (auto simp: P_def nst_def)
  have oth: "select_where (\<lambda>st. s_core st = core' \<and> s_home st = home') (update_where P (\<lambda>_. nst) xs) =
      select_where (\<lambda>st. s_core st = core' \<and> s_home st = home') xs" if "(core', home') \<noteq> (core, home)" for core' home' xs
    using that by (induction xs) (auto simp: P_def nst_def)
  have none: "\<not> (\<exists>q \<in> set xs. P q) \<Longrightarrow> select_where P xs = None" for xs
    by (simp add: select_where_None_iff)
  have sel: "select_where P states = Some nst"
    using upd [of P "x_states s"] none [of "x_states s"]
    by (auto simp: states_def select_where_append P_def nst_def)
  have other: "select_where (\<lambda>st. s_core st = core' \<and> s_home st = home') states =
      select_where (\<lambda>st. s_core st = core' \<and> s_home st = home') (x_states s)"
    if "(core', home') \<noteq> (core, home)" for core' home'
    using oth [OF that, of "x_states s"] that
    by (auto simp: states_def select_where_append nst_def split: option.split)
  show thesis
    by (rule that [of row states])
      (use body sel other in \<open>simp_all add: row_def nst_def P_def\<close>)
qed

lemma scope_events_append:
  assumes "x_events t = x_events s @ [row]" and "e_sequence (e_content row) = next_sequence s"
  shows "scope_events core home t =
    (if e_core (e_content row) = core \<and> e_home (e_content row) = home
     then scope_events core home s @ [row] else scope_events core home s)"
  unfolding scope_events_def assms(1)
  by (rule numbered_append [of "\<lambda>e. e_sequence (e_content e)", OF assms(2) [unfolded next_sequence_def]])

lemma record_count_append:
  "x_rows t = x_rows s @ [new] \<Longrightarrow> record_count core home t =
     (if x_core new = core \<and> x_home new = home then Suc (record_count core home s) else record_count core home s)"
  by (simp add: record_count_def count_where_def)

lemma home_ok_records: "home_ok c core home s \<Longrightarrow>
    (\<lambda>r. e_record (e_content r)) ` set (scope_events core home s) \<subseteq> x_id ` set (x_rows s)"
proof -
  assume "home_ok c core home s"
  then have "row_ok c s w" if "w \<in> set (scope_events core home s)" for w using home_okD(2) that by blast
  then show ?thesis
    by (force simp: row_ok_def load_record_def dest: select_where_Some split: option.splits)
qed

lemma home_ok_other:
  assumes "home_ok c core home s" and "x_rows t = x_rows s @ [new]"
    and "\<not> (x_core new = core \<and> x_home new = home)" and "scope_events core home t = scope_events core home s"
    and "select_where (\<lambda>st. s_core st = core \<and> s_home st = home) (x_states t) =
       select_where (\<lambda>st. s_core st = core \<and> s_home st = home) (x_states s)"
  shows "home_ok c core home t" "verified_history c core home t = verified_history c core home s"
proof -
  have "record_count core home t = record_count core home s"
    using record_count_append [OF assms(2)] assms(3) by auto
  moreover have "\<forall>row \<in> set (scope_events core home s). row_ok c t row"
    using home_okD(2) [OF assms(1)] row_ok_append [OF _ assms(2)] by blast
  ultimately have "verified_history c core home t = Inr (map event_of (scope_events core home s))"
    using assms(1,5) unfolding home_ok_def verified_history_iff assms(4)
    by (auto split: option.splits)
  then show "verified_history c core home t = verified_history c core home s"
    and "home_ok c core home t"
    using assms(1) \<open>record_count core home t = record_count core home s\<close>
    by (simp_all add: home_ok_def assms(4))
qed

text \<open>The verified history grows by exactly the new event; every other home is untouched.\<close>

lemma create_body_appends:
  assumes sound: "sound_crypto c" and shares: "sum_list (map sh_amount (rq_shares q)) = rq_total q"
    and run: "create_body c fr now actor core home cmd q s = Inr (r, s')"
    and fresh: "find_command core home cmd s = None" and ok: "home_ok c core home s"
  obtains row where
    "scope_events core home s' = scope_events core home s @ [row]" "home_ok c core home s'"
    "find_command core home cmd s' = Some row"
    "e_actor (e_content row) = p_id actor" "e_request_hash (e_content row) = request_digest c q"
    "receipt_of c row cmd s' = Inr r"
    "er_body (rc_expense r) = body_of now q"
    "rc_ledger_revision r = rq_expected q + 1" "rq_expected q = int (length (scope_events core home s)) + 1"
    "e_ledger_revision (e_content row) = rq_expected q + 1"
    "int (length (scope_events core home s)) < MAX_EXPENSES"
    "\<And>core' home'. (core', home') \<noteq> (core, home) \<Longrightarrow> home_ok c core' home' s \<Longrightarrow>
       home_ok c core' home' s' \<and> verified_history c core' home' s' = verified_history c core' home' s"
proof -
  let ?old = "scope_events core home s"
  obtain row states where n: "row = new_event_row c fr now actor core home cmd (request_digest c q) (next_sequence s)
       (int (length ?old) + 2) (tip e_hash '''' ?old)"
    "s' = \<lparr>x_rows = x_rows s @ [new_expense_row c fr now core home q], x_events = x_events s @ [row],
           x_states = states\<rparr>"
    "new_record fr \<notin> x_id ` set (x_rows s)" "rq_expected q = int (length ?old) + 1"
    "int (length ?old) < MAX_EXPENSES"
    "rc_event_id r = new_event fr \<and> rc_command_id r = cmd \<and> rc_ledger_revision r = int (length ?old) + 2"
    "load_record c (new_record fr) s' = Inr (rc_expense r)"
    "select_where (\<lambda>st. s_core st = core \<and> s_home st = home) states =
       Some \<lparr>s_core = core, s_home = home, s_revision = int (length ?old) + 2,
             s_event_count = int (length ?old) + 1, s_last_hash = e_hash row,
             s_state_hash = state_mac c core home (int (length ?old) + 2) (int (length ?old) + 1) (e_hash row)\<rparr>"
    and oth: "\<And>core' home'. (core', home') \<noteq> (core, home) \<Longrightarrow>
       select_where (\<lambda>st. s_core st = core' \<and> s_home st = home') states =
       select_where (\<lambda>st. s_core st = core' \<and> s_home st = home') (x_states s)"
    by (rule create_body_new [OF run fresh ok]) blast
  have row: "e_core (e_content row) = core" "e_home (e_content row) = home" "e_command (e_content row) = cmd"
    "e_sequence (e_content row) = next_sequence s" "e_record (e_content row) = new_record fr"
    "e_actor (e_content row) = p_id actor" "e_request_hash (e_content row) = request_digest c q"
    "e_event_id (e_content row) = new_event fr" "e_ledger_revision (e_content row) = int (length ?old) + 2"
    "e_previous_hash (e_content row) = tip e_hash '''' ?old" "e_hash row = event_mac c (e_content row)"
    by (simp_all add: n(1) new_event_row_def Let_def)
  have rows': "x_rows s' = x_rows s @ [new_expense_row c fr now core home q]" "x_events s' = x_events s @ [row]"
    by (simp_all add: n(2))
  have new: "x_id (new_expense_row c fr now core home q) = new_record fr"
    "x_core (new_expense_row c fr now core home q) = core" "x_home (new_expense_row c fr now core home q) = home"
    by (simp_all add: new_expense_row_def Let_def)
  have sc: "scope_events core home s' = ?old @ [row]"
    using scope_events_append [OF rows'(2) row(4)] row(1,2) by simp
  have sel: "select_key x_id (new_record fr) (x_rows s') = Some (new_expense_row c fr now core home q)"
    using n(3) select_key_append_single [of x_id "new_expense_row c fr now core home q" "x_rows s" "new_record fr"]
    by (simp add: rows'(1) new(1))
  have rec: "rc_expense r = \<lparr>er_id = new_record fr, er_revision = 1, er_body = body_of now q\<rparr>"
    using n(7) load_new_row [OF sound shares, of fr now core home] sel by (simp add: load_record_def)
  have req: "recorded_request (int (length ?old) + 2) (rc_expense r) = q"
    using n(4) by (simp add: rec recorded_request_def body_of_def Let_def)
  have rok: "row_ok c s' row"
    using sound n(7) req row(5,7,9,11) by (simp add: row_ok_def sound_crypto_def)
  have all: "\<forall>w \<in> set (?old @ [row]). row_ok c s' w"
    using rok home_okD(2) [OF ok] row_ok_append [OF _ rows'(1)] by auto
  have lnk: "events_linked c '''' (?old @ [row])"
    using expense_chain.append_linked [OF home_okD(1) [OF ok] row(10,11)] .
  have notin: "new_record fr \<notin> (\<lambda>r. e_record (e_content r)) ` set ?old"
    using home_ok_records [OF ok] n(3) by blast
  have cnt: "record_count core home s' = card ((\<lambda>r. e_record (e_content r)) ` set (?old @ [row]))"
    using record_count_append [OF rows'(1), of core home] ok notin
    by (simp add: new row(5) home_ok_def)
  have ver: "verified_history c core home s' = Inr (map event_of (?old @ [row]))"
    unfolding verified_history_iff sc using n(2,8) sound lnk all cnt
    by (simp add: sound_crypto_def)
  have home': "home_ok c core home s'" unfolding home_ok_def sc using ver cnt by simp
  have find: "find_command core home cmd s' = Some row"
    using fresh row(1-3) by (simp add: find_command_def rows'(2) select_where_append)
  have rcp: "receipt_of c row cmd s' = Inr r"
    using n(6,7) row(5,8,9) by (simp add: receipt_of_def)
  have other: "home_ok c core' home' s' \<and> verified_history c core' home' s' = verified_history c core' home' s"
    if "(core', home') \<noteq> (core, home)" and "home_ok c core' home' s" for core' home'
    using home_ok_other [OF that(2) rows'(1)] scope_events_append [OF rows'(2) row(4), of core' home']
      row(1,2) new that(1) oth [OF that(1)] n(2) by auto
  show thesis
    using n(4,5,6) row(9) by (intro that [OF sc home' find row(6,7) rcp _ _ _ _ _ other]) (simp_all add: rec)
qed

section \<open>Reachable ledgers\<close>

inductive expense_step :: "('raw, 'ct) expense_crypto \<Rightarrow> 'ct expense_db \<Rightarrow> 'ct expense_db \<Rightarrow> bool" for c where
  expense_created: "expense_step c s
    (snd (expense_create c fr now actor core home expected cmd title currency total_minor payer ps members s))"

definition expense_reach :: "('raw, 'ct) expense_crypto \<Rightarrow> 'ct expense_db \<Rightarrow> bool" where
  "expense_reach c s \<longleftrightarrow> (expense_step c)\<^sup>*\<^sup>* \<lparr>x_rows = [], x_events = [], x_states = []\<rparr> s"

text \<open>A call either runs its transaction on a checked request or leaves the ledger alone.\<close>

lemma expense_create_cases:
  obtains (refused) e where "expense_create c fr now actor core home expected cmd title currency total_minor payer ps members s = (Inl e, s)"
  | (run) q where "expense_request_of expected title currency total_minor payer ps members = Inr q"
      "p_role actor \<noteq> Admin \<longrightarrow> p_id actor = payer \<and> p_id actor \<in> set (ha_ids members)"
      "\<And>fr now s. expense_create c fr now actor core home expected cmd title currency total_minor payer ps members s
         = transaction (create_body c fr now actor core home cmd q) s"
proof (cases "bind_res (check_scope core home) (\<lambda>_.
           bind_res (authorize_member actor members) (\<lambda>_.
             if \<not> is_identifier cmd then Inl bad_request
             else if p_role actor \<noteq> Admin \<and> p_id actor \<noteq> payer then Inl forbidden
             else expense_request_of expected title currency total_minor payer ps members))")
  case (Inl e)
  then show thesis by (intro refused [of e]) (simp add: expense_create_def)
next
  case (Inr q)
  then show thesis
    by (intro run [of q])
      (auto simp: bind_res_Inr_iff authorize_member_def expense_create_def split: if_splits)
qed

lemma create_body_replay:
  assumes "create_body c fr now actor core home cmd q s = Inr (r, s')" and "find_command core home cmd s \<noteq> None"
  shows "s' = s" "create_body c fr' now' actor core home cmd q s = Inr (r, s)"
  using assms by (auto simp: create_body_def bind_res_Inr_iff split: option.splits if_splits)

definition expense_inv :: "('raw, 'ct) expense_crypto \<Rightarrow> 'ct expense_db \<Rightarrow> bool" where
  "expense_inv c s \<longleftrightarrow> (\<forall>core home. home_ok c core home s \<and>
     int (length (scope_events core home s)) \<le> MAX_EXPENSES \<and>
     map (\<lambda>r. e_ledger_revision (e_content r)) (scope_events core home s)
       = map (\<lambda>i. int i + 2) [0..<length (scope_events core home s)])"

lemma create_body_inv:
  assumes "sound_crypto c" and "sum_list (map sh_amount (rq_shares q)) = rq_total q"
    and run: "create_body c fr now actor core home cmd q s = Inr (r, s')" and inv: "expense_inv c s"
  shows "expense_inv c s'"
proof (cases "find_command core home cmd s")
  case None
  have ok: "home_ok c core home s" using inv by (simp add: expense_inv_def)
  obtain row where n: "scope_events core home s' = scope_events core home s @ [row]" "home_ok c core home s'"
    "rq_expected q = int (length (scope_events core home s)) + 1"
    "e_ledger_revision (e_content row) = rq_expected q + 1"
    "int (length (scope_events core home s)) < MAX_EXPENSES"
    and oth: "\<And>core' home'. (core', home') \<noteq> (core, home) \<Longrightarrow> home_ok c core' home' s \<Longrightarrow>
       home_ok c core' home' s' \<and> verified_history c core' home' s' = verified_history c core' home' s"
    by (rule create_body_appends [OF assms(1,2) run None ok]) blast
  have ev: "\<exists>row. x_events s' = x_events s @ [row] \<and> e_sequence (e_content row) = next_sequence s
      \<and> e_core (e_content row) = core \<and> e_home (e_content row) = home"
    by (rule create_body_new [OF run None ok]) (auto simp: new_event_row_def Let_def)
  show ?thesis
    unfolding expense_inv_def
  proof (intro allI)
    fix core' home'
    show "home_ok c core' home' s' \<and> int (length (scope_events core' home' s')) \<le> MAX_EXPENSES \<and>
      map (\<lambda>r. e_ledger_revision (e_content r)) (scope_events core' home' s')
        = map (\<lambda>i. int i + 2) [0..<length (scope_events core' home' s')]"
    proof (cases "(core', home') = (core, home)")
      case True
      then show ?thesis using n inv by (auto simp: expense_inv_def)
    next
      case False
      moreover have "scope_events core' home' s' = scope_events core' home' s"
      proof -
        obtain row where "x_events s' = x_events s @ [row]" "e_sequence (e_content row) = next_sequence s"
          "e_core (e_content row) = core" "e_home (e_content row) = home"
          using ev by blast
        from scope_events_append [OF this(1,2), of core' home'] this(3,4) False show ?thesis by auto
      qed
      ultimately show ?thesis using oth [OF False] inv by (simp add: expense_inv_def)
    qed
  qed
next
  case (Some row)
  then show ?thesis using create_body_replay(1) [OF run] inv by simp
qed

text \<open>A step leaves the ledger alone or runs one transaction on a checked request.\<close>

lemma expense_step_cases:
  assumes "expense_step c s t"
  obtains (same) "t = s"
  | (body) fr now actor core home cmd q r where "create_body c fr now actor core home cmd q s = Inr (r, t)"
      "sum_list (map sh_amount (rq_shares q)) = rq_total q"
  using assms
proof cases
  case (expense_created fr now actor core home expected cmd title currency total_minor payer ps members)
  show thesis
  proof (rule expense_create_cases [of c fr now actor core home expected cmd title currency total_minor payer ps members s])
    fix e
    assume "expense_create c fr now actor core home expected cmd title currency total_minor payer ps members s = (Inl e, s)"
    then show thesis using expense_created by (intro same) simp
  next
    fix q
    assume q: "expense_request_of expected title currency total_minor payer ps members = Inr q"
      and tx: "\<And>fr now s. expense_create c fr now actor core home expected cmd title currency total_minor payer ps members s
         = transaction (create_body c fr now actor core home cmd q) s"
    show thesis
    proof (cases "create_body c fr now actor core home cmd q s")
      case (Inl e)
      then show thesis using expense_created by (intro same) (simp add: tx transaction_def)
    next
      case (Inr rt)
      then show thesis using expense_created request_shares(4) [OF q]
        by (intro body [of fr now actor core home cmd q "fst rt"]) (cases rt, auto simp: tx transaction_def)
    qed
  qed
qed

interpretation expenses: stable_step "expense_step c" "\<lambda>s. sound_crypto c \<and> expense_inv c s"
proof unfold_locales
  show "sound_crypto c \<and> expense_inv c t" if "expense_step c s t" "sound_crypto c \<and> expense_inv c s" for s t
    using that by (cases rule: expense_step_cases) (auto intro: create_body_inv)
qed

lemma expense_reach_inv:
  assumes "sound_crypto c" and "expense_reach c s"
  shows "expense_inv c s"
proof -
  have "expense_inv c \<lparr>x_rows = [], x_events = [], x_states = []\<rparr>"
    by (simp add: expense_inv_def home_ok_def verified_history_iff scope_events_def record_count_def count_where_def MAX_EXPENSES_def)
  then show ?thesis using expenses.steps_inv assms unfolding expense_reach_def by blast
qed

text \<open>C16: the ledger of every home verifies after any sequence of creations, in any homes, by
  any actors: its history is the list of its events, with ledger revisions 2, 3, 4 and so on
  without a gap, and it never holds more than a thousand of them.\<close>

theorem expense_history_always_verifies:
  assumes "sound_crypto c" and "expense_reach c s"
  shows "\<exists>es. verified_history c core home s = Inr es \<and> length es \<le> 1000 \<and>
    map ev_ledger_revision es = map (\<lambda>i. int i + 2) [0..<length es]"
proof -
  have "home_ok c core home s" "int (length (scope_events core home s)) \<le> MAX_EXPENSES"
    "map (\<lambda>r. e_ledger_revision (e_content r)) (scope_events core home s)
       = map (\<lambda>i. int i + 2) [0..<length (scope_events core home s)]"
    using expense_reach_inv [OF assms] by (auto simp: expense_inv_def)
  then show ?thesis
    by (intro exI [of _ "map event_of (scope_events core home s)"])
      (simp add: home_ok_def MAX_EXPENSES_def event_of_def comp_def Let_def)
qed

lemma create_records_parts:
  assumes sound: "sound_crypto c" and reach: "expense_reach c s"
    and run: "expense_create c fr now actor core home expected cmd title currency total_minor payer ps members s
      = (Inr r, s')"
    and fresh: "find_command core home cmd s = None"
  shows "\<exists>es ev. verified_history c core home s = Inr es \<and> verified_history c core home s' = Inr (es @ [ev]) \<and>
      ev_actor_id ev = p_id actor \<and> ev_ledger_revision ev = expected + 1 \<and> expected = int (length es) + 1"
    and "(core', home') \<noteq> (core, home) \<Longrightarrow>
      verified_history c core' home' s' = verified_history c core' home' s"
    and "let sh = eb_shares (er_body (rc_expense r)) in
      map sh_account sh = sort ps \<and> sum_list (map sh_amount sh) = total_minor \<and>
      (\<forall>a \<in> set sh. \<forall>b \<in> set sh. \<bar>sh_amount a - sh_amount b\<bar> \<le> 1)"
    and "p_role actor = Admin \<or> p_id actor = payer"
proof -
  obtain q where q: "expense_request_of expected title currency total_minor payer ps members = Inr q"
    and auth: "p_role actor \<noteq> Admin \<longrightarrow> p_id actor = payer \<and> p_id actor \<in> set (ha_ids members)"
    and tx: "expense_create c fr now actor core home expected cmd title currency total_minor payer ps members s
         = transaction (create_body c fr now actor core home cmd q) s"
    using run by (cases rule: expense_create_cases [of c fr now actor core home expected cmd title currency
        total_minor payer ps members s]) auto
  note sh = request_shares [OF q]
  have inv: "\<And>core home. home_ok c core home s"
    using expense_reach_inv [OF sound reach] by (simp add: expense_inv_def)
  have body: "create_body c fr now actor core home cmd q s = Inr (r, s')"
    using run tx by (auto elim: transaction_cases)
  obtain row where n: "scope_events core home s' = scope_events core home s @ [row]" "home_ok c core home s'"
    "e_actor (e_content row) = p_id actor" "er_body (rc_expense r) = body_of now q"
    "rq_expected q = int (length (scope_events core home s)) + 1"
    "e_ledger_revision (e_content row) = rq_expected q + 1"
    and oth: "\<And>core' home'. (core', home') \<noteq> (core, home) \<Longrightarrow> home_ok c core' home' s \<Longrightarrow>
       home_ok c core' home' s' \<and> verified_history c core' home' s' = verified_history c core' home' s"
    by (rule create_body_appends [OF sound sh(4) body fresh inv]) blast
  show "\<exists>es ev. verified_history c core home s = Inr es \<and> verified_history c core home s' = Inr (es @ [ev]) \<and>
      ev_actor_id ev = p_id actor \<and> ev_ledger_revision ev = expected + 1 \<and> expected = int (length es) + 1"
    using inv [of core home] n sh(6)
    by (intro exI [of _ "map event_of (scope_events core home s)"] exI [of _ "event_of row"])
      (simp add: home_ok_def event_of_def Let_def)
  show "(core', home') \<noteq> (core, home) \<Longrightarrow>
      verified_history c core' home' s' = verified_history c core' home' s"
    using oth inv by blast
  have amounts: "sh_amount ` set (split_total total_minor (sort ps)) \<subseteq>
      {total_minor div int (length ps), total_minor div int (length ps) + 1}"
  proof -
    have "set (map sh_amount (split_total total_minor (sort ps))) \<subseteq>
      {total_minor div int (length ps), total_minor div int (length ps) + 1}"
      unfolding split_total_amounts by (auto split: if_splits)
    then show ?thesis by simp
  qed
  have "\<bar>sh_amount a - sh_amount b\<bar> \<le> 1"
    if "a \<in> set (split_total total_minor (sort ps))" "b \<in> set (split_total total_minor (sort ps))" for a b
  proof -
    have "sh_amount a \<in> {total_minor div int (length ps), total_minor div int (length ps) + 1}"
      "sh_amount b \<in> {total_minor div int (length ps), total_minor div int (length ps) + 1}"
      using amounts that by blast+
    then show ?thesis by auto
  qed
  then show "let sh = eb_shares (er_body (rc_expense r)) in
      map sh_account sh = sort ps \<and> sum_list (map sh_amount sh) = total_minor \<and>
      (\<forall>a \<in> set sh. \<forall>b \<in> set sh. \<bar>sh_amount a - sh_amount b\<bar> \<le> 1)"
    using n(4) sh(1,2,4) by (simp add: body_of_def Let_def split_total_accounts)
  show "p_role actor = Admin \<or> p_id actor = payer" using auth by blast
qed

text \<open>C15: a new expense. When a creation with an unused command id succeeds, the home's history
  grows by exactly one event of this actor at the next revision, the histories of all other
  homes stay as they were, and the recorded shares belong to the participants in order, add up
  to the total and differ by at most one minor unit; a member records only what it paid.\<close>

theorem expense_create_records:
  assumes "sound_crypto c" and "expense_reach c s"
    and "expense_create c fr now actor core home expected cmd title currency total_minor payer ps members s
      = (Inr r, s')"
    and "find_command core home cmd s = None"
  shows "(\<exists>es ev. verified_history c core home s = Inr es \<and> verified_history c core home s' = Inr (es @ [ev]) \<and>
        ev_actor_id ev = p_id actor \<and> ev_ledger_revision ev = expected + 1 \<and> expected = int (length es) + 1)
    \<and> (\<forall>core' home'. (core', home') \<noteq> (core, home) \<longrightarrow>
        verified_history c core' home' s' = verified_history c core' home' s)
    \<and> (let sh = eb_shares (er_body (rc_expense r)) in
        map sh_account sh = sort ps \<and> sum_list (map sh_amount sh) = total_minor \<and>
        (\<forall>a \<in> set sh. \<forall>b \<in> set sh. \<bar>sh_amount a - sh_amount b\<bar> \<le> 1))
    \<and> (p_role actor = Admin \<or> p_id actor = payer)"
  using create_records_parts [OF assms] by blast

text \<open>The calls, with what each attempt draws anew apart, and when an answer is on record.\<close>

type_synonym expense_call = "principal \<times> string \<times> string \<times> int \<times> string \<times> string \<times> string \<times> int \<times> string
    \<times> string list \<times> household_accounts"

fun expense_run :: "('raw, 'ct) expense_crypto \<Rightarrow> expense_fresh \<times> time \<Rightarrow> expense_call \<Rightarrow> 'ct expense_db
    \<Rightarrow> expense_receipt result \<times> 'ct expense_db" where
  "expense_run c (fr, now) (actor, core, home, expected, cmd, title, currency, total_minor, payer, ps, members) s =
     expense_create c fr now actor core home expected cmd title currency total_minor payer ps members s"

fun expense_recorded :: "('raw, 'ct) expense_crypto \<Rightarrow> expense_call \<Rightarrow> expense_receipt \<Rightarrow> 'ct expense_db \<Rightarrow> bool" where
  "expense_recorded c (actor, core, home, expected, cmd, title, currency, total_minor, payer, ps, members) r s \<longleftrightarrow>
     (\<exists>q row. (\<forall>fr now s. expense_create c fr now actor core home expected cmd title currency total_minor payer ps members s
         = transaction (create_body c fr now actor core home cmd q) s) \<and>
       find_command core home cmd s = Some row \<and> e_actor (e_content row) = p_id actor \<and>
       e_request_hash (e_content row) = request_digest c q \<and> receipt_of c row cmd s = Inr r)"

lemma expense_run_step: "expense_step c s (snd (expense_run c d call s))"
  by (induction c d call s rule: expense_run.induct) (simp add: expense_created)

lemma expense_accepted_recorded:
  assumes sound: "sound_crypto c" and inv: "expense_inv c s"
    and run: "expense_create c fr now actor core home expected cmd title currency total_minor payer ps members s = (Inr r, s')"
  shows "expense_recorded c (actor, core, home, expected, cmd, title, currency, total_minor, payer, ps, members) r s'"
proof -
  obtain q where q: "expense_request_of expected title currency total_minor payer ps members = Inr q"
    and tx: "\<And>fr now s. expense_create c fr now actor core home expected cmd title currency total_minor payer ps members s
         = transaction (create_body c fr now actor core home cmd q) s"
    using run by (cases rule: expense_create_cases [of c fr now actor core home expected cmd title currency
        total_minor payer ps members s]) auto
  have body: "create_body c fr now actor core home cmd q s = Inr (r, s')"
    using run tx by (auto elim: transaction_cases)
  have ok: "home_ok c core home s" using inv by (simp add: expense_inv_def)
  have "\<exists>row. find_command core home cmd s' = Some row \<and> e_actor (e_content row) = p_id actor \<and>
      e_request_hash (e_content row) = request_digest c q \<and> receipt_of c row cmd s' = Inr r"
  proof (cases "find_command core home cmd s")
    case None
    show ?thesis by (rule create_body_appends [OF sound request_shares(4) [OF q] body None ok]) blast
  next
    case (Some row)
    then show ?thesis using body create_body_replay(1) [OF body]
      by (auto simp: create_body_def bind_res_Inr_iff split: if_splits)
  qed
  with tx show ?thesis by auto
qed

lemma expense_recorded_kept:
  assumes inv: "expense_inv c s" and step: "expense_step c s t" and rec: "expense_recorded c call r s"
  shows "expense_recorded c call r t"
  using step
proof (cases rule: expense_step_cases)
  case same
  then show ?thesis using rec by simp
next
  case (body fr now actor core home cmd q r0)
  have grows: "t = s \<or> (\<exists>new row. x_rows t = x_rows s @ [new] \<and> x_events t = x_events s @ [row])"
  proof (cases "find_command core home cmd s")
    case None
    have "home_ok c core home s" using inv by (simp add: expense_inv_def)
    then show ?thesis by (rule create_body_new [OF body(1) None]) auto
  next
    case (Some row)
    then show ?thesis using create_body_replay(1) [OF body(1)] by simp
  qed
  have kept: "find_command core home cmd t = Some row \<and> receipt_of c row cmd t = Inr r"
    if "find_command core home cmd s = Some row" "receipt_of c row cmd s = Inr r" for core home cmd row
    using that grows by (auto simp: find_command_def select_where_append receipt_of_def bind_res_Inr_iff dest: load_record_append)
  show ?thesis using rec kept by (cases call) fastforce
qed

interpretation expense_calls: idempotent_calls "expense_step c" "\<lambda>s. sound_crypto c \<and> expense_inv c s"
    "expense_run c" "expense_recorded c"
proof unfold_locales
  fix s d call r s'
  assume a: "sound_crypto c \<and> expense_inv c s" "expense_run c d call s = (Inr r, s')"
  have "expense_step c s s'"
    using expense_run_step [of c s d call] a(2) by simp
  then show "(sound_crypto c \<and> expense_inv c s') \<and> expense_recorded c call r s'"
    using a expenses.step_inv expense_accepted_recorded by (cases d; cases call) auto
next
  fix s t call r
  show "sound_crypto c \<and> expense_inv c s \<Longrightarrow> expense_step c s t \<Longrightarrow> expense_recorded c call r s \<Longrightarrow> expense_recorded c call r t"
    using expense_recorded_kept by blast
next
  fix s call r d
  assume a: "sound_crypto c \<and> expense_inv c s" "expense_recorded c call r s"
  then have "verified_history c core home s = Inr (map event_of (scope_events core home s))" for core home
    by (simp add: expense_inv_def home_ok_def)
  then show "expense_run c d call s = (Inr r, s)"
    using a(2) by (cases d; cases call) (auto simp: create_body_def transaction_def)
qed

text \<open>Creation is idempotent at any later time. Repeating a creation that succeeded, after any
  other creations in any homes and with whatever clock and random identifiers the second attempt
  draws, returns the same receipt and changes nothing.\<close>

theorem expense_create_retry:
  assumes "sound_crypto c" and "expense_reach c s"
    and "expense_create c fr now actor core home expected cmd title currency total_minor payer ps members s = (Inr r, s')"
    and "(expense_step c)\<^sup>*\<^sup>* s' t"
  shows "expense_create c fr' now' actor core home expected cmd title currency total_minor payer ps members t = (Inr r, t)"
  using expense_calls.retry_any_time [of c s "(fr, now)" "(actor, core, home, expected, cmd, title, currency, total_minor, payer, ps, members)"
      r s' t "(fr', now')"] assms expense_reach_inv [OF assms(1,2)] by simp

text \<open>Tamper evidence. Two stores in which the history of a home verifies and whose state
  rows for it carry the same last hash hold the same events for it, provided that no two
  different events of theirs have the same keyed hash and none hashes to the empty string.\<close>

theorem expense_history_tamper_evident:
  assumes "verified_history c core home s = Inr es" and "verified_history c core home t = Inr fs"
    and "ledger_state c core home s = Inr (Some st)" and "ledger_state c core home t = Inr (Some st')"
    and "s_last_hash st = s_last_hash st'"
    and "\<forall>e \<in> set (scope_events core home s). \<forall>f \<in> set (scope_events core home t).
      event_mac c (e_content e) = event_mac c (e_content f) \<longrightarrow> e_content e = e_content f"
    and "\<forall>e \<in> set (scope_events core home s) \<union> set (scope_events core home t). event_mac c (e_content e) \<noteq> ''''"
  shows "scope_events core home s = scope_events core home t \<and> es = fs"
proof -
  have s: "events_linked c '''' (scope_events core home s)" "es = map event_of (scope_events core home s)"
    "s_last_hash st = tip e_hash '''' (scope_events core home s)"
    using assms(1,3) by (auto simp: verified_history_iff ledger_state_def split: option.splits if_splits)
  have t: "events_linked c '''' (scope_events core home t)" "fs = map event_of (scope_events core home t)"
    "s_last_hash st' = tip e_hash '''' (scope_events core home t)"
    using assms(2,4) by (auto simp: verified_history_iff ledger_state_def split: option.splits if_splits)
  have "scope_events core home s = scope_events core home t"
    using expense_chain.same_tip_same_chain [OF s(1) t(1)] s(3) t(3) assms(5-7) by simp
  with s(2) t(2) show ?thesis by simp
qed

lemma decrypt_all_Inr:
  "decrypt_all c rows = Inr rs \<Longrightarrow> list_all2 (\<lambda>row r. decrypt_row c row = Inr r) rows rs"
  by (induction rows arbitrary: rs) (auto simp: bind_res_Inr_iff)

text \<open>The export is private. A member only receives expenses it paid or shares in, and every
  exported expense is a stored one of this home whose shares add up to its total.\<close>

theorem expense_export_private:
  assumes "expense_export c actor core home members s = Inr (revision, records)" and "r \<in> set records"
  shows "(p_role actor = Admin \<or> p_id actor = eb_payer (er_body r)
      \<or> p_id actor \<in> sh_account ` set (eb_shares (er_body r)))
    \<and> sum_list (map sh_amount (eb_shares (er_body r))) = eb_total (er_body r)
    \<and> (\<exists>row \<in> set (x_rows s). x_core row = core \<and> x_home row = home \<and> x_id row = er_id r)"
proof -
  let ?rows = "take (nat MAX_EXPENSES + 1) (sort_key (\<lambda>r. (x_created_at r, x_id r))
                    (filter (\<lambda>r. x_core r = core \<and> x_home r = home) (x_rows s)))"
  obtain rs where rs: "decrypt_all c ?rows = Inr rs" "records = filter (visible_to actor) rs"
    using assms(1) by (auto simp: expense_export_def bind_res_Inr_iff Let_def split: if_splits)
  have vis: "visible_to actor r" "r \<in> set rs" using assms(2) rs(2) by auto
  obtain i where i: "i < length rs" "rs ! i = r" using vis(2) by (auto simp: in_set_conv_nth)
  note all = decrypt_all_Inr [OF rs(1)]
  have len: "i < length ?rows" using i(1) list_all2_lengthD [OF all] by linarith
  define row where "row = ?rows ! i"
  have row: "row \<in> set ?rows" "decrypt_row c row = Inr r"
    unfolding row_def using nth_mem [OF len] list_all2_nthD [OF all len] i(2) by simp_all
  have "row \<in> set (x_rows s)" "x_core row = core" "x_home row = home"
    using row(1) by (auto dest: in_set_takeD)
  moreover have "x_id row = er_id r" "sum_list (map sh_amount (eb_shares (er_body r))) = eb_total (er_body r)"
    using row(2) by (auto simp: decrypt_row_def split: option.splits if_splits)
  moreover have "p_role actor = Admin \<or> p_id actor = eb_payer (er_body r)
      \<or> p_id actor \<in> sh_account ` set (eb_shares (er_body r))"
    using vis(1) by (force simp: visible_to_def list_ex_iff)
  ultimately show ?thesis by blast
qed

section \<open>A concrete ledger\<close>

definition exp_crypto :: "(expense_body, expense_body) expense_crypto" where
  "exp_crypto = \<lparr>state_mac = (\<lambda>_ _ _ _ _. ''st''),
     event_mac = (\<lambda>e. if e_ledger_revision e = 2 then ''m2'' else ''m3''),
     request_digest = rq_title, body_encode = id, body_decode = Some, body_digest = eb_title,
     body_seal = (\<lambda>_ b _. b), body_open = (\<lambda>_ b _. Some b)\<rparr>"

definition exp_members :: household_accounts where
  "exp_members = \<lparr>ha_revision = 1, ha_ids = [''u1'', ''u2'', ''u3'']\<rparr>"

definition exp_empty :: "expense_body expense_db" where
  "exp_empty = \<lparr>x_rows = [], x_events = [], x_states = []\<rparr>"

definition exp_create :: "expense_body expense_db \<Rightarrow> expense_receipt result \<times> expense_body expense_db" where
  "exp_create s = expense_create exp_crypto \<lparr>new_record = ''r1'', new_event = ''e1'', new_nonce = ''n''\<rparr>
     7 demo_principal ''core'' ''home'' 1 ''cmd'' '' Food '' ''EUR'' 1000 ''u1'' [''u3'', ''u1'', ''u2''] exp_members s"

lemma exp_sound: "sound_crypto exp_crypto"
  by (simp add: sound_crypto_def exp_crypto_def is_ascii_def)

lemma exp_reach: "expense_reach exp_crypto exp_empty" "expense_reach exp_crypto (snd (exp_create exp_empty))"
  unfolding exp_empty_def exp_create_def expense_reach_def by (rule rtranclp.rtrancl_refl, rule r_into_rtranclp, rule expense_created)

lemma exp_run: "\<exists>r. exp_create exp_empty = (Inr r, snd (exp_create exp_empty))"
proof -
  have "\<not> isl (fst (exp_create exp_empty))" by code_simp
  then show ?thesis by (metis isl_def prod.collapse sum.collapse(2))
qed

theorem expense_history_always_verifies_witness:
  "\<exists>es. verified_history exp_crypto ''core'' ''home'' (snd (exp_create exp_empty)) = Inr es \<and> length es \<le> 1000"
  using expense_history_always_verifies [OF exp_sound exp_reach(2)] by blast

theorem expense_create_records_witness:
  "\<exists>r s' es ev. exp_create exp_empty = (Inr r, s') \<and> verified_history exp_crypto ''core'' ''home'' s' = Inr (es @ [ev]) \<and>
     map sh_account (eb_shares (er_body (rc_expense r))) = [''u1'', ''u2'', ''u3''] \<and>
     sum_list (map sh_amount (eb_shares (er_body (rc_expense r)))) = 1000"
proof -
  obtain r where run: "exp_create exp_empty = (Inr r, snd (exp_create exp_empty))" using exp_run ..
  have "find_command ''core'' ''home'' ''cmd'' exp_empty = None" by (simp add: find_command_def exp_empty_def)
  note all = expense_create_records [OF exp_sound exp_reach(1) run [unfolded exp_create_def] this]
  have "sort [''u3'', ''u1'', ''u2''] = [''u1'', ''u2'', ''u3'']" by code_simp
  then have "map sh_account (eb_shares (er_body (rc_expense r))) = [''u1'', ''u2'', ''u3'']"
    "sum_list (map sh_amount (eb_shares (er_body (rc_expense r)))) = 1000"
    using all by (simp_all add: Let_def)
  moreover obtain es ev where "verified_history exp_crypto ''core'' ''home'' (snd (exp_create exp_empty)) = Inr (es @ [ev])"
    using all unfolding exp_create_def by blast
  ultimately show ?thesis using run by (intro exI conjI)
qed

theorem expense_create_retry_witness:
  "exp_create (snd (exp_create exp_empty)) = exp_create exp_empty"
proof -
  obtain r where run: "exp_create exp_empty = (Inr r, snd (exp_create exp_empty))" using exp_run ..
  from expense_create_retry [OF exp_sound exp_reach(1) run [unfolded exp_create_def] rtranclp.rtrancl_refl]
  have "exp_create (snd (exp_create exp_empty)) = (Inr r, snd (exp_create exp_empty))"
    unfolding exp_create_def .
  with run show ?thesis by metis
qed

text \<open>A second home is written to in between: the first one still holds the same events.\<close>

definition exp_later :: "expense_body expense_db" where
  "exp_later = snd (expense_create exp_crypto \<lparr>new_record = ''r2'', new_event = ''e2'', new_nonce = ''n''\<rparr>
     8 demo_principal ''core'' ''cabin'' 1 ''cmd'' ''Wood'' ''EUR'' 10 ''u1'' [''u1''] exp_members
     (snd (exp_create exp_empty)))"

lemma exp_histories:
  "\<exists>es. verified_history exp_crypto ''core'' ''home'' (snd (exp_create exp_empty)) = Inr es"
  "\<exists>es. verified_history exp_crypto ''core'' ''home'' exp_later = Inr es"
proof -
  have "expense_reach exp_crypto exp_later" using exp_reach(2) unfolding exp_later_def expense_reach_def
    by (rule rtranclp.rtrancl_into_rtrancl) (rule expense_created)
  then show "\<exists>es. verified_history exp_crypto ''core'' ''home'' exp_later = Inr es"
    "\<exists>es. verified_history exp_crypto ''core'' ''home'' (snd (exp_create exp_empty)) = Inr es"
    using expense_reach_inv [OF exp_sound] exp_reach(2) by (auto simp: expense_inv_def home_ok_def)
qed

theorem expense_history_tamper_evident_witness:
  "scope_events ''core'' ''home'' (snd (exp_create exp_empty)) = scope_events ''core'' ''home'' exp_later
   \<and> x_events (snd (exp_create exp_empty)) \<noteq> x_events exp_later"
proof -
  let ?s = "snd (exp_create exp_empty)"
  obtain es fs where es: "verified_history exp_crypto ''core'' ''home'' ?s = Inr es"
    and fs: "verified_history exp_crypto ''core'' ''home'' exp_later = Inr fs" using exp_histories by blast
  have "case (ledger_state exp_crypto ''core'' ''home'' ?s, ledger_state exp_crypto ''core'' ''home'' exp_later) of
      (Inr (Some a), Inr (Some b)) \<Rightarrow> s_last_hash a = s_last_hash b | _ \<Rightarrow> False" by code_simp
  then obtain a b where ab: "ledger_state exp_crypto ''core'' ''home'' ?s = Inr (Some a)"
    "ledger_state exp_crypto ''core'' ''home'' exp_later = Inr (Some b)" "s_last_hash a = s_last_hash b"
    by (cases "ledger_state exp_crypto ''core'' ''home'' exp_later") (auto split: sum.splits option.splits)
  have "list_all (\<lambda>e. list_all (\<lambda>f. event_mac exp_crypto (e_content e) = event_mac exp_crypto (e_content f) \<longrightarrow>
      e_content e = e_content f) (scope_events ''core'' ''home'' exp_later)) (scope_events ''core'' ''home'' ?s)"
    by code_simp
  then have inj: "\<forall>e \<in> set (scope_events ''core'' ''home'' ?s). \<forall>f \<in> set (scope_events ''core'' ''home'' exp_later).
      event_mac exp_crypto (e_content e) = event_mac exp_crypto (e_content f) \<longrightarrow> e_content e = e_content f"
    by (simp only: list_all_iff)
  have ne: "\<forall>e \<in> set (scope_events ''core'' ''home'' ?s) \<union> set (scope_events ''core'' ''home'' exp_later).
      event_mac exp_crypto (e_content e) \<noteq> ''''" by (simp add: exp_crypto_def)
  have "x_events ?s \<noteq> x_events exp_later" by code_simp
  with expense_history_tamper_evident [OF es fs ab inj ne] show ?thesis by blast
qed

theorem expense_export_private_witness:
  "\<exists>revision records. expense_export exp_crypto demo_principal ''core'' ''home'' exp_members (snd (exp_create exp_empty))
     = Inr (revision, records) \<and> records \<noteq> [] \<and>
     sum_list (map sh_amount (eb_shares (er_body (hd records)))) = eb_total (er_body (hd records))"
proof -
  let ?x = "expense_export exp_crypto demo_principal ''core'' ''home'' exp_members (snd (exp_create exp_empty))"
  have "case ?x of Inr (_, rs) \<Rightarrow> rs \<noteq> [] | Inl _ \<Rightarrow> False" by code_simp
  then obtain revision records where x: "?x = Inr (revision, records)" "records \<noteq> []"
    by (auto split: sum.splits)
  with expense_export_private [OF x(1), of "hd records"] show ?thesis by simp
qed

end
