(* ===== verification/Fair_Chores.thy ===== *)
theory Fair_Chores
  imports Hash_Chain Auth_Sessions "HOL-Library.List_Lexorder" "HOL-Library.Char_ord" "HOL-Library.Product_Lexorder"
begin

text \<open>
  Fair chore rotation, \<open>fair_chores/service.py\<close> with the tables of \<open>fair_chores/schema.py\<close>:
  tasks with an ordered rota, completion and deferral under optimistic revisions, idempotent
  commands and a keyed event chain per task. The time-zone database and the HMAC are
  parameters. A column that holds the JSON of a structure holds the structure, or \<open>None\<close>
  when its text does not decode.
\<close>

section \<open>Data\<close>

definition MAX_MEMBERS :: nat where "MAX_MEMBERS = 32"
definition CHORE_TITLE_LENGTH :: nat where "CHORE_TITLE_LENGTH = 200"
definition MAX_HISTORY :: nat where "MAX_HISTORY = 10000"

record household_members =
  hm_revision :: int
  hm_ids :: "string list"

definition valid_members :: "household_members \<Rightarrow> bool" where
  "valid_members m = (1 \<le> hm_revision m \<and> 1 \<le> length (hm_ids m) \<and> length (hm_ids m) \<le> MAX_MEMBERS \<and>
     distinct (hm_ids m) \<and> list_all is_identifier (hm_ids m))"

record chore_task =
  ct_id :: string
  ct_core :: string
  ct_home :: string
  ct_title :: string
  ct_revision :: int
  ct_assignee :: string
  ct_members_revision :: int
  ct_member_order :: "string list"
  ct_timezone :: string
  ct_interval_days :: int
  ct_due_at :: time

record chore_receipt =
  cc_event_id :: string
  cc_command_id :: string
  cc_action :: string
  cc_task :: chore_task

record chore_event =
  cv_event_id :: string
  cv_action :: string
  cv_actor_id :: string
  cv_revision :: int
  cv_occurred_at :: time

record task_row =
  k_id :: string
  k_core :: string
  k_home :: string
  k_title :: string
  k_revision :: int
  k_assignee :: string
  k_members_revision :: int
  k_member_order :: "string list raw"
  k_timezone :: string
  k_interval_days :: int
  k_due_at :: time
  k_created_at :: time
  k_updated_at :: time

record chore_content =
  ce_sequence :: int
  ce_event_id :: string
  ce_task_id :: string
  ce_command_id :: string
  ce_action :: string
  ce_actor_id :: string
  ce_revision :: int
  ce_occurred_at :: time
  ce_receipt :: "chore_receipt raw"
  ce_previous_hash :: string

record chore_event_row =
  ch_content :: chore_content
  ch_hash :: string

record chore_db =
  k_rows :: "task_row list"
  k_events :: "chore_event_row list"

text \<open>\<open>ZoneInfo(name)\<close> finds a zone, does not find it, or rejects the name itself with a
  \<open>ValueError\<close>. \<open>stamp_ok\<close> says that \<open>datetime.fromtimestamp\<close> accepts a time stamp and
  \<open>shift_days\<close> adds local days to one.\<close>

datatype zone = ZoneOk | ZoneMissing | ZoneRejected

record chore_env =
  zone_info :: "string \<Rightarrow> zone"
  stamp_ok :: "string \<Rightarrow> time \<Rightarrow> bool"
  shift_days :: "string \<Rightarrow> time \<Rightarrow> int \<Rightarrow> time option"
  chore_mac :: "chore_content \<Rightarrow> string"

abbreviation chore_history_invalid :: error where
  "chore_history_invalid \<equiv> StartupError ''fair_chore_history_invalid''"
abbreviation chore_storage_invalid :: error where
  "chore_storage_invalid \<equiv> StartupError ''fair_chore_storage_invalid''"
abbreviation chore_conflict :: error where
  "chore_conflict \<equiv> ApiError ''idempotency_conflict'' 409"

section \<open>Reading and verifying\<close>

definition task_of :: "chore_env \<Rightarrow> task_row \<Rightarrow> chore_task result" where
  "task_of env row =
     (case k_member_order row of
        None \<Rightarrow> Inl chore_storage_invalid
      | Some order \<Rightarrow>
          if order = [] \<or> \<not> list_all is_identifier order \<or> zone_info env (k_timezone row) \<noteq> ZoneOk
             \<or> k_assignee row \<notin> set order
          then Inl chore_storage_invalid
          else Inr \<lparr>ct_id = k_id row, ct_core = k_core row, ct_home = k_home row, ct_title = k_title row,
                    ct_revision = k_revision row, ct_assignee = k_assignee row,
                    ct_members_revision = k_members_revision row, ct_member_order = order,
                    ct_timezone = k_timezone row, ct_interval_days = k_interval_days row,
                    ct_due_at = k_due_at row\<rparr>)"

definition receipt_value :: "chore_receipt raw \<Rightarrow> chore_receipt result" where
  "receipt_value raw = (case raw of None \<Rightarrow> Inl chore_history_invalid | Some r \<Rightarrow> Inr r)"

definition task_events :: "string \<Rightarrow> chore_db \<Rightarrow> chore_event_row list" where
  "task_events tid s =
     sort_key (\<lambda>e. ce_sequence (ch_content e)) (filter (\<lambda>e. ce_task_id (ch_content e) = tid) (k_events s))"

definition chore_event_of :: "chore_event_row \<Rightarrow> chore_event" where
  "chore_event_of row =
     (let e = ch_content row in
      \<lparr>cv_event_id = ce_event_id e, cv_action = ce_action e, cv_actor_id = ce_actor_id e,
       cv_revision = ce_revision e, cv_occurred_at = ce_occurred_at e\<rparr>)"

fun verify_chore :: "chore_env \<Rightarrow> string \<Rightarrow> string \<Rightarrow> chore_event_row list \<Rightarrow> chore_event list result" where
  "verify_chore env tid previous [] = Inr []"
| "verify_chore env tid previous (row # rows) =
     (let e = ch_content row in
      if ce_previous_hash e \<noteq> previous then Inl chore_history_invalid
      else if \<not> is_ascii (ch_hash row) then Inl TypeError
      else if ch_hash row \<noteq> chore_mac env e then Inl chore_history_invalid
      else bind_res (receipt_value (ce_receipt e)) (\<lambda>receipt.
        if cc_event_id receipt \<noteq> ce_event_id e \<or> cc_command_id receipt \<noteq> ce_command_id e
           \<or> cc_action receipt \<noteq> ce_action e \<or> ct_id (cc_task receipt) \<noteq> tid
           \<or> ct_revision (cc_task receipt) \<noteq> ce_revision e
        then Inl chore_history_invalid
        else bind_res (verify_chore env tid (ch_hash row) rows) (\<lambda>events.
          Inr (chore_event_of row # events))))"

definition chore_verified_history :: "chore_env \<Rightarrow> string \<Rightarrow> chore_db \<Rightarrow> chore_event list result" where
  "chore_verified_history env tid s = verify_chore env tid '''' (task_events tid s)"

text \<open>\<open>ORDER BY sequence DESC LIMIT 1\<close>\<close>

definition last_event :: "string \<Rightarrow> chore_db \<Rightarrow> chore_event_row option" where
  "last_event tid s = (if task_events tid s = [] then None else Some (last (task_events tid s)))"

definition assert_task_current :: "chore_env \<Rightarrow> chore_task \<Rightarrow> chore_db \<Rightarrow> unit result" where
  "assert_task_current env task s =
     bind_res (chore_verified_history env (ct_id task) s) (\<lambda>_.
       case last_event (ct_id task) s of
         None \<Rightarrow> Inl chore_history_invalid
       | Some row \<Rightarrow>
           bind_res (receipt_value (ce_receipt (ch_content row))) (\<lambda>receipt.
             if cc_task receipt \<noteq> task then Inl chore_history_invalid else Inr ()))"

definition chore_scope :: "string \<Rightarrow> string \<Rightarrow> unit result" where
  "chore_scope core home =
     (if \<not> is_identifier core \<or> \<not> is_identifier home then Inl bad_request else Inr ())"

definition load_task :: "chore_env \<Rightarrow> string \<Rightarrow> string \<Rightarrow> string \<Rightarrow> chore_db \<Rightarrow> chore_task result" where
  "load_task env tid core home s =
     bind_res (chore_scope core home) (\<lambda>_.
       if \<not> is_identifier tid then Inl not_found
       else case select_where (\<lambda>r. k_id r = tid \<and> k_core r = core \<and> k_home r = home) (k_rows s) of
              None \<Rightarrow> Inl not_found
            | Some row \<Rightarrow> task_of env row)"

section \<open>Writing\<close>

definition insert_task_row :: "task_row \<Rightarrow> chore_db \<Rightarrow> chore_db result" where
  "insert_task_row r s =
     (if k_id r \<in> k_id ` set (k_rows s) \<or> k_revision r \<le> 0 \<or> k_members_revision r \<le> 0
         \<or> \<not> (1 \<le> k_interval_days r \<and> k_interval_days r \<le> 365)
      then Inl IntegrityError else Inr (s\<lparr>k_rows := k_rows s @ [r]\<rparr>))"

definition insert_chore_event :: "chore_event_row \<Rightarrow> chore_db \<Rightarrow> chore_db result" where
  "insert_chore_event r s =
     (let e = ch_content r in
      if ce_sequence e \<in> (ce_sequence \<circ> ch_content) ` set (k_events s)
         \<or> ce_event_id e \<in> (ce_event_id \<circ> ch_content) ` set (k_events s)
         \<or> ce_command_id e \<in> (ce_command_id \<circ> ch_content) ` set (k_events s)
         \<or> ce_action e \<notin> {''created'', ''completed'', ''deferred''} \<or> ce_revision e \<le> 0
         \<or> ce_task_id e \<notin> k_id ` set (k_rows s)
      then Inl IntegrityError
      else Inr (s\<lparr>k_events := k_events s @ [r]\<rparr>))"

definition next_event_sequence :: "chore_db \<Rightarrow> int" where
  "next_event_sequence s = next_number (\<lambda>e. ce_sequence (ch_content e)) (k_events s)"

definition new_chore_event :: "chore_env \<Rightarrow> string \<Rightarrow> chore_task \<Rightarrow> string \<Rightarrow> string \<Rightarrow> string \<Rightarrow> time
    \<Rightarrow> chore_db \<Rightarrow> chore_event_row" where
  "new_chore_event env eid task cmd action actor_id occurred s =
     (let previous = (case last_event (ct_id task) s of None \<Rightarrow> '''' | Some row \<Rightarrow> ch_hash row);
          e = \<lparr>ce_sequence = next_event_sequence s, ce_event_id = eid, ce_task_id = ct_id task,
               ce_command_id = cmd, ce_action = action, ce_actor_id = actor_id,
               ce_revision = ct_revision task, ce_occurred_at = occurred,
               ce_receipt = Some \<lparr>cc_event_id = eid, cc_command_id = cmd, cc_action = action, cc_task = task\<rparr>,
               ce_previous_hash = previous\<rparr>
      in \<lparr>ch_content = e, ch_hash = chore_mac env e\<rparr>)"

definition append_event :: "chore_env \<Rightarrow> string \<Rightarrow> chore_task \<Rightarrow> string \<Rightarrow> string \<Rightarrow> string \<Rightarrow> time
    \<Rightarrow> (chore_db, chore_receipt) tx" where
  "append_event env eid task cmd action actor_id occurred s =
     (if length (k_events s) \<ge> MAX_HISTORY then Inl (ApiError ''fair_chore_history_limit_reached'' 413)
      else bind_res (insert_chore_event (new_chore_event env eid task cmd action actor_id occurred s) s) (\<lambda>s'.
        Inr (\<lparr>cc_event_id = eid, cc_command_id = cmd, cc_action = action, cc_task = task\<rparr>, s')))"

section \<open>Operations\<close>

definition row_of :: "time \<Rightarrow> chore_task \<Rightarrow> task_row" where
  "row_of now t =
     \<lparr>k_id = ct_id t, k_core = ct_core t, k_home = ct_home t, k_title = ct_title t,
      k_revision = ct_revision t, k_assignee = ct_assignee t, k_members_revision = ct_members_revision t,
      k_member_order = Some (ct_member_order t), k_timezone = ct_timezone t,
      k_interval_days = ct_interval_days t, k_due_at = ct_due_at t, k_created_at = now, k_updated_at = now\<rparr>"

definition chore_create_body :: "chore_env \<Rightarrow> string \<Rightarrow> time \<Rightarrow> principal \<Rightarrow> string \<Rightarrow> chore_task
    \<Rightarrow> (chore_db, chore_task) tx" where
  "chore_create_body env eid now actor cmd task s =
     (case select_where (\<lambda>e. ce_command_id (ch_content e) = cmd) (k_events s) of
        Some previous \<Rightarrow>
          bind_res (load_task env (ce_task_id (ch_content previous)) (ct_core task) (ct_home task) s) (\<lambda>stored.
          bind_res (assert_task_current env stored s) (\<lambda>_.
          bind_res (receipt_value (ce_receipt (ch_content previous))) (\<lambda>receipt.
            if ce_actor_id (ch_content previous) \<noteq> p_id actor \<and> p_role actor \<noteq> Admin then Inl forbidden
            else if cc_action receipt \<noteq> ''created'' \<or> ct_title stored \<noteq> ct_title task
               \<or> ct_members_revision stored \<noteq> ct_members_revision task
               \<or> ct_member_order stored \<noteq> ct_member_order task
               \<or> ct_timezone stored \<noteq> ct_timezone task \<or> ct_interval_days stored \<noteq> ct_interval_days task
               \<or> ct_due_at stored \<noteq> ct_due_at task
            then Inl chore_conflict
            else Inr (stored, s))))
      | None \<Rightarrow>
          bind_res (insert_task_row (row_of now task) s) (\<lambda>s1.
          bind_res (append_event env eid task cmd ''created'' (p_id actor) now s1) (\<lambda>(_, s2).
            Inr (task, s2))))"

definition chore_draft :: "chore_env \<Rightarrow> string \<Rightarrow> principal \<Rightarrow> string \<Rightarrow> string \<Rightarrow> string \<Rightarrow> household_members
    \<Rightarrow> string \<Rightarrow> int \<Rightarrow> time raw \<Rightarrow> string option \<Rightarrow> chore_task result" where
  "chore_draft env tid actor core home title members timezone interval due command =
     bind_res (chore_scope core home) (\<lambda>_.
       if p_role actor \<noteq> Admin then Inl forbidden
       else case zone_info env timezone of
          ZoneRejected \<Rightarrow> Inl ValueError
        | ZoneMissing \<Rightarrow> Inl bad_request
        | ZoneOk \<Rightarrow>
           (case due of
              None \<Rightarrow> Inl bad_request
            | Some due_at \<Rightarrow>
                if \<not> (1 \<le> length (py_strip title) \<and> length (py_strip title) \<le> CHORE_TITLE_LENGTH)
                   \<or> \<not> (1 \<le> interval \<and> interval \<le> 365)
                   \<or> (case command of Some c \<Rightarrow> \<not> is_identifier c | None \<Rightarrow> False)
                then Inl bad_request
                else if \<not> stamp_ok env timezone due_at then Inl OverflowError
                else Inr \<lparr>ct_id = tid, ct_core = core, ct_home = home, ct_title = py_strip title,
                          ct_revision = 1, ct_assignee = hd (hm_ids members),
                          ct_members_revision = hm_revision members, ct_member_order = hm_ids members,
                          ct_timezone = timezone, ct_interval_days = interval, ct_due_at = due_at\<rparr>))"

definition chore_create :: "chore_env \<Rightarrow> string \<Rightarrow> string \<Rightarrow> time \<Rightarrow> principal \<Rightarrow> string \<Rightarrow> string \<Rightarrow> string
    \<Rightarrow> household_members \<Rightarrow> string \<Rightarrow> int \<Rightarrow> time raw \<Rightarrow> string option \<Rightarrow> chore_db
    \<Rightarrow> chore_task result \<times> chore_db" where
  "chore_create env tid eid now actor core home title members timezone interval due command s =
     (case chore_draft env tid actor core home title members timezone interval due command of
        Inl e \<Rightarrow> (Inl e, s)
      | Inr task \<Rightarrow>
          transaction (chore_create_body env eid now actor
            (case command of Some c \<Rightarrow> c | None \<Rightarrow> ''create:'' @ tid) task) s)"

definition authorize_read :: "principal \<Rightarrow> chore_task \<Rightarrow> unit result" where
  "authorize_read actor task =
     (if p_role actor \<noteq> Admin \<and> p_id actor \<notin> set (ct_member_order task) then Inl forbidden else Inr ())"

definition chore_get :: "chore_env \<Rightarrow> principal \<Rightarrow> string \<Rightarrow> string \<Rightarrow> string \<Rightarrow> chore_db \<Rightarrow> chore_task result" where
  "chore_get env actor tid core home s =
     bind_res (load_task env tid core home s) (\<lambda>task.
     bind_res (assert_task_current env task s) (\<lambda>_.
     bind_res (authorize_read actor task) (\<lambda>_. Inr task)))"

fun tasks_of :: "chore_env \<Rightarrow> task_row list \<Rightarrow> chore_task list result" where
  "tasks_of env [] = Inr []"
| "tasks_of env (row # rows) =
     bind_res (task_of env row) (\<lambda>t. bind_res (tasks_of env rows) (\<lambda>ts. Inr (t # ts)))"

fun assert_all_current :: "chore_env \<Rightarrow> chore_task list \<Rightarrow> chore_db \<Rightarrow> unit result" where
  "assert_all_current env [] s = Inr ()"
| "assert_all_current env (t # ts) s =
     bind_res (assert_task_current env t s) (\<lambda>_. assert_all_current env ts s)"

definition chore_list :: "chore_env \<Rightarrow> principal \<Rightarrow> string \<Rightarrow> string \<Rightarrow> household_members \<Rightarrow> int
    \<Rightarrow> chore_db \<Rightarrow> chore_task list result" where
  "chore_list env actor core home members limit s =
     bind_res (chore_scope core home) (\<lambda>_.
       if \<not> (1 \<le> limit \<and> limit \<le> 256) then Inl bad_request
       else
         (let rows = take (nat limit + 1) (sort_key (\<lambda>r. (k_due_at r, k_id r))
                       (filter (\<lambda>r. k_core r = core \<and> k_home r = home) (k_rows s)))
          in if length rows > nat limit then Inl (ApiError ''fair_chore_limit_reached'' 413)
             else bind_res (tasks_of env rows) (\<lambda>tasks.
                  bind_res (assert_all_current env tasks s) (\<lambda>_.
                    if p_role actor = Admin then Inr tasks
                    else if p_id actor \<notin> set (hm_ids members) then Inl forbidden
                    else Inr (filter (\<lambda>t. p_id actor \<in> set (ct_member_order t)) tasks)))))"

definition chore_receipt_of :: "chore_env \<Rightarrow> principal \<Rightarrow> string \<Rightarrow> string \<Rightarrow> string \<Rightarrow> chore_db
    \<Rightarrow> chore_receipt option result" where
  "chore_receipt_of env actor cmd core home s =
     bind_res (chore_scope core home) (\<lambda>_.
       if \<not> is_identifier cmd then Inl bad_request
       else
         (let here = map k_id (filter (\<lambda>r. k_core r = core \<and> k_home r = home) (k_rows s));
              rows = filter (\<lambda>e. ce_command_id (ch_content e) = cmd \<and> ce_task_id (ch_content e) \<in> set here) (k_events s)
          in if length rows > 1 then Inl chore_history_invalid
             else case rows of
                [] \<Rightarrow> Inr None
              | row # _ \<Rightarrow>
                  bind_res (load_task env (ce_task_id (ch_content row)) core home s) (\<lambda>task.
                  bind_res (assert_task_current env task s) (\<lambda>_.
                    if ce_actor_id (ch_content row) \<noteq> p_id actor \<and> p_role actor \<noteq> Admin then Inl forbidden
                    else bind_res (receipt_value (ce_receipt (ch_content row))) (\<lambda>receipt.
                      if cc_command_id receipt \<noteq> cmd then Inl chore_history_invalid
                      else Inr (Some receipt))))))"

definition replay_command :: "chore_env \<Rightarrow> chore_task \<Rightarrow> string \<Rightarrow> principal \<Rightarrow> string \<Rightarrow> chore_db
    \<Rightarrow> chore_receipt option result" where
  "replay_command env task cmd actor expected_action s =
     (case select_where (\<lambda>e. ce_task_id (ch_content e) = ct_id task \<and> ce_command_id (ch_content e) = cmd)
             (k_events s) of
        None \<Rightarrow> Inr None
      | Some row \<Rightarrow>
          if ce_actor_id (ch_content row) \<noteq> p_id actor \<and> p_role actor \<noteq> Admin then Inl forbidden
          else bind_res (chore_verified_history env (ct_id task) s) (\<lambda>_.
               bind_res (receipt_value (ce_receipt (ch_content row))) (\<lambda>receipt.
                 if cc_action receipt \<noteq> expected_action then Inl chore_conflict else Inr (Some receipt))))"

text \<open>\<open>member_order.index(assignee)\<close>, the members after it, those up to and including it, then
  the members who are new to the rota; the first of these who is a member now is next.\<close>

definition next_assignee :: "chore_task \<Rightarrow> household_members \<Rightarrow> string result" where
  "next_assignee task members =
     (let order = ct_member_order task; a = ct_assignee task in
      if a \<notin> set order then Inl ValueError
      else
        let i = length (takeWhile (\<lambda>x. x \<noteq> a) order);
            candidates = drop (i + 1) order @ take (i + 1) order
              @ filter (\<lambda>x. x \<notin> set order) (hm_ids members)
        in case find (\<lambda>x. x \<in> set (hm_ids members)) candidates of
             None \<Rightarrow> Inl StopIteration
           | Some x \<Rightarrow> Inr x)"

definition update_task :: "string \<Rightarrow> int \<Rightarrow> (task_row \<Rightarrow> task_row) \<Rightarrow> chore_db \<Rightarrow> chore_db \<times> nat" where
  "update_task tid revision f s =
     (s\<lparr>k_rows := update_where (\<lambda>r. k_id r = tid \<and> k_revision r = revision) f (k_rows s)\<rparr>,
      count_where (\<lambda>r. k_id r = tid \<and> k_revision r = revision) (k_rows s))"

definition complete_body :: "chore_env \<Rightarrow> string \<Rightarrow> principal \<Rightarrow> string \<Rightarrow> string \<Rightarrow> string \<Rightarrow> int \<Rightarrow> string
    \<Rightarrow> time \<Rightarrow> household_members \<Rightarrow> (chore_db, chore_receipt) tx" where
  "complete_body env eid actor tid core home expected cmd completed_at members s =
     bind_res (load_task env tid core home s) (\<lambda>task.
     bind_res (assert_task_current env task s) (\<lambda>_.
     bind_res (replay_command env task cmd actor ''completed'' s) (\<lambda>replay.
       case replay of
         Some r \<Rightarrow> Inr (r, s)
       | None \<Rightarrow>
           if ct_revision task \<noteq> expected then Inl revision_conflict
           else if p_role actor \<noteq> Admin \<and> (p_id actor \<noteq> ct_assignee task \<or> p_id actor \<notin> set (hm_ids members))
           then Inl forbidden
           else if hm_revision members < ct_members_revision task then Inl revision_conflict
           else (case shift_days env (ct_timezone task) completed_at (ct_interval_days task) of
              None \<Rightarrow> Inl OverflowError
            | Some next_due \<Rightarrow>
                bind_res (next_assignee task members) (\<lambda>assignee.
                  let updated = task\<lparr>ct_revision := ct_revision task + 1, ct_assignee := assignee,
                        ct_members_revision := hm_revision members, ct_member_order := hm_ids members,
                        ct_due_at := next_due\<rparr>
                  in case update_task (ct_id task) expected (\<lambda>r. r\<lparr>k_revision := ct_revision updated,
                            k_assignee := ct_assignee updated,
                            k_members_revision := ct_members_revision updated,
                            k_member_order := Some (ct_member_order updated),
                            k_due_at := ct_due_at updated, k_updated_at := completed_at\<rparr>) s of
                       (s1, changes) \<Rightarrow>
                         if changes \<noteq> 1 then Inl revision_conflict
                         else append_event env eid updated cmd ''completed'' (p_id actor) completed_at s1)))))"

definition chore_complete :: "chore_env \<Rightarrow> string \<Rightarrow> principal \<Rightarrow> string \<Rightarrow> string \<Rightarrow> string \<Rightarrow> int \<Rightarrow> string
    \<Rightarrow> time raw \<Rightarrow> household_members \<Rightarrow> chore_db \<Rightarrow> chore_receipt result \<times> chore_db" where
  "chore_complete env eid actor tid core home expected cmd completed members s =
     (case completed of
        None \<Rightarrow> (Inl bad_request, s)
      | Some completed_at \<Rightarrow>
          if expected < 1 \<or> \<not> is_identifier cmd then (Inl bad_request, s)
          else transaction (complete_body env eid actor tid core home expected cmd completed_at members) s)"

definition defer_body :: "chore_env \<Rightarrow> string \<Rightarrow> time \<Rightarrow> principal \<Rightarrow> string \<Rightarrow> string \<Rightarrow> string \<Rightarrow> int
    \<Rightarrow> string \<Rightarrow> int \<Rightarrow> (chore_db, chore_receipt) tx" where
  "defer_body env eid now actor tid core home expected cmd days s =
     bind_res (load_task env tid core home s) (\<lambda>task.
     bind_res (assert_task_current env task s) (\<lambda>_.
     bind_res (replay_command env task cmd actor ''deferred'' s) (\<lambda>replay.
       case replay of
         Some r \<Rightarrow> Inr (r, s)
       | None \<Rightarrow>
           if ct_revision task \<noteq> expected then Inl revision_conflict
           else if p_role actor \<noteq> Admin \<and> p_id actor \<noteq> ct_assignee task then Inl forbidden
           else (case shift_days env (ct_timezone task) (ct_due_at task) days of
              None \<Rightarrow> Inl OverflowError
            | Some due_at \<Rightarrow>
                (let updated = task\<lparr>ct_revision := ct_revision task + 1, ct_due_at := due_at\<rparr>;
                     s1 = fst (update_task (ct_id task) expected (\<lambda>r. r\<lparr>k_revision := ct_revision updated,
                            k_due_at := due_at, k_updated_at := now\<rparr>) s)
                 in append_event env eid updated cmd ''deferred'' (p_id actor) now s1)))))"

definition chore_defer :: "chore_env \<Rightarrow> string \<Rightarrow> time \<Rightarrow> principal \<Rightarrow> string \<Rightarrow> string \<Rightarrow> string \<Rightarrow> int
    \<Rightarrow> string \<Rightarrow> int \<Rightarrow> chore_db \<Rightarrow> chore_receipt result \<times> chore_db" where
  "chore_defer env eid now actor tid core home expected cmd days s =
     (if expected < 1 \<or> \<not> is_identifier cmd \<or> \<not> (1 \<le> days \<and> days \<le> 30) then (Inl bad_request, s)
      else transaction (defer_body env eid now actor tid core home expected cmd days) s)"

definition chore_history :: "chore_env \<Rightarrow> principal \<Rightarrow> string \<Rightarrow> string \<Rightarrow> string \<Rightarrow> chore_db
    \<Rightarrow> chore_event list result" where
  "chore_history env actor tid core home s =
     bind_res (load_task env tid core home s) (\<lambda>task.
     bind_res (chore_verified_history env (ct_id task) s) (\<lambda>events.
     bind_res (authorize_read actor task) (\<lambda>_. Inr events)))"

section \<open>Verification as a property of the rows\<close>

definition chore_row_ok :: "string \<Rightarrow> chore_event_row \<Rightarrow> bool" where
  "chore_row_ok tid row \<longleftrightarrow> is_ascii (ch_hash row) \<and>
     (\<exists>r. ce_receipt (ch_content row) = Some r \<and> cc_event_id r = ce_event_id (ch_content row) \<and>
        cc_command_id r = ce_command_id (ch_content row) \<and> cc_action r = ce_action (ch_content row) \<and>
        ct_id (cc_task r) = tid \<and> ct_revision (cc_task r) = ce_revision (ch_content row))"

abbreviation chore_linked :: "chore_env \<Rightarrow> string \<Rightarrow> chore_event_row list \<Rightarrow> bool" where
  "chore_linked env start rows \<equiv>
     linked (\<lambda>r. chore_mac env (ch_content r)) (\<lambda>r. ce_previous_hash (ch_content r)) ch_hash start rows"

interpretation chore_chain: hash_chain "\<lambda>r :: chore_event_row. chore_mac env (ch_content r)"
  "\<lambda>r. ce_previous_hash (ch_content r)" ch_hash ch_content for env
  by unfold_locales (simp_all add: chore_event_row.equality)

lemma receipt_value_Inr [simp]: "receipt_value raw = Inr r \<longleftrightarrow> raw = Some r"
  by (simp add: receipt_value_def split: option.split)

lemma verify_chore_iff:
  "verify_chore env tid p rows = Inr es \<longleftrightarrow>
     chore_linked env p rows \<and> (\<forall>row \<in> set rows. chore_row_ok tid row) \<and> es = map chore_event_of rows"
proof (induction rows arbitrary: p es)
  case Nil
  then show ?case by auto
next
  case (Cons row rows)
  show ?case by (auto simp: Let_def bind_res_Inr_iff Cons.IH chore_row_ok_def split: if_splits)
qed

lemma assert_task_current_iff:
  "assert_task_current env t s = Inr () \<longleftrightarrow>
     chore_linked env '''' (task_events (ct_id t) s) \<and> (\<forall>row \<in> set (task_events (ct_id t) s). chore_row_ok (ct_id t) row) \<and>
     task_events (ct_id t) s \<noteq> [] \<and>
     (\<exists>r. ce_receipt (ch_content (last (task_events (ct_id t) s))) = Some r \<and> cc_task r = t)"
  by (auto simp: assert_task_current_def chore_verified_history_def bind_res_Inr_iff verify_chore_iff
      last_event_def split: if_splits)

section \<open>Appending\<close>

lemma new_chore_event_fields [simp]:
  "ce_sequence (ch_content (new_chore_event env eid t cmd act aid occ s)) = next_event_sequence s"
  "ce_task_id (ch_content (new_chore_event env eid t cmd act aid occ s)) = ct_id t"
  "ce_command_id (ch_content (new_chore_event env eid t cmd act aid occ s)) = cmd"
  "ce_actor_id (ch_content (new_chore_event env eid t cmd act aid occ s)) = aid"
  "ce_receipt (ch_content (new_chore_event env eid t cmd act aid occ s)) =
     Some \<lparr>cc_event_id = eid, cc_command_id = cmd, cc_action = act, cc_task = t\<rparr>"
  "ch_hash (new_chore_event env eid t cmd act aid occ s) =
     chore_mac env (ch_content (new_chore_event env eid t cmd act aid occ s))"
  by (simp_all add: new_chore_event_def Let_def)

lemma new_chore_event_prev:
  "ce_previous_hash (ch_content (new_chore_event env eid t cmd act aid occ s)) = tip ch_hash '''' (task_events (ct_id t) s)"
  by (simp add: new_chore_event_def Let_def last_event_def tip_def)

lemma new_chore_event_ok:
  assumes "\<forall>e. is_ascii (chore_mac env e)"
  shows "chore_row_ok (ct_id t) (new_chore_event env eid t cmd act aid occ s)"
  using assms by (simp add: chore_row_ok_def) (simp add: new_chore_event_def Let_def)

lemma append_event_effect:
  assumes "append_event env eid t cmd act aid occ s = Inr (r, s')"
  shows "s' = s\<lparr>k_events := k_events s @ [new_chore_event env eid t cmd act aid occ s]\<rparr>"
    "r = \<lparr>cc_event_id = eid, cc_command_id = cmd, cc_action = act, cc_task = t\<rparr>"
    "cmd \<notin> (ce_command_id \<circ> ch_content) ` set (k_events s)" "ct_id t \<in> k_id ` set (k_rows s)"
  using assms
  by (auto simp: append_event_def bind_res_Inr_iff insert_chore_event_def Let_def split: if_splits)

lemma task_events_append:
  assumes "k_events s' = k_events s @ [row]" and "ce_sequence (ch_content row) = next_event_sequence s"
  shows "task_events tid s' = (if ce_task_id (ch_content row) = tid then task_events tid s @ [row] else task_events tid s)"
  unfolding task_events_def assms(1)
  by (rule numbered_append [of "\<lambda>e. ce_sequence (ch_content e)", OF assms(2) [unfolded next_event_sequence_def]])

lemma task_events_rows [simp]: "task_events tid (s\<lparr>k_rows := rs\<rparr>) = task_events tid s"
  by (simp add: task_events_def)

lemma assert_task_current_rows [simp]: "assert_task_current env t (s\<lparr>k_rows := rs\<rparr>) = assert_task_current env t s"
  by (simp add: assert_task_current_def chore_verified_history_def last_event_def)

text \<open>Appending an event for a task makes that task the current one and leaves the others.\<close>

lemma append_event_current:
  assumes ascii: "\<forall>e. is_ascii (chore_mac env e)"
    and old: "chore_linked env '''' (task_events (ct_id t) s)" "\<forall>row \<in> set (task_events (ct_id t) s). chore_row_ok (ct_id t) row"
    and run: "append_event env eid t cmd act aid occ s = Inr (r, s')"
  shows "assert_task_current env t s' = Inr ()"
    "\<And>t'. ct_id t' \<noteq> ct_id t \<Longrightarrow> assert_task_current env t' s' = assert_task_current env t' s"
    "task_events (ct_id t) s' = task_events (ct_id t) s @ [new_chore_event env eid t cmd act aid occ s]"
proof -
  let ?row = "new_chore_event env eid t cmd act aid occ s"
  have ev: "k_events s' = k_events s @ [?row]" using append_event_effect(1) [OF run] by simp
  have te: "task_events tid s' = (if ct_id t = tid then task_events tid s @ [?row] else task_events tid s)" for tid
    using task_events_append [OF ev, of tid] by simp
  show ts: "task_events (ct_id t) s' = task_events (ct_id t) s @ [?row]" by (simp add: te)
  have "chore_linked env '''' (task_events (ct_id t) s @ [?row])"
    using chore_chain.append_linked [OF old(1) new_chore_event_prev] by simp
  then show "assert_task_current env t s' = Inr ()"
    using old(2) new_chore_event_ok [OF ascii, of t] by (auto simp: assert_task_current_iff ts)
  show "assert_task_current env t' s' = assert_task_current env t' s" if "ct_id t' \<noteq> ct_id t" for t'
    using that by (simp add: assert_task_current_def chore_verified_history_def last_event_def te)
qed

section \<open>The rota\<close>

lemma find_in:
  assumes "find P xs = Some x"
  shows "P x \<and> x \<in> set xs"
  using assms by (auto simp: find_Some_iff)

lemma next_assignee_total:
  assumes "hm_ids members \<noteq> []" and "ct_assignee task \<in> set (ct_member_order task)"
  shows "\<exists>x \<in> set (hm_ids members). next_assignee task members = Inr x"
proof -
  let ?order = "ct_member_order task"
  let ?i = "length (takeWhile (\<lambda>x. x \<noteq> ct_assignee task) ?order)"
  let ?cs = "drop (?i + 1) ?order @ take (?i + 1) ?order @ filter (\<lambda>x. x \<notin> set ?order) (hm_ids members)"
  have "set ?order = set (take (?i + 1) ?order) \<union> set (drop (?i + 1) ?order)"
    by (metis append_take_drop_id set_append)
  then have cs: "set (hm_ids members) \<subseteq> set ?cs" by auto
  have "find (\<lambda>x. x \<in> set (hm_ids members)) ?cs \<noteq> None"
    using hd_in_set [OF assms(1)] cs unfolding find_None_iff by blast
  then obtain x where "find (\<lambda>x. x \<in> set (hm_ids members)) ?cs = Some x" by blast
  with find_in [OF this] assms(2) show ?thesis by (simp add: next_assignee_def Let_def)
qed

lemma takeWhile_index:
  assumes "distinct xs" and "i < length xs"
  shows "length (takeWhile (\<lambda>x. x \<noteq> xs ! i) xs) = i"
  using assms
proof (induction xs arbitrary: i)
  case (Cons x xs)
  then show ?case by (cases i) (auto simp: nth_Cons')
qed simp

text \<open>With an unchanged household the next assignee is the cyclic successor.\<close>

lemma next_assignee_successor:
  assumes "distinct (ct_member_order task)" and "i < length (ct_member_order task)"
    and "ct_assignee task = ct_member_order task ! i" and "hm_ids members = ct_member_order task"
  shows "next_assignee task members = Inr (ct_member_order task ! (Suc i mod length (ct_member_order task)))"
proof -
  let ?order = "ct_member_order task"
  have i: "length (takeWhile (\<lambda>x. x \<noteq> ct_assignee task) ?order) = i"
    using takeWhile_index [OF assms(1,2)] assms(3) by simp
  have "find (\<lambda>x. x \<in> set ?order) (drop (Suc i) ?order @ take (Suc i) ?order) = Some (?order ! (Suc i mod length ?order))"
  proof (cases "Suc i < length ?order")
    case True
    then have "drop (Suc i) ?order = ?order ! Suc i # drop (Suc (Suc i)) ?order" by (simp add: Cons_nth_drop_Suc)
    then show ?thesis using True by simp
  next
    case False
    then have "Suc i = length ?order" using assms(2) by simp
    moreover obtain x xs where "?order = x # xs" using assms(2) by (cases ?order) auto
    ultimately show ?thesis by simp
  qed
  then show ?thesis using assms(2-4) i by (simp add: next_assignee_def Let_def)
qed

section \<open>The invariant of the store\<close>

definition chore_row_inv :: "chore_env \<Rightarrow> chore_db \<Rightarrow> task_row \<Rightarrow> bool" where
  "chore_row_inv env s row \<longleftrightarrow>
     (\<exists>t. task_of env row = Inr t \<and> assert_task_current env t s = Inr () \<and> distinct (ct_member_order t)) \<and>
     map (ce_revision \<circ> ch_content) (task_events (k_id row) s) = [1..k_revision row]"

definition chore_inv :: "chore_env \<Rightarrow> chore_db \<Rightarrow> bool" where
  "chore_inv env s \<longleftrightarrow> unique_on k_id (k_rows s) \<and> (\<forall>row \<in> set (k_rows s). chore_row_inv env s row) \<and>
     (\<forall>e \<in> set (k_events s). ce_task_id (ch_content e) \<in> k_id ` set (k_rows s)) \<and>
     unique_on (ce_command_id \<circ> ch_content) (k_events s)"

lemma chore_invD:
  assumes "chore_inv env s"
  shows "unique_on k_id (k_rows s)" "\<And>row. row \<in> set (k_rows s) \<Longrightarrow> chore_row_inv env s row"
    "\<And>e. e \<in> set (k_events s) \<Longrightarrow> ce_task_id (ch_content e) \<in> k_id ` set (k_rows s)"
    "unique_on (ce_command_id \<circ> ch_content) (k_events s)"
  using assms by (simp_all add: chore_inv_def)

lemma task_of_fields:
  assumes "task_of env row = Inr t"
  shows "ct_id t = k_id row" "ct_core t = k_core row" "ct_home t = k_home row" "ct_revision t = k_revision row"
    "ct_assignee t = k_assignee row" "k_member_order row = Some (ct_member_order t)"
    "ct_assignee t \<in> set (ct_member_order t)" "ct_timezone t = k_timezone row"
    "ct_member_order t \<noteq> []" "list_all is_identifier (ct_member_order t)" "zone_info env (ct_timezone t) = ZoneOk"
    "ct_title t = k_title row" "ct_members_revision t = k_members_revision row"
    "ct_interval_days t = k_interval_days row" "ct_due_at t = k_due_at row"
  using assms by (auto simp: task_of_def split: option.splits if_splits)

lemma task_of_row_of:
  assumes "ct_member_order t \<noteq> []" "list_all is_identifier (ct_member_order t)" "zone_info env (ct_timezone t) = ZoneOk"
    "ct_assignee t \<in> set (ct_member_order t)"
  shows "task_of env (row_of now t) = Inr t"
  using assms by (simp add: task_of_def row_of_def)

lemma new_chore_event_revision [simp]:
  "ce_revision (ch_content (new_chore_event env eid t cmd act aid occ s)) = ct_revision t"
  by (simp add: new_chore_event_def Let_def)

lemma upto_snoc: "[1..n] @ [n + 1] = [1..n + 1]" if "0 \<le> n" for n :: int
  using that upto_rec2 [of 1 "n + 1"] by simp

text \<open>The one write path: the rows become \<open>rows'\<close>, in which the row of the task stores the
  task of the new event and every other row is an old one.\<close>

lemma append_event_inv:
  assumes ascii: "\<forall>e. is_ascii (chore_mac env e)" and inv: "chore_inv env s"
    and keys: "unique_on k_id rows'" "k_id ` set (k_rows s) \<subseteq> k_id ` set rows'"
    and others: "\<And>q. q \<in> set rows' \<Longrightarrow> k_id q \<noteq> ct_id t \<Longrightarrow> q \<in> set (k_rows s)"
    and mine: "\<And>q. q \<in> set rows' \<Longrightarrow> k_id q = ct_id t \<Longrightarrow> task_of env q = Inr t"
    and dist: "distinct (ct_member_order t)"
    and chain: "chore_linked env '''' (task_events (ct_id t) s)" "\<forall>row \<in> set (task_events (ct_id t) s). chore_row_ok (ct_id t) row"
    and revs: "map (ce_revision \<circ> ch_content) (task_events (ct_id t) s) @ [ct_revision t] = [1..ct_revision t]"
    and run: "append_event env eid t cmd act aid occ (s\<lparr>k_rows := rows'\<rparr>) = Inr (r, s')"
  shows "chore_inv env s'"
proof -
  let ?s1 = "s\<lparr>k_rows := rows'\<rparr>"
  let ?row = "new_chore_event env eid t cmd act aid occ ?s1"
  note eff = append_event_effect [OF run]
  have ev: "k_events s' = k_events s @ [?row]" and rows: "k_rows s' = rows'" by (simp_all add: eff(1))
  note cur = append_event_current [OF ascii _ _ run, simplified, OF chain]
  have te: "task_events tid s' = task_events tid s" if "tid \<noteq> ct_id t" for tid
    using task_events_append [of s' ?s1 ?row tid] that by (simp add: ev)
  have row_inv: "chore_row_inv env s' q" if q: "q \<in> set rows'" for q
  proof (cases "k_id q = ct_id t")
    case True
    then have tq: "task_of env q = Inr t" using mine q by simp
    then show ?thesis using cur(1,3) dist revs task_of_fields(1,4) [OF tq] by (simp add: chore_row_inv_def)
  next
    case False
    then have old: "chore_row_inv env s q" using others q chore_invD(2) [OF inv] by blast
    then obtain u where u: "task_of env q = Inr u" "assert_task_current env u s = Inr ()" "distinct (ct_member_order u)"
      by (auto simp: chore_row_inv_def)
    then show ?thesis using cur(2) [of u] False old te task_of_fields(1) [OF u(1)]
      by (simp add: chore_row_inv_def)
  qed
  have "\<forall>e \<in> set (k_events s'). ce_task_id (ch_content e) \<in> k_id ` set rows'"
    using chore_invD(3) [OF inv] keys(2) eff(4) by (auto simp: ev)
  moreover have "unique_on (ce_command_id \<circ> ch_content) (k_events s')"
    using chore_invD(4) [OF inv] eff(3) by (auto simp: ev unique_on_def)
  ultimately show ?thesis using row_inv keys(1) by (simp add: chore_inv_def rows)
qed

lemma task_events_member:
  "e \<in> set (task_events tid s) \<longleftrightarrow> e \<in> set (k_events s) \<and> ce_task_id (ch_content e) = tid"
  by (auto simp: task_events_def)

lemma chore_create_body_inv:
  assumes ascii: "\<forall>e. is_ascii (chore_mac env e)" and inv: "chore_inv env s"
    and t: "ct_member_order t \<noteq> []" "list_all is_identifier (ct_member_order t)" "zone_info env (ct_timezone t) = ZoneOk"
      "ct_assignee t \<in> set (ct_member_order t)" "distinct (ct_member_order t)" "ct_revision t = 1"
    and run: "chore_create_body env eid now actor cmd t s = Inr (r, s')"
  shows "chore_inv env s'"
proof (cases "select_where (\<lambda>e. ce_command_id (ch_content e) = cmd) (k_events s)")
  case (Some previous)
  then have "s' = s" using run by (auto simp: chore_create_body_def bind_res_Inr_iff split: if_splits)
  with inv show ?thesis by simp
next
  case None
  with run obtain rr where fresh: "ct_id t \<notin> k_id ` set (k_rows s)"
    and app: "append_event env eid t cmd ''created'' (p_id actor) now (s\<lparr>k_rows := k_rows s @ [row_of now t]\<rparr>) = Inr (rr, s')"
    by (auto simp: chore_create_body_def bind_res_Inr_iff insert_task_row_def row_of_def split: if_splits)
  have none: "task_events (ct_id t) s = []"
    using chore_invD(3) [OF inv] fresh task_events_member [of _ "ct_id t" s] by (metis last_in_set)
  have id: "k_id (row_of now t) = ct_id t" by (simp add: row_of_def)
  show ?thesis
  proof (rule append_event_inv [OF ascii inv _ _ _ _ t(5) _ _ _ app])
    show "unique_on k_id (k_rows s @ [row_of now t])"
      using fresh chore_invD(1) [OF inv] by (simp add: unique_on_def id)
    show "task_of env q = Inr t" if "q \<in> set (k_rows s @ [row_of now t])" "k_id q = ct_id t" for q
      using that fresh task_of_row_of [OF t(1-4)] by (auto simp: image_iff)
  qed (use none t(6) id in auto)
qed

lemma load_task_Inr:
  assumes "load_task env tid core home s = Inr t"
  obtains row where "row \<in> set (k_rows s)" "k_id row = tid" "k_core row = core" "k_home row = home" "task_of env row = Inr t"
  using assms by (auto simp: load_task_def bind_res_Inr_iff split: if_splits option.splits dest!: select_where_Some)

lemma filter_eq_single: "distinct xs \<Longrightarrow> x \<in> set xs \<Longrightarrow> filter (\<lambda>y. y = x) xs = [x]"
  by (induction xs) (auto simp: filter_empty_conv)

lemma update_task_rows:
  assumes "unique_on k_id (k_rows s)" and "row \<in> set (k_rows s)"
  shows "update_task (k_id row) (k_revision row) f s =
     (s\<lparr>k_rows := map (\<lambda>r. if r = row then f r else r) (k_rows s)\<rparr>, 1)"
proof -
  have eq: "k_id r = k_id row \<and> k_revision r = k_revision row \<longleftrightarrow> r = row" if "r \<in> set (k_rows s)" for r
    using unique_on_inj [OF assms(1) that assms(2)] by auto
  have "update_where (\<lambda>r. k_id r = k_id row \<and> k_revision r = k_revision row) f (k_rows s) =
      map (\<lambda>r. if r = row then f r else r) (k_rows s)"
    unfolding update_where_def using eq by (intro map_cong) auto
  moreover have "filter (\<lambda>r. k_id r = k_id row \<and> k_revision r = k_revision row) (k_rows s) = [row]"
  proof -
    have "filter (\<lambda>r. k_id r = k_id row \<and> k_revision r = k_revision row) (k_rows s) = filter (\<lambda>r. r = row) (k_rows s)"
      using eq by (intro filter_cong) auto
    also have "distinct (k_rows s)" using assms(1) by (simp add: unique_on_def distinct_map)
    then have "filter (\<lambda>r. r = row) (k_rows s) = [row]" using assms(2) by (rule filter_eq_single)
    finally show ?thesis .
  qed
  ultimately show ?thesis by (simp add: update_task_def count_where_def)
qed

text \<open>A revision of a stored task: the row is replaced and the new task appended as an event.\<close>

lemma revise_inv:
  assumes ascii: "\<forall>e. is_ascii (chore_mac env e)" and inv: "chore_inv env s"
    and row: "row \<in> set (k_rows s)" "task_of env row = Inr t"
    and new: "task_of env (f row) = Inr t'" "ct_id t' = ct_id t" "ct_revision t' = ct_revision t + 1" "distinct (ct_member_order t')"
    and run: "append_event env eid t' cmd act aid occ
      (s\<lparr>k_rows := map (\<lambda>r. if r = row then f r else r) (k_rows s)\<rparr>) = Inr (r, s')"
  shows "chore_inv env s'"
proof -
  let ?rows = "map (\<lambda>r. if r = row then f r else r) (k_rows s)"
  have ids: "k_id row = ct_id t'" "k_id (f row) = ct_id t'" "k_revision row = ct_revision t"
    using task_of_fields [OF row(2)] task_of_fields [OF new(1)] new(2) by simp_all
  have keys: "map k_id ?rows = map k_id (k_rows s)" using ids by (simp cong: map_cong)
  have un: "q \<in> set (k_rows s) \<Longrightarrow> k_id q = ct_id t' \<Longrightarrow> q = row" for q
    using unique_on_inj [OF chore_invD(1) [OF inv] _ row(1), of q] ids by simp
  have rinv: "chore_row_inv env s row" using chore_invD(2) [OF inv row(1)] .
  then have cur: "assert_task_current env t s = Inr ()" using row(2) by (auto simp: chore_row_inv_def)
  note chain = cur [unfolded assert_task_current_iff, folded new(2)]
  have revs: "map (ce_revision \<circ> ch_content) (task_events (ct_id t') s) = [1..ct_revision t]"
    using rinv ids by (simp add: chore_row_inv_def)
  have "0 \<le> ct_revision t" using revs chain by (metis Nil_is_map_conv upto_Nil2 not_le_imp_less less_imp_le order.strict_trans1 zero_le_one linear zero_less_one)
  then have revs': "map (ce_revision \<circ> ch_content) (task_events (ct_id t') s) @ [ct_revision t'] = [1..ct_revision t']"
    unfolding revs new(3) by (rule upto_snoc)
  show ?thesis
  proof (rule append_event_inv [OF ascii inv _ _ _ _ new(4) _ _ revs' run])
    show "unique_on k_id ?rows" using chore_invD(1) [OF inv] by (simp only: unique_on_def keys)
    show "k_id ` set (k_rows s) \<subseteq> k_id ` set ?rows" using keys by (metis set_map subset_refl)
    show "q \<in> set (k_rows s)" if "q \<in> set ?rows" "k_id q \<noteq> ct_id t'" for q
      using that ids by (auto split: if_splits)
    show "task_of env q = Inr t'" if "q \<in> set ?rows" "k_id q = ct_id t'" for q
      using that un new(1) by (auto split: if_splits)
  qed (use chain in simp_all)
qed


lemma complete_body_cases:
  assumes inv: "chore_inv env s"
    and run: "complete_body env eid actor tid core home expected cmd completed members s = Inr (r, s')"
  obtains (replayed) t where "load_task env tid core home s = Inr t" "replay_command env t cmd actor ''completed'' s = Inr (Some r)" "s' = s"
  | (written) row t assignee due where
      "row \<in> set (k_rows s)" "k_id row = tid" "task_of env row = Inr t"
      "replay_command env t cmd actor ''completed'' s = Inr None" "ct_revision t = expected"
      "p_role actor = Admin \<or> p_id actor = ct_assignee t \<and> p_id actor \<in> set (hm_ids members)"
      "ct_members_revision t \<le> hm_revision members"
      "shift_days env (ct_timezone t) completed (ct_interval_days t) = Some due"
      "next_assignee t members = Inr assignee"
      "append_event env eid (t\<lparr>ct_revision := ct_revision t + 1, ct_assignee := assignee,
          ct_members_revision := hm_revision members, ct_member_order := hm_ids members, ct_due_at := due\<rparr>)
        cmd ''completed'' (p_id actor) completed
        (s\<lparr>k_rows := map (\<lambda>q. if q = row then q\<lparr>k_revision := k_revision row + 1, k_assignee := assignee,
             k_members_revision := hm_revision members, k_member_order := Some (hm_ids members),
             k_due_at := due, k_updated_at := completed\<rparr> else q) (k_rows s)\<rparr>) = Inr (r, s')"
proof -
  from run obtain t replay where t: "load_task env tid core home s = Inr t"
    "replay_command env t cmd actor ''completed'' s = Inr replay"
    by (auto simp: complete_body_def bind_res_Inr_iff)
  show thesis
  proof (cases replay)
    case (Some rr)
    with t run show thesis by (intro replayed [of t]) (auto simp: complete_body_def bind_res_Inr_iff)
  next
    case None
    obtain row where row: "row \<in> set (k_rows s)" "k_id row = tid" "task_of env row = Inr t"
      by (rule load_task_Inr [OF t(1)]) blast
    have ids: "ct_id t = k_id row" "ct_revision t = k_revision row" using task_of_fields [OF row(3)] by simp_all
    note upd = update_task_rows [OF chore_invD(1) [OF inv] row(1)]
    show thesis
      using run t None row(1-3)
      by (auto simp: complete_body_def bind_res_Inr_iff ids upd Let_def split: if_splits option.splits
          intro!: written [of row t])
  qed
qed


lemma defer_body_cases:
  assumes inv: "chore_inv env s"
    and run: "defer_body env eid now actor tid core home expected cmd days s = Inr (r, s')"
  obtains (replayed) t where "load_task env tid core home s = Inr t" "replay_command env t cmd actor ''deferred'' s = Inr (Some r)" "s' = s"
  | (written) row t due where
      "row \<in> set (k_rows s)" "k_id row = tid" "task_of env row = Inr t"
      "replay_command env t cmd actor ''deferred'' s = Inr None" "ct_revision t = expected"
      "p_role actor = Admin \<or> p_id actor = ct_assignee t"
      "shift_days env (ct_timezone t) (ct_due_at t) days = Some due"
      "append_event env eid (t\<lparr>ct_revision := ct_revision t + 1, ct_due_at := due\<rparr>) cmd ''deferred'' (p_id actor) now
        (s\<lparr>k_rows := map (\<lambda>q. if q = row then q\<lparr>k_revision := k_revision row + 1, k_due_at := due, k_updated_at := now\<rparr>
             else q) (k_rows s)\<rparr>) = Inr (r, s')"
proof -
  from run obtain t replay where t: "load_task env tid core home s = Inr t"
    "replay_command env t cmd actor ''deferred'' s = Inr replay"
    by (auto simp: defer_body_def bind_res_Inr_iff)
  show thesis
  proof (cases replay)
    case (Some rr)
    with t run show thesis by (intro replayed [of t]) (auto simp: defer_body_def bind_res_Inr_iff)
  next
    case None
    obtain row where row: "row \<in> set (k_rows s)" "k_id row = tid" "task_of env row = Inr t"
      by (rule load_task_Inr [OF t(1)]) blast
    have ids: "ct_id t = k_id row" "ct_revision t = k_revision row" using task_of_fields [OF row(3)] by simp_all
    note upd = update_task_rows [OF chore_invD(1) [OF inv] row(1)]
    show thesis
      using run t None row(1-3)
      by (auto simp: defer_body_def bind_res_Inr_iff ids upd Let_def split: if_splits option.splits
          intro!: written [of row t])
  qed
qed

lemma next_assignee_member: "next_assignee t members = Inr x \<Longrightarrow> x \<in> set (hm_ids members)"
  by (auto simp: next_assignee_def Let_def split: if_splits option.splits dest: find_in)

lemma complete_body_inv:
  assumes ascii: "\<forall>e. is_ascii (chore_mac env e)" and inv: "chore_inv env s" and mem: "valid_members members"
    and run: "complete_body env eid actor tid core home expected cmd completed members s = Inr (r, s')"
  shows "chore_inv env s'"
  using inv run
proof (cases rule: complete_body_cases)
  case (written row t assignee due)
  note f = task_of_fields [OF written(3)]
  have "list_all is_identifier (hm_ids members) \<and> hm_ids members \<noteq> [] \<and> distinct (hm_ids members)"
    using mem by (auto simp: valid_members_def)
  then show ?thesis
    using f next_assignee_member [OF written(9)]
    by (intro revise_inv [OF ascii inv written(1,3) _ _ _ _ written(10)])
      (simp_all add: task_of_def)
qed (use inv in simp)

lemma defer_body_inv:
  assumes ascii: "\<forall>e. is_ascii (chore_mac env e)" and inv: "chore_inv env s"
    and run: "defer_body env eid now actor tid core home expected cmd days s = Inr (r, s')"
  shows "chore_inv env s'"
  using inv run
proof (cases rule: defer_body_cases)
  case (written row t due)
  note f = task_of_fields [OF written(3)]
  have "distinct (ct_member_order t)" using chore_invD(2) [OF inv written(1)] written(3) by (auto simp: chore_row_inv_def)
  then show ?thesis
    using f by (intro revise_inv [OF ascii inv written(1,3) _ _ _ _ written(8)])
      (simp_all add: task_of_def)
qed (use inv in simp)

section \<open>Reachable stores\<close>

inductive chore_reach :: "chore_env \<Rightarrow> chore_db \<Rightarrow> bool" for env where
  chore_empty: "chore_reach env \<lparr>k_rows = [], k_events = []\<rparr>"
| chore_created: "chore_reach env s \<Longrightarrow> valid_members members \<Longrightarrow> chore_reach env
    (snd (chore_create env tid eid now actor core home title members timezone interval due command s))"
| chore_completed: "chore_reach env s \<Longrightarrow> valid_members members \<Longrightarrow> chore_reach env
    (snd (chore_complete env eid actor tid core home expected cmd completed members s))"
| chore_deferred: "chore_reach env s \<Longrightarrow> chore_reach env
    (snd (chore_defer env eid now actor tid core home expected cmd days s))"

lemma chore_draft_Inr:
  assumes "chore_draft env tid actor core home title members timezone interval due command = Inr t"
  shows "ct_id t = tid" "ct_core t = core" "ct_home t = home" "ct_revision t = 1" "ct_member_order t = hm_ids members"
    "ct_assignee t = hd (hm_ids members)" "zone_info env (ct_timezone t) = ZoneOk" "p_role actor = Admin"
    "ct_title t = py_strip title" "ct_timezone t = timezone" "ct_interval_days t = interval" "due = Some (ct_due_at t)"
  using assms by (auto simp: chore_draft_def bind_res_Inr_iff split: if_splits option.splits zone.splits)

lemma chore_create_inv:
  assumes ascii: "\<forall>e. is_ascii (chore_mac env e)" and inv: "chore_inv env s" and mem: "valid_members members"
  shows "chore_inv env (snd (chore_create env tid eid now actor core home title members timezone interval due command s))"
proof (cases "chore_draft env tid actor core home title members timezone interval due command")
  case (Inl e)
  then show ?thesis using inv by (simp add: chore_create_def)
next
  case (Inr t)
  note d = chore_draft_Inr [OF this]
  have m: "hm_ids members \<noteq> []" "list_all is_identifier (hm_ids members)" "distinct (hm_ids members)"
    using mem by (auto simp: valid_members_def)
  have "chore_inv env s'" if "chore_create_body env eid now actor cmd t s = Inr (r, s')" for cmd r s'
    using m d(4-7) by (intro chore_create_body_inv [OF ascii inv _ _ _ _ _ _ that]) simp_all
  then show ?thesis using Inr inv by (simp add: chore_create_def transaction_preserves)
qed

lemma chore_complete_inv:
  assumes ascii: "\<forall>e. is_ascii (chore_mac env e)" and inv: "chore_inv env s" and mem: "valid_members members"
  shows "chore_inv env (snd (chore_complete env eid actor tid core home expected cmd completed members s))"
  using complete_body_inv [OF ascii inv mem] inv
  by (simp add: chore_complete_def transaction_preserves split: option.split)

lemma chore_defer_inv:
  assumes ascii: "\<forall>e. is_ascii (chore_mac env e)" and inv: "chore_inv env s"
  shows "chore_inv env (snd (chore_defer env eid now actor tid core home expected cmd days s))"
  using defer_body_inv [OF ascii inv] inv by (simp add: chore_defer_def transaction_preserves)

lemma chore_reach_inv:
  assumes ascii: "\<forall>e. is_ascii (chore_mac env e)" and "chore_reach env s"
  shows "chore_inv env s"
  using assms(2)
proof (induction rule: chore_reach.induct)
  case chore_empty
  show ?case by (simp add: chore_inv_def unique_on_def)
qed (intro chore_create_inv [OF ascii] chore_complete_inv [OF ascii] chore_defer_inv [OF ascii]; assumption)+

lemma load_task_cases:
  assumes "chore_inv env s"
  shows "load_task env tid core home s \<in> {Inl bad_request, Inl not_found} \<or>
    (\<exists>t. load_task env tid core home s = Inr t \<and> ct_id t = tid \<and> assert_task_current env t s = Inr ())"
proof (cases "select_where (\<lambda>r. k_id r = tid \<and> k_core r = core \<and> k_home r = home) (k_rows s)")
  case None
  then show ?thesis by (auto simp: load_task_def chore_scope_def bind_res_def)
next
  case (Some row)
  then obtain t where "task_of env row = Inr t" "assert_task_current env t s = Inr ()" "k_id row = tid"
    using chore_invD(2) [OF assms] select_where_Some [OF Some] by (auto simp: chore_row_inv_def)
  then show ?thesis using Some task_of_fields(1) [of env row t]
    by (auto simp: load_task_def chore_scope_def bind_res_def)
qed

lemma load_task_current:
  assumes "chore_inv env s" and "load_task env tid core home s = Inr t"
  shows "assert_task_current env t s = Inr ()" "ct_id t = tid"
    "map (ce_revision \<circ> ch_content) (task_events tid s) = [1..ct_revision t]"
proof -
  show "assert_task_current env t s = Inr ()" "ct_id t = tid"
    using load_task_cases [OF assms(1), of tid core home] assms(2) by auto
  obtain row where "row \<in> set (k_rows s)" "k_id row = tid" "task_of env row = Inr t"
    by (rule load_task_Inr [OF assms(2)]) blast
  then show "map (ce_revision \<circ> ch_content) (task_events tid s) = [1..ct_revision t]"
    using chore_invD(2) [OF assms(1)] task_of_fields(4) by (fastforce simp: chore_row_inv_def)
qed

text \<open>In every store reached by creating, completing and deferring chores, reading a chore never
  fails an integrity check: a lookup returns the chore or answers that the scope is malformed or
  there is no such chore, and for the administrator the chore and its history are returned, the
  history numbering the revisions of the chore from 1 to the current one without a gap.\<close>

theorem chore_store_always_readable:
  assumes ascii: "\<forall>e. is_ascii (chore_mac env e)" and reach: "chore_reach env s" and admin: "p_role actor = Admin"
  shows "chore_get env actor tid core home s \<in> {Inl bad_request, Inl not_found} \<or>
    (\<exists>t es. chore_get env actor tid core home s = Inr t \<and>
       chore_history env actor tid core home s = Inr es \<and> map cv_revision es = [1..ct_revision t])"
proof -
  note inv = chore_reach_inv [OF ascii reach]
  have "\<exists>es. chore_get env actor tid core home s = Inr t \<and>
       chore_history env actor tid core home s = Inr es \<and> map cv_revision es = [1..ct_revision t]"
    if "load_task env tid core home s = Inr t" for t
  proof -
    note cur = load_task_current [OF inv that]
    then have "chore_verified_history env tid s = Inr (map chore_event_of (task_events tid s))"
      by (simp add: assert_task_current_iff chore_verified_history_def verify_chore_iff)
    moreover have "map cv_revision (map chore_event_of (task_events tid s)) = [1..ct_revision t]"
      using cur(3) by (simp add: chore_event_of_def Let_def comp_def)
    ultimately show ?thesis using that cur(1,2) admin
      by (simp add: chore_get_def chore_history_def authorize_read_def)
  qed
  then show ?thesis
    using load_task_cases [OF inv, of tid core home] by (auto simp: chore_get_def)
qed

section \<open>Completing\<close>

lemma replay_command_unused:
  assumes "cmd \<notin> (ce_command_id \<circ> ch_content) ` set (k_events s)"
  shows "replay_command env t cmd actor act s = Inr None"
proof -
  have "select_where (\<lambda>e. ce_task_id (ch_content e) = ct_id t \<and> ce_command_id (ch_content e) = cmd) (k_events s) = None"
    using assms by (auto simp: select_where_None_iff)
  then show ?thesis by (simp add: replay_command_def)
qed

lemma select_map_other:
  assumes "\<And>r. r \<in> set rows \<Longrightarrow> r \<noteq> row \<or> \<not> P row \<and> \<not> P (f row)"
  shows "select_where P (map (\<lambda>r. if r = row then f r else r) rows) = select_where P rows"
  using assms by (induction rows) auto

text \<open>Looking a chore up after the row of one chore has been replaced.\<close>

lemma load_task_revised:
  assumes "unique_on k_id (k_rows s)" and "row \<in> set (k_rows s)"
    and "k_id (f row) = k_id row" "k_core (f row) = k_core row" "k_home (f row) = k_home row"
    and "k_rows s' = map (\<lambda>r. if r = row then f r else r) (k_rows s)"
    and "load_task env (k_id row) core home s = Inr t"
  shows "load_task env (k_id row) core home s' = task_of env (f row)"
    "\<And>tid' core' home'. tid' \<noteq> k_id row \<Longrightarrow> load_task env tid' core' home' s' = load_task env tid' core' home' s"
proof -
  obtain q where "q \<in> set (k_rows s)" "k_id q = k_id row" "k_core q = core" "k_home q = home"
    by (rule load_task_Inr [OF assms(7)]) blast
  then have scope: "k_core row = core" "k_home row = home"
    using unique_on_inj [OF assms(1) _ assms(2)] by auto
  have "map k_id (k_rows s') = map k_id (k_rows s)" using assms(3,6) by simp
  then have keys: "unique_on k_id (k_rows s')" using assms(1) by (simp only: unique_on_def)
  have mem: "f row \<in> set (k_rows s')" using assms(2,6) by force
  have sel: "select_where (\<lambda>r. k_id r = k_id row \<and> k_core r = core \<and> k_home r = home) (k_rows s') = Some (f row)"
  proof (cases "select_where (\<lambda>r. k_id r = k_id row \<and> k_core r = core \<and> k_home r = home) (k_rows s')")
    case None
    then show ?thesis using mem assms(3-5) scope by (auto simp: select_where_None_iff)
  next
    case (Some q)
    then show ?thesis using unique_on_inj [OF keys _ mem] select_where_Some [OF Some] assms(3) by auto
  qed
  with assms(7) show "load_task env (k_id row) core home s' = task_of env (f row)"
    by (auto simp: load_task_def chore_scope_def bind_res_def split: if_splits)
  show "load_task env tid' core' home' s' = load_task env tid' core' home' s" if "tid' \<noteq> k_id row" for tid' core' home'
    using that assms(3) by (simp add: load_task_def assms(6) select_map_other)
qed


lemma complete_body_written:
  assumes inv: "chore_inv env s" and unused: "cmd \<notin> (ce_command_id \<circ> ch_content) ` set (k_events s)"
    and run: "complete_body env eid actor tid core home expected cmd completed members s = Inr (r, s')"
  obtains t assignee due where
    "load_task env tid core home s = Inr t" "ct_revision t = expected"
    "p_role actor = Admin \<or> p_id actor = ct_assignee t \<and> p_id actor \<in> set (hm_ids members)"
    "ct_members_revision t \<le> hm_revision members"
    "shift_days env (ct_timezone t) completed (ct_interval_days t) = Some due"
    "next_assignee t members = Inr assignee"
    "r = \<lparr>cc_event_id = eid, cc_command_id = cmd, cc_action = ''completed'', cc_task = t\<lparr>ct_revision := expected + 1,
       ct_assignee := assignee, ct_members_revision := hm_revision members, ct_member_order := hm_ids members,
       ct_due_at := due\<rparr>\<rparr>"
    "(ce_command_id \<circ> ch_content) ` set (k_events s') = insert cmd ((ce_command_id \<circ> ch_content) ` set (k_events s))"
    "list_all is_identifier (hm_ids members) \<Longrightarrow> load_task env tid core home s' = Inr (cc_task r)"
    "\<And>tid' core' home'. tid' \<noteq> tid \<Longrightarrow> load_task env tid' core' home' s' = load_task env tid' core' home' s"
  using inv run
proof (cases rule: complete_body_cases)
  case (replayed t)
  with replay_command_unused [OF unused, of env t actor] show thesis by simp
next
  case (written row t assignee due)
  let ?f = "\<lambda>q. q\<lparr>k_revision := k_revision row + 1, k_assignee := assignee, k_members_revision := hm_revision members,
             k_member_order := Some (hm_ids members), k_due_at := due, k_updated_at := completed\<rparr>"
  note eff = append_event_effect [OF written(10)]
  have rows: "k_rows s' = map (\<lambda>q. if q = row then ?f q else q) (k_rows s)" by (simp add: eff(1))
  have load: "load_task env tid core home s = Inr t"
  proof -
    obtain u where u: "load_task env tid core home s = Inr u" using run by (auto simp: complete_body_def bind_res_Inr_iff)
    obtain q where "q \<in> set (k_rows s)" "k_id q = tid" "task_of env q = Inr u" by (rule load_task_Inr [OF u]) blast
    then show ?thesis using u written(1-3) unique_on_inj [OF chore_invD(1) [OF inv], of q row] by simp
  qed
  note look = load_task_revised [OF chore_invD(1) [OF inv] written(1) _ _ _ rows, unfolded written(2), OF _ _ _ load]
  note f = task_of_fields [OF written(3)]
  have new: "task_of env (?f row) = Inr (cc_task r)" if "list_all is_identifier (hm_ids members)"
    using that f next_assignee_member [OF written(9)] by (auto simp: task_of_def eff(2))
  show thesis
  proof (rule that [OF load written(5-9)])
    show "r = \<lparr>cc_event_id = eid, cc_command_id = cmd, cc_action = ''completed'', cc_task = t\<lparr>ct_revision := expected + 1,
       ct_assignee := assignee, ct_members_revision := hm_revision members, ct_member_order := hm_ids members,
       ct_due_at := due\<rparr>\<rparr>" using eff(2) written(5) by simp
    show "(ce_command_id \<circ> ch_content) ` set (k_events s') = insert cmd ((ce_command_id \<circ> ch_content) ` set (k_events s))"
      by (auto simp: eff(1))
    show "load_task env tid core home s' = Inr (cc_task r)" if "list_all is_identifier (hm_ids members)"
      using look(1) written(2) new [OF that] by simp
    show "load_task env tid' core' home' s' = load_task env tid' core' home' s" if "tid' \<noteq> tid" for tid' core' home'
      using look(2) written(2) that by simp
  qed
qed

text \<open>A new completion is accepted only at the current revision of the chore, from the
  administrator or from the assignee who is still a member, and with a member list that is not
  older than the chore's. It raises the revision by one, assigns the chore to the next person of the
  rota, who is a present member, adopts the present member list and moves the due date by the
  interval from the completion; the stored chore is the one of the receipt and every other chore
  reads as before.\<close>

theorem chore_complete_rotates:
  assumes "\<forall>e. is_ascii (chore_mac env e)" and "chore_reach env s" and "valid_members members"
    and "cmd \<notin> (ce_command_id \<circ> ch_content) ` set (k_events s)"
    and "chore_complete env eid actor tid core home expected cmd (Some completed) members s = (Inr r, s')"
  shows "\<exists>t assignee due. load_task env tid core home s = Inr t \<and> ct_revision t = expected \<and>
     (p_role actor = Admin \<or> p_id actor = ct_assignee t \<and> p_id actor \<in> set (hm_ids members)) \<and>
     ct_members_revision t \<le> hm_revision members \<and>
     next_assignee t members = Inr assignee \<and> assignee \<in> set (hm_ids members) \<and>
     shift_days env (ct_timezone t) completed (ct_interval_days t) = Some due \<and>
     cc_task r = t\<lparr>ct_revision := expected + 1, ct_assignee := assignee, ct_members_revision := hm_revision members,
       ct_member_order := hm_ids members, ct_due_at := due\<rparr> \<and>
     load_task env tid core home s' = Inr (cc_task r) \<and>
     (\<forall>tid' core' home'. tid' \<noteq> tid \<longrightarrow> load_task env tid' core' home' s' = load_task env tid' core' home' s)"
proof -
  have run: "complete_body env eid actor tid core home expected cmd completed members s = Inr (r, s')"
    using assms(5) by (auto simp: chore_complete_def transaction_def split: if_splits sum.splits)
  have ids: "list_all is_identifier (hm_ids members)" using assms(3) by (simp add: valid_members_def)
  show ?thesis
    by (rule complete_body_written [OF chore_reach_inv [OF assms(1,2)] assms(4) run])
      (use next_assignee_member ids in \<open>auto intro!: exI\<close>)
qed


section \<open>Fairness\<close>

text \<open>A series of completions of one chore by one actor, each with its event id, expected
  revision, command id and time.\<close>

fun completions :: "chore_env \<Rightarrow> principal \<Rightarrow> string \<Rightarrow> string \<Rightarrow> string \<Rightarrow> household_members
    \<Rightarrow> (string \<times> int \<times> string \<times> time) list \<Rightarrow> (chore_db, chore_receipt list) tx" where
  "completions env actor tid core home members [] s = Inr ([], s)"
| "completions env actor tid core home members ((eid, expected, cmd, completed) # calls) s =
     bind_res (complete_body env eid actor tid core home expected cmd completed members s) (\<lambda>(r, s1).
     bind_res (completions env actor tid core home members calls s1) (\<lambda>(rs, s2). Inr (r # rs, s2)))"

lemma completions_rotate:
  assumes ascii: "\<forall>e. is_ascii (chore_mac env e)" and mem: "valid_members members"
  shows "chore_inv env s \<Longrightarrow> load_task env tid core home s = Inr t \<Longrightarrow> ct_member_order t = hm_ids members
    \<Longrightarrow> i < length (hm_ids members) \<Longrightarrow> ct_assignee t = hm_ids members ! i
    \<Longrightarrow> distinct (map (\<lambda>(_, _, cmd, _). cmd) calls)
    \<Longrightarrow> set (map (\<lambda>(_, _, cmd, _). cmd) calls) \<inter> (ce_command_id \<circ> ch_content) ` set (k_events s) = {}
    \<Longrightarrow> completions env actor tid core home members calls s = Inr (rs, s')
    \<Longrightarrow> map (ct_assignee \<circ> cc_task) rs =
      map (\<lambda>k. hm_ids members ! ((i + k + 1) mod length (hm_ids members))) [0..<length calls]"
proof (induction calls arbitrary: s t i rs)
  case Nil
  then show ?case by simp
next
  case (Cons call calls)
  let ?n = "length (hm_ids members)"
  obtain eid expected cmd completed where call: "call = (eid, expected, cmd, completed)" by (cases call) auto
  from Cons.prems(8) obtain r s1 rs' where
    step: "complete_body env eid actor tid core home expected cmd completed members s = Inr (r, s1)" and
    rest: "completions env actor tid core home members calls s1 = Inr (rs', s')" and rs: "rs = r # rs'"
    by (auto simp: call bind_res_Inr_iff)
  have unused: "cmd \<notin> (ce_command_id \<circ> ch_content) ` set (k_events s)" using Cons.prems(7) by (auto simp: call)
  have ids: "list_all is_identifier (hm_ids members)" "distinct (hm_ids members)" using mem by (simp_all add: valid_members_def)
  obtain assignee where nxt: "next_assignee t members = Inr assignee" "ct_assignee (cc_task r) = assignee"
    "ct_member_order (cc_task r) = hm_ids members" "load_task env tid core home s1 = Inr (cc_task r)"
    "(ce_command_id \<circ> ch_content) ` set (k_events s1) = insert cmd ((ce_command_id \<circ> ch_content) ` set (k_events s))"
    by (rule complete_body_written [OF Cons.prems(1) unused step])
      (use Cons.prems(2) ids in auto)
  have succ: "ct_assignee (cc_task r) = hm_ids members ! (Suc i mod ?n)"
    using next_assignee_successor [of t i members, unfolded Cons.prems(3), OF ids(2) Cons.prems(4,5) refl] nxt(1,2)
    by simp
  have "map (ct_assignee \<circ> cc_task) rs' =
      map (\<lambda>k. hm_ids members ! ((Suc i mod ?n + k + 1) mod ?n)) [0..<length calls]"
  proof (rule Cons.IH [OF complete_body_inv [OF ascii Cons.prems(1) mem step] nxt(4,3) _ succ _ _ rest])
    show "Suc i mod ?n < ?n" using Cons.prems(4) by (intro mod_less_divisor) linarith
    show "set (map (\<lambda>(_, _, cmd, _). cmd) calls) \<inter> (ce_command_id \<circ> ch_content) ` set (k_events s1) = {}"
      using Cons.prems(6,7) unfolding nxt(5) by (auto simp: call)
  qed (use Cons.prems(6) in simp)
  moreover have "(Suc i mod ?n + k + 1) mod ?n = (i + Suc k + 1) mod ?n" for k
    using mod_add_left_eq [of "Suc i" ?n "k + 1"] by (simp add: ac_simps)
  ultimately show ?case
    by (simp add: rs succ upt_conv_Cons map_Suc_upt [symmetric] comp_def del: upt_Suc)
qed



section \<open>Retries\<close>

lemma replay_command_receipt:
  assumes inv: "chore_inv env s" and e: "e \<in> set (k_events s)" "ce_task_id (ch_content e) = ct_id t"
    "ce_receipt (ch_content e) = Some r" "cc_action r = act"
    and act: "ce_actor_id (ch_content e) = p_id actor \<or> p_role actor = Admin"
    and ver: "assert_task_current env t s = Inr ()"
  shows "replay_command env t (ce_command_id (ch_content e)) actor act s = Inr (Some r)"
proof -
  let ?P = "\<lambda>x. ce_task_id (ch_content x) = ct_id t \<and> ce_command_id (ch_content x) = ce_command_id (ch_content e)"
  have "select_where ?P (k_events s) = Some e"
  proof (cases "select_where ?P (k_events s)")
    case None
    then show ?thesis using e by (auto simp: select_where_None_iff)
  next
    case (Some x)
    then show ?thesis
      using select_where_Some [OF Some] e(1) unique_on_inj [OF chore_invD(4) [OF inv], of x e] by simp
  qed
  then show ?thesis using e act ver by (auto simp: replay_command_def assert_task_current_def bind_res_Inr_iff)
qed

text \<open>A replayed receipt is the receipt of a stored event that the actor may see.\<close>

lemma replay_command_Some:
  assumes "replay_command env t cmd actor act s = Inr (Some r)"
  obtains e where "e \<in> set (k_events s)" "ce_task_id (ch_content e) = ct_id t" "ce_command_id (ch_content e) = cmd"
    "ce_receipt (ch_content e) = Some r" "cc_action r = act" "ce_actor_id (ch_content e) = p_id actor \<or> p_role actor = Admin"
  using assms
  by (auto simp: replay_command_def bind_res_Inr_iff split: option.splits if_splits dest!: select_where_Some)

lemma complete_body_event:
  assumes inv: "chore_inv env s"
    and run: "complete_body env eid actor tid core home expected cmd completed members s = Inr (r, s')"
  obtains e where "e \<in> set (k_events s')" "ce_task_id (ch_content e) = tid" "ce_command_id (ch_content e) = cmd"
    "ce_receipt (ch_content e) = Some r" "cc_action r = ''completed''" "ce_actor_id (ch_content e) = p_id actor \<or> p_role actor = Admin"
  using inv run
proof (cases rule: complete_body_cases)
  case (replayed t)
  show thesis
    by (rule replay_command_Some [OF replayed(2)])
      (use that replayed(3) load_task_current(2) [OF inv replayed(1)] in auto)
next
  case (written row t assignee due)
  show thesis
    by (rule that [of "last (k_events s')"])
      (use written(2) task_of_fields(1) [OF written(3)] in \<open>simp_all add: append_event_effect(1,2) [OF written(10)]\<close>)
qed

text \<open>A completion is idempotent. Sending the same command again after it was accepted, with
  whatever revision, time and member list the retry carries, returns the same receipt and writes
  nothing, so the chore does not rotate twice.\<close>

theorem chore_complete_retry:
  assumes "\<forall>e. is_ascii (chore_mac env e)" and "chore_reach env s" and "valid_members members"
    and "chore_complete env eid actor tid core home expected cmd (Some completed) members s = (Inr r, s')"
    and "1 \<le> expected'"
  shows "chore_complete env eid' actor tid core home expected' cmd (Some completed') members' s' = (Inr r, s')"
proof -
  have run: "complete_body env eid actor tid core home expected cmd completed members s = Inr (r, s')"
    and id: "is_identifier cmd"
    using assms(4) by (auto simp: chore_complete_def transaction_def split: if_splits sum.splits)
  note inv = chore_reach_inv [OF assms(1,2)]
  note inv' = complete_body_inv [OF assms(1) inv assms(3) run]
  obtain e where e: "e \<in> set (k_events s')" "ce_task_id (ch_content e) = tid" "ce_command_id (ch_content e) = cmd"
    "ce_receipt (ch_content e) = Some r" "cc_action r = ''completed''" "ce_actor_id (ch_content e) = p_id actor \<or> p_role actor = Admin"
    by (rule complete_body_event [OF inv run]) blast
  have "\<exists>t. load_task env tid core home s' = Inr t"
    using inv run
  proof (cases rule: complete_body_cases)
    case (written row t assignee due)
    have "cmd \<notin> (ce_command_id \<circ> ch_content) ` set (k_events s)" using append_event_effect(3) [OF written(10)] by simp
    then show ?thesis
      by (rule complete_body_written [OF inv _ run]) (use assms(3) in \<open>auto simp: valid_members_def\<close>)
  qed auto
  then obtain t where t: "load_task env tid core home s' = Inr t" ..
  note cur = load_task_current [OF inv' t]
  have "replay_command env t cmd actor ''completed'' s' = Inr (Some r)"
    using replay_command_receipt [OF inv' e(1) _ e(4,5,6) cur(1)] e(2,3) cur(2) by simp
  then show ?thesis
    using assms(5) id t cur(1) by (simp add: chore_complete_def complete_body_def transaction_def)
qed


lemma select_command:
  assumes "chore_inv env s" and "e \<in> set (k_events s)"
  shows "select_where (\<lambda>x. ce_command_id (ch_content x) = ce_command_id (ch_content e)) (k_events s) = Some e"
  using select_key_unique [OF chore_invD(4) [OF assms(1)] assms(2)] by simp

lemma chore_create_body_event:
  assumes "chore_inv env s" and "chore_create_body env eid now actor cmd t s = Inr (t', s')"
  obtains e where "e \<in> set (k_events s')" "ce_command_id (ch_content e) = cmd" "ce_task_id (ch_content e) = ct_id t'"
    "ct_due_at t' = ct_due_at t"
proof (cases "select_where (\<lambda>e. ce_command_id (ch_content e) = cmd) (k_events s)")
  case (Some e)
  then have "s' = s" "load_task env (ce_task_id (ch_content e)) (ct_core t) (ct_home t) s = Inr t'" "ct_due_at t' = ct_due_at t"
    using assms(2) by (auto simp: chore_create_body_def bind_res_Inr_iff split: if_splits)
  then show thesis using that [of e] select_where_Some [OF Some] load_task_current(2) [OF assms(1)] by auto
next
  case None
  with assms(2) obtain rr where "t' = t"
    and app: "append_event env eid t cmd ''created'' (p_id actor) now (s\<lparr>k_rows := k_rows s @ [row_of now t]\<rparr>) = Inr (rr, s')"
    by (auto simp: chore_create_body_def bind_res_Inr_iff insert_task_row_def split: if_splits)
  then show thesis using that [of "last (k_events s')"] by (simp add: append_event_effect(1) [OF app])
qed

text \<open>Creating a chore is idempotent only until the chore is first revised. Once a completion has
  moved its due date, sending the same create command again is answered with a conflict, because the
  request is compared with the chore as it is now and not with the receipt of the command.\<close>

theorem chore_create_retry_after_completion:
  assumes ascii: "\<forall>e. is_ascii (chore_mac env e)" and reach: "chore_reach env s" and mem: "valid_members members" "valid_members members'"
    and made: "chore_create env tid eid now actor core home title members timezone interval due (Some cmd) s = (Inr t, s1)"
    and unused: "cmd' \<notin> (ce_command_id \<circ> ch_content) ` set (k_events s1)"
    and completed: "chore_complete env eid' actor' (ct_id t) core home expected cmd' (Some completed) members' s1 = (Inr r, s2)"
    and moved: "ct_due_at (cc_task r) \<noteq> ct_due_at t"
  shows "chore_create env tid' eid'' now' actor core home title members timezone interval due (Some cmd) s2 = (Inl chore_conflict, s2)"
proof -
  note inv = chore_reach_inv [OF ascii reach]
  obtain d where d: "chore_draft env tid actor core home title members timezone interval due (Some cmd) = Inr d"
    and body: "chore_create_body env eid now actor cmd d s = Inr (t, s1)"
    using made by (auto simp: chore_create_def transaction_def split: sum.splits)
  have inv1: "chore_inv env s1" using chore_create_inv [OF ascii inv mem(1)] made by (metis snd_conv)
  have run: "complete_body env eid' actor' (ct_id t) core home expected cmd' completed members' s1 = Inr (r, s2)"
    using completed by (auto simp: chore_complete_def transaction_def split: if_splits sum.splits)
  have inv2: "chore_inv env s2" by (rule complete_body_inv [OF ascii inv1 mem(2) run])
  obtain e where e: "e \<in> set (k_events s1)" "ce_command_id (ch_content e) = cmd" "ce_task_id (ch_content e) = ct_id t"
    and due: "ct_due_at t = ct_due_at d"
    by (rule chore_create_body_event [OF inv body]) blast
  have load: "load_task env (ct_id t) core home s2 = Inr (cc_task r)"
    by (rule complete_body_written [OF inv1 unused run]) (use mem(2) in \<open>auto simp: valid_members_def\<close>)
  have e2: "e \<in> set (k_events s2)"
    using inv1 run by (cases rule: complete_body_cases) (use e(1) append_event_effect(1) in \<open>fastforce+\<close>)
  note cur = load_task_current [OF inv2 load]
  have "e \<in> set (task_events (ct_id t) s2)" using e2 e(3) by (simp add: task_events_member)
  then obtain rc where rc: "ce_receipt (ch_content e) = Some rc"
    using cur(1,2) by (auto simp: assert_task_current_iff chore_row_ok_def)
  have d': "chore_draft env tid' actor core home title members timezone interval due (Some cmd) = Inr (d\<lparr>ct_id := tid'\<rparr>)"
    using d by (auto simp: chore_draft_def bind_res_Inr_iff split: if_splits option.splits zone.splits)
  have "chore_create_body env eid'' now' actor cmd (d\<lparr>ct_id := tid'\<rparr>) s2 = Inl chore_conflict"
    using select_command [OF inv2 e2] e load cur(1) rc chore_draft_Inr [OF d] moved due
    by (simp add: chore_create_body_def receipt_value_def)
  then show ?thesis by (simp add: chore_create_def d' transaction_def)
qed

section \<open>Instances\<close>


definition chore_sample_env :: chore_env where
  "chore_sample_env = \<lparr>zone_info = \<lambda>z. if z = ''UTC'' then ZoneOk else ZoneMissing, stamp_ok = \<lambda>_ _. True,
     shift_days = \<lambda>_ t days. Some (t + of_int days * 10), chore_mac = \<lambda>_. ''hash''\<rparr>"

definition chore_sample_members :: household_members where
  "chore_sample_members = \<lparr>hm_revision = 1, hm_ids = [''u1'', ''u2'']\<rparr>"

definition chore_sample_create :: "string \<Rightarrow> chore_db \<Rightarrow> chore_task result \<times> chore_db" where
  "chore_sample_create tid s = chore_create chore_sample_env tid (''e'' @ tid) 5 demo_principal ''core'' ''home'' ''Dishes''
     chore_sample_members ''UTC'' 7 (Some 20) (Some ''make'') s"

definition chore_sample0 :: chore_db where "chore_sample0 = \<lparr>k_rows = [], k_events = []\<rparr>"
definition chore_sample1 :: chore_db where "chore_sample1 = snd (chore_sample_create ''t1'' chore_sample0)"

definition chore_sample_complete :: "string \<Rightarrow> int \<Rightarrow> string \<Rightarrow> chore_db \<Rightarrow> chore_receipt result \<times> chore_db" where
  "chore_sample_complete eid expected cmd s = chore_complete chore_sample_env eid demo_principal ''t1'' ''core'' ''home''
     expected cmd (Some 30) chore_sample_members s"

lemma chore_sample_ascii: "\<forall>e. is_ascii (chore_mac chore_sample_env e)"
  by (simp add: chore_sample_env_def is_ascii_def)

lemma chore_sample_valid: "valid_members chore_sample_members" by code_simp

lemma chore_sample_reach: "chore_reach chore_sample_env chore_sample0" "chore_reach chore_sample_env chore_sample1"
  unfolding chore_sample0_def chore_sample1_def chore_sample_create_def
  by (rule chore_empty, rule chore_created [OF chore_empty chore_sample_valid])

lemma chore_sample_unused: "c \<noteq> ''make'' \<Longrightarrow> c \<notin> (ce_command_id \<circ> ch_content) ` set (k_events chore_sample1)"
proof -
  have "(ce_command_id \<circ> ch_content) ` set (k_events chore_sample1) = {''make''}" by code_simp
  then show "c \<noteq> ''make'' \<Longrightarrow> c \<notin> (ce_command_id \<circ> ch_content) ` set (k_events chore_sample1)" by simp
qed

lemma chore_sample_completed:
  "\<exists>r. chore_sample_complete ''e2'' 1 ''wash'' chore_sample1 = (Inr r, snd (chore_sample_complete ''e2'' 1 ''wash'' chore_sample1))"
proof -
  have "\<not> isl (fst (chore_sample_complete ''e2'' 1 ''wash'' chore_sample1))" by code_simp
  then show ?thesis by (metis isl_def prod.collapse sum.collapse(2))
qed

theorem chore_store_always_readable_witness:
  "\<exists>t es. chore_get chore_sample_env demo_principal ''t1'' ''core'' ''home'' chore_sample1 = Inr t \<and>
     chore_history chore_sample_env demo_principal ''t1'' ''core'' ''home'' chore_sample1 = Inr es \<and>
     map cv_revision es = [1..ct_revision t]"
proof -
  have "\<not> isl (chore_get chore_sample_env demo_principal ''t1'' ''core'' ''home'' chore_sample1)"
    and "p_role demo_principal = Admin" by code_simp+
  with chore_store_always_readable [OF chore_sample_ascii chore_sample_reach(2), of demo_principal "''t1''" "''core''" "''home''"]
  show ?thesis by auto
qed

theorem chore_complete_rotates_witness:
  "\<exists>r s'. chore_sample_complete ''e2'' 1 ''wash'' chore_sample1 = (Inr r, s') \<and> ct_revision (cc_task r) = 2 \<and>
     load_task chore_sample_env ''t1'' ''core'' ''home'' s' = Inr (cc_task r)"
proof -
  obtain r where run: "chore_sample_complete ''e2'' 1 ''wash'' chore_sample1 = (Inr r, snd (chore_sample_complete ''e2'' 1 ''wash'' chore_sample1))"
    using chore_sample_completed ..
  have "ct_revision (cc_task r) = 2"
    "load_task chore_sample_env ''t1'' ''core'' ''home'' (snd (chore_sample_complete ''e2'' 1 ''wash'' chore_sample1)) = Inr (cc_task r)"
    using chore_complete_rotates [OF chore_sample_ascii chore_sample_reach(2) chore_sample_valid chore_sample_unused
        run [unfolded chore_sample_complete_def]]
    unfolding chore_sample_complete_def by auto
  with run show ?thesis by blast
qed

theorem chore_complete_retry_witness:
  "chore_sample_complete ''e3'' 9 ''wash'' (snd (chore_sample_complete ''e2'' 1 ''wash'' chore_sample1)) =
   chore_sample_complete ''e2'' 1 ''wash'' chore_sample1"
proof -
  obtain r where run: "chore_sample_complete ''e2'' 1 ''wash'' chore_sample1 = (Inr r, snd (chore_sample_complete ''e2'' 1 ''wash'' chore_sample1))"
    using chore_sample_completed ..
  have "chore_sample_complete ''e3'' 9 ''wash'' (snd (chore_sample_complete ''e2'' 1 ''wash'' chore_sample1)) =
      (Inr r, snd (chore_sample_complete ''e2'' 1 ''wash'' chore_sample1))"
    using chore_complete_retry [OF chore_sample_ascii chore_sample_reach(2) chore_sample_valid run [unfolded chore_sample_complete_def],
        of 9 "''e3''" 30 chore_sample_members]
    unfolding chore_sample_complete_def by simp
  with run show ?thesis by metis
qed

definition chore_sample_calls :: "(string \<times> int \<times> string \<times> time) list" where
  "chore_sample_calls = [(''e2'', 1, ''wash'', 30), (''e3'', 2, ''dry'', 40)]"


theorem chore_create_retry_after_completion_witness:
  "fst (chore_sample_create ''t9'' (snd (chore_sample_complete ''e2'' 1 ''wash'' chore_sample1))) = Inl (ApiError ''idempotency_conflict'' 409)"
proof -
  have "case (fst (chore_sample_create ''t1'' chore_sample0), fst (chore_sample_complete ''e2'' 1 ''wash'' chore_sample1)) of
      (Inr t, Inr r) \<Rightarrow> ct_id t = ''t1'' \<and> ct_due_at (cc_task r) \<noteq> ct_due_at t | _ \<Rightarrow> False" by code_simp
  then obtain t r where f: "fst (chore_sample_create ''t1'' chore_sample0) = Inr t" "fst (chore_sample_complete ''e2'' 1 ''wash'' chore_sample1) = Inr r"
    and due: "ct_id t = ''t1''" "ct_due_at (cc_task r) \<noteq> ct_due_at t"
    by (auto split: sum.splits)
  let ?s2 = "snd (chore_sample_complete ''e2'' 1 ''wash'' chore_sample1)"
  have made: "chore_create chore_sample_env ''t1'' (''e'' @ ''t1'') 5 demo_principal ''core'' ''home'' ''Dishes''
     chore_sample_members ''UTC'' 7 (Some 20) (Some ''make'') chore_sample0 = (Inr t, chore_sample1)"
    using f(1) unfolding chore_sample1_def chore_sample_create_def by (metis prod.collapse)
  have comp: "chore_complete chore_sample_env ''e2'' demo_principal (ct_id t) ''core'' ''home''
     1 ''wash'' (Some 30) chore_sample_members chore_sample1 = (Inr r, ?s2)"
    using f(2) unfolding chore_sample_complete_def due(1) by (metis prod.collapse)
  show ?thesis
    using chore_create_retry_after_completion [OF chore_sample_ascii chore_sample_reach(1) chore_sample_valid chore_sample_valid
        made chore_sample_unused comp due(2)]
    unfolding chore_sample_create_def by simp
qed


end
