(* ===== verification/Pantry_Stock.thy ===== *)
theory Pantry_Stock
  imports Larenor_Prelude "HOL-Library.AList" "HOL-Library.Product_Lexorder"
begin

text \<open>
  The pantry ledger, \<open>pantry_stock/ledger.py\<close> with the contracts of \<open>pantry_stock/models.py\<close>:
  an in-memory reducer that receives lots, consumes an ingredient first-expiring first, and undoes
  a consumption. It mutates its dictionaries in place and has no rollback, so every operation
  returns its result together with the state it leaves. A Python dictionary is an association
  list. The two SHA-256 digests are parameters.
\<close>

section \<open>Contracts\<close>

datatype stock_unit = U_g | U_kg | U_ml | U_l | U_piece
datatype measure_kind = Mass_mg | Volume_ul | Count_milli

record stock_amount =
  sa_quantity_millis :: int
  sa_unit :: stock_unit

definition valid_amount :: "stock_amount \<Rightarrow> bool" where
  "valid_amount a = between 1 10000000 (sa_quantity_millis a)"

fun unit_scale :: "stock_unit \<Rightarrow> measure_kind \<times> int" where
  "unit_scale U_g = (Mass_mg, 1)"
| "unit_scale U_kg = (Mass_mg, 1000)"
| "unit_scale U_ml = (Volume_ul, 1)"
| "unit_scale U_l = (Volume_ul, 1000)"
| "unit_scale U_piece = (Count_milli, 1)"

definition normalized :: "stock_amount \<Rightarrow> (measure_kind \<times> int) result" where
  "normalized a =
     (let (kind, multiplier) = unit_scale (sa_unit a); v = sa_quantity_millis a * multiplier in
      if v > 10000000000 then Inl ValueError else Inr (kind, v))"

text \<open>Dates: the strings that \<open>date.fromisoformat\<close> reads and \<open>isoformat\<close> writes back unchanged
  are the real dates in the form \<open>YYYY-MM-DD\<close>.\<close>

type_synonym date = "nat \<times> nat \<times> nat"

definition digit_value :: "char \<Rightarrow> nat option" where
  "digit_value c = (let n = of_char c :: nat in if 48 \<le> n \<and> n \<le> 57 then Some (n - 48) else None)"

fun number_of :: "nat \<Rightarrow> string \<Rightarrow> nat option" where
  "number_of acc [] = Some acc"
| "number_of acc (c # cs) = (case digit_value c of None \<Rightarrow> None | Some d \<Rightarrow> number_of (10 * acc + d) cs)"

definition leap_year :: "nat \<Rightarrow> bool" where
  "leap_year y = (y mod 4 = 0 \<and> (y mod 100 \<noteq> 0 \<or> y mod 400 = 0))"

definition days_in_month :: "nat \<Rightarrow> nat \<Rightarrow> nat" where
  "days_in_month y m = (if m = 2 then if leap_year y then 29 else 28 else if m \<in> {4, 6, 9, 11} then 30 else 31)"

definition iso_date :: "string \<Rightarrow> date option" where
  "iso_date s =
     (if length s \<noteq> 10 \<or> s ! 4 \<noteq> CHR ''-'' \<or> s ! 7 \<noteq> CHR ''-'' then None
      else case (number_of 0 (take 4 s), number_of 0 (take 2 (drop 5 s)), number_of 0 (drop 8 s)) of
             (Some y, Some m, Some d) \<Rightarrow>
               if 1 \<le> y \<and> 1 \<le> m \<and> m \<le> 12 \<and> 1 \<le> d \<and> d \<le> days_in_month y m then Some (y, m, d) else None
           | _ \<Rightarrow> None)"

record stock_lot =
  sl_id :: string
  sl_ingredient_key :: string
  sl_amount :: stock_amount
  sl_expires_on :: "string option"

text \<open>\<open>str.lower\<close> on the 256 characters of \<open>string\<close>.\<close>

definition char_lower :: "char \<Rightarrow> char" where
  "char_lower c = (let n = of_char c :: nat in
     if (65 \<le> n \<and> n \<le> 90) \<or> (192 \<le> n \<and> n \<le> 222 \<and> n \<noteq> 215) then char_of (n + 32) else c)"

definition ingredient_ok :: "string \<Rightarrow> bool" where
  "ingredient_ok k = (k = py_strip k \<and> k = map char_lower k \<and> \<not> has_control k)"

definition valid_lot :: "stock_lot \<Rightarrow> bool" where
  "valid_lot l = (is_identity (sl_id l) \<and> 1 \<le> length (sl_ingredient_key l) \<and> length (sl_ingredient_key l) \<le> 80 \<and>
     ingredient_ok (sl_ingredient_key l) \<and> valid_amount (sl_amount l) \<and>
     (case sl_expires_on l of None \<Rightarrow> True | Some d \<Rightarrow> iso_date d \<noteq> None))"

record lot_balance =
  lb_lot_id :: string
  lb_ingredient_key :: string
  lb_measure :: measure_kind
  lb_remaining :: int
  lb_expires_on :: "string option"

definition valid_balance :: "lot_balance \<Rightarrow> bool" where
  "valid_balance b = between 1 10000000000 (lb_remaining b)"

record stock_allocation =
  al_lot_id :: string
  al_quantity :: int

definition valid_allocation :: "stock_allocation \<Rightarrow> bool" where
  "valid_allocation a = between 1 10000000000 (al_quantity a)"

datatype movement_kind = M_receive | M_consume | M_undo

record stock_receipt =
  sr_request_id :: string
  sr_movement_id :: string
  sr_revision :: int
  sr_kind :: movement_kind
  sr_allocations :: "stock_allocation list"

definition valid_receipt :: "stock_receipt \<Rightarrow> bool" where
  "valid_receipt r = (is_revision (sr_revision r) \<and> list_all valid_allocation (sr_allocations r))"

record stock_snapshot =
  ss_revision :: int
  ss_lots :: "lot_balance list"

section \<open>The ledger\<close>

record lot_state =
  ls_value :: stock_lot
  ls_measure :: measure_kind
  ls_remaining :: int
  ls_sequence :: int

record movement =
  mv_allocations :: "stock_allocation list"
  mv_reverted :: bool

record pantry =
  pl_max_lots :: int
  pl_max_receipts :: int
  pl_revision :: int
  pl_sequence :: int
  pl_lots :: "(string \<times> lot_state) list"
  pl_movements :: "(string \<times> movement) list"
  pl_receipts :: "(string \<times> string \<times> stock_receipt) list"

definition pantry_init :: "int \<Rightarrow> int \<Rightarrow> pantry result" where
  "pantry_init max_lots max_receipts =
     (if \<not> between 1 4096 max_lots \<or> \<not> between 1 10000 max_receipts then Inl ValueError
      else Inr \<lparr>pl_max_lots = max_lots, pl_max_receipts = max_receipts, pl_revision = 0, pl_sequence = 0,
                pl_lots = [], pl_movements = [], pl_receipts = []\<rparr>)"

text \<open>What \<open>_digest\<close> hashes, and the parameters: the digest and the movement identity.\<close>

datatype pantry_request =
    Receive_request int stock_lot
  | Consume_request int string measure_kind int
  | Undo_request int string

record pantry_hash =
  request_digest_of :: "pantry_request \<Rightarrow> string"
  movement_of :: "string \<Rightarrow> movement_kind \<Rightarrow> string"

definition pantry_identity :: "string \<Rightarrow> string result" where
  "pantry_identity v = (if \<not> is_identity v then Inl (PantryConflict ''invalid_request'') else Inr v)"

definition pantry_replay :: "string \<Rightarrow> string \<Rightarrow> pantry \<Rightarrow> stock_receipt option result" where
  "pantry_replay request_id digest s =
     (case map_of (pl_receipts s) request_id of
        None \<Rightarrow> Inr None
      | Some (d, receipt) \<Rightarrow>
          if d \<noteq> digest then Inl (PantryConflict ''idempotency_conflict'') else Inr (Some receipt))"

definition pantry_begin :: "string \<Rightarrow> int \<Rightarrow> string \<Rightarrow> pantry \<Rightarrow> stock_receipt option result" where
  "pantry_begin request_id expected_revision digest s =
     bind_res (pantry_identity request_id) (\<lambda>_.
     bind_res (pantry_replay request_id digest s) (\<lambda>replay.
       case replay of
         Some r \<Rightarrow> Inr (Some r)
       | None \<Rightarrow>
           if expected_revision < 0 \<or> expected_revision \<noteq> pl_revision s then Inl (PantryConflict ''revision_conflict'')
           else if pl_revision s \<ge> 2 ^ 63 - 1 then Inl (PantryConflict ''revision_conflict'')
           else if int (length (pl_receipts s)) \<ge> pl_max_receipts s then Inl (PantryConflict ''receipt_capacity'')
           else Inr None))"

definition pantry_finish :: "pantry_hash \<Rightarrow> string \<Rightarrow> string \<Rightarrow> movement_kind \<Rightarrow> stock_allocation list \<Rightarrow> pantry
    \<Rightarrow> stock_receipt result \<times> pantry" where
  "pantry_finish h request_id digest kind allocations s =
     (let s1 = s\<lparr>pl_revision := pl_revision s + 1\<rparr>;
          receipt = \<lparr>sr_request_id = request_id, sr_movement_id = movement_of h request_id kind,
                     sr_revision = pl_revision s1, sr_kind = kind, sr_allocations = allocations\<rparr>
      in if \<not> valid_receipt receipt then (Inl ValidationError, s1)
         else (Inr receipt, s1\<lparr>pl_receipts := AList.update request_id (digest, receipt) (pl_receipts s1)\<rparr>))"

definition receive :: "pantry_hash \<Rightarrow> string \<Rightarrow> int \<Rightarrow> stock_lot raw \<Rightarrow> pantry \<Rightarrow> stock_receipt result \<times> pantry" where
  "receive h request_id expected_revision raw s =
     (case model_validate valid_lot raw of
        None \<Rightarrow> (Inl ValidationError, s)
      | Some lot \<Rightarrow>
         (let digest = request_digest_of h (Receive_request expected_revision lot) in
          case pantry_begin request_id expected_revision digest s of
            Inl e \<Rightarrow> (Inl e, s)
          | Inr (Some r) \<Rightarrow> (Inr r, s)
          | Inr None \<Rightarrow>
              if map_of (pl_lots s) (sl_id lot) \<noteq> None then (Inl (PantryConflict ''duplicate_lot''), s)
              else if int (length (pl_lots s)) \<ge> pl_max_lots s then (Inl (PantryConflict ''lot_capacity''), s)
              else case normalized (sl_amount lot) of
                     Inl e \<Rightarrow> (Inl e, s)
                   | Inr (kind, quantity) \<Rightarrow>
                       pantry_finish h request_id digest M_receive []
                         (s\<lparr>pl_sequence := pl_sequence s + 1,
                            pl_lots := AList.update (sl_id lot)
                              \<lparr>ls_value = lot, ls_measure = kind, ls_remaining = quantity, ls_sequence = pl_sequence s + 1\<rparr>
                              (pl_lots s)\<rparr>)))"

text \<open>The sort key: lots with an expiry first, by date, then by arrival.\<close>

definition MAX_DATE :: date where "MAX_DATE = (9999, 12, 31)"

definition lot_key :: "lot_state \<Rightarrow> bool \<times> date \<times> int" where
  "lot_key l = (case sl_expires_on (ls_value l) of
       None \<Rightarrow> (True, MAX_DATE, ls_sequence l)
     | Some d \<Rightarrow> (False, case iso_date d of Some x \<Rightarrow> x | None \<Rightarrow> MAX_DATE, ls_sequence l))"

definition candidates :: "string \<Rightarrow> measure_kind \<Rightarrow> pantry \<Rightarrow> lot_state list" where
  "candidates key kind s =
     sort_key lot_key (filter (\<lambda>l. sl_ingredient_key (ls_value l) = key \<and> ls_measure l = kind \<and> ls_remaining l > 0)
       (map snd (pl_lots s)))"

fun allocate :: "int \<Rightarrow> lot_state list \<Rightarrow> stock_allocation list result" where
  "allocate remaining [] = Inr []"
| "allocate remaining (c # cs) =
     (if remaining = 0 then Inr []
      else
        let a = \<lparr>al_lot_id = sl_id (ls_value c), al_quantity = min (ls_remaining c) remaining\<rparr> in
        if \<not> valid_allocation a then Inl ValidationError
        else bind_res (allocate (remaining - al_quantity a) cs) (\<lambda>rest. Inr (a # rest)))"

text \<open>\<open>self._lots[lotId].remaining += quantity\<close>, for a key that is present.\<close>

definition add_remaining :: "string \<Rightarrow> int \<Rightarrow> (string \<times> lot_state) list \<Rightarrow> (string \<times> lot_state) list" where
  "add_remaining k n lots = AList.map_entry k (\<lambda>l. l\<lparr>ls_remaining := ls_remaining l + n\<rparr>) lots"

definition take_all :: "stock_allocation list \<Rightarrow> (string \<times> lot_state) list \<Rightarrow> (string \<times> lot_state) list" where
  "take_all allocs lots = fold (\<lambda>a. add_remaining (al_lot_id a) (- al_quantity a)) allocs lots"

definition return_all :: "stock_allocation list \<Rightarrow> (string \<times> lot_state) list \<Rightarrow> (string \<times> lot_state) list" where
  "return_all allocs lots = fold (\<lambda>a. add_remaining (al_lot_id a) (al_quantity a)) allocs lots"

definition consume_new :: "pantry_hash \<Rightarrow> string \<Rightarrow> string \<Rightarrow> string \<Rightarrow> measure_kind \<Rightarrow> int \<Rightarrow> pantry
    \<Rightarrow> stock_receipt result \<times> pantry" where
  "consume_new h request_id digest ingredient_key kind quantity s =
     (let cs = candidates ingredient_key kind s in
      if sum_list (map ls_remaining cs) < quantity then (Inl (PantryConflict ''insufficient_stock''), s)
      else case allocate quantity cs of
             Inl e \<Rightarrow> (Inl e, s)
           | Inr allocs \<Rightarrow>
              (case pantry_finish h request_id digest M_consume allocs
                      (s\<lparr>pl_lots := take_all allocs (pl_lots s)\<rparr>) of
                 (Inl e, s1) \<Rightarrow> (Inl e, s1)
               | (Inr receipt, s1) \<Rightarrow>
                   (Inr receipt, s1\<lparr>pl_movements := AList.update (sr_movement_id receipt)
                       \<lparr>mv_allocations = allocs, mv_reverted = False\<rparr> (pl_movements s1)\<rparr>)))"

definition consume :: "pantry_hash \<Rightarrow> string \<Rightarrow> int \<Rightarrow> string \<Rightarrow> stock_amount raw \<Rightarrow> pantry
    \<Rightarrow> stock_receipt result \<times> pantry" where
  "consume h request_id expected_revision ingredient_key raw s =
     (case model_validate valid_amount raw of
        None \<Rightarrow> (Inl ValidationError, s)
      | Some amount \<Rightarrow>
         (if ingredient_key = '''' \<or> \<not> ingredient_ok ingredient_key \<or> length ingredient_key > 80
          then (Inl (PantryConflict ''invalid_request''), s)
          else case normalized amount of
            Inl e \<Rightarrow> (Inl e, s)
          | Inr (kind, quantity) \<Rightarrow>
             (let digest = request_digest_of h (Consume_request expected_revision ingredient_key kind quantity) in
              case pantry_begin request_id expected_revision digest s of
                Inl e \<Rightarrow> (Inl e, s)
              | Inr (Some r) \<Rightarrow> (Inr r, s)
              | Inr None \<Rightarrow> consume_new h request_id digest ingredient_key kind quantity s)))"

definition undo :: "pantry_hash \<Rightarrow> string \<Rightarrow> int \<Rightarrow> string \<Rightarrow> pantry \<Rightarrow> stock_receipt result \<times> pantry" where
  "undo h request_id expected_revision movement_id s =
     (case pantry_identity movement_id of
        Inl e \<Rightarrow> (Inl e, s)
      | Inr _ \<Rightarrow>
         (let digest = request_digest_of h (Undo_request expected_revision movement_id) in
          case pantry_begin request_id expected_revision digest s of
            Inl e \<Rightarrow> (Inl e, s)
          | Inr (Some r) \<Rightarrow> (Inr r, s)
          | Inr None \<Rightarrow>
             (case map_of (pl_movements s) movement_id of
                None \<Rightarrow> (Inl (PantryConflict ''movement_not_found''), s)
              | Some m \<Rightarrow>
                  if mv_reverted m then (Inl (PantryConflict ''already_reverted''), s)
                  else if list_ex (\<lambda>a. map_of (pl_lots s) (al_lot_id a) = None) (mv_allocations m)
                  then (Inl (PantryConflict ''lot_missing''), s)
                  else pantry_finish h request_id digest M_undo (mv_allocations m)
                         (s\<lparr>pl_lots := return_all (mv_allocations m) (pl_lots s),
                            pl_movements := AList.update movement_id (m\<lparr>mv_reverted := True\<rparr>) (pl_movements s)\<rparr>))))"

definition balance_of :: "lot_state \<Rightarrow> lot_balance" where
  "balance_of l = \<lparr>lb_lot_id = sl_id (ls_value l), lb_ingredient_key = sl_ingredient_key (ls_value l),
     lb_measure = ls_measure l, lb_remaining = ls_remaining l, lb_expires_on = sl_expires_on (ls_value l)\<rparr>"

definition pantry_snapshot :: "pantry \<Rightarrow> stock_snapshot result" where
  "pantry_snapshot s =
     (let balances = map balance_of (filter (\<lambda>l. ls_remaining l > 0) (sort_key ls_sequence (map snd (pl_lots s)))) in
      if \<not> list_all valid_balance balances \<or> \<not> between 0 (2 ^ 63 - 1) (pl_revision s) then Inl ValidationError
      else Inr \<lparr>ss_revision = pl_revision s, ss_lots = balances\<rparr>)"

section \<open>Association lists\<close>

lemma sum_update_present:
  fixes f :: "'k \<times> 'v \<Rightarrow> int"
  assumes "distinct (map fst al)" and "map_of al k = Some v"
  shows "sum_list (map f (AList.update k w al)) = sum_list (map f al) - f (k, v) + f (k, w)"
  using assms
proof (induction al)
  case (Cons p al)
  obtain j u where p: "p = (j, u)" by (cases p)
  show ?case using Cons by (cases "j = k") (auto simp: p)
qed simp

section \<open>Moving stock\<close>

definition taken :: "stock_allocation list \<Rightarrow> string \<Rightarrow> int" where
  "taken allocs k = sum_list (map al_quantity (filter (\<lambda>a. al_lot_id a = k) allocs))"

definition shift_lots :: "(string \<Rightarrow> int) \<Rightarrow> (string \<times> lot_state) list \<Rightarrow> (string \<times> lot_state) list" where
  "shift_lots g lots = map (\<lambda>(k, l). (k, l\<lparr>ls_remaining := ls_remaining l + g k\<rparr>)) lots"

lemma taken_simps [simp]:
  "taken [] k = 0" "taken (a # allocs) k = (if al_lot_id a = k then al_quantity a else 0) + taken allocs k"
  by (simp_all add: taken_def)

lemma taken_Nil: "taken [] = (\<lambda>_. 0)"
  by (rule ext) simp

lemma shift_lots_keys [simp]: "map fst (shift_lots g lots) = map fst lots"
  by (simp add: shift_lots_def case_prod_beta comp_def)

lemma shift_lots_shift_lots: "shift_lots g (shift_lots f lots) = shift_lots (\<lambda>k. f k + g k) lots"
  by (auto simp: shift_lots_def)

lemma shift_lots_zero: "shift_lots (\<lambda>_. 0) lots = lots"
  by (simp add: shift_lots_def case_prod_beta)

lemma map_of_shift_lots:
  "map_of (shift_lots g lots) k = map_option (\<lambda>l. l\<lparr>ls_remaining := ls_remaining l + g k\<rparr>) (map_of lots k)"
  by (induction lots) (auto simp: shift_lots_def)

lemma add_remaining_shift:
  assumes "distinct (map fst lots)"
  shows "add_remaining j n lots = shift_lots (\<lambda>k. if j = k then n else 0) lots"
proof -
  have same: "shift_lots (\<lambda>k. if j = k then n else 0) lots = lots" if "j \<notin> fst ` set lots" for lots
    using that by (induction lots) (auto simp: shift_lots_def)
  show ?thesis using assms
  proof (induction lots)
    case Nil
    then show ?case by (simp add: add_remaining_def shift_lots_def)
  next
    case (Cons p lots)
    then show ?case using same [of lots]
      by (auto simp: add_remaining_def shift_lots_def case_prod_beta)
  qed
qed

lemma return_all_shift:
  assumes "distinct (map fst lots)"
  shows "return_all allocs lots = shift_lots (taken allocs) lots"
  using assms
proof (induction allocs arbitrary: lots)
  case (Cons a allocs)
  then show ?case
    by (simp add: return_all_def add_remaining_shift shift_lots_shift_lots)
qed (simp add: return_all_def taken_Nil shift_lots_zero)

lemma take_all_shift:
  assumes "distinct (map fst lots)"
  shows "take_all allocs lots = shift_lots (\<lambda>k. - taken allocs k) lots"
  using assms
proof (induction allocs arbitrary: lots)
  case (Cons a allocs)
  have "(\<lambda>k. (if al_lot_id a = k then - al_quantity a else 0) - taken allocs k) =
      (\<lambda>k. - ((if al_lot_id a = k then al_quantity a else 0) + taken allocs k))" by auto
  with Cons show ?case
    by (simp add: take_all_def add_remaining_shift shift_lots_shift_lots)
qed (simp add: take_all_def shift_lots_zero)

lemma return_after_take:
  assumes "distinct (map fst lots)"
  shows "return_all allocs (take_all allocs lots) = lots"
  using assms by (simp add: take_all_shift return_all_shift shift_lots_shift_lots shift_lots_zero)

section \<open>Allocation\<close>

text \<open>With enough stock in lots that all hold something, allocation succeeds and takes the
  whole quantity, from no lot more than it holds.\<close>

lemma taken_nonneg: "list_all valid_allocation allocs \<Longrightarrow> 0 \<le> taken allocs k"
  by (induction allocs) (auto simp: valid_allocation_def)

lemma taken_other: "k \<notin> al_lot_id ` set allocs \<Longrightarrow> taken allocs k = 0"
  by (induction allocs) auto

lemma allocate_ids:
  assumes "allocate q cs = Inr allocs"
  shows "al_lot_id ` set allocs \<subseteq> (\<lambda>c. sl_id (ls_value c)) ` set cs"
  using assms
proof (induction cs arbitrary: q allocs)
  case (Cons c cs)
  show ?case
  proof (cases "q = 0")
    case False
    then obtain rest where "allocate (q - min (ls_remaining c) q) cs = Inr rest"
      "allocs = \<lparr>al_lot_id = sl_id (ls_value c), al_quantity = min (ls_remaining c) q\<rparr> # rest"
      using Cons.prems by (auto simp: Let_def bind_res_Inr_iff split: if_splits)
    then show ?thesis using Cons.IH by auto
  qed (use Cons.prems in auto)
qed simp

lemma allocate_total:
  assumes "list_all (\<lambda>c. 0 < ls_remaining c) cs" and "0 \<le> q" and "q \<le> 10000000000" and "q \<le> sum_list (map ls_remaining cs)"
  shows "\<exists>allocs. allocate q cs = Inr allocs \<and> list_all valid_allocation allocs \<and> sum_list (map al_quantity allocs) = q"
  using assms
proof (induction cs arbitrary: q)
  case (Cons c cs)
  show ?case
  proof (cases "q = 0")
    case False
    let ?n = "min (ls_remaining c) q"
    have "\<exists>rest. allocate (q - ?n) cs = Inr rest \<and> list_all valid_allocation rest \<and> sum_list (map al_quantity rest) = q - ?n"
    proof (rule Cons.IH)
      have "0 \<le> sum_list (map ls_remaining cs)"
        using Cons.prems(1) by (intro sum_list_nonneg) (auto simp: list_all_iff order_less_imp_le)
      then show "q - ?n \<le> sum_list (map ls_remaining cs)" using Cons.prems(4) by simp
    qed (use Cons.prems in auto)
    moreover have "valid_allocation \<lparr>al_lot_id = sl_id (ls_value c), al_quantity = ?n\<rparr>"
      using False Cons.prems(1-3) by (auto simp: valid_allocation_def)
    ultimately show ?thesis using False by (auto simp: Let_def)
  qed simp
qed simp

lemma allocate_bounded:
  assumes "allocate q cs = Inr allocs" and "distinct (map (\<lambda>c. sl_id (ls_value c)) cs)"
    and "c \<in> set cs" and "list_all (\<lambda>c. 0 < ls_remaining c) cs"
  shows "taken allocs (sl_id (ls_value c)) \<le> ls_remaining c"
  using assms
proof (induction cs arbitrary: q allocs)
  case (Cons d cs)
  show ?case
  proof (cases "q = 0")
    case False
    then obtain rest where rest: "allocate (q - min (ls_remaining d) q) cs = Inr rest"
      "allocs = \<lparr>al_lot_id = sl_id (ls_value d), al_quantity = min (ls_remaining d) q\<rparr> # rest"
      using Cons.prems(1) by (auto simp: Let_def bind_res_Inr_iff split: if_splits)
    show ?thesis
    proof (cases "c = d")
      case True
      have "sl_id (ls_value d) \<notin> al_lot_id ` set rest" using allocate_ids [OF rest(1)] Cons.prems(2) by auto
      then show ?thesis using True by (simp add: rest(2) taken_other)
    next
      case False
      then have "c \<in> set cs" using Cons.prems(3) by simp
      moreover from this have "sl_id (ls_value c) \<noteq> sl_id (ls_value d)" using Cons.prems(2) by (auto simp: image_iff)
      ultimately show ?thesis using Cons.IH [OF rest(1)] Cons.prems(2,4) by (simp add: rest(2))
    qed
  qed (use Cons.prems in \<open>auto simp: list_all_iff order_less_imp_le\<close>)
qed simp

text \<open>A lot is touched only when every lot before it is emptied.\<close>

lemma allocate_greedy:
  assumes "allocate q (xs @ c # ys) = Inr allocs" and "distinct (map (\<lambda>c. sl_id (ls_value c)) (xs @ c # ys))"
    and "taken allocs (sl_id (ls_value c)) < ls_remaining c" and "d \<in> set ys"
    and "list_all (\<lambda>c. 0 < ls_remaining c) (xs @ c # ys)"
  shows "taken allocs (sl_id (ls_value d)) = 0"
  using assms
proof (induction xs arbitrary: q allocs)
  case Nil
  show ?case
  proof (cases "q = 0")
    case False
    then obtain rest where rest: "allocate (q - min (ls_remaining c) q) ys = Inr rest"
      "allocs = \<lparr>al_lot_id = sl_id (ls_value c), al_quantity = min (ls_remaining c) q\<rparr> # rest"
      using Nil.prems(1) by (auto simp: Let_def bind_res_Inr_iff split: if_splits)
    have "sl_id (ls_value c) \<notin> al_lot_id ` set rest" using allocate_ids [OF rest(1)] Nil.prems(2) by auto
    then have "min (ls_remaining c) q = q" using Nil.prems(3) by (simp add: rest(2) taken_other)
    then have "rest = []" using rest(1) by (cases ys) auto
    then show ?thesis using Nil.prems(2,4) by (auto simp: rest(2))
  qed (use Nil.prems(1) in auto)
next
  case (Cons x xs)
  show ?case
  proof (cases "q = 0")
    case False
    then obtain rest where rest: "allocate (q - min (ls_remaining x) q) (xs @ c # ys) = Inr rest"
      "allocs = \<lparr>al_lot_id = sl_id (ls_value x), al_quantity = min (ls_remaining x) q\<rparr> # rest"
      using Cons.prems(1) by (auto simp: Let_def bind_res_Inr_iff split: if_splits)
    have "sl_id (ls_value x) \<noteq> sl_id (ls_value c)" "sl_id (ls_value x) \<noteq> sl_id (ls_value d)"
      using Cons.prems(2,4) by (auto simp: image_iff)
    then show ?thesis using Cons.IH [OF rest(1)] Cons.prems by (simp add: rest(2))
  qed (use Cons.prems(1) in auto)
qed


section \<open>The invariant of the ledger\<close>

definition outstanding :: "(string \<times> movement) list \<Rightarrow> string \<Rightarrow> int" where
  "outstanding ms k = sum_list (map (\<lambda>(_, m). if mv_reverted m then 0 else taken (mv_allocations m) k) ms)"

text \<open>A lot holds what was received less what is outstanding from it.\<close>

definition lot_accounted :: "pantry \<Rightarrow> string \<Rightarrow> lot_state \<Rightarrow> bool" where
  "lot_accounted s k l \<longleftrightarrow> valid_lot (ls_value l) \<and> sl_id (ls_value l) = k \<and> 0 \<le> ls_remaining l \<and>
     ls_sequence l \<le> pl_sequence s \<and>
     normalized (sl_amount (ls_value l)) = Inr (ls_measure l, ls_remaining l + outstanding (pl_movements s) k)"

definition movement_ok :: "pantry_hash \<Rightarrow> pantry \<Rightarrow> string \<Rightarrow> movement \<Rightarrow> bool" where
  "movement_ok h s j m \<longleftrightarrow> list_all valid_allocation (mv_allocations m) \<and>
     al_lot_id ` set (mv_allocations m) \<subseteq> fst ` set (pl_lots s) \<and>
     (\<exists>r \<in> fst ` set (pl_receipts s). is_identity r \<and> j = movement_of h r M_consume)"

definition pantry_inv :: "pantry_hash \<Rightarrow> pantry \<Rightarrow> bool" where
  "pantry_inv h s \<longleftrightarrow>
     distinct (map fst (pl_lots s)) \<and> distinct (map fst (pl_movements s)) \<and> distinct (map fst (pl_receipts s)) \<and>
     (\<forall>(k, l) \<in> set (pl_lots s). lot_accounted s k l) \<and>
     (\<forall>(j, m) \<in> set (pl_movements s). movement_ok h s j m) \<and>
     distinct (map (ls_sequence \<circ> snd) (pl_lots s)) \<and>
     pl_revision s = int (length (pl_receipts s)) \<and> pl_revision s \<le> pl_max_receipts s \<and> pl_max_receipts s \<le> 10000"

text \<open>No two requests share a movement identity: the idealisation of the truncated digest.\<close>

definition movements_apart :: "pantry_hash \<Rightarrow> bool" where
  "movements_apart h \<longleftrightarrow> inj_on (\<lambda>r. movement_of h r M_consume) {r. is_identity r}"

lemma pantry_invD:
  assumes "pantry_inv h s"
  shows "distinct (map fst (pl_lots s))" "distinct (map fst (pl_movements s))" "distinct (map fst (pl_receipts s))"
    "\<And>k l. (k, l) \<in> set (pl_lots s) \<Longrightarrow> lot_accounted s k l"
    "\<And>j m. (j, m) \<in> set (pl_movements s) \<Longrightarrow> movement_ok h s j m"
    "distinct (map (ls_sequence \<circ> snd) (pl_lots s))"
    "pl_revision s = int (length (pl_receipts s))" "pl_revision s \<le> pl_max_receipts s" "pl_max_receipts s \<le> 10000"
  using assms unfolding pantry_inv_def by auto

lemma normalized_bounds:
  assumes "valid_amount a"
  shows "\<exists>kind v. normalized a = Inr (kind, v) \<and> 1 \<le> v \<and> v \<le> 10000000000"
  using assms by (cases "sa_unit a") (auto simp: normalized_def valid_amount_def)

lemma normalized_range: "valid_amount a \<Longrightarrow> normalized a = Inr (kind, v) \<Longrightarrow> 1 \<le> v \<and> v \<le> 10000000000"
  using normalized_bounds by fastforce

lemma outstanding_append:
  "outstanding (ms @ [(j, m)]) k = outstanding ms k + (if mv_reverted m then 0 else taken (mv_allocations m) k)"
  by (simp add: outstanding_def)

lemma outstanding_revert:
  assumes "distinct (map fst ms)" and "map_of ms j = Some m" and "\<not> mv_reverted m"
  shows "outstanding (AList.update j (m\<lparr>mv_reverted := True\<rparr>) ms) k = outstanding ms k - taken (mv_allocations m) k"
  using sum_update_present [OF assms(1,2), of "\<lambda>(_, m). if mv_reverted m then 0 else taken (mv_allocations m) k"] assms(3)
  by (simp add: outstanding_def)

lemma outstanding_nonneg:
  assumes "pantry_inv h s"
  shows "0 \<le> outstanding (pl_movements s) k"
  unfolding outstanding_def
  by (rule sum_list_nonneg) (use pantry_invD(5) [OF assms] taken_nonneg in \<open>auto simp: movement_ok_def\<close>)

section \<open>The effect of the operations\<close>

lemma pantry_begin_Inr:
  assumes "pantry_begin rid er digest s = Inr replay"
  shows "is_identity rid" "pantry_replay rid digest s = Inr replay"
proof -
  show id: "is_identity rid" using assms by (cases "is_identity rid") (simp_all add: pantry_begin_def pantry_identity_def)
  obtain q where "pantry_replay rid digest s = Inr q"
    using assms id by (cases "pantry_replay rid digest s") (simp_all add: pantry_begin_def pantry_identity_def)
  then show "pantry_replay rid digest s = Inr replay"
    using assms id by (cases q) (simp_all add: pantry_begin_def pantry_identity_def split: if_split_asm)
qed

lemma pantry_begin_None:
  assumes "pantry_begin rid er digest s = Inr None"
  shows "is_identity rid" "rid \<notin> fst ` set (pl_receipts s)" "er = pl_revision s"
    "int (length (pl_receipts s)) < pl_max_receipts s"
proof -
  note b = pantry_begin_Inr [OF assms]
  show "is_identity rid" by (rule b(1))
  show "rid \<notin> fst ` set (pl_receipts s)"
    using b(2) by (cases "map_of (pl_receipts s) rid") (auto simp: pantry_replay_def map_of_eq_None_iff split: if_splits)
  show "er = pl_revision s" "int (length (pl_receipts s)) < pl_max_receipts s"
    using assms b by (simp_all add: pantry_begin_def pantry_identity_def split: if_split_asm)
qed

lemma pantry_begin_Some:
  assumes "pantry_begin rid er digest s = Inr (Some r)"
  shows "map_of (pl_receipts s) rid = Some (digest, r)" "is_identity rid"
  using pantry_begin_Inr [OF assms]
  by (cases "map_of (pl_receipts s) rid"; auto simp: pantry_replay_def split: if_splits)+

lemma pantry_begin_replay:
  assumes "map_of (pl_receipts s) rid = Some (digest, r)" and "is_identity rid"
  shows "pantry_begin rid er digest s = Inr (Some r)"
  using assms by (simp add: pantry_begin_def pantry_identity_def pantry_replay_def)

definition new_receipt :: "pantry_hash \<Rightarrow> string \<Rightarrow> movement_kind \<Rightarrow> stock_allocation list \<Rightarrow> pantry \<Rightarrow> stock_receipt" where
  "new_receipt h rid kind allocs s = \<lparr>sr_request_id = rid, sr_movement_id = movement_of h rid kind,
     sr_revision = pl_revision s + 1, sr_kind = kind, sr_allocations = allocs\<rparr>"

text \<open>In an accounted ledger the receipt is always well formed, so finishing cannot fail.\<close>

lemma pantry_finish_ok:
  assumes "pantry_inv h s0" and "pl_revision s = pl_revision s0" "pl_receipts s = pl_receipts s0"
    and "pantry_begin rid er digest s0 = Inr None" and "list_all valid_allocation allocs"
  shows "pantry_finish h rid digest kind allocs s =
    (Inr (new_receipt h rid kind allocs s0), s\<lparr>pl_revision := pl_revision s0 + 1,
       pl_receipts := pl_receipts s0 @ [(rid, digest, new_receipt h rid kind allocs s0)]\<rparr>)"
proof -
  have "is_revision (pl_revision s0 + 1)"
    using pantry_invD(7-9) [OF assms(1)] pantry_begin_None(4) [OF assms(4)] by (simp add: is_revision_def)
  then show ?thesis
    using assms(2,3,5) pantry_begin_None(2) [OF assms(4)]
    by (simp add: pantry_finish_def Let_def valid_receipt_def new_receipt_def update_fresh)
qed

text \<open>\<open>pantry_write\<close> is the state after a request that was carried out: the receipt is filed and
  the revision raised.\<close>

definition pantry_write :: "string \<Rightarrow> string \<Rightarrow> stock_receipt \<Rightarrow> pantry \<Rightarrow> pantry" where
  "pantry_write rid digest r s = s\<lparr>pl_revision := pl_revision s + 1, pl_receipts := pl_receipts s @ [(rid, digest, r)]\<rparr>"

lemma pantry_write_inv:
  assumes inv: "pantry_inv h s" and start: "pantry_begin rid er digest s = Inr None"
    and fields: "pl_revision t = pl_revision s" "pl_receipts t = pl_receipts s" "pl_max_receipts t = pl_max_receipts s"
    and keys: "distinct (map fst (pl_lots t))" "distinct (map fst (pl_movements t))" "distinct (map (ls_sequence \<circ> snd) (pl_lots t))"
    and lots: "\<And>k l. (k, l) \<in> set (pl_lots t) \<Longrightarrow> lot_accounted t k l"
    and moves: "\<And>j m. (j, m) \<in> set (pl_movements t) \<Longrightarrow> list_all valid_allocation (mv_allocations m) \<and>
       al_lot_id ` set (mv_allocations m) \<subseteq> fst ` set (pl_lots t) \<and>
       (\<exists>r \<in> insert rid (fst ` set (pl_receipts s)). is_identity r \<and> j = movement_of h r M_consume)"
  shows "pantry_inv h (pantry_write rid digest r t)"
proof -
  have acc: "lot_accounted (pantry_write rid digest r t) k l" if "(k, l) \<in> set (pl_lots t)" for k l
    using lots [OF that] by (simp add: lot_accounted_def pantry_write_def)
  have mov: "movement_ok h (pantry_write rid digest r t) j m" if "(j, m) \<in> set (pl_movements t)" for j m
    using moves [OF that] fields(2) by (auto simp: movement_ok_def pantry_write_def)
  show ?thesis
    using pantry_invD(3,7-9) [OF inv] pantry_begin_None(2,4) [OF start] fields keys acc mov
    unfolding pantry_inv_def by (auto simp: pantry_write_def)
qed


text \<open>The errors a client can see. A malformed lot or amount raises \<open>ValidationError\<close>.\<close>

definition pantry_errors :: "error set" where
  "pantry_errors = insert ValidationError (PantryConflict ` {''invalid_request'', ''idempotency_conflict'',
     ''revision_conflict'', ''receipt_capacity'', ''duplicate_lot'', ''lot_capacity'', ''insufficient_stock'',
     ''movement_not_found'', ''already_reverted''})"

lemma pantry_errors_mem [simp]:
  "ValidationError \<in> pantry_errors" "PantryConflict ''invalid_request'' \<in> pantry_errors"
  "PantryConflict ''duplicate_lot'' \<in> pantry_errors" "PantryConflict ''lot_capacity'' \<in> pantry_errors"
  "PantryConflict ''insufficient_stock'' \<in> pantry_errors" "PantryConflict ''movement_not_found'' \<in> pantry_errors"
  "PantryConflict ''already_reverted'' \<in> pantry_errors"
  by (simp_all add: pantry_errors_def)

lemma pantry_begin_Inl:
  assumes "pantry_begin rid er digest s = Inl e"
  shows "e \<in> pantry_errors"
proof (cases "is_identity rid")
  case True
  show ?thesis
  proof (cases "pantry_replay rid digest s")
    case (Inl e')
    then have "e = e'" using assms True by (simp add: pantry_begin_def pantry_identity_def)
    with Inl show ?thesis
      by (cases "map_of (pl_receipts s) rid") (auto simp: pantry_replay_def pantry_errors_def split: if_splits)
  next
    case (Inr q)
    then show ?thesis using assms True
      by (cases q) (simp_all add: pantry_begin_def pantry_identity_def pantry_errors_def split: if_split_asm)
  qed
qed (use assms in \<open>simp add: pantry_begin_def pantry_identity_def pantry_errors_def\<close>)

lemma movement_ok_carry:
  assumes "movement_ok h s j m" and "fst ` set (pl_lots s) \<subseteq> K"
  shows "list_all valid_allocation (mv_allocations m) \<and> al_lot_id ` set (mv_allocations m) \<subseteq> K \<and>
    (\<exists>r \<in> insert rid (fst ` set (pl_receipts s)). is_identity r \<and> j = movement_of h r M_consume)"
  using assms unfolding movement_ok_def by blast

lemma receive_cases:
  assumes inv: "pantry_inv h s" and run: "receive h rid er raw s = (res, s')"
  obtains (refused) e where "res = Inl e" "s' = s" "e \<in> pantry_errors"
  | (replayed) lot r where "raw = Some lot" "valid_lot lot" "res = Inr r" "s' = s" "is_identity rid"
      "map_of (pl_receipts s) rid = Some (request_digest_of h (Receive_request er lot), r)"
  | (written) lot kind quantity where "raw = Some lot" "valid_lot lot"
      "pantry_begin rid er (request_digest_of h (Receive_request er lot)) s = Inr None"
      "sl_id lot \<notin> fst ` set (pl_lots s)" "normalized (sl_amount lot) = Inr (kind, quantity)"
      "res = Inr (new_receipt h rid M_receive [] s)"
      "s' = pantry_write rid (request_digest_of h (Receive_request er lot)) (new_receipt h rid M_receive [] s)
         (s\<lparr>pl_sequence := pl_sequence s + 1, pl_lots := pl_lots s @ [(sl_id lot,
            \<lparr>ls_value = lot, ls_measure = kind, ls_remaining = quantity, ls_sequence = pl_sequence s + 1\<rparr>)]\<rparr>)"
proof (cases "model_validate valid_lot raw")
  case None
  then show thesis using run refused by (auto simp: receive_def)
next
  case (Some lot)
  then have lot: "raw = Some lot" "valid_lot lot" by simp_all
  let ?digest = "request_digest_of h (Receive_request er lot)"
  show thesis
  proof (cases "pantry_begin rid er ?digest s")
    case (Inl e)
    then show thesis using run by (intro refused [OF _ _ pantry_begin_Inl [OF Inl]]) (auto simp: receive_def Some)
  next
    case (Inr replay)
    show thesis
    proof (cases replay)
      case (Some r)
      then show thesis
        using run pantry_begin_Some [of rid er ?digest s r] Inr \<open>model_validate valid_lot raw = Some lot\<close>
        by (intro replayed [OF lot, of r]) (auto simp: receive_def)
    next
      case None
      with Inr have beg: "pantry_begin rid er ?digest s = Inr None" by simp
      obtain kind quantity where norm: "normalized (sl_amount lot) = Inr (kind, quantity)"
        using lot(2) normalized_bounds [of "sl_amount lot"] by (auto simp: valid_lot_def)
      show thesis
      proof (cases "map_of (pl_lots s) (sl_id lot) \<noteq> None \<or> int (length (pl_lots s)) \<ge> pl_max_lots s")
        case True
        then show thesis using run refused beg \<open>model_validate valid_lot raw = Some lot\<close>
          by (auto simp: receive_def split: if_splits)
      next
        case False
        then have new: "sl_id lot \<notin> fst ` set (pl_lots s)" by (simp add: map_of_eq_None_iff)
        note fin = pantry_finish_ok [OF inv _ _ beg, of "s\<lparr>pl_sequence := pl_sequence s + 1, pl_lots := pl_lots s @ [(sl_id lot,
            \<lparr>ls_value = lot, ls_measure = kind, ls_remaining = quantity, ls_sequence = pl_sequence s + 1\<rparr>)]\<rparr>" "[]" M_receive]
        show thesis
          using run False \<open>model_validate valid_lot raw = Some lot\<close> beg norm fin
          by (intro written [OF lot beg new norm])
            (auto simp: receive_def update_fresh [OF new] pantry_write_def split: if_splits)
      qed
    qed
  qed
qed

lemma receive_inv:
  assumes inv: "pantry_inv h s"
  shows "pantry_inv h (snd (receive h rid er raw s))"
proof -
  obtain res s' where run: "receive h rid er raw s = (res, s')" by (cases "receive h rid er raw s")
  from inv run have "pantry_inv h s'"
  proof (cases rule: receive_cases)
    case (written lot kind quantity)
    note norm = normalized_range [OF _ written(5)]
    have seq: "ls_sequence l \<le> pl_sequence s" if "(k, l) \<in> set (pl_lots s)" for k l
      using pantry_invD(4) [OF inv that] by (simp add: lot_accounted_def)
    have none: "outstanding (pl_movements s) (sl_id lot) = 0"
    proof -
      have "taken (mv_allocations m) (sl_id lot) = 0" if "(j, m) \<in> set (pl_movements s)" for j m
        using pantry_invD(5) [OF inv that] written(4) by (intro taken_other) (auto simp: movement_ok_def)
      then have "map (\<lambda>(_, m). if mv_reverted m then 0 else taken (mv_allocations m) (sl_id lot)) (pl_movements s) =
          map (\<lambda>_. 0) (pl_movements s)" by (intro map_cong) auto
      then show ?thesis unfolding outstanding_def by (simp only: sum_list_0)
    qed
    let ?new = "\<lparr>ls_value = lot, ls_measure = kind, ls_remaining = quantity, ls_sequence = pl_sequence s + 1\<rparr>"
    let ?t = "s\<lparr>pl_sequence := pl_sequence s + 1, pl_lots := pl_lots s @ [(sl_id lot, ?new)]\<rparr>"
    have acc: "lot_accounted ?t k l" if "(k, l) \<in> set (pl_lots s)" for k l
      using pantry_invD(4) [OF inv that] by (simp add: lot_accounted_def)
    have new: "lot_accounted ?t (sl_id lot) ?new"
      using written(2,5) none norm by (simp add: lot_accounted_def valid_lot_def)
    have fresh: "pl_sequence s + 1 \<notin> (ls_sequence \<circ> snd) ` set (pl_lots s)" using seq by force
    show ?thesis unfolding written(7)
    proof (rule pantry_write_inv [OF inv written(3)])
      show "distinct (map (ls_sequence \<circ> snd) (pl_lots ?t))" using pantry_invD(6) [OF inv] fresh by simp
      show "lot_accounted ?t k l" if "(k, l) \<in> set (pl_lots ?t)" for k l using that acc new by auto
      show "list_all valid_allocation (mv_allocations m) \<and> al_lot_id ` set (mv_allocations m) \<subseteq> fst ` set (pl_lots ?t) \<and>
          (\<exists>r \<in> insert rid (fst ` set (pl_receipts s)). is_identity r \<and> j = movement_of h r M_consume)"
        if "(j, m) \<in> set (pl_movements ?t)" for j m
        by (rule movement_ok_carry [of h s]) (use pantry_invD(5) [OF inv] that in auto)
    qed (use pantry_invD(1,2) [OF inv] written(4) in simp_all)
  qed (use inv in simp_all)
  then show ?thesis by (simp add: run)
qed

lemma candidates_lots:
  assumes inv: "pantry_inv h s"
  shows "distinct (map (\<lambda>c. sl_id (ls_value c)) (candidates key kind s))"
    "list_all (\<lambda>c. 0 < ls_remaining c) (candidates key kind s)"
    "\<And>c. c \<in> set (candidates key kind s) \<longleftrightarrow> (sl_id (ls_value c), c) \<in> set (pl_lots s) \<and>
       sl_ingredient_key (ls_value c) = key \<and> ls_measure c = kind \<and> 0 < ls_remaining c"
proof -
  have id: "sl_id (ls_value l) = k" if "(k, l) \<in> set (pl_lots s)" for k l
    using pantry_invD(4) [OF inv that] by (simp add: lot_accounted_def)
  have keys: "map (\<lambda>c. sl_id (ls_value c)) (map snd (pl_lots s)) = map fst (pl_lots s)"
    using id by (auto simp: comp_def)
  have "distinct (map (\<lambda>c. sl_id (ls_value c)) (map snd (pl_lots s)))" using pantry_invD(1) [OF inv] by (simp only: keys)
  then have "inj_on (\<lambda>c. sl_id (ls_value c)) (set (map snd (pl_lots s)))" "distinct (map snd (pl_lots s))"
    unfolding distinct_map by blast+
  then show "distinct (map (\<lambda>c. sl_id (ls_value c)) (candidates key kind s))"
    by (auto simp: candidates_def distinct_map intro: inj_on_subset)
  show "list_all (\<lambda>c. 0 < ls_remaining c) (candidates key kind s)" by (auto simp: candidates_def list_all_iff)
  show "c \<in> set (candidates key kind s) \<longleftrightarrow> (sl_id (ls_value c), c) \<in> set (pl_lots s) \<and>
       sl_ingredient_key (ls_value c) = key \<and> ls_measure c = kind \<and> 0 < ls_remaining c" for c
  proof -
    have "c \<in> snd ` set (pl_lots s) \<longleftrightarrow> (sl_id (ls_value c), c) \<in> set (pl_lots s)"
    proof
      assume "c \<in> snd ` set (pl_lots s)"
      then obtain k where "(k, c) \<in> set (pl_lots s)" by auto
      with id [OF this] show "(sl_id (ls_value c), c) \<in> set (pl_lots s)" by simp
    qed (metis image_eqI snd_conv)
    then show ?thesis by (simp add: candidates_def)
  qed
qed

lemma allocated_lot:
  assumes inv: "pantry_inv h s" and kl: "(k, l) \<in> set (pl_lots s)" and k: "k \<in> al_lot_id ` set allocs"
    and run: "allocate q (candidates key kind s) = Inr allocs"
  shows "l \<in> set (candidates key kind s)"
proof -
  obtain c where c: "c \<in> set (candidates key kind s)" "sl_id (ls_value c) = k" using allocate_ids [OF run] k by auto
  then have "(k, c) \<in> set (pl_lots s)" using candidates_lots(3) [OF inv, of c] by simp
  with kl pantry_invD(1) [OF inv] have "c = l" by (metis eq_key_imp_eq_value)
  with c(1) show ?thesis by simp
qed

lemma consume_cases:
  assumes inv: "pantry_inv h s" and run: "consume h rid er key raw s = (res, s')"
  obtains (refused) e where "res = Inl e" "s' = s" "e \<in> pantry_errors"
  | (replayed) amount kind quantity r where "raw = Some amount" "valid_amount amount" "key \<noteq> ''''" "ingredient_ok key"
      "length key \<le> 80" "normalized amount = Inr (kind, quantity)" "res = Inr r" "s' = s" "is_identity rid"
      "map_of (pl_receipts s) rid = Some (request_digest_of h (Consume_request er key kind quantity), r)"
  | (written) amount kind quantity allocs where "raw = Some amount" "valid_amount amount"  "key \<noteq> ''''" "ingredient_ok key"
      "length key \<le> 80"
      "normalized amount = Inr (kind, quantity)"
      "pantry_begin rid er (request_digest_of h (Consume_request er key kind quantity)) s = Inr None"
      "quantity \<le> sum_list (map ls_remaining (candidates key kind s))"
      "allocate quantity (candidates key kind s) = Inr allocs"
      "list_all valid_allocation allocs" "sum_list (map al_quantity allocs) = quantity"
      "res = Inr (new_receipt h rid M_consume allocs s)"
      "s' = pantry_write rid (request_digest_of h (Consume_request er key kind quantity)) (new_receipt h rid M_consume allocs s)
         (s\<lparr>pl_lots := shift_lots (\<lambda>k. - taken allocs k) (pl_lots s), pl_movements := AList.update (movement_of h rid M_consume)
            \<lparr>mv_allocations = allocs, mv_reverted = False\<rparr> (pl_movements s)\<rparr>)"
proof (cases "model_validate valid_amount raw")
  case None
  then show thesis using run refused by (auto simp: consume_def)
next
  case (Some amount)
  then have amount: "raw = Some amount" "valid_amount amount" by simp_all
  obtain kind quantity where norm: "normalized amount = Inr (kind, quantity)" "1 \<le> quantity" "quantity \<le> 10000000000"
    using normalized_bounds [OF amount(2)] by blast
  let ?digest = "request_digest_of h (Consume_request er key kind quantity)"
  let ?cs = "candidates key kind s"
  show thesis
  proof (cases "key \<noteq> '''' \<and> ingredient_ok key \<and> length key \<le> 80")
    case False
    then show thesis using run refused Some by (auto simp: consume_def)
  next
    case True
    then have key: "key \<noteq> ''''" "ingredient_ok key" "length key \<le> 80" by simp_all
    have unfolded: "consume h rid er key raw s = (case pantry_begin rid er ?digest s of
        Inl e \<Rightarrow> (Inl e, s)
      | Inr (Some r) \<Rightarrow> (Inr r, s)
      | Inr None \<Rightarrow> consume_new h rid ?digest key kind quantity s)"
      using key norm(1) amount by (simp add: consume_def Let_def model_validate_def)
    show thesis
    proof (cases "pantry_begin rid er ?digest s")
      case (Inl e)
      then show thesis using run unfolded by (intro refused [OF _ _ pantry_begin_Inl [OF Inl]]) auto
    next
      case (Inr replay)
      show thesis
      proof (cases replay)
        case (Some r)
        then show thesis
          using run pantry_begin_Some [of rid er ?digest s r] Inr unfolded
          by (intro replayed [OF amount key norm(1), of r]) auto
      next
        case None
        with Inr have beg: "pantry_begin rid er ?digest s = Inr None" by simp
        show thesis
        proof (cases "sum_list (map ls_remaining ?cs) < quantity")
          case True
          then show thesis using run refused unfolded beg by (auto simp: consume_new_def)
        next
          case False
          then have enough: "quantity \<le> sum_list (map ls_remaining ?cs)" by simp
          obtain allocs where al: "allocate quantity ?cs = Inr allocs" "list_all valid_allocation allocs"
            "sum_list (map al_quantity allocs) = quantity"
            using allocate_total [OF candidates_lots(2) [OF inv] _ norm(3) enough] norm(2) by auto
          note fin = pantry_finish_ok [OF inv _ _ beg al(2), of "s\<lparr>pl_lots := take_all allocs (pl_lots s)\<rparr>" M_consume]
          show thesis
            using run unfolded beg al(1) False fin
            by (intro written [OF amount key norm(1) beg enough al])
              (auto simp: consume_new_def Let_def pantry_write_def new_receipt_def take_all_shift [OF pantry_invD(1) [OF inv]])
        qed
      qed
    qed
  qed
qed

lemma shift_lots_member:
  "(k, l) \<in> set (shift_lots g lots) \<longleftrightarrow> (\<exists>l0. (k, l0) \<in> set lots \<and> l = l0\<lparr>ls_remaining := ls_remaining l0 + g k\<rparr>)"
  by (auto simp: shift_lots_def)

lemma shift_lots_fst [simp]: "fst ` set (shift_lots g lots) = fst ` set lots"
  by (metis set_map shift_lots_keys)

lemma shift_lots_sequences [simp]: "map (ls_sequence \<circ> snd) (shift_lots g lots) = map (ls_sequence \<circ> snd) lots"
  by (simp add: shift_lots_def case_prod_beta comp_def)


lemma movement_fresh:
  assumes "movements_apart h" and "pantry_inv h s" and "pantry_begin rid er digest s = Inr None"
  shows "movement_of h rid M_consume \<notin> fst ` set (pl_movements s)"
proof
  assume "movement_of h rid M_consume \<in> fst ` set (pl_movements s)"
  then obtain m where "(movement_of h rid M_consume, m) \<in> set (pl_movements s)" by auto
  then obtain r where "r \<in> fst ` set (pl_receipts s)" "is_identity r" "movement_of h rid M_consume = movement_of h r M_consume"
    using pantry_invD(5) [OF assms(2)] unfolding movement_ok_def by blast
  with assms(1) pantry_begin_None(1,2) [OF assms(3)] show False unfolding movements_apart_def inj_on_def by blast
qed

lemma consume_inv:
  assumes apart: "movements_apart h" and inv: "pantry_inv h s"
  shows "pantry_inv h (snd (consume h rid er key raw s))"
proof -
  obtain res s' where run: "consume h rid er key raw s = (res, s')" by (cases "consume h rid er key raw s")
  from inv run have "pantry_inv h s'"
  proof (cases rule: consume_cases)
    case (written amount kind quantity allocs)
    let ?j = "movement_of h rid M_consume" and ?m = "\<lparr>mv_allocations = allocs, mv_reverted = False\<rparr>"
    let ?cs = "candidates key kind s"
    note beg = pantry_begin_None [OF written(7)]
    have fresh: "?j \<notin> fst ` set (pl_movements s)" by (rule movement_fresh [OF apart inv written(7)])
    let ?t = "s\<lparr>pl_lots := shift_lots (\<lambda>k. - taken allocs k) (pl_lots s), pl_movements := pl_movements s @ [(?j, ?m)]\<rparr>"
    have ids: "al_lot_id ` set allocs \<subseteq> fst ` set (pl_lots s)"
    proof -
      have "(\<lambda>c. sl_id (ls_value c)) ` set ?cs \<subseteq> fst ` set (pl_lots s)"
        using candidates_lots(3) [OF inv, of _ key kind] by (auto intro: rev_image_eqI)
      then show ?thesis using allocate_ids [OF written(9)] by (rule order_trans [rotated])
    qed
    have acc: "lot_accounted ?t k l" if "(k, l) \<in> set (shift_lots (\<lambda>k. - taken allocs k) (pl_lots s))" for k l
    proof -
      obtain l0 where l0: "(k, l0) \<in> set (pl_lots s)" "l = l0\<lparr>ls_remaining := ls_remaining l0 - taken allocs k\<rparr>"
        using \<open>(k, l) \<in> set (shift_lots (\<lambda>k. - taken allocs k) (pl_lots s))\<close> by (auto simp: shift_lots_member)
      note old = pantry_invD(4) [OF inv l0(1)]
      have id: "sl_id (ls_value l0) = k" using old by (simp add: lot_accounted_def)
      have "taken allocs k \<le> ls_remaining l0"
      proof (cases "l0 \<in> set ?cs")
        case True
        then show ?thesis using allocate_bounded [OF written(9) candidates_lots(1) [OF inv] True candidates_lots(2) [OF inv]] id by simp
      next
        case False
        then have "k \<notin> al_lot_id ` set allocs" using allocated_lot [OF inv l0(1) _ written(9)] by blast
        then show ?thesis using old by (simp add: taken_other lot_accounted_def)
      qed
      then show ?thesis using old l0(2) by (simp add: lot_accounted_def outstanding_append)
    qed
    have "pantry_inv h (pantry_write rid (request_digest_of h (Consume_request er key kind quantity))
        (new_receipt h rid M_consume allocs s) ?t)"
    proof (rule pantry_write_inv [OF inv written(7)])
      show "lot_accounted ?t k l" if "(k, l) \<in> set (pl_lots ?t)" for k l using that acc by simp
      show "list_all valid_allocation (mv_allocations m) \<and> al_lot_id ` set (mv_allocations m) \<subseteq> fst ` set (pl_lots ?t) \<and>
          (\<exists>r \<in> insert rid (fst ` set (pl_receipts s)). is_identity r \<and> j = movement_of h r M_consume)"
        if "(j, m) \<in> set (pl_movements ?t)" for j m
      proof (cases "(j, m) \<in> set (pl_movements s)")
        case True
        show ?thesis by (rule movement_ok_carry [of h s]) (use pantry_invD(5) [OF inv True] in simp_all)
      next
        case False
        then show ?thesis using that written(10) ids beg(1) by simp
      qed
    qed (use pantry_invD(1,2,6) [OF inv] fresh in simp_all)
    then show ?thesis by (simp add: written(13) update_fresh [OF fresh])
  qed (use inv in simp_all)
  then show ?thesis by (simp add: run)
qed


lemma undo_cases:
  assumes inv: "pantry_inv h s" and run: "undo h rid er mid s = (res, s')"
  obtains (refused) e where "res = Inl e" "s' = s" "e \<in> pantry_errors"
  | (replayed) r where "is_identity mid" "res = Inr r" "s' = s" "is_identity rid"
      "map_of (pl_receipts s) rid = Some (request_digest_of h (Undo_request er mid), r)"
  | (written) m where "is_identity mid" "pantry_begin rid er (request_digest_of h (Undo_request er mid)) s = Inr None"
      "map_of (pl_movements s) mid = Some m" "\<not> mv_reverted m"
      "res = Inr (new_receipt h rid M_undo (mv_allocations m) s)"
      "s' = pantry_write rid (request_digest_of h (Undo_request er mid)) (new_receipt h rid M_undo (mv_allocations m) s)
         (s\<lparr>pl_lots := shift_lots (taken (mv_allocations m)) (pl_lots s),
            pl_movements := AList.update mid (m\<lparr>mv_reverted := True\<rparr>) (pl_movements s)\<rparr>)"
proof (cases "is_identity mid")
  case False
  then show thesis using run refused by (auto simp: undo_def pantry_identity_def)
next
  case True
  let ?digest = "request_digest_of h (Undo_request er mid)"
  show thesis
  proof (cases "pantry_begin rid er ?digest s")
    case (Inl e)
    then show thesis using run True by (intro refused [OF _ _ pantry_begin_Inl [OF Inl]]) (auto simp: undo_def pantry_identity_def)
  next
    case (Inr replay)
    show thesis
    proof (cases replay)
      case (Some r)
      then show thesis using run True Inr pantry_begin_Some [of rid er ?digest s r]
        by (intro replayed [OF True, of r]) (auto simp: undo_def pantry_identity_def)
    next
      case None
      with Inr have beg: "pantry_begin rid er ?digest s = Inr None" by simp
      show thesis
      proof (cases "map_of (pl_movements s) mid")
        case None
        then show thesis using run refused True beg by (auto simp: undo_def pantry_identity_def)
      next
        case (Some m)
        have ok: "movement_ok h s mid m" using pantry_invD(5) [OF inv map_of_SomeD [OF Some]] .
        have present: "\<not> list_ex (\<lambda>a. map_of (pl_lots s) (al_lot_id a) = None) (mv_allocations m)"
          using ok by (auto simp: movement_ok_def list_ex_iff map_of_eq_None_iff)
        have valid: "list_all valid_allocation (mv_allocations m)" using ok by (simp add: movement_ok_def)
        note fin = pantry_finish_ok [OF inv _ _ beg valid, of "s\<lparr>pl_lots := return_all (mv_allocations m) (pl_lots s),
            pl_movements := AList.update mid (m\<lparr>mv_reverted := True\<rparr>) (pl_movements s)\<rparr>" M_undo]
        show thesis
        proof (cases "mv_reverted m")
          case True
          then show thesis using run refused \<open>is_identity mid\<close> beg Some by (auto simp: undo_def pantry_identity_def)
        next
          case False
          then show thesis using run \<open>is_identity mid\<close> beg Some present fin
            by (intro written [OF \<open>is_identity mid\<close> beg Some])
              (auto simp: undo_def pantry_identity_def Let_def pantry_write_def return_all_shift [OF pantry_invD(1) [OF inv]])
        qed
      qed
    qed
  qed
qed

lemma undo_inv:
  assumes inv: "pantry_inv h s"
  shows "pantry_inv h (snd (undo h rid er mid s))"
proof -
  obtain res s' where run: "undo h rid er mid s = (res, s')" by (cases "undo h rid er mid s")
  from inv run have "pantry_inv h s'"
  proof (cases rule: undo_cases)
    case (written m)
    let ?M = "AList.update mid (m\<lparr>mv_reverted := True\<rparr>) (pl_movements s)"
    let ?t = "s\<lparr>pl_lots := shift_lots (taken (mv_allocations m)) (pl_lots s), pl_movements := ?M\<rparr>"
    have ok: "movement_ok h s mid m" using pantry_invD(5) [OF inv map_of_SomeD [OF written(3)]] .
    note rev = outstanding_revert [OF pantry_invD(2) [OF inv] written(3,4)]
    have acc: "lot_accounted ?t k l" if kl: "(k, l) \<in> set (shift_lots (taken (mv_allocations m)) (pl_lots s))" for k l
    proof -
      obtain l0 where l0: "(k, l0) \<in> set (pl_lots s)" "l = l0\<lparr>ls_remaining := ls_remaining l0 + taken (mv_allocations m) k\<rparr>"
        using kl by (auto simp: shift_lots_member)
      have "0 \<le> taken (mv_allocations m) k" using ok by (intro taken_nonneg) (simp add: movement_ok_def)
      then show ?thesis using pantry_invD(4) [OF inv l0(1)] l0(2) by (simp add: lot_accounted_def rev)
    qed
    show ?thesis unfolding written(6)
    proof (rule pantry_write_inv [OF inv written(2)])
      show "lot_accounted ?t k l" if "(k, l) \<in> set (pl_lots ?t)" for k l using that acc by simp
      show "list_all valid_allocation (mv_allocations n) \<and> al_lot_id ` set (mv_allocations n) \<subseteq> fst ` set (pl_lots ?t) \<and>
          (\<exists>r \<in> insert rid (fst ` set (pl_receipts s)). is_identity r \<and> j = movement_of h r M_consume)"
        if "(j, n) \<in> set (pl_movements ?t)" for j n
      proof -
        have "map_of ?M j = Some n" using that pantry_invD(2) [OF inv] by (simp add: distinct_update)
        then have "movement_ok h s j n"
          using ok pantry_invD(5) [OF inv map_of_SomeD] by (auto simp: update_conv' movement_ok_def split: if_splits)
        then show ?thesis by (intro movement_ok_carry) simp_all
      qed
    qed (use pantry_invD(1,2,6) [OF inv] in \<open>simp_all add: distinct_update\<close>)
  qed (use inv in simp_all)
  then show ?thesis by (simp add: run)
qed

section \<open>Reachable ledgers\<close>

text \<open>The calls a client can make, and the step they cause.\<close>

datatype pantry_call =
    Call_receive string int "stock_lot raw"
  | Call_consume string int string "stock_amount raw"
  | Call_undo string int string

fun run_call :: "pantry_hash \<Rightarrow> pantry_call \<Rightarrow> pantry \<Rightarrow> stock_receipt result \<times> pantry" where
  "run_call h (Call_receive rid er lot) s = receive h rid er lot s"
| "run_call h (Call_consume rid er key amount) s = consume h rid er key amount s"
| "run_call h (Call_undo rid er mid) s = undo h rid er mid s"

inductive pantry_step :: "pantry_hash \<Rightarrow> pantry \<Rightarrow> pantry \<Rightarrow> bool" for h where
  call: "pantry_step h s (snd (run_call h c s))"

inductive_cases pantry_stepE: "pantry_step h s t"

definition pantry_reach :: "pantry_hash \<Rightarrow> pantry \<Rightarrow> bool" where
  "pantry_reach h s \<longleftrightarrow> (\<exists>max_lots max_receipts s0. pantry_init max_lots max_receipts = Inr s0 \<and> (pantry_step h)\<^sup>*\<^sup>* s0 s)"

lemma run_call_inv:
  assumes "movements_apart h" and "pantry_inv h s"
  shows "pantry_inv h (snd (run_call h c s))"
  using assms receive_inv consume_inv undo_inv by (cases c) simp_all

lemma pantry_step_inv: "movements_apart h \<Longrightarrow> pantry_step h s t \<Longrightarrow> pantry_inv h s \<Longrightarrow> pantry_inv h t"
  using run_call_inv by (auto elim!: pantry_stepE)

interpretation pantry: stable_step "pantry_step h" "\<lambda>s. movements_apart h \<and> pantry_inv h s"
  by unfold_locales (auto intro: pantry_step_inv)

lemma pantry_init_inv: "pantry_init a b = Inr s \<Longrightarrow> pantry_inv h s"
  by (auto simp: pantry_init_def pantry_inv_def split: if_splits)

lemma pantry_reach_inv: "movements_apart h \<Longrightarrow> pantry_reach h s \<Longrightarrow> pantry_inv h s"
  unfolding pantry_reach_def using pantry_init_inv pantry.steps_inv by blast


section \<open>First expiring first\<close>

lemma candidates_before:
  assumes "c \<in> set (candidates key kind s)" "d \<in> set (candidates key kind s)" and "lot_key c < lot_key d"
  obtains xs ys where "candidates key kind s = xs @ c # ys" "d \<in> set ys"
proof -
  obtain xs ys where split: "candidates key kind s = xs @ c # ys" using assms(1) by (meson split_list)
  have "sorted (map lot_key (candidates key kind s))" by (simp add: candidates_def)
  then have "\<forall>x \<in> set xs. lot_key x \<le> lot_key c" by (auto simp: split sorted_append)
  then have "d \<notin> set xs" "d \<noteq> c" using assms(3) by auto
  then show thesis using that [OF split] assms(2) by (auto simp: split)
qed



section \<open>Requests over time\<close>

lemma run_call_cases:
  assumes "pantry_inv h s" and "run_call h c s = (res, s')"
  obtains (refused) e where "res = Inl e" "s' = s" "e \<in> pantry_errors"
  | (replayed) r where "res = Inr r" "s' = s"
  | (written) rid er digest r t where "res = Inr r" "pantry_begin rid er digest s = Inr None"
      "s' = pantry_write rid digest r t" "pl_receipts t = pl_receipts s" "pl_revision t = pl_revision s"
proof (cases c)
  case (Call_receive rid er lot)
  then have "receive h rid er lot s = (res, s')" using assms(2) by simp
  with assms(1) show thesis
  proof (cases rule: receive_cases)
    case (written l kind quantity)
    show thesis by (rule that(3) [OF written(6,3,7)]) simp_all
  qed (rule that; assumption)+
next
  case (Call_consume rid er key amount)
  then have "consume h rid er key amount s = (res, s')" using assms(2) by simp
  with assms(1) show thesis
  proof (cases rule: consume_cases)
    case (written a kind quantity allocs)
    show thesis by (rule that(3) [OF written(12,7,13)]) simp_all
  qed (rule that; assumption)+
next
  case (Call_undo rid er mid)
  then have "undo h rid er mid s = (res, s')" using assms(2) by simp
  with assms(1) show thesis
  proof (cases rule: undo_cases)
    case (written m)
    show thesis by (rule that(3) [OF written(5,2,6)]) simp_all
  qed (rule that; assumption)+
qed

lemma receipt_kept:
  assumes inv: "pantry_inv h s" and "pantry_step h s t" and "map_of (pl_receipts s) rid = Some x"
  shows "map_of (pl_receipts t) rid = Some x"
proof -
  obtain c where "t = snd (run_call h c s)" using assms(2) by (rule pantry_stepE)
  then obtain res where "run_call h c s = (res, t)" by (metis prod.collapse)
  with inv show ?thesis
  proof (cases rule: run_call_cases)
    case (written rid' er digest r u)
    then show ?thesis using assms(3) pantry_begin_None(2) [OF written(2)]
      by (auto simp: pantry_write_def map_add_Some_iff)
  qed (use assms(3) in simp_all)
qed

text \<open>What makes a call a replay: its identity and the digest of its request are filed.\<close>

fun call_replayable :: "pantry_hash \<Rightarrow> pantry_call \<Rightarrow> stock_receipt \<Rightarrow> pantry \<Rightarrow> bool" where
  "call_replayable h (Call_receive rid er raw) r s = (is_identity rid \<and> (case raw of None \<Rightarrow> False | Some lot \<Rightarrow>
     valid_lot lot \<and> map_of (pl_receipts s) rid = Some (request_digest_of h (Receive_request er lot), r)))"
| "call_replayable h (Call_consume rid er key raw) r s = (is_identity rid \<and> (case raw of None \<Rightarrow> False | Some amount \<Rightarrow>
     valid_amount amount \<and> key \<noteq> '''' \<and> ingredient_ok key \<and> length key \<le> 80 \<and>
     (\<exists>kind q. normalized amount = Inr (kind, q) \<and>
        map_of (pl_receipts s) rid = Some (request_digest_of h (Consume_request er key kind q), r))))"
| "call_replayable h (Call_undo rid er mid) r s = (is_identity rid \<and> is_identity mid \<and>
     map_of (pl_receipts s) rid = Some (request_digest_of h (Undo_request er mid), r))"

lemma call_replayable_replays:
  assumes "call_replayable h c r s"
  shows "run_call h c s = (Inr r, s)"
proof (cases c)
  case (Call_receive rid er raw)
  then show ?thesis using assms pantry_begin_replay [of s rid _ r er]
    by (auto simp: receive_def model_validate_def split: option.splits)
next
  case (Call_consume rid er key raw)
  then show ?thesis using assms pantry_begin_replay [of s rid _ r er]
    by (auto simp: consume_def model_validate_def split: option.splits)
next
  case (Call_undo rid er mid)
  then show ?thesis using assms pantry_begin_replay [of s rid _ r er]
    by (auto simp: undo_def pantry_identity_def)
qed

lemma map_of_new: "k \<notin> fst ` set xs \<Longrightarrow> map_of (xs @ [(k, v)]) k = Some v"
  by (simp add: map_of_eq_None_iff map_add_Some_iff)

lemma call_accepted_replayable:
  assumes inv: "pantry_inv h s" and run: "run_call h c s = (Inr r, s')"
  shows "call_replayable h c r s'"
proof (cases c)
  case (Call_receive rid er lot)
  then have "receive h rid er lot s = (Inr r, s')" using run by simp
  with inv show ?thesis
  proof (cases rule: receive_cases)
    case (written l kind quantity)
    then show ?thesis using Call_receive pantry_begin_None(1,2) [OF written(3)]
      by (simp add: pantry_write_def map_of_new del: map_of_append)
  qed (auto simp: Call_receive)
next
  case (Call_consume rid er key amount)
  then have "consume h rid er key amount s = (Inr r, s')" using run by simp
  with inv show ?thesis
  proof (cases rule: consume_cases)
    case (written a kind quantity allocs)
    then show ?thesis using Call_consume pantry_begin_None(1,2) [OF written(7)]
      by (simp add: pantry_write_def map_of_new del: map_of_append)
  qed (auto simp: Call_consume)
next
  case (Call_undo rid er mid)
  then have "undo h rid er mid s = (Inr r, s')" using run by simp
  with inv show ?thesis
  proof (cases rule: undo_cases)
    case (written m)
    then show ?thesis using Call_undo pantry_begin_None(1,2) [OF written(2)]
      by (simp add: pantry_write_def map_of_new del: map_of_append)
  qed (auto simp: Call_undo)
qed

interpretation pantry_calls: idempotent_calls "pantry_step h" "\<lambda>s. movements_apart h \<and> pantry_inv h s"
    "\<lambda>_ :: unit. run_call h" "call_replayable h"
proof unfold_locales
  show "(movements_apart h \<and> pantry_inv h s') \<and> call_replayable h c r s'"
    if "movements_apart h \<and> pantry_inv h s" "run_call h c s = (Inr r, s')" for s c r s'
    using that call_accepted_replayable run_call_inv by (metis snd_conv)
  show "call_replayable h c r t" if "movements_apart h \<and> pantry_inv h s" "pantry_step h s t" "call_replayable h c r s" for s t c r
    using that receipt_kept by (cases c) (auto split: option.splits)
qed (rule call_replayable_replays)

text \<open>Every request is carried out at most once. A call that was answered with a receipt, sent
  again at any later time, after any other calls, is answered with the same receipt and changes
  nothing.\<close>

theorem pantry_call_once:
  assumes "movements_apart h" and "pantry_reach h s"
    and "run_call h c s = (Inr r, s1)" and "(pantry_step h)\<^sup>*\<^sup>* s1 s2"
  shows "run_call h c s2 = (Inr r, s2)"
  using pantry_calls.retry_any_time [OF _ assms(3,4)] assms(1,2) pantry_reach_inv by blast

text \<open>The ledger needs no rollback. Although it changes its dictionaries in place and can raise in
  between, a call that fails leaves the ledger as it was. The error is one of the documented conflicts
  or a malformed input, never an amount out of range, a receipt that does not validate or a lot that
  is missing.\<close>

theorem pantry_failure_atomic:
  assumes "movements_apart h" and "pantry_reach h s" and "run_call h c s = (Inl e, s')"
  shows "s' = s \<and> e \<in> pantry_errors"
proof
  note inv = pantry_reach_inv [OF assms(1,2)]
  from inv assms(3) show "s' = s" by (cases rule: run_call_cases) simp_all
  from inv assms(3) show "e \<in> pantry_errors" by (cases rule: run_call_cases) simp_all
qed


section \<open>Undoing\<close>

lemma movement_kept:
  assumes apart: "movements_apart h" and inv: "pantry_inv h s" and run: "run_call h c s = (res, t)"
    and m: "map_of (pl_movements s) mid = Some m"
  shows "\<exists>b. map_of (pl_movements t) mid = Some (m\<lparr>mv_reverted := b\<rparr>)"
proof (cases c)
  case (Call_receive rid er lot)
  then have "receive h rid er lot s = (res, t)" using run by simp
  with inv have "pl_movements t = pl_movements s" by (cases rule: receive_cases) (simp_all add: pantry_write_def)
  then show ?thesis using m by (intro exI [of _ "mv_reverted m"]) simp
next
  case (Call_consume rid er key amount)
  then have "consume h rid er key amount s = (res, t)" using run by simp
  with inv show ?thesis
  proof (cases rule: consume_cases)
    case (written a kind quantity allocs)
    have "mid \<noteq> movement_of h rid M_consume"
      using movement_fresh [OF apart inv written(7)] map_of_SomeD [OF m] by force
    then show ?thesis using m by (intro exI [of _ "mv_reverted m"]) (simp add: written(13) pantry_write_def update_conv')
  qed (use m in \<open>intro exI [of _ "mv_reverted m"], simp\<close>)+
next
  case (Call_undo rid er j)
  then have "undo h rid er j s = (res, t)" using run by simp
  with inv show ?thesis
  proof (cases rule: undo_cases)
    case (written n)
    show ?thesis
    proof (cases "j = mid")
      case True
      then have "n = m" using m written(3) by simp
      then show ?thesis by (intro exI [of _ True]) (simp add: written(6) True pantry_write_def update_conv')
    next
      case False
      then show ?thesis using m by (intro exI [of _ "mv_reverted m"]) (simp add: written(6) pantry_write_def update_conv')
    qed
  qed (use m in \<open>intro exI [of _ "mv_reverted m"], simp\<close>)+
qed

lemma movements_persist:
  assumes apart: "movements_apart h" and steps: "(pantry_step h)\<^sup>*\<^sup>* s t" and inv: "pantry_inv h s"
    and m: "map_of (pl_movements s) mid = Some m"
  shows "\<exists>b. map_of (pl_movements t) mid = Some (m\<lparr>mv_reverted := b\<rparr>)"
proof (rule pantry.steps_keep [OF steps])
  show "\<exists>b. map_of (pl_movements s) mid = Some (m\<lparr>mv_reverted := b\<rparr>)"
    using m by (intro exI [of _ "mv_reverted m"]) simp
next
  fix u v
  assume u: "movements_apart h \<and> pantry_inv h u" "pantry_step h u v" "\<exists>b. map_of (pl_movements u) mid = Some (m\<lparr>mv_reverted := b\<rparr>)"
  obtain b where b: "map_of (pl_movements u) mid = Some (m\<lparr>mv_reverted := b\<rparr>)" using u(3) ..
  obtain c where "v = snd (run_call h c u)" using u(2) by (rule pantry_stepE)
  then obtain res where "run_call h c u = (res, v)" by (metis prod.collapse)
  from movement_kept [OF apart _ this b] u(1) show "\<exists>b. map_of (pl_movements v) mid = Some (m\<lparr>mv_reverted := b\<rparr>)" by simp
qed (use apart inv in simp)


section \<open>Instances\<close>

definition pan_hash :: pantry_hash where
  "pan_hash = \<lparr>request_digest_of = \<lambda>q. case q of Receive_request _ l \<Rightarrow> sl_id l | Consume_request _ k _ _ \<Rightarrow> k | Undo_request _ m \<Rightarrow> m,
     movement_of = \<lambda>r _. r\<rparr>"

definition pan_lot :: "char \<Rightarrow> string option \<Rightarrow> stock_lot" where
  "pan_lot c d = \<lparr>sl_id = id_of c, sl_ingredient_key = ''flour'', sl_amount = \<lparr>sa_quantity_millis = 5, sa_unit = U_g\<rparr>, sl_expires_on = d\<rparr>"

definition pan0 :: pantry where
  "pan0 = \<lparr>pl_max_lots = 9, pl_max_receipts = 9, pl_revision = 0, pl_sequence = 0, pl_lots = [], pl_movements = [], pl_receipts = []\<rparr>"

definition pan1 :: pantry where
  "pan1 = snd (run_call pan_hash (Call_receive (id_of (CHR ''1'')) 0 (Some (pan_lot (CHR ''a'') None))) pan0)"

definition pan2 :: pantry where
  "pan2 = snd (run_call pan_hash (Call_receive (id_of (CHR ''2'')) 1 (Some (pan_lot (CHR ''b'') (Some ''2026-02-28'')))) pan1)"

definition pan_consume :: "pantry \<Rightarrow> stock_receipt result \<times> pantry" where
  "pan_consume s = consume pan_hash (id_of (CHR ''3'')) 2 ''flour'' (Some \<lparr>sa_quantity_millis = 7, sa_unit = U_g\<rparr>) s"

definition pan3 :: pantry where "pan3 = snd (pan_consume pan2)"

definition pan_undo :: "char \<Rightarrow> pantry \<Rightarrow> stock_receipt result \<times> pantry" where
  "pan_undo c s = undo pan_hash (id_of c) 3 (id_of (CHR ''3'')) s"

lemma pan_apart: "movements_apart pan_hash"
  by (simp add: movements_apart_def inj_on_def pan_hash_def)

lemma pan_reach: "pantry_reach pan_hash pan2"
proof -
  have "pantry_init 9 9 = Inr pan0" by (simp add: pantry_init_def pan0_def)
  moreover have "(pantry_step pan_hash)\<^sup>*\<^sup>* pan0 pan2"
    unfolding pan2_def pan1_def by (meson call converse_rtranclp_into_rtranclp rtranclp.rtrancl_refl)
  ultimately show ?thesis unfolding pantry_reach_def by blast
qed

lemma pan_consumed: "\<exists>r. pan_consume pan2 = (Inr r, pan3) \<and> sr_movement_id r = id_of (CHR ''3'')"
proof -
  have "case fst (pan_consume pan2) of Inr r \<Rightarrow> sr_movement_id r = id_of (CHR ''3'') | Inl _ \<Rightarrow> False" by code_simp
  then show ?thesis unfolding pan3_def by (cases "pan_consume pan2") (auto split: sum.splits)
qed

lemma pan_fresh: "id_of (CHR ''3'') \<notin> fst ` set (pl_receipts pan2)" "id_of (CHR ''4'') \<notin> fst ` set (pl_receipts pan3)"
  "id_of (CHR ''5'') \<notin> fst ` set (pl_receipts (snd (pan_undo (CHR ''4'') pan3)))"
  by code_simp+



theorem pantry_call_once_witness:
  "\<exists>r. pan_consume pan2 = (Inr r, pan3) \<and> pan_consume (snd (pan_undo (CHR ''4'') pan3)) = (Inr r, snd (pan_undo (CHR ''4'') pan3))"
proof -
  obtain r where r: "pan_consume pan2 = (Inr r, pan3)" using pan_consumed by blast
  let ?c = "Call_consume (id_of (CHR ''3'')) 2 ''flour'' (Some \<lparr>sa_quantity_millis = 7, sa_unit = U_g\<rparr>)"
  have "(pantry_step pan_hash)\<^sup>*\<^sup>* pan3 (snd (pan_undo (CHR ''4'') pan3))"
    using call [of pan_hash pan3 "Call_undo (id_of (CHR ''4'')) 3 (id_of (CHR ''3''))"] unfolding pan_undo_def by auto
  moreover have "run_call pan_hash ?c pan2 = (Inr r, pan3)" using r by (simp add: pan_consume_def)
  ultimately show ?thesis using pantry_call_once [OF pan_apart pan_reach] r by (fastforce simp: pan_consume_def)
qed

theorem pantry_failure_atomic_witness:
  "snd (pan_undo (CHR ''4'') pan2) = pan2"
proof -
  let ?c = "Call_undo (id_of (CHR ''4'')) 3 (id_of (CHR ''3''))"
  have "isl (fst (run_call pan_hash ?c pan2))" by code_simp
  then obtain e where "run_call pan_hash ?c pan2 = (Inl e, snd (run_call pan_hash ?c pan2))"
    by (metis isl_def prod.collapse)
  from pantry_failure_atomic [OF pan_apart pan_reach this] show ?thesis by (simp add: pan_undo_def)
qed



end
