(* ===== verification/Reservations.thy ===== *)
theory Reservations
  imports Hash_Chain Auth_Sessions "HOL-Library.Multiset" "HOL-Library.AList" "HOL-Library.List_Lexorder" "HOL-Library.Char_ord"
    "HOL-Library.Product_Lexorder"
begin

text \<open>
  The reservation calendar of shared resources, \<open>resource_reservations/service.py\<close> with the
  calendar tables of \<open>resource_reservations/schema.py\<close>: recurring local times resolved in a time
  zone, admission under the capacity of the resource, cancellation, idempotent commands, the keyed
  event chain and the encrypted records. The three scope columns \<open>core_id\<close>, \<open>home_id\<close> and
  \<open>resource_id\<close> are one triple. An instant is its number of seconds; the fixed-width UTC text
  the code stores is the rendering of that number. JSON decoding, ISO parsing, the time-zone
  database, HMAC and AES-GCM are parameters; the byte strings of plaintexts and ciphertexts are type
  variables.
\<close>

section \<open>Data\<close>

definition MAX_COMMAND_BYTES :: nat where "MAX_COMMAND_BYTES = 16384"
definition MAX_OCCURRENCES :: int where "MAX_OCCURRENCES = 64"
definition MAX_RECURRENCE_DAYS :: int where "MAX_RECURRENCE_DAYS = 366"
definition MAX_RESERVATIONS :: nat where "MAX_RESERVATIONS = 1000"
definition MAX_WINDOW_DAYS :: int where "MAX_WINDOW_DAYS = 93"
definition MAX_READ_LIMIT :: int where "MAX_READ_LIMIT = 256"
definition MAX_CAPACITY :: int where "MAX_CAPACITY = 64"
definition MAX_DURATION_SECONDS :: int where "MAX_DURATION_SECONDS = 86400"

type_synonym scope = "string \<times> string \<times> string"

record resource_rule =
  rl_id :: string
  rl_revision :: int
  rl_capacity :: int
  rl_timezone :: string
  rl_members :: "string list"

record reservation_authority =
  ra_core :: string
  ra_home :: string
  ra_account :: string
  ra_core_revision :: int
  ra_home_revision :: int
  ra_account_revision :: int
  ra_members_revision :: int
  ra_calendar_revision :: int
  ra_members :: "string list"
  ra_resource :: resource_rule

definition scope_of :: "reservation_authority \<Rightarrow> scope" where
  "scope_of a = (ra_core a, ra_home a, rl_id (ra_resource a))"

record occurrence =
  oc_start :: int
  oc_end :: int

text \<open>What is encrypted, and the reservation read back from it.\<close>

record reservation_body =
  rb_owner :: string
  rb_resource :: string
  rb_timezone :: string
  rb_local_start :: string
  rb_duration :: int
  rb_units :: int
  rb_occurrences :: "occurrence list"
  rb_created_at :: time

record reservation =
  rv_id :: string
  rv_revision :: int
  rv_body :: reservation_body
  rv_cancelled_at :: "time option"

record reservation_receipt =
  rr_event_id :: string
  rr_command_id :: string
  rr_action :: string
  rr_calendar_revision :: int
  rr_reservation :: reservation

record reservation_event =
  rn_event_id :: string
  rn_action :: string
  rn_actor :: string
  rn_reservation :: string
  rn_calendar_revision :: int
  rn_occurred_at :: time

record 'ct reservation_row =
  rw_id :: string
  rw_scope :: scope
  rw_revision :: int
  rw_nonce :: string
  rw_ciphertext :: 'ct
  rw_payload_hash :: string
  rw_request_hash :: string
  rw_created_at :: time

record calendar_content =
  v_sequence :: int
  v_event_id :: string
  v_scope :: scope
  v_command :: string
  v_action :: string
  v_actor :: string
  v_reservation :: string
  v_revision :: int
  v_occurred_at :: time
  v_request_hash :: string
  v_previous_hash :: string

record calendar_event_row =
  v_content :: calendar_content
  v_hash :: string

record calendar_state =
  cs_scope :: scope
  cs_base_revision :: int
  cs_revision :: int
  cs_event_count :: int
  cs_last_hash :: string
  cs_state_hash :: string

record 'ct calendar_db =
  cal_rows :: "'ct reservation_row list"
  cal_events :: "calendar_event_row list"
  cal_states :: "calendar_state list"

text \<open>A decoded JSON value: what the command fields are compared with.\<close>

datatype jvalue = V_null | V_int int | V_str string | V_obj "(string \<times> jvalue) list" | V_other

text \<open>\<open>datetime.fromisoformat\<close>: whether the text carries an offset or microseconds, its year,
  and its wall-clock seconds.\<close>

record wall_time =
  wt_aware :: bool
  wt_micro :: bool
  wt_year :: int
  wt_seconds :: int

record ('raw, 'ct) calendar_env =
  decode_command :: "string \<Rightarrow> (string \<times> jvalue) list option"
  parse_iso :: "string \<Rightarrow> wall_time option"
  utc_offset :: "string \<Rightarrow> int \<Rightarrow> int \<Rightarrow> int"
  to_wall :: "string \<Rightarrow> int \<Rightarrow> int \<times> int"
  cal_zone :: "string \<Rightarrow> bool"
  cal_state_mac :: "scope \<Rightarrow> int \<Rightarrow> int \<Rightarrow> int \<Rightarrow> string \<Rightarrow> string"
  cal_event_mac :: "calendar_content \<Rightarrow> string"
  request_print :: "string \<Rightarrow> string"
  payload_encode :: "reservation_body \<Rightarrow> 'raw"
  payload_decode :: "'raw \<Rightarrow> reservation_body option"
  payload_print :: "'raw \<Rightarrow> string"
  payload_seal :: "string \<Rightarrow> 'raw \<Rightarrow> string \<Rightarrow> 'ct"
  payload_open :: "string \<Rightarrow> 'ct \<Rightarrow> string \<Rightarrow> 'raw option"

abbreviation calendar_invalid :: error where
  "calendar_invalid \<equiv> StartupError ''resource_reservation_history_invalid''"
abbreviation reservation_invalid :: error where
  "reservation_invalid \<equiv> StartupError ''resource_reservation_storage_invalid''"
abbreviation invalid_local_time :: error where
  "invalid_local_time \<equiv> ApiError400 ''invalid_local_time''"

definition valid_rule :: "('raw, 'ct) calendar_env \<Rightarrow> resource_rule \<Rightarrow> bool" where
  "valid_rule env r = (cal_zone env (rl_timezone r) \<and> is_identifier (rl_id r) \<and> length (rl_timezone r) \<le> 128 \<and>
     0 < rl_revision r \<and> 1 \<le> rl_capacity r \<and> rl_capacity r \<le> MAX_CAPACITY \<and>
     1 \<le> length (rl_members r) \<and> length (rl_members r) \<le> 128 \<and> distinct (rl_members r) \<and>
     list_all is_identifier (rl_members r))"

definition valid_authority :: "('raw, 'ct) calendar_env \<Rightarrow> reservation_authority \<Rightarrow> bool" where
  "valid_authority env a = (is_identifier (ra_core a) \<and> is_identifier (ra_home a) \<and> is_identifier (ra_account a) \<and>
     0 < ra_core_revision a \<and> 0 < ra_home_revision a \<and> 0 < ra_account_revision a \<and>
     0 < ra_members_revision a \<and> 0 < ra_calendar_revision a \<and>
     1 \<le> length (ra_members a) \<and> length (ra_members a) \<le> 128 \<and> distinct (ra_members a) \<and>
     list_all is_identifier (ra_members a) \<and> valid_rule env (ra_resource a) \<and>
     set (rl_members (ra_resource a)) \<subseteq> set (ra_members a))"

section \<open>Commands\<close>

definition calendar_authorize :: "principal \<Rightarrow> reservation_authority \<Rightarrow> unit result" where
  "calendar_authorize actor a =
     (if p_id actor \<noteq> ra_account a then Inl authority_changed
      else if p_role actor \<noteq> Admin \<and> (p_id actor \<notin> set (ra_members a) \<or> p_id actor \<notin> set (rl_members (ra_resource a)))
      then Inl forbidden else Inr ())"

definition parse_command :: "('raw, 'ct) calendar_env \<Rightarrow> string \<Rightarrow> string list \<Rightarrow> (string \<times> jvalue) list result" where
  "parse_command env bytes names =
     (if \<not> (1 \<le> length bytes \<and> length bytes \<le> MAX_COMMAND_BYTES) then Inl bad_request
      else case decode_command env bytes of
             None \<Rightarrow> Inl bad_request
           | Some v \<Rightarrow> if set (map fst v) \<noteq> set names then Inl bad_request else Inr v)"

definition expected_scope :: "reservation_authority \<Rightarrow> (string \<times> jvalue) list" where
  "expected_scope a =
     [(''coreId'', V_str (ra_core a)), (''homeId'', V_str (ra_home a)), (''accountId'', V_str (ra_account a)),
      (''coreRevision'', V_int (ra_core_revision a)), (''homeRevision'', V_int (ra_home_revision a)),
      (''accountRevision'', V_int (ra_account_revision a)), (''membersRevision'', V_int (ra_members_revision a)),
      (''resourceId'', V_str (rl_id (ra_resource a))), (''resourceRevision'', V_int (rl_revision (ra_resource a))),
      (''expectedCalendarRevision'', V_int (ra_calendar_revision a))]"

definition check_command_scope :: "(string \<times> jvalue) list \<Rightarrow> reservation_authority \<Rightarrow> unit result" where
  "check_command_scope v a =
     (if list_ex (\<lambda>(k, e). map_of v k \<noteq> Some e) (expected_scope a) then Inl authority_changed else Inr ())"

definition frequency_step :: "string \<Rightarrow> int option" where
  "frequency_step f = map_of [(''none'', 0), (''daily'', 86400), (''weekly'', 604800)] f"

text \<open>One repetition: the wall time must exist and, where the clocks go back, be told apart by
  \<open>fold\<close>.\<close>

definition local_occurrence :: "('raw, 'ct) calendar_env \<Rightarrow> string \<Rightarrow> int \<Rightarrow> int \<Rightarrow> int option \<Rightarrow> occurrence result" where
  "local_occurrence env zone local duration fld =
     (let ambiguous = (utc_offset env zone local 0 \<noteq> utc_offset env zone local 1) in
      if ambiguous \<and> fld \<noteq> Some 0 \<and> fld \<noteq> Some 1 then Inl invalid_local_time
      else if \<not> ambiguous \<and> fld \<noteq> None \<and> fld \<noteq> Some 0 then Inl invalid_local_time
      else
        let chosen = (if ambiguous then the fld else 0);
            start = local - utc_offset env zone local chosen;
            (back, back_fold) = to_wall env zone start
        in if back \<noteq> local \<or> (ambiguous \<and> back_fold \<noteq> chosen) then Inl invalid_local_time
           else Inr \<lparr>oc_start = start, oc_end = start + duration\<rparr>)"

fun local_loop :: "('raw, 'ct) calendar_env \<Rightarrow> string \<Rightarrow> int list \<Rightarrow> int \<Rightarrow> int option \<Rightarrow> occurrence list result" where
  "local_loop env zone [] duration fld = Inr []"
| "local_loop env zone (local # locals) duration fld =
     bind_res (local_occurrence env zone local duration fld) (\<lambda>o1.
     bind_res (local_loop env zone locals duration fld) (\<lambda>os. Inr (o1 # os)))"

record booking =
  bk_local_start :: string
  bk_duration :: int
  bk_units :: int
  bk_occurrences :: "occurrence list"

text \<open>\<open>recurrence\<close>: the step in seconds and the number of repetitions.\<close>

definition recurrence_of :: "(string \<times> jvalue) list \<Rightarrow> (int \<times> int) result" where
  "recurrence_of rec =
     (if set (map fst rec) \<noteq> {''frequency'', ''count''} then Inl bad_request
      else case (map_of rec ''frequency'', map_of rec ''count'') of
        (Some (V_str frequency), Some (V_int repeat)) \<Rightarrow>
          (case frequency_step frequency of
             None \<Rightarrow> Inl bad_request
           | Some step \<Rightarrow>
               if \<not> (1 \<le> repeat \<and> repeat \<le> MAX_OCCURRENCES) \<or> (frequency = ''none'' \<and> repeat \<noteq> 1) then Inl bad_request
               else Inr (step, repeat))
      | _ \<Rightarrow> Inl bad_request)"

definition wall_start_of :: "('raw, 'ct) calendar_env \<Rightarrow> (string \<times> jvalue) list \<Rightarrow> (string \<times> int) result" where
  "wall_start_of env v =
     (case map_of v ''localStart'' of
        Some (V_str text) \<Rightarrow>
          (case parse_iso env text of
             None \<Rightarrow> Inl bad_request
           | Some w \<Rightarrow>
               if wt_aware w \<or> wt_micro w \<or> \<not> (1970 \<le> wt_year w \<and> wt_year w \<le> 2100) then Inl bad_request
               else Inr (text, wt_seconds w))
      | _ \<Rightarrow> Inl bad_request)"

definition fold_of :: "(string \<times> jvalue) list \<Rightarrow> int option result" where
  "fold_of v = (case map_of v ''fold'' of
       None \<Rightarrow> Inr None | Some V_null \<Rightarrow> Inr None | Some (V_int f) \<Rightarrow> Inr (Some f) | _ \<Rightarrow> Inl bad_request)"

definition local_occurrences :: "('raw, 'ct) calendar_env \<Rightarrow> (string \<times> jvalue) list \<Rightarrow> resource_rule \<Rightarrow> booking result" where
  "local_occurrences env v rule =
     (case (map_of v ''timezone'', map_of v ''durationSeconds'', map_of v ''units'', map_of v ''recurrence'') of
        (Some (V_str tz), Some (V_int duration), Some (V_int units), Some (V_obj rec)) \<Rightarrow>
          if tz \<noteq> rl_timezone rule \<or> \<not> (60 \<le> duration \<and> duration \<le> MAX_DURATION_SECONDS)
             \<or> \<not> (1 \<le> units \<and> units \<le> rl_capacity rule)
          then Inl bad_request
          else
            bind_res (recurrence_of rec) (\<lambda>(step, repeat).
            bind_res (wall_start_of env v) (\<lambda>(text, start).
              if repeat > 1 \<and> step * (repeat - 1) > MAX_RECURRENCE_DAYS * 86400 then Inl bad_request
              else
                bind_res (fold_of v) (\<lambda>fld.
                bind_res (local_loop env (rl_timezone rule) (map (\<lambda>i. start + step * i) [0..repeat - 1]) duration fld) (\<lambda>os.
                  Inr \<lparr>bk_local_start = text, bk_duration = duration, bk_units = units, bk_occurrences = os\<rparr>))))
      | _ \<Rightarrow> Inl bad_request)"

section \<open>Reading and verifying\<close>

definition calendar_state_of :: "('raw, 'ct) calendar_env \<Rightarrow> scope \<Rightarrow> 'ct calendar_db \<Rightarrow> calendar_state option result" where
  "calendar_state_of env sc s =
     (case select_key cs_scope sc (cal_states s) of
        None \<Rightarrow> Inr None
      | Some st \<Rightarrow>
          if \<not> is_ascii (cs_state_hash st) then Inl TypeError
          else if cs_state_hash st \<noteq> cal_state_mac env sc (cs_base_revision st) (cs_revision st) (cs_event_count st) (cs_last_hash st)
          then Inl calendar_invalid
          else Inr (Some st))"

definition payload_aad :: "scope \<Rightarrow> string \<Rightarrow> string" where
  "payload_aad sc rid = (case sc of (core, home, resource) \<Rightarrow>
     core @ [CHR 0x00] @ home @ [CHR 0x00] @ resource @ [CHR 0x00] @ rid)"

definition decrypt_reservation :: "('raw, 'ct) calendar_env \<Rightarrow> (string \<Rightarrow> time option) \<Rightarrow> 'ct reservation_row \<Rightarrow> reservation result" where
  "decrypt_reservation env cancels row =
     (case payload_open env (rw_nonce row) (rw_ciphertext row) (payload_aad (rw_scope row) (rw_id row)) of
        None \<Rightarrow> Inl reservation_invalid
      | Some raw \<Rightarrow>
          if payload_print env raw \<noteq> rw_payload_hash row then Inl reservation_invalid
          else (case payload_decode env raw of
                  None \<Rightarrow> Inl reservation_invalid
                | Some b \<Rightarrow>
                    if rb_occurrences b = [] \<or> rb_resource b \<noteq> snd (snd (rw_scope row)) then Inl reservation_invalid
                    else Inr \<lparr>rv_id = rw_id row, rv_revision = rw_revision row, rv_body = b,
                              rv_cancelled_at = cancels (rw_id row)\<rparr>))"

fun decrypt_reservations :: "('raw, 'ct) calendar_env \<Rightarrow> (string \<Rightarrow> time option) \<Rightarrow> 'ct reservation_row list \<Rightarrow> reservation list result" where
  "decrypt_reservations env cancels [] = Inr []"
| "decrypt_reservations env cancels (row # rows) =
     bind_res (decrypt_reservation env cancels row) (\<lambda>r.
     bind_res (decrypt_reservations env cancels rows) (\<lambda>rs. Inr (r # rs)))"

definition scope_log :: "scope \<Rightarrow> 'ct calendar_db \<Rightarrow> calendar_event_row list" where
  "scope_log sc s = sort_key (\<lambda>e. v_sequence (v_content e)) (filter (\<lambda>e. v_scope (v_content e) = sc) (cal_events s))"

definition scope_records :: "scope \<Rightarrow> 'ct calendar_db \<Rightarrow> 'ct reservation_row list" where
  "scope_records sc s = sort_key (\<lambda>r. (rw_created_at r, rw_id r)) (filter (\<lambda>r. rw_scope r = sc) (cal_rows s))"

definition calendar_event_of :: "calendar_event_row \<Rightarrow> reservation_event" where
  "calendar_event_of row = (let e = v_content row in
     \<lparr>rn_event_id = v_event_id e, rn_action = v_action e, rn_actor = v_actor e, rn_reservation = v_reservation e,
      rn_calendar_revision = v_revision e, rn_occurred_at = v_occurred_at e\<rparr>)"

text \<open>The verification loop carries the last hash, the reservations created so far, the times of
  the cancellations and the events.\<close>

type_synonym log_state = "string \<times> string list \<times> (string \<Rightarrow> time option) \<times> reservation_event list"

fun log_step :: "('raw, 'ct) calendar_env \<Rightarrow> calendar_event_row \<Rightarrow> log_state \<Rightarrow> log_state result" where
  "log_step env row (previous, creates, cancels, events) =
     (let e = v_content row in
      if v_previous_hash e \<noteq> previous then Inl calendar_invalid
      else if \<not> is_ascii (v_hash row) then Inl TypeError
      else if v_hash row \<noteq> cal_event_mac env e then Inl calendar_invalid
      else if v_action e = ''created'' then
        if v_reservation e \<in> set creates then Inl calendar_invalid
        else Inr (v_hash row, v_reservation e # creates, cancels, events @ [calendar_event_of row])
      else if v_reservation e \<notin> set creates \<or> cancels (v_reservation e) \<noteq> None then Inl calendar_invalid
      else Inr (v_hash row, creates, cancels(v_reservation e \<mapsto> v_occurred_at e), events @ [calendar_event_of row]))"

definition create_row_of :: "string \<Rightarrow> calendar_event_row list \<Rightarrow> calendar_event_row option" where
  "create_row_of rid rows = find (\<lambda>e. v_action (v_content e) = ''created'' \<and> v_reservation (v_content e) = rid) rows"

fun check_requests :: "calendar_event_row list \<Rightarrow> 'ct reservation_row list \<Rightarrow> unit result" where
  "check_requests rows [] = Inr ()"
| "check_requests rows (r # rs) =
     (case create_row_of (rw_id r) rows of
        None \<Rightarrow> Inl calendar_invalid
      | Some e \<Rightarrow>
          if \<not> is_ascii (v_request_hash (v_content e)) \<or> \<not> is_ascii (rw_request_hash r) then Inl TypeError
          else if v_request_hash (v_content e) \<noteq> rw_request_hash r then Inl calendar_invalid
          else check_requests rows rs)"

definition verified_calendar :: "('raw, 'ct) calendar_env \<Rightarrow> scope \<Rightarrow> 'ct calendar_db \<Rightarrow> (reservation_event list \<times> reservation list) result" where
  "verified_calendar env sc s =
     bind_res (calendar_state_of env sc s) (\<lambda>state.
       let rows = scope_log sc s; records = scope_records sc s in
       case state of
         None \<Rightarrow> if rows \<noteq> [] \<or> records \<noteq> [] then Inl calendar_invalid else Inr ([], [])
       | Some st \<Rightarrow>
           bind_res (fold_res (log_step env) rows ('''', [], Map.empty, [])) (\<lambda>(previous, creates, cancels, events).
           bind_res (decrypt_reservations env cancels records) (\<lambda>reservations.
             if set (map rv_id reservations) \<noteq> set creates \<or> int (length rows) \<noteq> cs_event_count st
                \<or> cs_revision st \<noteq> cs_base_revision st + int (length rows) \<or> cs_last_hash st \<noteq> previous
             then Inl calendar_invalid
             else bind_res (check_requests rows records) (\<lambda>_. Inr (events, reservations)))))"

section \<open>Operations\<close>

definition insert_reservation_row :: "'ct reservation_row \<Rightarrow> 'ct calendar_db \<Rightarrow> 'ct calendar_db result" where
  "insert_reservation_row r s =
     (if rw_id r \<in> rw_id ` set (cal_rows s) \<or> rw_revision r \<le> 0 then Inl IntegrityError
      else Inr (s\<lparr>cal_rows := cal_rows s @ [r]\<rparr>))"

definition insert_calendar_row :: "calendar_event_row \<Rightarrow> 'ct calendar_db \<Rightarrow> 'ct calendar_db result" where
  "insert_calendar_row r s =
     (let e = v_content r in
      if v_sequence e \<in> (v_sequence \<circ> v_content) ` set (cal_events s)
         \<or> v_event_id e \<in> (v_event_id \<circ> v_content) ` set (cal_events s)
         \<or> v_action e \<notin> {''created'', ''cancelled''} \<or> v_revision e \<le> 0
         \<or> (v_scope e, v_command e) \<in> (\<lambda>q. (v_scope (v_content q), v_command (v_content q))) ` set (cal_events s)
         \<or> v_reservation e \<notin> rw_id ` set (cal_rows s)
      then Inl IntegrityError
      else Inr (s\<lparr>cal_events := cal_events s @ [r]\<rparr>))"

definition upsert_calendar_state :: "calendar_state \<Rightarrow> 'ct calendar_db \<Rightarrow> 'ct calendar_db result" where
  "upsert_calendar_state st s =
     (if cs_base_revision st \<le> 0 \<or> cs_revision st \<le> 0 \<or> cs_event_count st \<le> 0 then Inl IntegrityError
      else Inr (if cs_scope st \<in> cs_scope ` set (cal_states s)
                then s\<lparr>cal_states := update_where (\<lambda>q. cs_scope q = cs_scope st)
                       (\<lambda>q. st\<lparr>cs_base_revision := cs_base_revision q\<rparr>) (cal_states s)\<rparr>
                else s\<lparr>cal_states := cal_states s @ [st]\<rparr>))"

definition next_calendar_sequence :: "'ct calendar_db \<Rightarrow> int" where
  "next_calendar_sequence s = next_number (\<lambda>e. v_sequence (v_content e)) (cal_events s)"

definition new_calendar_row :: "('raw, 'ct) calendar_env \<Rightarrow> string \<Rightarrow> scope \<Rightarrow> string \<Rightarrow> string \<Rightarrow> string \<Rightarrow> string \<Rightarrow> int
    \<Rightarrow> time \<Rightarrow> string \<Rightarrow> string \<Rightarrow> 'ct calendar_db \<Rightarrow> calendar_event_row" where
  "new_calendar_row env eid sc cmd action actor_id rid revision now request_hash previous s =
     (let e = \<lparr>v_sequence = next_calendar_sequence s, v_event_id = eid, v_scope = sc, v_command = cmd,
               v_action = action, v_actor = actor_id, v_reservation = rid, v_revision = revision,
               v_occurred_at = now, v_request_hash = request_hash, v_previous_hash = previous\<rparr>
      in \<lparr>v_content = e, v_hash = cal_event_mac env e\<rparr>)"

definition insert_event :: "('raw, 'ct) calendar_env \<Rightarrow> string \<Rightarrow> reservation_authority \<Rightarrow> calendar_state option \<Rightarrow> string
    \<Rightarrow> string \<Rightarrow> string \<Rightarrow> string \<Rightarrow> string \<Rightarrow> time \<Rightarrow> ('ct calendar_db, int) tx" where
  "insert_event env eid a state cmd action actor_id rid request_hash now s =
     (let base = (case state of None \<Rightarrow> ra_calendar_revision a | Some st \<Rightarrow> cs_base_revision st);
          current = (case state of None \<Rightarrow> base | Some st \<Rightarrow> cs_revision st);
          seen = (case state of None \<Rightarrow> 0 | Some st \<Rightarrow> cs_event_count st);
          previous = (case state of None \<Rightarrow> '''' | Some st \<Rightarrow> cs_last_hash st);
          revision = current + 1;
          row = new_calendar_row env eid (scope_of a) cmd action actor_id rid revision now request_hash previous s
      in bind_res (insert_calendar_row row s) (\<lambda>s1.
         bind_res (upsert_calendar_state
             \<lparr>cs_scope = scope_of a, cs_base_revision = base, cs_revision = revision, cs_event_count = seen + 1,
              cs_last_hash = v_hash row,
              cs_state_hash = cal_state_mac env (scope_of a) base revision (seen + 1) (v_hash row)\<rparr> s1) (\<lambda>s2.
           Inr (revision, s2))))"

definition find_replay :: "scope \<Rightarrow> string \<Rightarrow> 'ct calendar_db \<Rightarrow> calendar_event_row option" where
  "find_replay sc cmd s = select_where (\<lambda>e. v_scope (v_content e) = sc \<and> v_command (v_content e) = cmd) (cal_events s)"

definition calendar_receipt :: "calendar_event_row \<Rightarrow> reservation \<Rightarrow> reservation_receipt" where
  "calendar_receipt row r =
     \<lparr>rr_event_id = v_event_id (v_content row), rr_command_id = v_command (v_content row),
      rr_action = v_action (v_content row), rr_calendar_revision = v_revision (v_content row), rr_reservation = r\<rparr>"

definition find_reservation :: "string \<Rightarrow> reservation list \<Rightarrow> reservation option" where
  "find_reservation rid rs = find (\<lambda>r. rv_id r = rid) rs"

text \<open>The time spans held by reservations that are not cancelled.\<close>

definition active_spans :: "reservation list \<Rightarrow> (int \<times> int \<times> int) list" where
  "active_spans rs = concat (map (\<lambda>r. map (\<lambda>oc. (oc_start oc, oc_end oc, rb_units (rv_body r))) (rb_occurrences (rv_body r)))
     (filter (\<lambda>r. rv_cancelled_at r = None) rs))"

definition spans_meet :: "int \<Rightarrow> int \<Rightarrow> int \<Rightarrow> int \<Rightarrow> bool" where
  "spans_meet start end' other_start other_end = (start < other_end \<and> other_start < end')"

definition units_used :: "int \<Rightarrow> occurrence list \<Rightarrow> (int \<times> int \<times> int) list \<Rightarrow> nat \<Rightarrow> int" where
  "units_used units proposed existing i =
     (let p = proposed ! i in
      units + sum_list (map (\<lambda>(s, e, u). if spans_meet (oc_start p) (oc_end p) s e then u else 0) existing)
        + sum_list (map (\<lambda>j. if j \<noteq> i \<and> spans_meet (oc_start p) (oc_end p) (oc_start (proposed ! j)) (oc_end (proposed ! j))
                            then units else 0) [0..<length proposed]))"

definition fits :: "int \<Rightarrow> int \<Rightarrow> occurrence list \<Rightarrow> (int \<times> int \<times> int) list \<Rightarrow> bool" where
  "fits capacity units proposed existing = list_all (\<lambda>i. units_used units proposed existing i \<le> capacity) [0..<length proposed]"

definition create_fields :: "string list" where
  "create_fields = [''action'', ''commandId'', ''coreId'', ''homeId'', ''accountId'', ''coreRevision'',
     ''homeRevision'', ''accountRevision'', ''membersRevision'', ''resourceId'',
     ''resourceRevision'', ''expectedCalendarRevision'', ''timezone'', ''localStart'',
     ''fold'', ''durationSeconds'', ''units'', ''recurrence'']"

definition cancel_fields :: "string list" where
  "cancel_fields = [''action'', ''commandId'', ''coreId'', ''homeId'', ''accountId'', ''coreRevision'',
     ''homeRevision'', ''accountRevision'', ''membersRevision'', ''resourceId'',
     ''resourceRevision'', ''expectedCalendarRevision'', ''reservationId'']"

text \<open>A field that must hold an identifier.\<close>

definition identifier_field :: "(string \<times> jvalue) list \<Rightarrow> string \<Rightarrow> string option" where
  "identifier_field v k = (case map_of v k of Some (V_str x) \<Rightarrow> if is_identifier x then Some x else None | _ \<Rightarrow> None)"

record reservation_fresh =
  fr_reservation :: string
  fr_event :: string
  fr_nonce :: string

definition body_of_booking :: "reservation_authority \<Rightarrow> principal \<Rightarrow> time \<Rightarrow> booking \<Rightarrow> reservation_body" where
  "body_of_booking a actor now b =
     \<lparr>rb_owner = p_id actor, rb_resource = rl_id (ra_resource a), rb_timezone = rl_timezone (ra_resource a),
      rb_local_start = bk_local_start b, rb_duration = bk_duration b, rb_units = bk_units b,
      rb_occurrences = bk_occurrences b, rb_created_at = now\<rparr>"

definition new_reservation_row :: "('raw, 'ct) calendar_env \<Rightarrow> reservation_fresh \<Rightarrow> scope \<Rightarrow> reservation_body \<Rightarrow> string \<Rightarrow> time
    \<Rightarrow> 'ct reservation_row" where
  "new_reservation_row env fr sc b request_hash now =
     (let raw = payload_encode env b in
      \<lparr>rw_id = fr_reservation fr, rw_scope = sc, rw_revision = 1, rw_nonce = fr_nonce fr,
       rw_ciphertext = payload_seal env (fr_nonce fr) raw (payload_aad sc (fr_reservation fr)),
       rw_payload_hash = payload_print env raw, rw_request_hash = request_hash, rw_created_at = now\<rparr>)"

definition current_revision :: "reservation_authority \<Rightarrow> calendar_state option \<Rightarrow> int" where
  "current_revision a state = (case state of None \<Rightarrow> ra_calendar_revision a | Some st \<Rightarrow> cs_revision st)"

definition reserve_body :: "('raw, 'ct) calendar_env \<Rightarrow> reservation_fresh \<Rightarrow> time \<Rightarrow> principal \<Rightarrow> reservation_authority
    \<Rightarrow> string \<Rightarrow> booking \<Rightarrow> string \<Rightarrow> ('ct calendar_db, reservation_receipt) tx" where
  "reserve_body env fr now actor a cmd b request_hash s =
     bind_res (verified_calendar env (scope_of a) s) (\<lambda>(_, reservations).
       case find_replay (scope_of a) cmd s of
         Some replay \<Rightarrow>
           if v_action (v_content replay) \<noteq> ''created'' \<or> v_actor (v_content replay) \<noteq> p_id actor
           then Inl command_conflict
           else if \<not> is_ascii (v_request_hash (v_content replay)) then Inl TypeError
           else if v_request_hash (v_content replay) \<noteq> request_hash then Inl command_conflict
           else (case find_reservation (v_reservation (v_content replay)) reservations of
                   None \<Rightarrow> Inl KeyError
                 | Some r \<Rightarrow> Inr (calendar_receipt replay r, s))
       | None \<Rightarrow>
           bind_res (calendar_state_of env (scope_of a) s) (\<lambda>state.
             if ra_calendar_revision a \<noteq> current_revision a state then Inl authority_changed
             else if length reservations \<ge> MAX_RESERVATIONS then Inl (ApiError ''reservation_limit_reached'' 413)
             else if \<not> fits (rl_capacity (ra_resource a)) (bk_units b) (bk_occurrences b) (active_spans reservations)
             then Inl (ApiError ''reservation_overlap'' 409)
             else
               bind_res (insert_reservation_row
                   (new_reservation_row env fr (scope_of a) (body_of_booking a actor now b) request_hash now) s) (\<lambda>s1.
               bind_res (insert_event env (fr_event fr) a state cmd ''created'' (p_id actor) (fr_reservation fr) request_hash now s1)
                 (\<lambda>(revision, s2).
                   Inr (\<lparr>rr_event_id = fr_event fr, rr_command_id = cmd, rr_action = ''created'',
                         rr_calendar_revision = revision,
                         rr_reservation = \<lparr>rv_id = fr_reservation fr, rv_revision = 1,
                           rv_body = body_of_booking a actor now b, rv_cancelled_at = None\<rparr>\<rparr>, s2)))))"

definition parse_reserve :: "('raw, 'ct) calendar_env \<Rightarrow> principal \<Rightarrow> string \<Rightarrow> reservation_authority \<Rightarrow> (string \<times> booking) result" where
  "parse_reserve env actor bytes a =
     bind_res (calendar_authorize actor a) (\<lambda>_.
     bind_res (parse_command env bytes create_fields) (\<lambda>v.
     bind_res (check_command_scope v a) (\<lambda>_.
       if map_of v ''action'' \<noteq> Some (V_str ''create'') then Inl bad_request
       else case identifier_field v ''commandId'' of
              None \<Rightarrow> Inl bad_request
            | Some cmd \<Rightarrow> bind_res (local_occurrences env v (ra_resource a)) (\<lambda>b. Inr (cmd, b)))))"

definition reserve :: "('raw, 'ct) calendar_env \<Rightarrow> reservation_fresh \<Rightarrow> time \<Rightarrow> principal \<Rightarrow> string \<Rightarrow> reservation_authority
    \<Rightarrow> 'ct calendar_db \<Rightarrow> reservation_receipt result \<times> 'ct calendar_db" where
  "reserve env fr now actor bytes a s =
     (case parse_reserve env actor bytes a of
        Inl e \<Rightarrow> (Inl e, s)
      | Inr (cmd, b) \<Rightarrow> transaction (reserve_body env fr now actor a cmd b (request_print env bytes)) s)"

definition cancel_body :: "('raw, 'ct) calendar_env \<Rightarrow> string \<Rightarrow> time \<Rightarrow> principal \<Rightarrow> reservation_authority
    \<Rightarrow> string \<Rightarrow> string \<Rightarrow> string \<Rightarrow> ('ct calendar_db, reservation_receipt) tx" where
  "cancel_body env eid now actor a cmd rid request_hash s =
     bind_res (verified_calendar env (scope_of a) s) (\<lambda>(_, reservations).
       case find_replay (scope_of a) cmd s of
         Some replay \<Rightarrow>
           if v_action (v_content replay) \<noteq> ''cancelled'' \<or> v_actor (v_content replay) \<noteq> p_id actor
              \<or> v_reservation (v_content replay) \<noteq> rid
           then Inl command_conflict
           else if \<not> is_ascii (v_request_hash (v_content replay)) then Inl TypeError
           else if v_request_hash (v_content replay) \<noteq> request_hash then Inl command_conflict
           else (case find_reservation (v_reservation (v_content replay)) reservations of
                   None \<Rightarrow> Inl KeyError
                 | Some r \<Rightarrow> Inr (calendar_receipt replay r, s))
       | None \<Rightarrow>
           bind_res (calendar_state_of env (scope_of a) s) (\<lambda>state.
             if state = None \<or> ra_calendar_revision a \<noteq> current_revision a state then Inl authority_changed
             else (case find_reservation rid reservations of
                None \<Rightarrow> Inl not_found
              | Some r \<Rightarrow>
                  if rv_cancelled_at r \<noteq> None then Inl (ApiError ''reservation_already_cancelled'' 409)
                  else if p_role actor \<noteq> Admin \<and> rb_owner (rv_body r) \<noteq> p_id actor then Inl forbidden
                  else
                    bind_res (insert_event env eid a state cmd ''cancelled'' (p_id actor) (rv_id r) request_hash now s)
                      (\<lambda>(revision, s1).
                        Inr (\<lparr>rr_event_id = eid, rr_command_id = cmd, rr_action = ''cancelled'',
                              rr_calendar_revision = revision, rr_reservation = r\<lparr>rv_cancelled_at := Some now\<rparr>\<rparr>, s1)))))"

definition parse_cancel :: "('raw, 'ct) calendar_env \<Rightarrow> principal \<Rightarrow> string \<Rightarrow> reservation_authority \<Rightarrow> (string \<times> string) result" where
  "parse_cancel env actor bytes a =
     bind_res (calendar_authorize actor a) (\<lambda>_.
     bind_res (parse_command env bytes cancel_fields) (\<lambda>v.
     bind_res (check_command_scope v a) (\<lambda>_.
       if map_of v ''action'' \<noteq> Some (V_str ''cancel'') then Inl bad_request
       else case (identifier_field v ''commandId'', identifier_field v ''reservationId'') of
              (Some cmd, Some rid) \<Rightarrow> Inr (cmd, rid)
            | _ \<Rightarrow> Inl bad_request)))"

definition cancel :: "('raw, 'ct) calendar_env \<Rightarrow> string \<Rightarrow> time \<Rightarrow> principal \<Rightarrow> string \<Rightarrow> reservation_authority
    \<Rightarrow> 'ct calendar_db \<Rightarrow> reservation_receipt result \<times> 'ct calendar_db" where
  "cancel env eid now actor bytes a s =
     (case parse_cancel env actor bytes a of
        Inl e \<Rightarrow> (Inl e, s)
      | Inr (cmd, rid) \<Rightarrow> transaction (cancel_body env eid now actor a cmd rid (request_print env bytes)) s)"

definition read_calendar :: "('raw, 'ct) calendar_env \<Rightarrow> principal \<Rightarrow> reservation_authority \<Rightarrow> 'ct calendar_db
    \<Rightarrow> (int \<times> reservation_event list \<times> reservation list) result" where
  "read_calendar env actor a s =
     bind_res (calendar_authorize actor a) (\<lambda>_.
     bind_res (verified_calendar env (scope_of a) s) (\<lambda>(events, reservations).
     bind_res (calendar_state_of env (scope_of a) s) (\<lambda>state.
       if current_revision a state \<noteq> ra_calendar_revision a then Inl authority_changed
       else Inr (current_revision a state, events, reservations))))"

definition reservation_receipt_of :: "('raw, 'ct) calendar_env \<Rightarrow> principal \<Rightarrow> reservation_authority \<Rightarrow> string
    \<Rightarrow> 'ct calendar_db \<Rightarrow> reservation_receipt option result" where
  "reservation_receipt_of env actor a cmd s =
     bind_res (calendar_authorize actor a) (\<lambda>_.
       if \<not> is_identifier cmd then Inl bad_request
       else bind_res (read_calendar env actor a s) (\<lambda>(_, _, reservations).
         case find_replay (scope_of a) cmd s of
           None \<Rightarrow> Inr None
         | Some replay \<Rightarrow>
             if v_actor (v_content replay) \<noteq> p_id actor then Inl not_found
             else (case find_reservation (v_reservation (v_content replay)) reservations of
                     None \<Rightarrow> Inl calendar_invalid
                   | Some r \<Rightarrow> Inr (Some (calendar_receipt replay r)))))"

text \<open>\<open>events[-limit:]\<close>\<close>

definition calendar_history :: "('raw, 'ct) calendar_env \<Rightarrow> principal \<Rightarrow> reservation_authority \<Rightarrow> int
    \<Rightarrow> 'ct calendar_db \<Rightarrow> reservation_event list result" where
  "calendar_history env actor a limit s =
     (if \<not> (1 \<le> limit \<and> limit \<le> MAX_READ_LIMIT) then Inl bad_request
      else bind_res (read_calendar env actor a s) (\<lambda>(_, events, _).
        Inr (drop (length events - nat limit) events)))"

definition availability :: "('raw, 'ct) calendar_env \<Rightarrow> principal \<Rightarrow> reservation_authority \<Rightarrow> int raw \<Rightarrow> int raw \<Rightarrow> int
    \<Rightarrow> 'ct calendar_db \<Rightarrow> (int \<times> (int \<times> int \<times> int) list) result" where
  "availability env actor a start_utc end_utc limit s =
     (if \<not> (1 \<le> limit \<and> limit \<le> MAX_READ_LIMIT) then Inl bad_request
      else case (start_utc, end_utc) of
        (Some start, Some stop) \<Rightarrow>
          if start \<ge> stop \<or> stop - start > MAX_WINDOW_DAYS * 86400 then Inl bad_request
          else bind_res (read_calendar env actor a s) (\<lambda>(revision, _, reservations).
            let busy = sort (filter (\<lambda>(b, e, _). b < stop \<and> start < e) (active_spans reservations)) in
            if int (length busy) > limit then Inl (ApiError ''availability_limit_reached'' 413)
            else Inr (revision, busy))
      | _ \<Rightarrow> Inl bad_request)"

text \<open>What an export shows of a reservation.\<close>

record exported_reservation =
  ex_id :: string
  ex_owner :: string
  ex_timezone :: string
  ex_local_start :: string
  ex_duration :: int
  ex_units :: int
  ex_occurrences :: "occurrence list"
  ex_cancelled :: bool

definition exported :: "reservation \<Rightarrow> exported_reservation" where
  "exported r = (let b = rv_body r in
     \<lparr>ex_id = rv_id r, ex_owner = rb_owner b, ex_timezone = rb_timezone b, ex_local_start = rb_local_start b,
      ex_duration = rb_duration b, ex_units = rb_units b, ex_occurrences = rb_occurrences b,
      ex_cancelled = (rv_cancelled_at r \<noteq> None)\<rparr>)"

definition calendar_export :: "('raw, 'ct) calendar_env \<Rightarrow> principal \<Rightarrow> reservation_authority \<Rightarrow> int
    \<Rightarrow> 'ct calendar_db \<Rightarrow> (scope \<times> int \<times> exported_reservation list) result" where
  "calendar_export env actor a limit s =
     (if \<not> (1 \<le> limit \<and> limit \<le> MAX_READ_LIMIT) then Inl bad_request
      else bind_res (read_calendar env actor a s) (\<lambda>(revision, _, reservations).
        let rows = sort_key (\<lambda>r. (rb_created_at (rv_body r), rv_id r)) reservations in
        if int (length rows) > limit then Inl (ApiError ''reservation_export_limit_reached'' 413)
        else Inr (scope_of a, revision, map exported rows)))"

section \<open>What verification establishes\<close>

definition sound_calendar :: "('raw, 'ct) calendar_env \<Rightarrow> bool" where
  "sound_calendar env \<longleftrightarrow>
     (\<forall>n raw aad. payload_open env n (payload_seal env n raw aad) aad = Some raw) \<and>
     (\<forall>b. payload_decode env (payload_encode env b) = Some b) \<and>
     (\<forall>sc b r n h. is_ascii (cal_state_mac env sc b r n h)) \<and> (\<forall>e. is_ascii (cal_event_mac env e)) \<and>
     (\<forall>bytes. is_ascii (request_print env bytes))"

lemma sound_calendarD:
  assumes "sound_calendar env"
  shows "payload_open env n (payload_seal env n raw aad) aad = Some raw" "payload_decode env (payload_encode env b) = Some b"
    "is_ascii (cal_state_mac env sc base r c h)" "is_ascii (cal_event_mac env e)" "is_ascii (request_print env bytes)"
  using assms unfolding sound_calendar_def by blast+

abbreviation run_log :: "('raw, 'ct) calendar_env \<Rightarrow> calendar_event_row list \<Rightarrow> log_state result" where
  "run_log env rows \<equiv> fold_res (log_step env) rows ('''', [], Map.empty, [])"

abbreviation reservation_at :: "('raw, 'ct) calendar_env \<Rightarrow> (string \<Rightarrow> time option) \<Rightarrow> 'ct reservation_row \<Rightarrow> reservation" where
  "reservation_at env cancels row \<equiv> projr (decrypt_reservation env cancels row)"

lemma decrypt_reservations_iff:
  "decrypt_reservations env cancels rows = Inr rs \<longleftrightarrow>
     (\<forall>row \<in> set rows. \<not> isl (decrypt_reservation env cancels row)) \<and> rs = map (reservation_at env cancels) rows"
proof (induction rows arbitrary: rs)
  case (Cons row rows)
  then show ?case
    by (cases "decrypt_reservation env cancels row") (auto simp: bind_res_Inr_iff)
qed auto

lemma check_requests_iff:
  "check_requests es rows = Inr () \<longleftrightarrow> (\<forall>r \<in> set rows. \<exists>e. create_row_of (rw_id r) es = Some e \<and>
     is_ascii (v_request_hash (v_content e)) \<and> v_request_hash (v_content e) = rw_request_hash r)"
  by (induction rows) (auto split: option.splits)

lemma reservation_at_fields:
  assumes "\<not> isl (decrypt_reservation env cancels row)"
  shows "rv_id (reservation_at env cancels row) = rw_id row"
    "rv_cancelled_at (reservation_at env cancels row) = cancels (rw_id row)"
  using assms by (auto simp: decrypt_reservation_def split: option.splits if_splits)

lemma decrypt_reservation_cancels:
  assumes "\<not> isl (decrypt_reservation env cancels row)"
  shows "\<not> isl (decrypt_reservation env cancels' row)"
    "reservation_at env cancels' row = (reservation_at env cancels row)\<lparr>rv_cancelled_at := cancels' (rw_id row)\<rparr>"
  using assms by (auto simp: decrypt_reservation_def split: option.splits if_splits)

text \<open>What a verified calendar consists of: the folded log, the records and the state row.\<close>

definition state_matches :: "calendar_state option \<Rightarrow> calendar_event_row list \<Rightarrow> string \<Rightarrow> bool" where
  "state_matches state rows previous \<longleftrightarrow> (case state of None \<Rightarrow> rows = []
     | Some st \<Rightarrow> int (length rows) = cs_event_count st \<and> cs_revision st = cs_base_revision st + int (length rows) \<and>
         cs_last_hash st = previous)"

lemma verified_calendar_iff:
  "verified_calendar env sc s = Inr (events, rs) \<longleftrightarrow>
     (\<exists>state previous creates cancels. calendar_state_of env sc s = Inr state \<and>
        run_log env (scope_log sc s) = Inr (previous, creates, cancels, events) \<and>
        state_matches state (scope_log sc s) previous \<and> (state = None \<longrightarrow> scope_records sc s = []) \<and>
        (\<forall>row \<in> set (scope_records sc s). \<not> isl (decrypt_reservation env cancels row)) \<and>
        rs = map (reservation_at env cancels) (scope_records sc s) \<and>
        rw_id ` set (scope_records sc s) = set creates \<and>
        check_requests (scope_log sc s) (scope_records sc s) = Inr ())" (is "?L \<longleftrightarrow> ?R")
proof -
  have ids: "set (map rv_id (map (reservation_at env cancels) rows)) = rw_id ` set rows"
    if "\<forall>row \<in> set rows. \<not> isl (decrypt_reservation env cancels row)" for cancels and rows :: "'b reservation_row list"
    using that by (auto simp: reservation_at_fields image_iff)
  have both: "decrypt_reservations env cancels (scope_records sc s) = Inr rs \<and> set (map rv_id rs) = set creates \<longleftrightarrow>
      (\<forall>row \<in> set (scope_records sc s). \<not> isl (decrypt_reservation env cancels row)) \<and>
      rs = map (reservation_at env cancels) (scope_records sc s) \<and> rw_id ` set (scope_records sc s) = set creates"
    for cancels and creates :: "string list"
    using ids [of "scope_records sc s" cancels] unfolding decrypt_reservations_iff by metis
  show ?thesis
  proof (cases "calendar_state_of env sc s")
    case (Inl e)
    then show ?thesis by (simp add: verified_calendar_def)
  next
    case (Inr state)
    show ?thesis
    proof (cases state)
      case None
      then show ?thesis using Inr by (auto simp: verified_calendar_def state_matches_def Let_def)
    next
      case (Some st)
      have "?L \<longleftrightarrow> (\<exists>previous creates cancels. run_log env (scope_log sc s) = Inr (previous, creates, cancels, events) \<and>
          decrypt_reservations env cancels (scope_records sc s) = Inr rs \<and> set (map rv_id rs) = set creates \<and>
          state_matches state (scope_log sc s) previous \<and> check_requests (scope_log sc s) (scope_records sc s) = Inr ())"
        using Inr Some
        by (auto simp: verified_calendar_def state_matches_def Let_def bind_res_Inr_iff if_Inl_eq_Inr)
      also have "\<dots> \<longleftrightarrow> (\<exists>previous creates cancels. run_log env (scope_log sc s) = Inr (previous, creates, cancels, events) \<and>
          ((\<forall>row \<in> set (scope_records sc s). \<not> isl (decrypt_reservation env cancels row)) \<and>
           rs = map (reservation_at env cancels) (scope_records sc s) \<and> rw_id ` set (scope_records sc s) = set creates) \<and>
          state_matches state (scope_log sc s) previous \<and> check_requests (scope_log sc s) (scope_records sc s) = Inr ())"
        unfolding both [symmetric] by blast
      also have "\<dots> \<longleftrightarrow> ?R" using Inr Some by (simp only: sum.inject option.distinct simp_thms ex_simps) blast
      finally show ?thesis .
    qed
  qed
qed

lemma run_log_snoc:
  assumes "run_log env (rows @ [row]) = Inr st'"
  obtains st where "run_log env rows = Inr st" "log_step env row st = Inr st'"
  using assms by (auto simp: fold_res_append bind_res_Inr_iff)

lemma log_step_Inr:
  assumes "log_step env row (p, cr, ca, ev) = Inr (previous, creates, cancels, events)"
  shows "previous = v_hash row" "events = ev @ [calendar_event_of row]"
    "v_action (v_content row) = ''created'' \<and> v_reservation (v_content row) \<notin> set cr \<and>
       creates = v_reservation (v_content row) # cr \<and> cancels = ca \<or>
     v_action (v_content row) \<noteq> ''created'' \<and> v_reservation (v_content row) \<in> set cr \<and>
       creates = cr \<and> cancels = ca(v_reservation (v_content row) \<mapsto> v_occurred_at (v_content row))"
  using assms by (auto simp: Let_def split: if_splits)

lemma run_log_facts:
  assumes "run_log env rows = Inr (previous, creates, cancels, events)"
  shows "previous = tip v_hash '''' rows" "dom cancels \<subseteq> set creates" "events = map calendar_event_of rows"
    "set creates = {v_reservation (v_content e) |e. e \<in> set rows \<and> v_action (v_content e) = ''created''}"
proof -
  have "previous = tip v_hash '''' rows \<and> dom cancels \<subseteq> set creates \<and> events = map calendar_event_of rows \<and>
    set creates = {v_reservation (v_content e) |e. e \<in> set rows \<and> v_action (v_content e) = ''created''}"
    using assms
  proof (induction rows arbitrary: previous creates cancels events rule: rev_induct)
    case (snoc row rows)
    obtain p cr ca ev where st: "run_log env rows = Inr (p, cr, ca, ev)" "log_step env row (p, cr, ca, ev) = Inr (previous, creates, cancels, events)"
      using snoc.prems by (elim run_log_snoc) (metis prod_cases4)
    note IH = snoc.IH [OF st(1)] and new = log_step_Inr [OF st(2)]
    from new(3) show ?case
    proof
      assume c: "v_action (v_content row) = ''created'' \<and> v_reservation (v_content row) \<notin> set cr \<and>
         creates = v_reservation (v_content row) # cr \<and> cancels = ca"
      have "dom cancels \<subseteq> set creates" using c IH by auto
      moreover have "set creates = {v_reservation (v_content e) |e. e \<in> set (rows @ [row]) \<and> v_action (v_content e) = ''created''}"
        using c IH by auto
      ultimately show ?thesis using IH new(1,2) by simp
    next
      assume c: "v_action (v_content row) \<noteq> ''created'' \<and> v_reservation (v_content row) \<in> set cr \<and>
         creates = cr \<and> cancels = ca(v_reservation (v_content row) \<mapsto> v_occurred_at (v_content row))"
      have "dom ca \<subseteq> set cr" using IH by blast
      then have "dom cancels \<subseteq> set creates" using c by auto
      moreover have "set creates = {v_reservation (v_content e) |e. e \<in> set (rows @ [row]) \<and> v_action (v_content e) = ''created''}"
        using c IH by auto
      ultimately show ?thesis using IH new(1,2) by simp
    qed
  qed auto
  then show "previous = tip v_hash '''' rows" "dom cancels \<subseteq> set creates" "events = map calendar_event_of rows"
    "set creates = {v_reservation (v_content e) |e. e \<in> set rows \<and> v_action (v_content e) = ''created''}" by blast+
qed

section \<open>Appending to a calendar\<close>

lemma scope_log_append:
  assumes "cal_events s' = cal_events s @ [row]" and "v_sequence (v_content row) = next_calendar_sequence s"
  shows "scope_log sc s' = (if v_scope (v_content row) = sc then scope_log sc s @ [row] else scope_log sc s)"
  unfolding scope_log_def assms(1)
  by (rule numbered_append [of "\<lambda>e. v_sequence (v_content e)", OF assms(2) [unfolded next_calendar_sequence_def]])

lemma upsert_calendar_state_effect:
  assumes "upsert_calendar_state st s = Inr s'"
    and "\<And>q. select_key cs_scope (cs_scope st) (cal_states s) = Some q \<Longrightarrow> cs_base_revision q = cs_base_revision st"
  shows "select_key cs_scope (cs_scope st) (cal_states s') = Some st"
    "\<And>sc. sc \<noteq> cs_scope st \<Longrightarrow> select_key cs_scope sc (cal_states s') = select_key cs_scope sc (cal_states s)"
    "cal_rows s' = cal_rows s" "cal_events s' = cal_events s"
proof -
  have upd: "select_key cs_scope sc (update_where (\<lambda>q. cs_scope q = cs_scope st) (\<lambda>q. st\<lparr>cs_base_revision := cs_base_revision q\<rparr>) xs) =
      (if sc = cs_scope st then map_option (\<lambda>q. st\<lparr>cs_base_revision := cs_base_revision q\<rparr>) (select_key cs_scope sc xs)
       else select_key cs_scope sc xs)" for sc xs
    by (induction xs) auto
  have same: "st\<lparr>cs_base_revision := cs_base_revision st\<rparr> = st" by simp
  have present: "\<exists>q. select_key cs_scope (cs_scope st) (cal_states s) = Some q" if "cs_scope st \<in> cs_scope ` set (cal_states s)"
    using that by (cases "select_key cs_scope (cs_scope st) (cal_states s)") (auto simp: select_where_None_iff)
  have absent: "select_key cs_scope (cs_scope st) (cal_states s) = None" if "cs_scope st \<notin> cs_scope ` set (cal_states s)"
    using that unfolding select_where_None_iff by (metis image_eqI)
  show "select_key cs_scope (cs_scope st) (cal_states s') = Some st"
  proof (cases "cs_scope st \<in> cs_scope ` set (cal_states s)")
    case True
    then obtain q where q: "select_key cs_scope (cs_scope st) (cal_states s) = Some q" using present by blast
    have "s' = s\<lparr>cal_states := update_where (\<lambda>q. cs_scope q = cs_scope st)
        (\<lambda>q. st\<lparr>cs_base_revision := cs_base_revision q\<rparr>) (cal_states s)\<rparr>"
      using assms(1) True by (simp add: upsert_calendar_state_def if_Inl_eq_Inr)
    then show ?thesis using upd [of "cs_scope st" "cal_states s"] assms(2) [OF q] by (simp add: q)
  next
    case False
    then have "s' = s\<lparr>cal_states := cal_states s @ [st]\<rparr>" using assms(1) by (simp add: upsert_calendar_state_def if_Inl_eq_Inr)
    then show ?thesis using absent [OF False] by (simp add: select_where_append)
  qed
  show "select_key cs_scope sc (cal_states s') = select_key cs_scope sc (cal_states s)" if "sc \<noteq> cs_scope st" for sc
  proof -
    have "cal_states s' = (if cs_scope st \<in> cs_scope ` set (cal_states s)
        then update_where (\<lambda>q. cs_scope q = cs_scope st) (\<lambda>q. st\<lparr>cs_base_revision := cs_base_revision q\<rparr>) (cal_states s)
        else cal_states s @ [st])"
    proof -
      have "(if cs_scope st \<in> cs_scope ` set (cal_states s)
          then s\<lparr>cal_states := update_where (\<lambda>q. cs_scope q = cs_scope st) (\<lambda>q. st\<lparr>cs_base_revision := cs_base_revision q\<rparr>) (cal_states s)\<rparr>
          else s\<lparr>cal_states := cal_states s @ [st]\<rparr>) = s'"
        using assms(1) unfolding upsert_calendar_state_def if_Inl_eq_Inr by blast
      then show ?thesis by (auto split: if_split_asm)
    qed
    then show ?thesis using that upd [of sc "cal_states s"] by (simp add: select_where_append split: option.split)
  qed
  show "cal_rows s' = cal_rows s" "cal_events s' = cal_events s"
    using assms(1) by (auto simp: upsert_calendar_state_def if_Inl_eq_Inr)
qed

lemma new_calendar_row_fields [simp]:
  "v_sequence (v_content (new_calendar_row env eid sc cmd action aid rid revision now rh previous s)) = next_calendar_sequence s"
  "v_scope (v_content (new_calendar_row env eid sc cmd action aid rid revision now rh previous s)) = sc"
  "v_command (v_content (new_calendar_row env eid sc cmd action aid rid revision now rh previous s)) = cmd"
  "v_action (v_content (new_calendar_row env eid sc cmd action aid rid revision now rh previous s)) = action"
  "v_actor (v_content (new_calendar_row env eid sc cmd action aid rid revision now rh previous s)) = aid"
  "v_reservation (v_content (new_calendar_row env eid sc cmd action aid rid revision now rh previous s)) = rid"
  "v_revision (v_content (new_calendar_row env eid sc cmd action aid rid revision now rh previous s)) = revision"
  "v_event_id (v_content (new_calendar_row env eid sc cmd action aid rid revision now rh previous s)) = eid"
  "v_occurred_at (v_content (new_calendar_row env eid sc cmd action aid rid revision now rh previous s)) = now"
  "v_request_hash (v_content (new_calendar_row env eid sc cmd action aid rid revision now rh previous s)) = rh"
  "v_previous_hash (v_content (new_calendar_row env eid sc cmd action aid rid revision now rh previous s)) = previous"
  "v_hash (new_calendar_row env eid sc cmd action aid rid revision now rh previous s) =
     cal_event_mac env (v_content (new_calendar_row env eid sc cmd action aid rid revision now rh previous s))"
  by (simp_all add: new_calendar_row_def Let_def)

definition last_hash_of :: "calendar_state option \<Rightarrow> string" where
  "last_hash_of state = (case state of None \<Rightarrow> '''' | Some st \<Rightarrow> cs_last_hash st)"

lemma state_matches_last:
  assumes "state_matches state rows previous" and "previous = tip v_hash '''' rows"
  shows "last_hash_of state = previous"
  using assms by (auto simp: state_matches_def last_hash_of_def split: option.splits)

lemma insert_event_effect:
  assumes sound: "sound_calendar env" and st: "calendar_state_of env (scope_of a) s = Inr state"
    and run: "insert_event env eid a state cmd action aid rid rh now s1 = Inr (revision, s')"
    and states: "cal_states s1 = cal_states s"
  obtains row state' where
    "row = new_calendar_row env eid (scope_of a) cmd action aid rid revision now rh (last_hash_of state) s1"
    "revision = current_revision a state + 1" "action \<in> {''created'', ''cancelled''}"
    "cal_rows s' = cal_rows s1" "cal_events s' = cal_events s1 @ [row]" "rid \<in> rw_id ` set (cal_rows s1)"
    "(scope_of a, cmd) \<notin> (\<lambda>q. (v_scope (v_content q), v_command (v_content q))) ` set (cal_events s1)"
    "calendar_state_of env (scope_of a) s' = Inr (Some state')"
    "\<And>rows previous. state_matches state rows previous \<Longrightarrow> state_matches (Some state') (rows @ [row]) (v_hash row)"
    "cs_revision state' = revision"
    "\<And>sc. sc \<noteq> scope_of a \<Longrightarrow> calendar_state_of env sc s' = calendar_state_of env sc s"
proof -
  define base where "base = (case state of None \<Rightarrow> ra_calendar_revision a | Some q \<Rightarrow> cs_base_revision q)"
  define cur where "cur = (case state of None \<Rightarrow> base | Some q \<Rightarrow> cs_revision q)"
  define seen where "seen = (case state of None \<Rightarrow> 0 | Some q \<Rightarrow> cs_event_count q)"
  let ?row = "new_calendar_row env eid (scope_of a) cmd action aid rid (cur + 1) now rh (last_hash_of state) s1"
  let ?st = "\<lparr>cs_scope = scope_of a, cs_base_revision = base, cs_revision = cur + 1, cs_event_count = seen + 1,
      cs_last_hash = v_hash ?row, cs_state_hash = cal_state_mac env (scope_of a) base (cur + 1) (seen + 1) (v_hash ?row)\<rparr>"
  obtain s2 where ins: "insert_calendar_row ?row s1 = Inr s2" and ups: "upsert_calendar_state ?st s2 = Inr s'" and rev: "revision = cur + 1"
  proof -
    have "insert_event env eid a state cmd action aid rid rh now s1 =
        bind_res (insert_calendar_row ?row s1) (\<lambda>s2. bind_res (upsert_calendar_state ?st s2) (\<lambda>s3. Inr (cur + 1, s3)))"
      by (simp only: insert_event_def Let_def base_def cur_def seen_def last_hash_of_def)
    then have "bind_res (insert_calendar_row ?row s1) (\<lambda>s2. bind_res (upsert_calendar_state ?st s2) (\<lambda>s3. Inr (cur + 1, s3))) =
        Inr (revision, s')" using run by simp
    then show thesis using that by (auto simp only: bind_res_Inr_iff sum.inject prod.inject)
  qed
  have s2: "s2 = s1\<lparr>cal_events := cal_events s1 @ [?row]\<rparr>" and ok: "rid \<in> rw_id ` set (cal_rows s1)"
    "(scope_of a, cmd) \<notin> (\<lambda>q. (v_scope (v_content q), v_command (v_content q))) ` set (cal_events s1)"
    "action \<in> {''created'', ''cancelled''}"
    using ins by (simp_all add: insert_calendar_row_def if_Inl_eq_Inr)
  have bq: "cs_base_revision q = base" if "select_key cs_scope (scope_of a) (cal_states s2) = Some q" for q
  proof -
    have "select_key cs_scope (scope_of a) (cal_states s) = state"
      using st by (cases "select_key cs_scope (scope_of a) (cal_states s)") (simp_all add: calendar_state_of_def if_Inl_eq_Inr)
    with that show ?thesis by (simp add: s2 states base_def)
  qed
  have eff: "select_key cs_scope (scope_of a) (cal_states s') = Some ?st" "cal_rows s' = cal_rows s2" "cal_events s' = cal_events s2"
    using upsert_calendar_state_effect(1,3,4) [OF ups] bq by simp_all
  have other: "select_key cs_scope sc (cal_states s') = select_key cs_scope sc (cal_states s2)" if "sc \<noteq> scope_of a" for sc
    using upsert_calendar_state_effect(2) [OF ups, of sc] bq that by simp
  have cur: "cur = current_revision a state" by (simp add: cur_def base_def current_revision_def split: option.split)
  show thesis
  proof (rule that)
    show "?row = new_calendar_row env eid (scope_of a) cmd action aid rid revision now rh (last_hash_of state) s1" by (simp add: rev)
    show "calendar_state_of env (scope_of a) s' = Inr (Some ?st)"
      using eff(1) by (simp add: calendar_state_of_def sound_calendarD(3) [OF sound])
    show "calendar_state_of env sc s' = calendar_state_of env sc s" if "sc \<noteq> scope_of a" for sc
      using other [OF that] by (simp add: calendar_state_of_def s2 states)
    show "state_matches (Some ?st) (rows @ [?row]) (v_hash ?row)" if "state_matches state rows previous" for rows previous
      using that by (auto simp: state_matches_def base_def cur_def seen_def split: option.splits)
  qed (use eff ok rev cur s2 in simp_all)
qed


section \<open>Capacity\<close>

definition span_load :: "(int \<times> int \<times> int) list \<Rightarrow> int \<Rightarrow> int" where
  "span_load spans x = sum_list (map (\<lambda>(b, e, u). if b \<le> x \<and> x < e then u else 0) spans)"

definition weight :: "int \<Rightarrow> occurrence list \<Rightarrow> int \<Rightarrow> int" where
  "weight units os x = sum_list (map (\<lambda>oc. if oc_start oc \<le> x \<and> x < oc_end oc then units else 0) os)"

definition held :: "int \<Rightarrow> reservation \<Rightarrow> int" where
  "held x r = (if rv_cancelled_at r = None then weight (rb_units (rv_body r)) (rb_occurrences (rv_body r)) x else 0)"

lemma span_load_active: "span_load (active_spans rs) x = sum_list (map (held x) rs)"
proof (induction rs)
  case Nil
  then show ?case by (simp add: span_load_def active_spans_def)
next
  case (Cons r rs)
  have "span_load (active_spans (r # rs)) x =
      (if rv_cancelled_at r = None then weight (rb_units (rv_body r)) (rb_occurrences (rv_body r)) x else 0) + span_load (active_spans rs) x"
    by (auto simp: span_load_def active_spans_def weight_def comp_def)
  then show ?case by (simp add: Cons.IH held_def)
qed

lemma weight_nonneg: "0 \<le> u \<Longrightarrow> 0 \<le> weight u os x"
  by (auto simp: weight_def intro!: sum_list_nonneg)

text \<open>The admission test bounds the load at every instant: two spans that hold an instant in common
  meet, so the count made for one of them covers all of them.\<close>

lemma fits_bounds_load:
  assumes fits: "fits capacity units proposed existing" and nonneg: "0 \<le> units" "\<forall>(b, e, u) \<in> set existing. 0 \<le> u"
    and before: "span_load existing x \<le> capacity"
  shows "span_load existing x + weight units proposed x \<le> capacity"
proof (cases "\<exists>i < length proposed. oc_start (proposed ! i) \<le> x \<and> x < oc_end (proposed ! i)")
  case False
  then have "map (\<lambda>oc. if oc_start oc \<le> x \<and> x < oc_end oc then units else 0) proposed = map (\<lambda>_. 0) proposed"
    by (intro map_cong) (auto simp: in_set_conv_nth)
  then have "weight units proposed x = 0" unfolding weight_def by (simp only: sum_list_0)
  then show ?thesis using before by simp
next
  case True
  then obtain i where i: "i < length proposed" "oc_start (proposed ! i) \<le> x" "x < oc_end (proposed ! i)" by blast
  let ?n = "length proposed" and ?p = "proposed ! i"
  let ?f = "\<lambda>j. if oc_start (proposed ! j) \<le> x \<and> x < oc_end (proposed ! j) then units else 0"
  let ?g = "\<lambda>j. if j \<noteq> i \<and> spans_meet (oc_start ?p) (oc_end ?p) (oc_start (proposed ! j)) (oc_end (proposed ! j)) then units else 0"
  have used: "units_used units proposed existing i \<le> capacity" using fits i(1) by (auto simp: fits_def list_all_iff)
  have old: "span_load existing x \<le> sum_list (map (\<lambda>(s, e, u). if spans_meet (oc_start ?p) (oc_end ?p) s e then u else 0) existing)"
    unfolding span_load_def by (rule sum_list_mono) (use nonneg(2) i in \<open>auto simp: spans_meet_def\<close>)
  have "weight units proposed x = (\<Sum>j \<in> {0..<?n}. ?f j)"
    by (simp add: weight_def sum_list_sum_nth)
  also have "\<dots> \<le> (\<Sum>j \<in> {0..<?n}. ?g j + (if j = i then units else 0))"
    by (rule sum_mono) (use nonneg(1) i in \<open>auto simp: spans_meet_def\<close>)
  also have "\<dots> = (\<Sum>j \<in> {0..<?n}. ?g j) + units" using i(1) by (simp add: sum.distrib)
  also have "(\<Sum>j \<in> {0..<?n}. ?g j) = sum_list (map ?g [0..<?n])" by (simp add: interv_sum_list_conv_sum_set_nat)
  finally have "weight units proposed x \<le> sum_list (map ?g [0..<?n]) + units" .
  with used old show ?thesis by (simp add: units_used_def Let_def)
qed

lemma sum_list_sort_key: "sum_list (map f (sort_key k xs)) = sum_list (map f xs)" for f :: "'a \<Rightarrow> int"
proof -
  have "mset (map f (sort_key k xs)) = mset (map f xs)" by simp
  then show ?thesis by (metis sum_mset_sum_list)
qed

section \<open>The invariant of the calendar\<close>

text \<open>Every calendar verifies and holds no instant above its capacity.\<close>

definition calendar_ok :: "('raw, 'ct) calendar_env \<Rightarrow> (scope \<Rightarrow> int) \<Rightarrow> scope \<Rightarrow> 'ct calendar_db \<Rightarrow> bool" where
  "calendar_ok env cap sc s \<longleftrightarrow> (\<exists>events rs. verified_calendar env sc s = Inr (events, rs) \<and>
     (\<forall>r \<in> set rs. 0 \<le> rb_units (rv_body r)) \<and> (\<forall>x. span_load (active_spans rs) x \<le> cap sc))"

lemma verified_calendar_cong:
  assumes "calendar_state_of env sc s' = calendar_state_of env sc s" "scope_log sc s' = scope_log sc s"
    "scope_records sc s' = scope_records sc s"
  shows "verified_calendar env sc s' = verified_calendar env sc s"
  using assms by (simp add: verified_calendar_def)

lemma scope_records_append:
  assumes "cal_rows s' = cal_rows s @ [new]"
  shows "rw_scope new \<noteq> sc \<Longrightarrow> scope_records sc s' = scope_records sc s"
    "rw_scope new = sc \<Longrightarrow> set (scope_records sc s') = insert new (set (scope_records sc s))"
    "rw_scope new = sc \<Longrightarrow> sum_list (map f (scope_records sc s')) = sum_list (map f (scope_records sc s)) + (f new :: int)"
  using assms by (simp_all add: scope_records_def sum_list_sort_key)

text \<open>One more event over records that still decrypt and match the log.\<close>

lemma verified_append:
  assumes state: "calendar_state_of env sc s' = Inr (Some state')" and scope: "scope_log sc s' = scope_log sc s @ [row]"
    and run: "run_log env (scope_log sc s) = Inr (p, cr, ca, events)" "log_step env row (p, cr, ca, events) = Inr (p', cr', ca', events')"
    and matches: "state_matches (Some state') (scope_log sc s @ [row]) p'"
    and recs: "\<forall>r \<in> set (scope_records sc s'). \<not> isl (decrypt_reservation env ca' r)" "rw_id ` set (scope_records sc s') = set cr'"
      "check_requests (scope_log sc s @ [row]) (scope_records sc s') = Inr ()"
  shows "verified_calendar env sc s' = Inr (events', map (reservation_at env ca') (scope_records sc s'))"
  unfolding verified_calendar_iff
  using assms by (intro exI [of _ "Some state'"] exI [of _ p'] exI [of _ cr'] exI [of _ ca']) (simp add: fold_res_append)

lemma create_row_of_append:
  "create_row_of rid (xs @ [e]) = (case create_row_of rid xs of Some f \<Rightarrow> Some f
     | None \<Rightarrow> if v_action (v_content e) = ''created'' \<and> v_reservation (v_content e) = rid then Some e else None)"
  unfolding create_row_of_def select_where_def [symmetric] by (simp add: select_where_append split: option.split)

lemma check_requests_append:
  assumes "check_requests xs rows = Inr ()"
  shows "check_requests (xs @ [e]) rows = Inr ()"
  using assms unfolding check_requests_iff create_row_of_append by fastforce


definition valid_booking :: "booking \<Rightarrow> bool" where
  "valid_booking b \<longleftrightarrow> 1 \<le> bk_units b \<and> bk_occurrences b \<noteq> []"

lemma decrypt_new_reservation:
  assumes "sound_calendar env" and "rb_occurrences b \<noteq> []" and "rb_resource b = snd (snd sc)"
  shows "decrypt_reservation env cancels (new_reservation_row env fr sc b rh now) =
    Inr \<lparr>rv_id = fr_reservation fr, rv_revision = 1, rv_body = b, rv_cancelled_at = cancels (fr_reservation fr)\<rparr>"
  using assms by (simp add: decrypt_reservation_def new_reservation_row_def Let_def sound_calendarD)

lemma reserve_body_new:
  assumes unused: "find_replay (scope_of a) cmd s = None"
    and run: "reserve_body env fr now actor a cmd b rh s = Inr (r, s')"
  obtains events rs state s1 revision where
    "verified_calendar env (scope_of a) s = Inr (events, rs)" "calendar_state_of env (scope_of a) s = Inr state"
    "ra_calendar_revision a = current_revision a state" "length rs < MAX_RESERVATIONS"
    "fits (rl_capacity (ra_resource a)) (bk_units b) (bk_occurrences b) (active_spans rs)"
    "fr_reservation fr \<notin> rw_id ` set (cal_rows s)"
    "s1 = s\<lparr>cal_rows := cal_rows s @ [new_reservation_row env fr (scope_of a) (body_of_booking a actor now b) rh now]\<rparr>"
    "insert_event env (fr_event fr) a state cmd ''created'' (p_id actor) (fr_reservation fr) rh now s1 = Inr (revision, s')"
    "r = \<lparr>rr_event_id = fr_event fr, rr_command_id = cmd, rr_action = ''created'', rr_calendar_revision = revision,
          rr_reservation = \<lparr>rv_id = fr_reservation fr, rv_revision = 1, rv_body = body_of_booking a actor now b, rv_cancelled_at = None\<rparr>\<rparr>"
proof -
  have id: "rw_id (new_reservation_row env fr sc bd rh now) = fr_reservation fr" for sc bd
    by (simp add: new_reservation_row_def Let_def)
  obtain events rs state where v: "verified_calendar env (scope_of a) s = Inr (events, rs)"
    "calendar_state_of env (scope_of a) s = Inr state"
    using run unused by (auto simp: reserve_body_def bind_res_Inr_iff)
  show thesis
    using run unused v
    by (intro that [where revision = "rr_calendar_revision r", OF v _ _ _ _ refl])
      (auto simp: reserve_body_def bind_res_Inr_iff if_Inl_eq_Inr insert_reservation_row_def id)
qed

lemma reserve_body_replayed:
  assumes "find_replay (scope_of a) cmd s = Some row" and "reserve_body env fr now actor a cmd b rh s = Inr (r, s')"
  shows "s' = s"
  using assms by (auto simp: reserve_body_def bind_res_Inr_iff if_Inl_eq_Inr split: option.splits)

text \<open>A new reservation is added to its calendar, which still verifies; its load is added at every
  instant, and the other calendars are as before.\<close>

lemma reserve_body_adds:
  assumes sound: "sound_calendar env" and ascii: "is_ascii rh" and vb: "valid_booking b"
    and unused: "find_replay (scope_of a) cmd s = None"
    and run: "reserve_body env fr now actor a cmd b rh s = Inr (r, s')"
  obtains events rs rs' ev where
    "verified_calendar env (scope_of a) s = Inr (events, rs)"
    "fits (rl_capacity (ra_resource a)) (bk_units b) (bk_occurrences b) (active_spans rs)"
    "verified_calendar env (scope_of a) s' = Inr (events @ [ev], rs')"
    "set rs' = insert (rr_reservation r) (set rs)"
    "\<And>x. span_load (active_spans rs') x = span_load (active_spans rs) x + weight (bk_units b) (bk_occurrences b) x"
    "rv_body (rr_reservation r) = body_of_booking a actor now b" "rv_cancelled_at (rr_reservation r) = None"
    "rn_calendar_revision ev = rr_calendar_revision r" "rr_calendar_revision r = ra_calendar_revision a + 1"
    "\<And>sc. sc \<noteq> scope_of a \<Longrightarrow> verified_calendar env sc s' = verified_calendar env sc s"
    "\<exists>st. calendar_state_of env (scope_of a) s' = Inr (Some st) \<and> cs_revision st = rr_calendar_revision r"
    "rv_id (rr_reservation r) \<notin> rv_id ` set rs"
    "\<exists>row. find_replay (scope_of a) cmd s' = Some row \<and> calendar_receipt row (rr_reservation r) = r \<and>
       v_action (v_content row) = ''created'' \<and> v_actor (v_content row) = p_id actor \<and> v_request_hash (v_content row) = rh \<and>
       v_reservation (v_content row) = rv_id (rr_reservation r)"
proof -
  let ?sc = "scope_of a"
  let ?body = "body_of_booking a actor now b"
  let ?new = "new_reservation_row env fr ?sc ?body rh now"
  obtain events rs state s1 revision where n: "verified_calendar env ?sc s = Inr (events, rs)"
    "calendar_state_of env ?sc s = Inr state" "ra_calendar_revision a = current_revision a state"
    "fits (rl_capacity (ra_resource a)) (bk_units b) (bk_occurrences b) (active_spans rs)"
    "fr_reservation fr \<notin> rw_id ` set (cal_rows s)" "s1 = s\<lparr>cal_rows := cal_rows s @ [?new]\<rparr>"
    "insert_event env (fr_event fr) a state cmd ''created'' (p_id actor) (fr_reservation fr) rh now s1 = Inr (revision, s')"
    "r = \<lparr>rr_event_id = fr_event fr, rr_command_id = cmd, rr_action = ''created'', rr_calendar_revision = revision,
          rr_reservation = \<lparr>rv_id = fr_reservation fr, rv_revision = 1, rv_body = ?body, rv_cancelled_at = None\<rparr>\<rparr>"
    by (rule reserve_body_new [OF unused run]) blast
  have s1: "cal_states s1 = cal_states s" "cal_events s1 = cal_events s" by (simp_all add: n(6))
  obtain row state' where row: "row = new_calendar_row env (fr_event fr) ?sc cmd ''created'' (p_id actor) (fr_reservation fr) revision now rh (last_hash_of state) s1"
    and ev: "revision = current_revision a state + 1" "cal_rows s' = cal_rows s1" "cal_events s' = cal_events s1 @ [row]"
      "calendar_state_of env ?sc s' = Inr (Some state')" "cs_revision state' = revision"
    and match: "\<And>rows previous. state_matches state rows previous \<Longrightarrow> state_matches (Some state') (rows @ [row]) (v_hash row)"
    and other: "\<And>sc. sc \<noteq> ?sc \<Longrightarrow> calendar_state_of env sc s' = calendar_state_of env sc s"
    by (rule insert_event_effect [OF sound n(2,7) s1(1)]) blast
  have rows': "cal_rows s' = cal_rows s @ [?new]" using ev(2) by (simp add: n(6))
  have seq: "v_sequence (v_content row) = next_calendar_sequence s" by (simp add: row next_calendar_sequence_def s1)
  have ev': "cal_events s' = cal_events s @ [row]" using ev(3) s1(2) by simp
  have lg: "scope_log sc s' = (if ?sc = sc then scope_log sc s @ [row] else scope_log sc s)" for sc
    using scope_log_append [OF ev' seq, of sc] by (simp add: row)
  have newf: "rw_scope ?new = ?sc" "rw_id ?new = fr_reservation fr" "rw_request_hash ?new = rh"
    by (simp_all add: new_reservation_row_def Let_def)
  obtain p cr ca where ver: "run_log env (scope_log ?sc s) = Inr (p, cr, ca, events)"
    "state_matches state (scope_log ?sc s) p"
    "\<forall>q \<in> set (scope_records ?sc s). \<not> isl (decrypt_reservation env ca q)"
    "rs = map (reservation_at env ca) (scope_records ?sc s)" "rw_id ` set (scope_records ?sc s) = set cr"
    "check_requests (scope_log ?sc s) (scope_records ?sc s) = Inr ()"
    using n(1,2) unfolding verified_calendar_iff by auto
  note lf = run_log_facts [OF ver(1)]
  have fresh: "fr_reservation fr \<notin> set cr"
    using n(5) ver(5) by (auto simp: scope_records_def)
  have nocancel: "ca (fr_reservation fr) = None" using lf(2) fresh by auto
  have dec: "decrypt_reservation env ca ?new = Inr (rr_reservation r)"
    using decrypt_new_reservation [OF sound, of ?body ?sc ca fr rh now] vb nocancel
    by (simp add: body_of_booking_def valid_booking_def scope_of_def n(8))
  have lstep: "log_step env row (p, cr, ca, events) = Inr (v_hash row, fr_reservation fr # cr, ca, events @ [calendar_event_of row])"
    using state_matches_last [OF ver(2) lf(1)] fresh by (simp add: row sound_calendarD(4) [OF sound])
  have recs: "set (scope_records ?sc s') = insert ?new (set (scope_records ?sc s))"
    using scope_records_append(2) [OF rows'] newf by simp
  have chk: "check_requests (scope_log ?sc s @ [row]) (scope_records ?sc s') = Inr ()"
  proof -
    have "create_row_of (fr_reservation fr) (scope_log ?sc s) = None"
      using fresh lf(4) by (auto simp: create_row_of_def find_None_iff)
    then have "create_row_of (fr_reservation fr) (scope_log ?sc s @ [row]) = Some row" by (simp add: create_row_of_append row)
    then show ?thesis
      using check_requests_append [OF ver(6), of row] recs newf ascii by (simp add: check_requests_iff row)
  qed
  have verified: "verified_calendar env ?sc s' = Inr (events @ [calendar_event_of row], map (reservation_at env ca) (scope_records ?sc s'))"
    using ver(3,5) dec recs newf
    by (intro verified_append [OF ev(4) _ ver(1) lstep match [OF ver(2)] _ _ chk]) (simp_all add: lg)
  show thesis
  proof (rule that [OF n(1,4) verified])
    show "set (map (reservation_at env ca) (scope_records ?sc s')) = insert (rr_reservation r) (set rs)"
      using dec by (simp add: recs ver(4))
    show "span_load (active_spans (map (reservation_at env ca) (scope_records ?sc s'))) x =
        span_load (active_spans rs) x + weight (bk_units b) (bk_occurrences b) x" for x
      using scope_records_append(3) [OF rows' newf(1), of "held x \<circ> reservation_at env ca"] dec
      by (simp add: span_load_active ver(4) held_def n(8) body_of_booking_def)
    show "verified_calendar env sc s' = verified_calendar env sc s" if "sc \<noteq> ?sc" for sc
      using other [OF that] lg scope_records_append(1) [OF rows'] newf that by (intro verified_calendar_cong) auto
    show "rv_id (rr_reservation r) \<notin> rv_id ` set rs"
      using fresh ver(3,5) by (auto simp: n(8) ver(4) reservation_at_fields)
    show "\<exists>row. find_replay ?sc cmd s' = Some row \<and> calendar_receipt row (rr_reservation r) = r \<and>
       v_action (v_content row) = ''created'' \<and> v_actor (v_content row) = p_id actor \<and> v_request_hash (v_content row) = rh \<and>
       v_reservation (v_content row) = rv_id (rr_reservation r)"
      using unused by (intro exI [of _ row]) (simp add: find_replay_def ev' select_where_append row calendar_receipt_def n(8))
  qed (use n(3,8) ev(1,4,5) in \<open>simp_all add: calendar_event_of_def Let_def row\<close>)
qed


lemma cancel_body_new:
  assumes unused: "find_replay (scope_of a) cmd s = None"
    and run: "cancel_body env eid now actor a cmd rid rh s = Inr (r, s')"
  obtains events rs state old revision where
    "verified_calendar env (scope_of a) s = Inr (events, rs)" "calendar_state_of env (scope_of a) s = Inr state"
    "ra_calendar_revision a = current_revision a state" "find_reservation rid rs = Some old" "rv_cancelled_at old = None"
    "p_role actor = Admin \<or> rb_owner (rv_body old) = p_id actor"
    "insert_event env eid a state cmd ''cancelled'' (p_id actor) (rv_id old) rh now s = Inr (revision, s')"
    "r = \<lparr>rr_event_id = eid, rr_command_id = cmd, rr_action = ''cancelled'', rr_calendar_revision = revision,
          rr_reservation = old\<lparr>rv_cancelled_at := Some now\<rparr>\<rparr>"
proof -
  obtain events rs state old where v: "verified_calendar env (scope_of a) s = Inr (events, rs)"
    "calendar_state_of env (scope_of a) s = Inr state" "find_reservation rid rs = Some old"
    using run unused by (auto simp: cancel_body_def bind_res_Inr_iff if_Inl_eq_Inr split: option.splits)
  show thesis
    using run unused v
    by (intro that [where revision = "rr_calendar_revision r", OF v(1,2) _ v(3)])
      (auto simp: cancel_body_def bind_res_Inr_iff if_Inl_eq_Inr)
qed

lemma cancel_body_replayed:
  assumes "find_replay (scope_of a) cmd s = Some row" and "cancel_body env eid now actor a cmd rid rh s = Inr (r, s')"
  shows "s' = s"
  using assms by (auto simp: cancel_body_def bind_res_Inr_iff if_Inl_eq_Inr split: option.splits)

text \<open>A cancellation marks one reservation and leaves everything else.\<close>

definition mark_cancelled :: "string \<Rightarrow> time \<Rightarrow> reservation \<Rightarrow> reservation" where
  "mark_cancelled rid now q = (if rv_id q = rid then q\<lparr>rv_cancelled_at := Some now\<rparr> else q)"

lemma cancel_body_marks:
  assumes sound: "sound_calendar env"
    and unused: "find_replay (scope_of a) cmd s = None"
    and run: "cancel_body env eid now actor a cmd rid rh s = Inr (r, s')"
  obtains events rs old ev where
    "verified_calendar env (scope_of a) s = Inr (events, rs)"
    "find_reservation rid rs = Some old" "rv_cancelled_at old = None" "p_role actor = Admin \<or> rb_owner (rv_body old) = p_id actor"
    "verified_calendar env (scope_of a) s' = Inr (events @ [ev], map (mark_cancelled rid now) rs)"
    "rr_reservation r = old\<lparr>rv_cancelled_at := Some now\<rparr>" "rr_calendar_revision r = ra_calendar_revision a + 1"
    "rn_calendar_revision ev = rr_calendar_revision r"
    "\<And>sc. sc \<noteq> scope_of a \<Longrightarrow> verified_calendar env sc s' = verified_calendar env sc s"
    "\<exists>st. calendar_state_of env (scope_of a) s' = Inr (Some st) \<and> cs_revision st = rr_calendar_revision r"
proof -
  let ?sc = "scope_of a"
  obtain events rs state old revision where n: "verified_calendar env ?sc s = Inr (events, rs)"
    "calendar_state_of env ?sc s = Inr state" "ra_calendar_revision a = current_revision a state"
    "find_reservation rid rs = Some old" "rv_cancelled_at old = None" "p_role actor = Admin \<or> rb_owner (rv_body old) = p_id actor"
    "insert_event env eid a state cmd ''cancelled'' (p_id actor) (rv_id old) rh now s = Inr (revision, s')"
    "r = \<lparr>rr_event_id = eid, rr_command_id = cmd, rr_action = ''cancelled'', rr_calendar_revision = revision,
          rr_reservation = old\<lparr>rv_cancelled_at := Some now\<rparr>\<rparr>"
    by (rule cancel_body_new [OF unused run]) blast
  have old: "rv_id old = rid" "old \<in> set rs" using n(4) by (auto simp: find_reservation_def find_Some_iff)
  obtain row state' where row: "row = new_calendar_row env eid ?sc cmd ''cancelled'' (p_id actor) (rv_id old) revision now rh (last_hash_of state) s"
    and ev: "revision = current_revision a state + 1" "cal_rows s' = cal_rows s" "cal_events s' = cal_events s @ [row]"
      "calendar_state_of env ?sc s' = Inr (Some state')" "cs_revision state' = revision"
    and match: "\<And>rows previous. state_matches state rows previous \<Longrightarrow> state_matches (Some state') (rows @ [row]) (v_hash row)"
    and other: "\<And>sc. sc \<noteq> ?sc \<Longrightarrow> calendar_state_of env sc s' = calendar_state_of env sc s"
    by (rule insert_event_effect [OF sound n(2,7) refl]) blast
  have recs: "scope_records sc s' = scope_records sc s" for sc by (simp add: scope_records_def ev(2))
  have lg: "scope_log sc s' = (if ?sc = sc then scope_log sc s @ [row] else scope_log sc s)" for sc
    using scope_log_append [OF ev(3), of sc] by (simp add: row)
  obtain p cr ca where ver: "run_log env (scope_log ?sc s) = Inr (p, cr, ca, events)"
    "state_matches state (scope_log ?sc s) p"
    "\<forall>q \<in> set (scope_records ?sc s). \<not> isl (decrypt_reservation env ca q)"
    "rs = map (reservation_at env ca) (scope_records ?sc s)" "rw_id ` set (scope_records ?sc s) = set cr"
    "check_requests (scope_log ?sc s) (scope_records ?sc s) = Inr ()"
    using n(1,2) unfolding verified_calendar_iff by auto
  note lf = run_log_facts [OF ver(1)]
  obtain q where q: "q \<in> set (scope_records ?sc s)" "old = reservation_at env ca q" using old(2) ver(4) by auto
  have known: "rid \<in> set cr" "ca rid = None"
    using q ver(3,5) old(1) n(5) reservation_at_fields [of env ca q] by auto
  let ?ca = "ca(rid \<mapsto> now)"
  have lstep: "log_step env row (p, cr, ca, events) = Inr (v_hash row, cr, ?ca, events @ [calendar_event_of row])"
    using state_matches_last [OF ver(2) lf(1)] known old(1) by (simp add: row sound_calendarD(4) [OF sound])
  have dec: "\<forall>q \<in> set (scope_records ?sc s). \<not> isl (decrypt_reservation env ?ca q)"
    using ver(3) decrypt_reservation_cancels(1) by blast
  have marked: "map (reservation_at env ?ca) (scope_records ?sc s) = map (mark_cancelled rid now) rs"
  proof -
    have "reservation_at env ?ca q = mark_cancelled rid now (reservation_at env ca q)" if "q \<in> set (scope_records ?sc s)" for q
      using decrypt_reservation_cancels(2) [of env ca q ?ca] reservation_at_fields [of env ca q] ver(3) that
      by (auto simp: mark_cancelled_def)
    then show ?thesis by (simp add: ver(4))
  qed
  have verified: "verified_calendar env ?sc s' = Inr (events @ [calendar_event_of row], map (mark_cancelled rid now) rs)"
    unfolding marked [symmetric] recs [symmetric, of ?sc]
    using ver(5,6) dec
    by (intro verified_append [OF ev(4) _ ver(1) lstep match [OF ver(2)]]) (simp_all add: lg recs check_requests_append)
  show thesis
  proof (rule that [OF n(1,4,5,6) verified])
    show "verified_calendar env sc s' = verified_calendar env sc s" if "sc \<noteq> ?sc" for sc
      using other [OF that] lg recs that by (intro verified_calendar_cong) auto
  qed (use n(3,8) ev(1,4,5) in \<open>simp_all add: calendar_event_of_def Let_def row\<close>)
qed

lemma held_mark_cancelled:
  assumes "0 \<le> rb_units (rv_body q)"
  shows "held x (mark_cancelled rid now q) \<le> held x q"
  using assms weight_nonneg by (simp add: held_def mark_cancelled_def)

section \<open>Reachable calendars\<close>

text \<open>The calls, with a capacity for each resource that every authority agrees on.\<close>

inductive calendar_step :: "('raw, 'ct) calendar_env \<Rightarrow> (scope \<Rightarrow> int) \<Rightarrow> 'ct calendar_db \<Rightarrow> 'ct calendar_db \<Rightarrow> bool"
  for env cap where
  step_reserve: "valid_authority env a \<Longrightarrow> rl_capacity (ra_resource a) = cap (scope_of a) \<Longrightarrow>
    calendar_step env cap s (snd (reserve env fr now actor bytes a s))"
| step_cancel: "valid_authority env a \<Longrightarrow> calendar_step env cap s (snd (cancel env eid now actor bytes a s))"

definition calendar_reach :: "('raw, 'ct) calendar_env \<Rightarrow> (scope \<Rightarrow> int) \<Rightarrow> 'ct calendar_db \<Rightarrow> bool" where
  "calendar_reach env cap s \<longleftrightarrow> (calendar_step env cap)\<^sup>*\<^sup>* \<lparr>cal_rows = [], cal_events = [], cal_states = []\<rparr> s"

lemma local_loop_length: "local_loop env zone ls duration fld = Inr os \<Longrightarrow> length os = length ls"
  by (induction ls arbitrary: os) (auto simp: bind_res_Inr_iff)

lemma recurrence_of_Inr: "recurrence_of rec = Inr (step, repeat) \<Longrightarrow> 1 \<le> repeat"
  by (simp add: recurrence_of_def if_Inl_eq_Inr split: option.splits jvalue.splits)

lemma local_occurrences_booking:
  assumes "local_occurrences env v rule = Inr b"
  shows "valid_booking b"
proof -
  obtain rec where "map_of v ''recurrence'' = Some (V_obj rec)"
    using assms by (simp add: local_occurrences_def split: option.splits jvalue.splits)
  then obtain step repeat start duration fld zone where r: "recurrence_of rec = Inr (step, repeat)"
    and l: "local_loop env zone (map (\<lambda>i. start + step * i) [0..repeat - 1]) duration fld = Inr (bk_occurrences b)"
    and u: "1 \<le> bk_units b"
    using assms
    by (auto simp: local_occurrences_def bind_res_Inr_iff if_Inl_eq_Inr split: option.splits jvalue.splits)
  have "length (bk_occurrences b) = nat repeat" using local_loop_length [OF l] by simp
  with recurrence_of_Inr [OF r] u show ?thesis by (auto simp: valid_booking_def)
qed

lemma parse_reserve_booking:
  assumes "parse_reserve env actor bytes a = Inr (cmd, b)"
  shows "valid_booking b"
  using assms local_occurrences_booking
  by (auto simp: parse_reserve_def bind_res_Inr_iff if_Inl_eq_Inr split: option.splits)


definition calendar_inv :: "('raw, 'ct) calendar_env \<Rightarrow> (scope \<Rightarrow> int) \<Rightarrow> 'ct calendar_db \<Rightarrow> bool" where
  "calendar_inv env cap s \<longleftrightarrow> (\<forall>sc. calendar_ok env cap sc s)"

lemma active_spans_nonneg:
  assumes "\<forall>r \<in> set rs. 0 \<le> rb_units (rv_body r)"
  shows "\<forall>(b, e, u) \<in> set (active_spans rs). 0 \<le> u"
  using assms by (auto simp: active_spans_def)

lemma reserve_body_inv:
  assumes sound: "sound_calendar env" and ascii: "is_ascii rh" and vb: "valid_booking b"
    and cap: "rl_capacity (ra_resource a) = cap (scope_of a)" and inv: "calendar_inv env cap s"
    and run: "reserve_body env fr now actor a cmd b rh s = Inr (r, s')"
  shows "calendar_inv env cap s'"
proof (cases "find_replay (scope_of a) cmd s")
  case (Some row)
  then show ?thesis using reserve_body_replayed [OF Some run] inv by simp
next
  case None
  obtain events rs rs' ev where n: "verified_calendar env (scope_of a) s = Inr (events, rs)"
    "fits (cap (scope_of a)) (bk_units b) (bk_occurrences b) (active_spans rs)"
    "verified_calendar env (scope_of a) s' = Inr (events @ [ev], rs')" "set rs' = insert (rr_reservation r) (set rs)"
    "\<And>x. span_load (active_spans rs') x = span_load (active_spans rs) x + weight (bk_units b) (bk_occurrences b) x"
    "rv_body (rr_reservation r) = body_of_booking a actor now b"
    "\<And>sc. sc \<noteq> scope_of a \<Longrightarrow> verified_calendar env sc s' = verified_calendar env sc s"
    by (rule reserve_body_adds [OF sound ascii vb None run], unfold cap) blast
  have old: "\<forall>r \<in> set rs. 0 \<le> rb_units (rv_body r)" "\<forall>x. span_load (active_spans rs) x \<le> cap (scope_of a)"
    using inv n(1) unfolding calendar_inv_def calendar_ok_def by (metis Inr_inject prod.inject)+
  have units: "0 \<le> bk_units b" using vb by (simp add: valid_booking_def)
  have "span_load (active_spans rs') x \<le> cap (scope_of a)" for x
    using fits_bounds_load [OF n(2) units active_spans_nonneg [OF old(1)]] old(2) n(5) by simp
  moreover have "\<forall>q \<in> set rs'. 0 \<le> rb_units (rv_body q)" using old(1) n(4,6) units by (simp add: body_of_booking_def)
  ultimately have "calendar_ok env cap (scope_of a) s'" using n(3) unfolding calendar_ok_def by blast
  then show ?thesis using inv n(7) unfolding calendar_inv_def calendar_ok_def by metis
qed

lemma cancel_body_inv:
  assumes sound: "sound_calendar env" and inv: "calendar_inv env cap s"
    and run: "cancel_body env eid now actor a cmd rid rh s = Inr (r, s')"
  shows "calendar_inv env cap s'"
proof (cases "find_replay (scope_of a) cmd s")
  case (Some row)
  then show ?thesis using cancel_body_replayed [OF Some run] inv by simp
next
  case None
  obtain events rs old ev where n: "verified_calendar env (scope_of a) s = Inr (events, rs)"
    "verified_calendar env (scope_of a) s' = Inr (events @ [ev], map (mark_cancelled rid now) rs)"
    "\<And>sc. sc \<noteq> scope_of a \<Longrightarrow> verified_calendar env sc s' = verified_calendar env sc s"
    by (rule cancel_body_marks [OF sound None run]) blast
  have old: "\<forall>r \<in> set rs. 0 \<le> rb_units (rv_body r)" "\<forall>x. span_load (active_spans rs) x \<le> cap (scope_of a)"
    using inv n(1) unfolding calendar_inv_def calendar_ok_def by (metis Inr_inject prod.inject)+
  have "span_load (active_spans (map (mark_cancelled rid now) rs)) x \<le> span_load (active_spans rs) x" for x
    unfolding span_load_active map_map comp_def
    by (rule sum_list_mono) (use old(1) held_mark_cancelled in blast)
  then have "span_load (active_spans (map (mark_cancelled rid now) rs)) x \<le> cap (scope_of a)" for x
    using old(2) by (meson order_trans)
  moreover have "\<forall>q \<in> set (map (mark_cancelled rid now) rs). 0 \<le> rb_units (rv_body q)"
    using old(1) by (auto simp: mark_cancelled_def)
  ultimately have "calendar_ok env cap (scope_of a) s'" using n(2) unfolding calendar_ok_def by blast
  then show ?thesis using inv n(3) unfolding calendar_inv_def calendar_ok_def by metis
qed

lemma calendar_step_inv:
  assumes sound: "sound_calendar env" and "calendar_step env cap s t" and inv: "calendar_inv env cap s"
  shows "calendar_inv env cap t"
  using assms(2)
proof cases
  case (step_reserve a fr now actor bytes)
  have "calendar_inv env cap s'" if "parse_reserve env actor bytes a = Inr (cmd, b)"
    "reserve_body env fr now actor a cmd b (request_print env bytes) s = Inr (r, s')" for cmd b r s'
    using reserve_body_inv [OF sound sound_calendarD(5) [OF sound] parse_reserve_booking [OF that(1)] step_reserve(3) inv that(2)] .
  then show ?thesis unfolding step_reserve(1)
  proof (cases "parse_reserve env actor bytes a")
    case (Inr cb)
    then obtain cmd b where "parse_reserve env actor bytes a = Inr (cmd, b)" by (cases cb) simp
    with \<open>\<And>cmd b r s'. parse_reserve env actor bytes a = Inr (cmd, b) \<Longrightarrow>
        reserve_body env fr now actor a cmd b (request_print env bytes) s = Inr (r, s') \<Longrightarrow> calendar_inv env cap s'\<close> inv
    show "calendar_inv env cap (snd (reserve env fr now actor bytes a s))"
      by (simp add: reserve_def transaction_preserves)
  qed (use inv in \<open>simp add: reserve_def\<close>)
next
  case (step_cancel a eid now actor bytes)
  then show ?thesis unfolding step_cancel(1)
    using inv cancel_body_inv [OF sound inv]
    by (cases "parse_cancel env actor bytes a") (simp_all add: cancel_def case_prod_beta transaction_preserves)
qed

interpretation calendar: stable_step "calendar_step env cap" "\<lambda>s. sound_calendar env \<and> calendar_inv env cap s"
  by unfold_locales (auto intro: calendar_step_inv)

lemma calendar_reach_inv:
  assumes sound: "sound_calendar env" and cap: "\<forall>sc. 0 \<le> cap sc" and "calendar_reach env cap s"
  shows "calendar_inv env cap s"
proof -
  have "calendar_ok env cap sc \<lparr>cal_rows = [], cal_events = [], cal_states = []\<rparr>" for sc
    using cap [rule_format, of sc] by (simp add: calendar_ok_def verified_calendar_def calendar_state_of_def scope_log_def scope_records_def
        active_spans_def span_load_def)
  then show ?thesis
    using calendar.steps_inv [OF assms(3) [unfolded calendar_reach_def]] sound by (simp add: calendar_inv_def)
qed

text \<open>A resource is never overbooked. In every store reached by reserving and cancelling, where the
  authorities of a resource agree on its capacity, the calendar of every resource verifies and at every
  instant the units of the reservations that are not cancelled and cover it add up to at most the
  capacity.\<close>

theorem reservations_never_overbooked:
  assumes "sound_calendar env" and "\<forall>sc. 0 \<le> cap sc" and "calendar_reach env cap s"
  shows "\<exists>events rs. verified_calendar env sc s = Inr (events, rs) \<and> (\<forall>x. span_load (active_spans rs) x \<le> cap sc)"
  using calendar_reach_inv [OF assms] unfolding calendar_inv_def calendar_ok_def by blast

lemma reserve_Inr:
  assumes "reserve env fr now actor bytes a s = (Inr r, s')"
  obtains cmd b where "parse_reserve env actor bytes a = Inr (cmd, b)"
    "reserve_body env fr now actor a cmd b (request_print env bytes) s = Inr (r, s')"
  using assms by (auto simp: reserve_def transaction_def split: sum.splits)

lemma cancel_Inr:
  assumes "cancel env eid now actor bytes a s = (Inr r, s')"
  obtains cmd rid where "parse_cancel env actor bytes a = Inr (cmd, rid)"
    "cancel_body env eid now actor a cmd rid (request_print env bytes) s = Inr (r, s')"
  using assms by (auto simp: cancel_def transaction_def split: sum.splits)

lemma reserve_command:
  assumes run: "reserve_body env fr now actor a cmd b rh s = Inr (r, s')"
  shows "rr_command_id r = cmd"
proof (cases "find_replay (scope_of a) cmd s")
  case None
  show ?thesis by (rule reserve_body_new [OF None run]) simp
next
  case (Some row)
  then show ?thesis
    using run select_where_Some [OF Some [unfolded find_replay_def]]
    by (auto simp: reserve_body_def bind_res_Inr_iff if_Inl_eq_Inr calendar_receipt_def split: option.splits)
qed

text \<open>C36: A new reservation is admitted only for the account named by the authority, at the current
  calendar revision. It is stored exactly as answered, is added to what the calendar held before,
  raises the revision by one and is the last event of the history; every other calendar is
  unchanged.\<close>

theorem reserve_adds_reservation:
  assumes "sound_calendar env" and "reserve env fr now actor bytes a s = (Inr r, s')"
    and "find_replay (scope_of a) (rr_command_id r) s = None"
  shows "\<exists>events rs ev rs'. verified_calendar env (scope_of a) s = Inr (events, rs) \<and>
     p_id actor = ra_account a \<and> rr_calendar_revision r = ra_calendar_revision a + 1 \<and>
     verified_calendar env (scope_of a) s' = Inr (events @ [ev], rs') \<and> rn_calendar_revision ev = rr_calendar_revision r \<and>
     set rs' = insert (rr_reservation r) (set rs) \<and> rv_id (rr_reservation r) \<notin> rv_id ` set rs \<and>
     rb_owner (rv_body (rr_reservation r)) = p_id actor \<and>
     read_calendar env actor (a\<lparr>ra_calendar_revision := rr_calendar_revision r\<rparr>) s' = Inr (rr_calendar_revision r, events @ [ev], rs') \<and>
     (\<forall>sc. sc \<noteq> scope_of a \<longrightarrow> verified_calendar env sc s' = verified_calendar env sc s)"
proof -
  obtain cmd b where p: "parse_reserve env actor bytes a = Inr (cmd, b)"
    and run: "reserve_body env fr now actor a cmd b (request_print env bytes) s = Inr (r, s')"
    by (rule reserve_Inr [OF assms(2)])
  have unused: "find_replay (scope_of a) cmd s = None" using assms(3) reserve_command [OF run] by simp
  have auth: "calendar_authorize actor a = Inr ()" using p by (auto simp: parse_reserve_def bind_res_Inr_iff)
  then have "p_id actor = ra_account a" by (simp add: calendar_authorize_def if_Inl_eq_Inr)
  obtain events rs rs' ev where n: "verified_calendar env (scope_of a) s = Inr (events, rs)"
    "verified_calendar env (scope_of a) s' = Inr (events @ [ev], rs')" "set rs' = insert (rr_reservation r) (set rs)"
    "rv_body (rr_reservation r) = body_of_booking a actor now b" "rn_calendar_revision ev = rr_calendar_revision r"
    "rr_calendar_revision r = ra_calendar_revision a + 1"
    "\<And>sc. sc \<noteq> scope_of a \<Longrightarrow> verified_calendar env sc s' = verified_calendar env sc s"
    "\<exists>st. calendar_state_of env (scope_of a) s' = Inr (Some st) \<and> cs_revision st = rr_calendar_revision r"
    "rv_id (rr_reservation r) \<notin> rv_id ` set rs"
    by (rule reserve_body_adds [OF assms(1) sound_calendarD(5) [OF assms(1)] parse_reserve_booking [OF p] unused run]) blast
  have "read_calendar env actor (a\<lparr>ra_calendar_revision := rr_calendar_revision r\<rparr>) s' = Inr (rr_calendar_revision r, events @ [ev], rs')"
  proof -
    let ?a = "a\<lparr>ra_calendar_revision := rr_calendar_revision r\<rparr>"
    have "scope_of ?a = scope_of a" "calendar_authorize actor ?a = calendar_authorize actor a"
      by (simp_all add: scope_of_def calendar_authorize_def)
    then show ?thesis using n(2,8) auth by (auto simp: read_calendar_def current_revision_def)
  qed
  then show ?thesis using n \<open>p_id actor = ra_account a\<close> by (auto simp: body_of_booking_def)
qed

text \<open>Reserving is idempotent: the same command sent again is answered with the same receipt and
  changes nothing.\<close>

theorem reserve_retry:
  assumes "sound_calendar env" and "reserve env fr now actor bytes a s = (Inr r, s')"
  shows "reserve env fr' now' actor bytes a s' = (Inr r, s')"
proof -
  obtain cmd b where p: "parse_reserve env actor bytes a = Inr (cmd, b)"
    and run: "reserve_body env fr now actor a cmd b (request_print env bytes) s = Inr (r, s')"
    by (rule reserve_Inr [OF assms(2)])
  have "reserve_body env fr' now' actor a cmd b (request_print env bytes) s' = Inr (r, s')"
  proof (cases "find_replay (scope_of a) cmd s")
    case (Some row)
    have "s' = s" by (rule reserve_body_replayed [OF Some run])
    with run Some show ?thesis by (simp add: reserve_body_def)
  next
    case None
    obtain events rs rs' ev row where n: "verified_calendar env (scope_of a) s' = Inr (events @ [ev], rs')"
      "set rs' = insert (rr_reservation r) (set rs)" "rv_id (rr_reservation r) \<notin> rv_id ` set rs"
      "find_replay (scope_of a) cmd s' = Some row \<and> calendar_receipt row (rr_reservation r) = r \<and>
       v_action (v_content row) = ''created'' \<and> v_actor (v_content row) = p_id actor \<and>
       v_request_hash (v_content row) = request_print env bytes \<and> v_reservation (v_content row) = rv_id (rr_reservation r)"
      by (rule reserve_body_adds [OF assms(1) sound_calendarD(5) [OF assms(1)] parse_reserve_booking [OF p] None run]) blast
    have "find_reservation (rv_id (rr_reservation r)) rs' = Some (rr_reservation r)"
    proof (cases "find_reservation (rv_id (rr_reservation r)) rs'")
      case None
      then show ?thesis using n(2) by (auto simp: find_reservation_def find_None_iff)
    next
      case (Some q)
      then have "q \<in> set rs'" "rv_id q = rv_id (rr_reservation r)" by (auto simp: find_reservation_def find_Some_iff)
      then have "q = rr_reservation r" using n(2,3) by (metis image_eqI insertE)
      then show ?thesis using Some by simp
    qed
    then show ?thesis using n(1,4) sound_calendarD(5) [OF assms(1)] by (simp add: reserve_body_def)
  qed
  then show ?thesis using p by (simp add: reserve_def transaction_def)
qed

lemma cancel_command:
  assumes run: "cancel_body env eid now actor a cmd rid rh s = Inr (r, s')"
  shows "rr_command_id r = cmd"
proof (cases "find_replay (scope_of a) cmd s")
  case None
  show ?thesis by (rule cancel_body_new [OF None run]) simp
next
  case (Some row)
  then show ?thesis
    using run select_where_Some [OF Some [unfolded find_replay_def]]
    by (auto simp: cancel_body_def bind_res_Inr_iff if_Inl_eq_Inr calendar_receipt_def split: option.splits)
qed

text \<open>A new cancellation is accepted only from the owner of the reservation or the
  administrator and only for a reservation that stands. It marks that reservation as cancelled and
  leaves every other reservation and every other calendar as it was, so the load falls by exactly
  what the reservation held.\<close>

theorem cancel_frees_reservation:
  assumes "sound_calendar env" and "cancel env eid now actor bytes a s = (Inr r, s')"
    and "find_replay (scope_of a) (rr_command_id r) s = None"
  shows "\<exists>events rs old ev. verified_calendar env (scope_of a) s = Inr (events, rs) \<and> old \<in> set rs \<and>
     rv_cancelled_at old = None \<and> (p_role actor = Admin \<or> rb_owner (rv_body old) = p_id actor) \<and>
     rr_reservation r = old\<lparr>rv_cancelled_at := Some now\<rparr> \<and> rr_calendar_revision r = ra_calendar_revision a + 1 \<and>
     verified_calendar env (scope_of a) s' = Inr (events @ [ev], map (mark_cancelled (rv_id old) now) rs) \<and>
     (\<forall>sc. sc \<noteq> scope_of a \<longrightarrow> verified_calendar env sc s' = verified_calendar env sc s)"
proof -
  obtain cmd rid where p: "parse_cancel env actor bytes a = Inr (cmd, rid)"
    and run: "cancel_body env eid now actor a cmd rid (request_print env bytes) s = Inr (r, s')"
    by (rule cancel_Inr [OF assms(2)])
  have unused: "find_replay (scope_of a) cmd s = None" using assms(3) cancel_command [OF run] by simp
  have old: "find_reservation rid rs = Some old \<Longrightarrow> old \<in> set rs \<and> rv_id old = rid" for rs old
    by (auto simp: find_reservation_def find_Some_iff)
  show ?thesis
    by (rule cancel_body_marks [OF assms(1) unused run]) (use old in blast)
qed


section \<open>Instances\<close>

definition cal_sample_scope :: "int \<Rightarrow> (string \<times> jvalue) list" where
  "cal_sample_scope revision =
     [(''commandId'', V_str ''cmd''), (''coreId'', V_str ''core''), (''homeId'', V_str ''home''), (''accountId'', V_str ''u1''),
      (''coreRevision'', V_int 1), (''homeRevision'', V_int 1), (''accountRevision'', V_int 1), (''membersRevision'', V_int 1),
      (''resourceId'', V_str ''car''), (''resourceRevision'', V_int 1), (''expectedCalendarRevision'', V_int revision)]"

definition cal_sample_create :: "(string \<times> jvalue) list" where
  "cal_sample_create = cal_sample_scope 1 @
     [(''action'', V_str ''create''), (''timezone'', V_str ''UTC''), (''localStart'', V_str ''T''), (''fold'', V_null),
      (''durationSeconds'', V_int 60), (''units'', V_int 2),
      (''recurrence'', V_obj [(''frequency'', V_str ''daily''), (''count'', V_int 2)])]"

definition cal_sample_cancel :: "(string \<times> jvalue) list" where
  "cal_sample_cancel = AList.update ''commandId'' (V_str ''cmd2'') (cal_sample_scope 2) @
     [(''action'', V_str ''cancel''), (''reservationId'', V_str ''r1'')]"

definition cal_env :: "(reservation_body, reservation_body) calendar_env" where
  "cal_env = \<lparr>decode_command = \<lambda>bytes. if bytes = ''+'' then Some cal_sample_create else if bytes = ''-'' then Some cal_sample_cancel else None,
     parse_iso = \<lambda>_. Some \<lparr>wt_aware = False, wt_micro = False, wt_year = 2026, wt_seconds = 500\<rparr>,
     utc_offset = \<lambda>_ _ _. 0, to_wall = \<lambda>_ t. (t, 0), cal_zone = \<lambda>_. True,
     cal_state_mac = \<lambda>_ _ _ _ _. ''s'', cal_event_mac = \<lambda>_. ''e'', request_print = \<lambda>bytes. ''q'',
     payload_encode = \<lambda>b. b, payload_decode = Some, payload_print = \<lambda>_. ''p'',
     payload_seal = \<lambda>_ raw _. raw, payload_open = \<lambda>_ ct _. Some ct\<rparr>"

definition cal_authority :: "int \<Rightarrow> reservation_authority" where
  "cal_authority revision = \<lparr>ra_core = ''core'', ra_home = ''home'', ra_account = ''u1'', ra_core_revision = 1, ra_home_revision = 1,
     ra_account_revision = 1, ra_members_revision = 1, ra_calendar_revision = revision, ra_members = [''u1''],
     ra_resource = \<lparr>rl_id = ''car'', rl_revision = 1, rl_capacity = 3, rl_timezone = ''UTC'', rl_members = [''u1'']\<rparr>\<rparr>"

definition cal0 :: "reservation_body calendar_db" where "cal0 = \<lparr>cal_rows = [], cal_events = [], cal_states = []\<rparr>"

definition cal_reserve :: "reservation_body calendar_db \<Rightarrow> reservation_receipt result \<times> reservation_body calendar_db" where
  "cal_reserve s = reserve cal_env \<lparr>fr_reservation = ''r1'', fr_event = ''e1'', fr_nonce = ''n''\<rparr> 7 demo_principal ''+'' (cal_authority 1) s"

definition cal_cancel :: "reservation_body calendar_db \<Rightarrow> reservation_receipt result \<times> reservation_body calendar_db" where
  "cal_cancel s = cancel cal_env ''e2'' 9 demo_principal ''-'' (cal_authority 2) s"

definition cal1 :: "reservation_body calendar_db" where "cal1 = snd (cal_reserve cal0)"

lemma cal_sound: "sound_calendar cal_env"
  by (simp add: sound_calendar_def cal_env_def is_ascii_def)

lemma cal_reserved: "\<exists>r. cal_reserve cal0 = (Inr r, cal1) \<and> rr_command_id r = ''cmd''"
proof -
  have "case fst (cal_reserve cal0) of Inr r \<Rightarrow> rr_command_id r = ''cmd'' | Inl _ \<Rightarrow> False" by code_simp
  then show ?thesis unfolding cal1_def by (cases "cal_reserve cal0") (auto split: sum.splits)
qed

lemma cal_cancelled: "\<exists>r. cal_cancel cal1 = (Inr r, snd (cal_cancel cal1)) \<and> rr_command_id r = ''cmd2''"
proof -
  have "case fst (cal_cancel cal1) of Inr r \<Rightarrow> rr_command_id r = ''cmd2'' | Inl _ \<Rightarrow> False" by code_simp
  then show ?thesis by (cases "cal_cancel cal1") (auto split: sum.splits)
qed

lemma cal_reach: "calendar_reach cal_env (\<lambda>_. 3) cal1"
proof -
  have "valid_authority cal_env (cal_authority 1)" by code_simp
  then have "calendar_step cal_env (\<lambda>_. 3) cal0 cal1"
    unfolding cal1_def cal_reserve_def by (intro step_reserve) (simp_all add: cal_authority_def)
  then show ?thesis unfolding calendar_reach_def cal0_def by (rule r_into_rtranclp)
qed

theorem reservations_never_overbooked_witness:
  "\<exists>events rs. verified_calendar cal_env (''core'', ''home'', ''car'') cal1 = Inr (events, rs) \<and> rs \<noteq> [] \<and>
     span_load (active_spans rs) 500 \<le> 3"
proof -
  obtain events rs where v: "verified_calendar cal_env (''core'', ''home'', ''car'') cal1 = Inr (events, rs)"
    "span_load (active_spans rs) 500 \<le> 3"
    using reservations_never_overbooked [OF cal_sound _ cal_reach, of "(''core'', ''home'', ''car'')"] by auto
  have "case verified_calendar cal_env (''core'', ''home'', ''car'') cal1 of Inr (_, rs) \<Rightarrow> rs \<noteq> [] | Inl _ \<Rightarrow> False" by code_simp
  with v show ?thesis by auto
qed

theorem reserve_adds_reservation_witness:
  "\<exists>r events. cal_reserve cal0 = (Inr r, cal1) \<and> verified_calendar cal_env (scope_of (cal_authority 1)) cal1 = Inr (events, [rr_reservation r]) \<and>
     rr_calendar_revision r = 2"
proof -
  obtain r where r: "cal_reserve cal0 = (Inr r, cal1)" using cal_reserved by blast
  have "find_replay (scope_of (cal_authority 1)) (rr_command_id r) cal0 = None" by (simp add: find_replay_def cal0_def)
  from reserve_adds_reservation [OF cal_sound r [unfolded cal_reserve_def] this]
  obtain events rs rs' where v: "verified_calendar cal_env (scope_of (cal_authority 1)) cal0 = Inr (events, rs)"
    "\<exists>es. verified_calendar cal_env (scope_of (cal_authority 1)) cal1 = Inr (es, rs')" "set rs' = insert (rr_reservation r) (set rs)"
    "rr_calendar_revision r = 2"
    by (auto simp: cal_authority_def)
  have "case verified_calendar cal_env (scope_of (cal_authority 1)) cal1 of Inr (_, rs) \<Rightarrow> length rs = 1 | Inl _ \<Rightarrow> False" by code_simp
  with v(2) obtain es q where q: "verified_calendar cal_env (scope_of (cal_authority 1)) cal1 = Inr (es, [q])" "rs' = [q]"
    by (auto simp: length_Suc_conv)
  then have "q = rr_reservation r" using v(3) by auto
  with q v(4) r show ?thesis by blast
qed

theorem reserve_retry_witness:
  "\<exists>r. cal_reserve cal0 = (Inr r, cal1) \<and> cal_reserve cal1 = (Inr r, cal1)"
proof -
  obtain r where r: "cal_reserve cal0 = (Inr r, cal1)" using cal_reserved by blast
  from reserve_retry [OF cal_sound r [unfolded cal_reserve_def]] r show ?thesis unfolding cal_reserve_def by blast
qed

theorem cancel_frees_reservation_witness:
  "\<exists>r old. cal_cancel cal1 = (Inr r, snd (cal_cancel cal1)) \<and> rr_reservation r = old\<lparr>rv_cancelled_at := Some 9\<rparr> \<and>
     rv_cancelled_at old = None"
proof -
  obtain r where r: "cal_cancel cal1 = (Inr r, snd (cal_cancel cal1))" "rr_command_id r = ''cmd2''" using cal_cancelled by blast
  have "find_replay (scope_of (cal_authority 2)) ''cmd2'' cal1 = None" by code_simp
  then have "find_replay (scope_of (cal_authority 2)) (rr_command_id r) cal1 = None" by (simp add: r(2))
  from cancel_frees_reservation [OF cal_sound r(1) [unfolded cal_cancel_def] this] r(1) show ?thesis by blast
qed


end
