(* ===== verification/Resource_Catalog.thy ===== *)
theory Resource_Catalog
  imports Hash_Chain Auth_Sessions "HOL-Library.List_Lexorder" "HOL-Library.Char_ord" "HOL-Library.Product_Lexorder"
begin

text \<open>
  The catalog of resources that can be reserved, \<open>resource_reservations/catalog.py\<close> with the
  catalog tables of \<open>resource_reservations/schema.py\<close>: the default resource written at startup,
  the administrator's commands that create, update and deactivate a resource, their replay, and
  the keyed chain of catalog events. A catalog is bound to one core and one home, which are
  fields of its environment with the keyed hashes and the time-zone database.
\<close>

section \<open>Data\<close>

definition MAX_RESOURCES :: nat where "MAX_RESOURCES = 64"

record managed_resource =
  mr_id :: string
  mr_revision :: int
  mr_label :: string
  mr_timezone :: string
  mr_capacity :: int
  mr_active :: bool

text \<open>The columns of a resource that its hash covers.\<close>

record catalog_value =
  cv_id :: string
  cv_core :: string
  cv_home :: string
  cv_revision :: int
  cv_label :: string
  cv_timezone :: string
  cv_capacity :: int
  cv_active :: bool
  cv_created_at :: time
  cv_updated_at :: time

record catalog_row =
  cr_value :: catalog_value
  cr_payload_hash :: string

record catalog_content =
  g_sequence :: int
  g_event_id :: string
  g_core :: string
  g_home :: string
  g_command :: string
  g_actor :: string
  g_action :: string
  g_resource :: string
  g_catalog_revision :: int
  g_resource_revision :: int
  g_request_hash :: string
  g_occurred_at :: time
  g_previous_hash :: string

record catalog_event_row =
  g_content :: catalog_content
  g_hash :: string

record catalog_state =
  gs_core :: string
  gs_home :: string
  gs_revision :: int
  gs_event_count :: int
  gs_last_hash :: string
  gs_state_hash :: string

record catalog_db =
  cat_rows :: "catalog_row list"
  cat_events :: "catalog_event_row list"
  cat_states :: "catalog_state list"

text \<open>A command: what \<open>mutate\<close> is called with, and what its request hash covers.\<close>

record catalog_command =
  co_action :: string
  co_command_id :: string
  co_expected_catalog :: int
  co_resource :: "string option"
  co_expected_resource :: "int option"
  co_label :: "string option"
  co_timezone :: "string option"
  co_capacity :: "int option"

record catalog_env =
  cat_core :: string
  cat_home :: string
  cat_default :: string
  cat_zone :: "string \<Rightarrow> bool"
  resource_mac :: "catalog_value \<Rightarrow> string"
  catalog_state_mac :: "string \<Rightarrow> string \<Rightarrow> int \<Rightarrow> int \<Rightarrow> string \<Rightarrow> string"
  catalog_event_mac :: "catalog_content \<Rightarrow> string"
  catalog_request_mac :: "catalog_command \<Rightarrow> string"

record catalog_fresh =
  cf_resource :: string
  cf_event :: string

abbreviation catalog_invalid :: error where
  "catalog_invalid \<equiv> StartupError ''resource_reservation_catalog_invalid''"

section \<open>Reading and verifying\<close>

definition validate_fields :: "catalog_env \<Rightarrow> string option \<Rightarrow> string option \<Rightarrow> int option
    \<Rightarrow> (string \<times> string \<times> int) result" where
  "validate_fields env label timezone capacity =
     (case label of
        None \<Rightarrow> Inl bad_request
      | Some l \<Rightarrow>
          if \<not> (1 \<le> length (py_strip l) \<and> length (py_strip l) \<le> 80) \<or> l \<noteq> py_strip l then Inl bad_request
          else case timezone of
             None \<Rightarrow> Inl bad_request
           | Some tz \<Rightarrow>
               if \<not> (1 \<le> length tz \<and> length tz \<le> 128) then Inl bad_request
               else if \<not> cat_zone env tz then Inl bad_request
               else case capacity of
                  None \<Rightarrow> Inl bad_request
                | Some n \<Rightarrow> if \<not> (1 \<le> n \<and> n \<le> 64) then Inl bad_request else Inr (l, tz, n))"

definition managed_of :: "catalog_value \<Rightarrow> managed_resource" where
  "managed_of v = \<lparr>mr_id = cv_id v, mr_revision = cv_revision v, mr_label = cv_label v,
     mr_timezone = cv_timezone v, mr_capacity = cv_capacity v, mr_active = cv_active v\<rparr>"

definition resource_of :: "catalog_env \<Rightarrow> catalog_row \<Rightarrow> managed_resource result" where
  "resource_of env row =
     (let v = cr_value row in
      if \<not> is_ascii (cr_payload_hash row) then Inl TypeError
      else if cr_payload_hash row \<noteq> resource_mac env v then Inl catalog_invalid
      else bind_res (validate_fields env (Some (cv_label v)) (Some (cv_timezone v)) (Some (cv_capacity v))) (\<lambda>_.
        Inr (managed_of v)))"

fun resources_of :: "catalog_env \<Rightarrow> catalog_row list \<Rightarrow> managed_resource list result" where
  "resources_of env [] = Inr []"
| "resources_of env (row # rows) =
     bind_res (resource_of env row) (\<lambda>r. bind_res (resources_of env rows) (\<lambda>rs. Inr (r # rs)))"

definition scope_rows :: "catalog_env \<Rightarrow> catalog_db \<Rightarrow> catalog_row list" where
  "scope_rows env s = sort_key (\<lambda>r. (cv_label (cr_value r), cv_id (cr_value r)))
     (filter (\<lambda>r. cv_core (cr_value r) = cat_core env \<and> cv_home (cr_value r) = cat_home env) (cat_rows s))"

definition catalog_log :: "catalog_env \<Rightarrow> catalog_db \<Rightarrow> catalog_event_row list" where
  "catalog_log env s = sort_key (\<lambda>e. g_sequence (g_content e))
     (filter (\<lambda>e. g_core (g_content e) = cat_core env \<and> g_home (g_content e) = cat_home env) (cat_events s))"

definition catalog_state_row :: "catalog_env \<Rightarrow> catalog_db \<Rightarrow> catalog_state option" where
  "catalog_state_row env s = select_where (\<lambda>q. gs_core q = cat_core env \<and> gs_home q = cat_home env) (cat_states s)"

fun check_events :: "catalog_env \<Rightarrow> string list \<Rightarrow> int \<Rightarrow> string \<Rightarrow> catalog_event_row list \<Rightarrow> string result" where
  "check_events env ids index previous [] = Inr previous"
| "check_events env ids index previous (row # rows) =
     (let e = g_content row in
      if g_previous_hash e \<noteq> previous then Inl catalog_invalid
      else if \<not> is_ascii (g_hash row) then Inl TypeError
      else if g_hash row \<noteq> catalog_event_mac env e \<or> g_catalog_revision e \<noteq> index + 1 \<or> g_resource e \<notin> set ids
      then Inl catalog_invalid
      else check_events env ids (index + 1) (g_hash row) rows)"

definition verified_catalog :: "catalog_env \<Rightarrow> catalog_db \<Rightarrow> (catalog_state \<times> managed_resource list) result" where
  "verified_catalog env s =
     (case catalog_state_row env s of
        None \<Rightarrow> Inl catalog_invalid
      | Some st \<Rightarrow>
          bind_res (resources_of env (scope_rows env s)) (\<lambda>resources.
            if resources = [] \<or> length resources > MAX_RESOURCES then Inl catalog_invalid
            else
              let events = catalog_log env s; n = int (length events) in
              bind_res (check_events env (map mr_id resources) 1 '''' events) (\<lambda>previous.
                if gs_event_count st \<noteq> n \<or> gs_revision st \<noteq> n + 1 \<or> gs_last_hash st \<noteq> previous then Inl catalog_invalid
                else if \<not> is_ascii (gs_state_hash st) then Inl TypeError
                else if gs_state_hash st \<noteq> catalog_state_mac env (cat_core env) (cat_home env) (gs_revision st) n previous
                then Inl catalog_invalid
                else Inr (st, resources))))"

definition catalog_list :: "catalog_env \<Rightarrow> catalog_db \<Rightarrow> (int \<times> managed_resource list) result" where
  "catalog_list env s =
     bind_res (verified_catalog env s) (\<lambda>(st, resources).
       Inr (gs_revision st, sort_key (\<lambda>r. (mr_label r, mr_id r)) resources))"

section \<open>Operations\<close>

text \<open>The writes, with the constraints of their tables.\<close>

definition row_checks :: "catalog_value \<Rightarrow> bool" where
  "row_checks v = (0 < cv_revision v \<and> 1 \<le> cv_capacity v \<and> cv_capacity v \<le> 64)"

definition insert_catalog_row :: "catalog_row \<Rightarrow> catalog_db \<Rightarrow> catalog_db result" where
  "insert_catalog_row r s =
     (if cv_id (cr_value r) \<in> (cv_id \<circ> cr_value) ` set (cat_rows s) \<or> \<not> row_checks (cr_value r) then Inl IntegrityError
      else Inr (s\<lparr>cat_rows := cat_rows s @ [r]\<rparr>))"

definition update_catalog_row :: "catalog_env \<Rightarrow> catalog_row \<Rightarrow> catalog_db \<Rightarrow> catalog_db result" where
  "update_catalog_row env r s =
     (let v = cr_value r in
      if \<not> row_checks v then Inl IntegrityError
      else Inr (s\<lparr>cat_rows := update_where
        (\<lambda>q. cv_id (cr_value q) = cv_id v \<and> cv_core (cr_value q) = cat_core env \<and> cv_home (cr_value q) = cat_home env)
        (\<lambda>q. \<lparr>cr_value = (cr_value q)\<lparr>cv_revision := cv_revision v, cv_label := cv_label v, cv_timezone := cv_timezone v,
                cv_capacity := cv_capacity v, cv_active := cv_active v, cv_updated_at := cv_updated_at v\<rparr>,
              cr_payload_hash = cr_payload_hash r\<rparr>) (cat_rows s)\<rparr>))"

definition insert_catalog_event :: "catalog_event_row \<Rightarrow> catalog_db \<Rightarrow> catalog_db result" where
  "insert_catalog_event r s =
     (let e = g_content r in
      if g_sequence e \<in> (g_sequence \<circ> g_content) ` set (cat_events s)
         \<or> g_event_id e \<in> (g_event_id \<circ> g_content) ` set (cat_events s)
         \<or> g_action e \<notin> {''created'', ''updated'', ''deactivated''}
         \<or> g_catalog_revision e \<le> 1 \<or> g_resource_revision e \<le> 0
         \<or> (g_core e, g_home e, g_command e) \<in>
             (\<lambda>q. (g_core (g_content q), g_home (g_content q), g_command (g_content q))) ` set (cat_events s)
         \<or> g_resource e \<notin> (cv_id \<circ> cr_value) ` set (cat_rows s)
      then Inl IntegrityError
      else Inr (s\<lparr>cat_events := cat_events s @ [r]\<rparr>))"

definition new_catalog_state :: "catalog_env \<Rightarrow> int \<Rightarrow> int \<Rightarrow> string \<Rightarrow> catalog_state" where
  "new_catalog_state env revision n last_hash =
     \<lparr>gs_core = cat_core env, gs_home = cat_home env, gs_revision = revision, gs_event_count = n, gs_last_hash = last_hash,
      gs_state_hash = catalog_state_mac env (cat_core env) (cat_home env) revision n last_hash\<rparr>"

definition default_value :: "catalog_env \<Rightarrow> time \<Rightarrow> catalog_value" where
  "default_value env now =
     \<lparr>cv_id = cat_default env, cv_core = cat_core env, cv_home = cat_home env, cv_revision = 1,
      cv_label = ''Shared home resource'', cv_timezone = ''UTC'', cv_capacity = 1, cv_active = True,
      cv_created_at = now, cv_updated_at = now\<rparr>"

definition ensure_default_body :: "catalog_env \<Rightarrow> time \<Rightarrow> (catalog_db, unit) tx" where
  "ensure_default_body env now s =
     (case catalog_state_row env s of
        Some _ \<Rightarrow> bind_res (verified_catalog env s) (\<lambda>_. Inr ((), s))
      | None \<Rightarrow>
          if scope_rows env s \<noteq> [] then Inl catalog_invalid
          else bind_res (insert_catalog_row
                 \<lparr>cr_value = default_value env now, cr_payload_hash = resource_mac env (default_value env now)\<rparr> s) (\<lambda>s1.
               Inr ((), s1\<lparr>cat_states := cat_states s1 @ [new_catalog_state env 1 0 '''']\<rparr>)))"

definition ensure_default :: "catalog_env \<Rightarrow> time \<Rightarrow> catalog_db \<Rightarrow> unit result \<times> catalog_db" where
  "ensure_default env now s = transaction (ensure_default_body env now) s"

definition find_resource :: "string option \<Rightarrow> managed_resource list \<Rightarrow> managed_resource option" where
  "find_resource rid rs = (case rid of None \<Rightarrow> None | Some i \<Rightarrow> select_key mr_id i rs)"

definition catalog_replay :: "catalog_env \<Rightarrow> string \<Rightarrow> catalog_db \<Rightarrow> catalog_event_row option" where
  "catalog_replay env cmd s = select_where (\<lambda>e. g_core (g_content e) = cat_core env \<and> g_home (g_content e) = cat_home env
     \<and> g_command (g_content e) = cmd) (cat_events s)"

text \<open>The new columns of the resource a command is about.\<close>

definition resource_change :: "catalog_env \<Rightarrow> string \<Rightarrow> time \<Rightarrow> catalog_command \<Rightarrow> managed_resource list \<Rightarrow> catalog_db
    \<Rightarrow> catalog_value result" where
  "resource_change env fresh_id now c rs s =
     (let fields = validate_fields env (co_label c) (co_timezone c) (co_capacity c);
          row = (\<lambda>rid revision (label, timezone, capacity) active created.
            \<lparr>cv_id = rid, cv_core = cat_core env, cv_home = cat_home env, cv_revision = revision, cv_label = label,
             cv_timezone = timezone, cv_capacity = capacity, cv_active = active, cv_created_at = created,
             cv_updated_at = now\<rparr>)
      in
      if co_action c = ''created'' then
        bind_res fields (\<lambda>f.
          if length rs \<ge> MAX_RESOURCES then Inl (ApiError ''resource_catalog_limit_reached'' 413)
          else Inr (row fresh_id 1 f True now))
      else case find_resource (co_resource c) rs of
        None \<Rightarrow> Inl not_found
      | Some current \<Rightarrow>
          if co_expected_resource c \<noteq> Some (mr_revision current) \<or> \<not> mr_active current then Inl authority_changed
          else (case select_key (\<lambda>r. cv_id (cr_value r)) (mr_id current) (cat_rows s) of
             None \<Rightarrow> Inl TypeError
           | Some stored \<Rightarrow>
               let make = (\<lambda>f active. row (mr_id current) (mr_revision current + 1) f active (cv_created_at (cr_value stored))) in
               if co_action c = ''updated'' then bind_res fields (\<lambda>f. Inr (make f True))
               else if co_action c = ''deactivated'' then
                 if count_where mr_active rs \<le> 1 then Inl (ApiError ''last_active_resource'' 409)
                 else Inr (make (mr_label current, mr_timezone current, mr_capacity current) False)
               else Inl bad_request))"

definition new_catalog_event :: "catalog_env \<Rightarrow> string \<Rightarrow> time \<Rightarrow> string \<Rightarrow> catalog_command \<Rightarrow> catalog_state \<Rightarrow> catalog_value
    \<Rightarrow> catalog_event_row" where
  "new_catalog_event env eid now actor_id c st v =
     (let e = \<lparr>g_sequence = gs_event_count st + 1, g_event_id = eid, g_core = cat_core env, g_home = cat_home env,
               g_command = co_command_id c, g_actor = actor_id, g_action = co_action c, g_resource = cv_id v,
               g_catalog_revision = gs_revision st + 1, g_resource_revision = cv_revision v,
               g_request_hash = catalog_request_mac env c, g_occurred_at = now, g_previous_hash = gs_last_hash st\<rparr>
      in \<lparr>g_content = e, g_hash = catalog_event_mac env e\<rparr>)"

definition update_catalog_state :: "catalog_env \<Rightarrow> catalog_state \<Rightarrow> catalog_db \<Rightarrow> catalog_db" where
  "update_catalog_state env st s = s\<lparr>cat_states := update_where (\<lambda>q. gs_core q = cat_core env \<and> gs_home q = cat_home env)
     (\<lambda>q. q\<lparr>gs_revision := gs_revision st, gs_event_count := gs_event_count st, gs_last_hash := gs_last_hash st,
            gs_state_hash := gs_state_hash st\<rparr>) (cat_states s)\<rparr>"

definition store_resource :: "catalog_env \<Rightarrow> string \<Rightarrow> catalog_value \<Rightarrow> catalog_db \<Rightarrow> catalog_db result" where
  "store_resource env action v s =
     (let r = \<lparr>cr_value = v, cr_payload_hash = resource_mac env v\<rparr> in
      if action = ''created'' then insert_catalog_row r s else update_catalog_row env r s)"

definition mutate_body :: "catalog_env \<Rightarrow> catalog_fresh \<Rightarrow> time \<Rightarrow> principal \<Rightarrow> catalog_command
    \<Rightarrow> (catalog_db, int \<times> managed_resource) tx" where
  "mutate_body env fr now actor c s =
     bind_res (verified_catalog env s) (\<lambda>(st, resources).
       case catalog_replay env (co_command_id c) s of
         Some replay \<Rightarrow>
           (let e = g_content replay in
            if \<not> is_ascii (g_request_hash e) then Inl TypeError
            else case find_resource (Some (g_resource e)) resources of
               None \<Rightarrow> Inl command_conflict
             | Some current \<Rightarrow>
                 if g_request_hash e \<noteq> catalog_request_mac env c \<or> g_actor e \<noteq> p_id actor
                    \<or> mr_revision current \<noteq> g_resource_revision e
                 then Inl command_conflict
                 else Inr ((gs_revision st, current), s))
       | None \<Rightarrow>
           if co_expected_catalog c \<noteq> gs_revision st then Inl authority_changed
           else
             bind_res (resource_change env (cf_resource fr) now c resources s) (\<lambda>v.
             bind_res (store_resource env (co_action c) v s) (\<lambda>s1.
               let event = new_catalog_event env (cf_event fr) now (p_id actor) c st v in
               bind_res (insert_catalog_event event s1) (\<lambda>s2.
                 Inr ((gs_revision st + 1, managed_of v),
                   update_catalog_state env
                     (new_catalog_state env (gs_revision st + 1) (gs_event_count st + 1) (g_hash event)) s2)))))"

definition mutate :: "catalog_env \<Rightarrow> catalog_fresh \<Rightarrow> time \<Rightarrow> principal \<Rightarrow> catalog_command \<Rightarrow> catalog_db
    \<Rightarrow> (int \<times> managed_resource) result \<times> catalog_db" where
  "mutate env fr now actor c s =
     (if p_role actor \<noteq> Admin then (Inl forbidden, s) else transaction (mutate_body env fr now actor c) s)"

section \<open>What the catalog keeps\<close>

text \<open>Hexadecimal digests are ASCII and the zone database knows UTC.\<close>

definition sound_catalog :: "catalog_env \<Rightarrow> bool" where
  "sound_catalog env \<longleftrightarrow> cat_zone env ''UTC'' \<and> (\<forall>v. is_ascii (resource_mac env v)) \<and>
     (\<forall>core home r n h. is_ascii (catalog_state_mac env core home r n h)) \<and>
     (\<forall>e. is_ascii (catalog_event_mac env e)) \<and> (\<forall>c. is_ascii (catalog_request_mac env c))"

lemma sound_catalogD:
  assumes "sound_catalog env"
  shows "cat_zone env ''UTC''" "is_ascii (resource_mac env v)" "is_ascii (catalog_state_mac env core home r n h)"
    "is_ascii (catalog_event_mac env e)" "is_ascii (catalog_request_mac env c)"
  using assms unfolding sound_catalog_def by blast+

definition fields_ok :: "catalog_env \<Rightarrow> string \<Rightarrow> string \<Rightarrow> int \<Rightarrow> bool" where
  "fields_ok env label timezone capacity \<longleftrightarrow> label = py_strip label \<and> 1 \<le> length label \<and> length label \<le> 80 \<and>
     1 \<le> length timezone \<and> length timezone \<le> 128 \<and> cat_zone env timezone \<and> 1 \<le> capacity \<and> capacity \<le> 64"

lemma validate_fields_iff:
  "validate_fields env label timezone capacity = Inr (l, tz, n) \<longleftrightarrow>
     label = Some l \<and> timezone = Some tz \<and> capacity = Some n \<and> fields_ok env l tz n"
  by (auto simp: validate_fields_def fields_ok_def split: option.splits)

lemma validate_fields_ok [simp]: "fields_ok env l tz n \<Longrightarrow> validate_fields env (Some l) (Some tz) (Some n) = Inr (l, tz, n)"
  by (simp add: validate_fields_iff)

definition good_row :: "catalog_env \<Rightarrow> catalog_row \<Rightarrow> bool" where
  "good_row env r \<longleftrightarrow> (let v = cr_value r in cv_core v = cat_core env \<and> cv_home v = cat_home env \<and>
     cr_payload_hash r = resource_mac env v \<and> fields_ok env (cv_label v) (cv_timezone v) (cv_capacity v) \<and> 0 < cv_revision v)"

lemma resource_of_good: "sound_catalog env \<Longrightarrow> good_row env r \<Longrightarrow> resource_of env r = Inr (managed_of (cr_value r))"
  by (simp add: resource_of_def good_row_def Let_def sound_catalogD)

lemma resources_of_good:
  "sound_catalog env \<Longrightarrow> \<forall>r \<in> set rows. good_row env r \<Longrightarrow>
     resources_of env rows = Inr (map (\<lambda>r. managed_of (cr_value r)) rows)"
  by (induction rows) (simp_all add: resource_of_good)

lemma check_events_append:
  "check_events env ids i p (xs @ ys) = bind_res (check_events env ids i p xs) (\<lambda>q. check_events env ids (i + int (length xs)) q ys)"
  by (induction xs arbitrary: i p) (simp_all add: Let_def algebra_simps)

lemma check_events_mono:
  "check_events env ids i p es = Inr q \<Longrightarrow> set ids \<subseteq> set ids' \<Longrightarrow> check_events env ids' i p es = Inr q"
  by (induction es arbitrary: i p) (auto simp: Let_def if_Inl_eq_Inr)

definition catalog_inv :: "catalog_env \<Rightarrow> catalog_db \<Rightarrow> bool" where
  "catalog_inv env s \<longleftrightarrow> (\<forall>r \<in> set (cat_rows s). good_row env r) \<and> unique_on (cv_id \<circ> cr_value) (cat_rows s) \<and>
     (\<forall>e \<in> set (cat_events s). g_core (g_content e) = cat_core env \<and> g_home (g_content e) = cat_home env) \<and>
     map (\<lambda>e. g_sequence (g_content e)) (cat_events s) = [1..int (length (cat_events s))] \<and>
     (\<exists>last_hash. check_events env (map (cv_id \<circ> cr_value) (cat_rows s)) 1 '''' (cat_events s) = Inr last_hash \<and>
        cat_states s = [new_catalog_state env (int (length (cat_events s)) + 1) (int (length (cat_events s))) last_hash]) \<and>
     length (cat_rows s) \<le> MAX_RESOURCES \<and> (\<exists>r \<in> set (cat_rows s). cv_active (cr_value r))"

lemma catalog_invD:
  assumes "catalog_inv env s"
  shows "r \<in> set (cat_rows s) \<Longrightarrow> good_row env r" "unique_on (cv_id \<circ> cr_value) (cat_rows s)"
    "e \<in> set (cat_events s) \<Longrightarrow> g_core (g_content e) = cat_core env \<and> g_home (g_content e) = cat_home env"
    "map (\<lambda>e. g_sequence (g_content e)) (cat_events s) = [1..int (length (cat_events s))]"
    "length (cat_rows s) \<le> MAX_RESOURCES" "\<exists>r \<in> set (cat_rows s). cv_active (cr_value r)"
  using assms unfolding catalog_inv_def by blast+

lemma scope_rows_inv:
  assumes "catalog_inv env s"
  shows "set (scope_rows env s) = set (cat_rows s)" "length (scope_rows env s) = length (cat_rows s)"
proof -
  have "filter (\<lambda>r. cv_core (cr_value r) = cat_core env \<and> cv_home (cr_value r) = cat_home env) (cat_rows s) = cat_rows s"
    using catalog_invD(1) [OF assms] by (auto simp: good_row_def Let_def)
  then show "set (scope_rows env s) = set (cat_rows s)" "length (scope_rows env s) = length (cat_rows s)"
    by (simp_all add: scope_rows_def)
qed

lemma catalog_log_inv:
  assumes "catalog_inv env s"
  shows "catalog_log env s = cat_events s"
proof -
  have "filter (\<lambda>e. g_core (g_content e) = cat_core env \<and> g_home (g_content e) = cat_home env) (cat_events s) = cat_events s"
    using catalog_invD(3) [OF assms] by auto
  moreover have "sorted (map (\<lambda>e. g_sequence (g_content e)) (cat_events s))"
    using catalog_invD(4) [OF assms] by simp
  ultimately show ?thesis by (simp add: catalog_log_def sort_key_id_if_sorted)
qed

text \<open>Under the invariant verification succeeds and reads exactly the stored rows.\<close>

lemma verified_catalog_inv:
  assumes sound: "sound_catalog env" and inv: "catalog_inv env s"
  obtains last_hash where "cat_states s = [new_catalog_state env (int (length (cat_events s)) + 1) (int (length (cat_events s))) last_hash]"
    "check_events env (map (cv_id \<circ> cr_value) (cat_rows s)) 1 '''' (cat_events s) = Inr last_hash"
    "verified_catalog env s = Inr (new_catalog_state env (int (length (cat_events s)) + 1) (int (length (cat_events s))) last_hash,
       map (\<lambda>r. managed_of (cr_value r)) (scope_rows env s))"
proof -
  obtain last_hash where l: "check_events env (map (cv_id \<circ> cr_value) (cat_rows s)) 1 '''' (cat_events s) = Inr last_hash"
    "cat_states s = [new_catalog_state env (int (length (cat_events s)) + 1) (int (length (cat_events s))) last_hash]"
    using inv unfolding catalog_inv_def by blast
  have rows: "resources_of env (scope_rows env s) = Inr (map (\<lambda>r. managed_of (cr_value r)) (scope_rows env s))"
    using resources_of_good [OF sound] catalog_invD(1) [OF inv] scope_rows_inv [OF inv] by blast
  have size: "scope_rows env s \<noteq> []" "length (scope_rows env s) \<le> MAX_RESOURCES"
    using catalog_invD(5,6) [OF inv] scope_rows_inv [OF inv] by force+
  have "set (map (cv_id \<circ> cr_value) (cat_rows s)) \<subseteq> set (map mr_id (map (\<lambda>r. managed_of (cr_value r)) (scope_rows env s)))"
    using scope_rows_inv(1) [OF inv] by (simp add: managed_of_def image_image)
  from check_events_mono [OF l(1) this]
  have "verified_catalog env s = Inr (new_catalog_state env (int (length (cat_events s)) + 1) (int (length (cat_events s))) last_hash,
      map (\<lambda>r. managed_of (cr_value r)) (scope_rows env s))"
    using l(2) rows size
    by (simp add: verified_catalog_def catalog_state_row_def new_catalog_state_def catalog_log_inv [OF inv] Let_def
        sound_catalogD [OF sound])
  then show thesis by (rule that [OF l(2,1)])
qed


text \<open>What a change of a resource may be.\<close>

lemma resource_change_cases:
  assumes run: "resource_change env fid now c rs s = Inr v"
  obtains (created) "co_action c = ''created''" "cv_id v = fid" "cv_revision v = 1" "cv_active v" "length rs < MAX_RESOURCES"
    | (changed) current stored where "co_action c \<in> {''updated'', ''deactivated''}" "current \<in> set rs"
      "co_resource c = Some (mr_id current)" "co_expected_resource c = Some (mr_revision current)" "mr_active current"
      "cv_id v = mr_id current" "cv_revision v = mr_revision current + 1"
      "select_key (\<lambda>r. cv_id (cr_value r)) (mr_id current) (cat_rows s) = Some stored"
      "cv_created_at v = cv_created_at (cr_value stored)"
      "cv_active v \<longleftrightarrow> co_action c = ''updated''"
      "co_action c = ''deactivated'' \<Longrightarrow> 1 < count_where mr_active rs \<and>
         managed_of v = current\<lparr>mr_revision := mr_revision current + 1, mr_active := False\<rparr>"
proof (cases "co_action c = ''created''")
  case True
  then show thesis using run
    by (intro created) (auto simp: resource_change_def bind_res_Inr_iff if_Inl_eq_Inr Let_def)
next
  case False
  then obtain current where cur: "find_resource (co_resource c) rs = Some current"
    using run by (auto simp: resource_change_def Let_def split: option.splits)
  then have mem: "current \<in> set rs" "co_resource c = Some (mr_id current)"
    using select_where_Some by (fastforce simp: find_resource_def split: option.splits)+
  have guard: "co_expected_resource c = Some (mr_revision current)" "mr_active current"
    using run False cur by (auto simp: resource_change_def Let_def split: if_splits)
  obtain stored where st: "select_key (\<lambda>r. cv_id (cr_value r)) (mr_id current) (cat_rows s) = Some stored"
    using run False cur guard by (auto simp: resource_change_def Let_def split: option.splits)
  show thesis
    using run False cur guard st
    by (intro changed [OF _ mem guard _ _ st])
      (auto simp: resource_change_def Let_def bind_res_Inr_iff if_Inl_eq_Inr managed_of_def split: if_splits)
qed

lemma resource_change_good:
  assumes run: "resource_change env fid now c rs s = Inr v"
    and rs: "\<forall>r \<in> set rs. fields_ok env (mr_label r) (mr_timezone r) (mr_capacity r) \<and> 0 < mr_revision r"
  shows "good_row env \<lparr>cr_value = v, cr_payload_hash = resource_mac env v\<rparr>" "cv_updated_at v = now"
    "co_action c \<noteq> ''deactivated'' \<Longrightarrow>
       co_label c = Some (cv_label v) \<and> co_timezone c = Some (cv_timezone v) \<and> co_capacity c = Some (cv_capacity v)"
proof -
  have scope: "cv_core v = cat_core env \<and> cv_home v = cat_home env \<and> cv_updated_at v = now"
    using run by (auto simp: resource_change_def Let_def bind_res_Inr_iff if_Inl_eq_Inr split: option.splits if_splits)
  have written: "co_label c = Some (cv_label v) \<and> co_timezone c = Some (cv_timezone v) \<and> co_capacity c = Some (cv_capacity v)
      \<and> fields_ok env (cv_label v) (cv_timezone v) (cv_capacity v)" if "co_action c \<noteq> ''deactivated''"
    using run that
    by (auto simp: resource_change_def Let_def bind_res_Inr_iff if_Inl_eq_Inr validate_fields_iff split: option.splits if_splits)
  have "fields_ok env (cv_label v) (cv_timezone v) (cv_capacity v) \<and> 0 < cv_revision v"
  proof (rule resource_change_cases [OF run])
    assume "co_action c = ''created''" "cv_revision v = 1"
    then show ?thesis using written by simp
  next
    fix current
    assume cur: "current \<in> set rs" "cv_revision v = mr_revision current + 1"
      "co_action c = ''deactivated'' \<Longrightarrow> 1 < count_where mr_active rs \<and>
         managed_of v = current\<lparr>mr_revision := mr_revision current + 1, mr_active := False\<rparr>"
    show ?thesis
    proof (cases "co_action c = ''deactivated''")
      case True
      then have "managed_of v = current\<lparr>mr_revision := mr_revision current + 1, mr_active := False\<rparr>" using cur(3) by simp
      then have "cv_label v = mr_label current" "cv_timezone v = mr_timezone current" "cv_capacity v = mr_capacity current"
        by (metis managed_of_def managed_resource.select_convs managed_resource.update_convs managed_resource.surjective)+
      then show ?thesis using rs cur(1,2) by fastforce
    qed (use written rs cur(1,2) in fastforce)
  qed
  with scope show "good_row env \<lparr>cr_value = v, cr_payload_hash = resource_mac env v\<rparr>" "cv_updated_at v = now"
    by (simp_all add: good_row_def)
  show "co_action c \<noteq> ''deactivated'' \<Longrightarrow>
      co_label c = Some (cv_label v) \<and> co_timezone c = Some (cv_timezone v) \<and> co_capacity c = Some (cv_capacity v)"
    using written by blast
qed


text \<open>Storing a change replaces the row of its resource and keeps the others.\<close>

definition replace_row :: "catalog_row \<Rightarrow> catalog_row list \<Rightarrow> catalog_row list" where
  "replace_row new rows = (if cv_id (cr_value new) \<in> (cv_id \<circ> cr_value) ` set rows
     then map (\<lambda>q. if cv_id (cr_value q) = cv_id (cr_value new) then new else q) rows else rows @ [new])"

lemma set_replace_row:
  "set (replace_row new rows) = insert new {q \<in> set rows. cv_id (cr_value q) \<noteq> cv_id (cr_value new)}"
  by (auto simp: replace_row_def image_iff)

lemma replace_row_unique: "unique_on (cv_id \<circ> cr_value) rows \<Longrightarrow> unique_on (cv_id \<circ> cr_value) (replace_row new rows)"
proof -
  assume u: "unique_on (cv_id \<circ> cr_value) rows"
  have "map (cv_id \<circ> cr_value) (map (\<lambda>q. if cv_id (cr_value q) = cv_id (cr_value new) then new else q) rows) =
      map (cv_id \<circ> cr_value) rows" by simp
  then show ?thesis using u by (auto simp: replace_row_def unique_on_def simp del: map_map)
qed

lemma replace_row_ids: "set (map (cv_id \<circ> cr_value) rows) \<subseteq> set (map (cv_id \<circ> cr_value) (replace_row new rows))"
  by (auto simp: set_replace_row)

lemma select_replace_row:
  assumes "unique_on (cv_id \<circ> cr_value) rows"
  shows "select_key (cv_id \<circ> cr_value) rid (replace_row new rows) =
    (if rid = cv_id (cr_value new) then Some new else select_key (cv_id \<circ> cr_value) rid rows)"
proof -
  have "select_key (cv_id \<circ> cr_value) rid (replace_row new rows) = Some r \<longleftrightarrow>
      (if rid = cv_id (cr_value new) then Some new else select_key (cv_id \<circ> cr_value) rid rows) = Some r" for r
    using select_key_iff [OF replace_row_unique [OF assms], of rid new r] select_key_iff [OF assms, of rid r]
    by (auto simp: set_replace_row)
  then show ?thesis by (metis option.exhaust)
qed

lemma store_resource_rows:
  assumes inv: "catalog_inv env s" and change: "resource_change env fid now c rs s = Inr v"
    and run: "store_resource env (co_action c) v s = Inr s1"
  shows "s1 = s\<lparr>cat_rows := replace_row \<lparr>cr_value = v, cr_payload_hash = resource_mac env v\<rparr> (cat_rows s)\<rparr>"
    "co_action c = ''created'' \<longleftrightarrow> cv_id v \<notin> (cv_id \<circ> cr_value) ` set (cat_rows s)"
proof -
  let ?new = "\<lparr>cr_value = v, cr_payload_hash = resource_mac env v\<rparr>"
  have "s1 = s\<lparr>cat_rows := replace_row ?new (cat_rows s)\<rparr> \<and>
      (co_action c = ''created'' \<longleftrightarrow> cv_id v \<notin> (cv_id \<circ> cr_value) ` set (cat_rows s))"
  proof (rule resource_change_cases [OF change])
    assume "co_action c = ''created''"
    then show ?thesis using run
      by (auto simp: store_resource_def insert_catalog_row_def replace_row_def Let_def split: if_splits)
  next
    fix current stored
    assume cur: "co_action c \<in> {''updated'', ''deactivated''}" "cv_id v = mr_id current"
      "select_key (\<lambda>r. cv_id (cr_value r)) (mr_id current) (cat_rows s) = Some stored"
      "cv_created_at v = cv_created_at (cr_value stored)"
    have st: "stored \<in> set (cat_rows s)" "cv_id (cr_value stored) = cv_id v"
      using select_where_Some [OF cur(3)] cur(2) by auto
    have only: "q = stored" if "q \<in> set (cat_rows s)" "cv_id (cr_value q) = cv_id v" for q
      using unique_on_inj [OF catalog_invD(2) [OF inv] that(1) st(1)] that(2) st(2) by simp
    have sc: "cv_core v = cat_core env" "cv_home v = cat_home env"
      using change by (auto simp: resource_change_def Let_def bind_res_Inr_iff if_Inl_eq_Inr split: option.splits if_splits)
    have good: "cv_core (cr_value stored) = cat_core env" "cv_home (cr_value stored) = cat_home env"
      using catalog_invD(1) [OF inv st(1)] by (auto simp: good_row_def Let_def)
    have upd: "(cr_value stored)\<lparr>cv_revision := cv_revision v, cv_label := cv_label v, cv_timezone := cv_timezone v,
        cv_capacity := cv_capacity v, cv_active := cv_active v, cv_updated_at := cv_updated_at v\<rparr> = v"
      by (rule catalog_value.equality) (use st good sc cur(4) in simp_all)
    have "map (\<lambda>q. if cv_id (cr_value q) = cv_id v \<and> cv_core (cr_value q) = cat_core env \<and> cv_home (cr_value q) = cat_home env
        then \<lparr>cr_value = (cr_value q)\<lparr>cv_revision := cv_revision v, cv_label := cv_label v, cv_timezone := cv_timezone v,
          cv_capacity := cv_capacity v, cv_active := cv_active v, cv_updated_at := cv_updated_at v\<rparr>,
          cr_payload_hash = resource_mac env v\<rparr> else q) (cat_rows s) =
      map (\<lambda>q. if cv_id (cr_value q) = cv_id v then ?new else q) (cat_rows s)"
      using only good upd by (intro map_cong) auto
    then have "s1 = s\<lparr>cat_rows := map (\<lambda>q. if cv_id (cr_value q) = cv_id v then ?new else q) (cat_rows s)\<rparr>"
      using run cur(1) by (auto simp: store_resource_def update_catalog_row_def update_where_def Let_def if_Inl_eq_Inr)
    then show ?thesis using st cur(1) by (auto simp: replace_row_def image_iff)
  qed
  then show "s1 = s\<lparr>cat_rows := replace_row ?new (cat_rows s)\<rparr>"
    "co_action c = ''created'' \<longleftrightarrow> cv_id v \<notin> (cv_id \<circ> cr_value) ` set (cat_rows s)" by simp_all
qed

lemma new_catalog_event_fields [simp]:
  "g_core (g_content (new_catalog_event env eid now aid c st v)) = cat_core env"
  "g_home (g_content (new_catalog_event env eid now aid c st v)) = cat_home env"
  "g_sequence (g_content (new_catalog_event env eid now aid c st v)) = gs_event_count st + 1"
  "g_command (g_content (new_catalog_event env eid now aid c st v)) = co_command_id c"
  "g_actor (g_content (new_catalog_event env eid now aid c st v)) = aid"
  "g_resource (g_content (new_catalog_event env eid now aid c st v)) = cv_id v"
  "g_resource_revision (g_content (new_catalog_event env eid now aid c st v)) = cv_revision v"
  "g_catalog_revision (g_content (new_catalog_event env eid now aid c st v)) = gs_revision st + 1"
  "g_previous_hash (g_content (new_catalog_event env eid now aid c st v)) = gs_last_hash st"
  "g_request_hash (g_content (new_catalog_event env eid now aid c st v)) = catalog_request_mac env c"
  "g_hash (new_catalog_event env eid now aid c st v) = catalog_event_mac env (g_content (new_catalog_event env eid now aid c st v))"
  by (simp_all add: new_catalog_event_def Let_def)

text \<open>A new command: the guards it passed and everything it wrote.\<close>

lemma mutate_body_new:
  assumes sound: "sound_catalog env" and inv: "catalog_inv env s"
    and fresh: "catalog_replay env (co_command_id c) s = None"
    and run: "mutate_body env fr now actor c s = Inr ((rev', r), s')"
  obtains st rs v event where "verified_catalog env s = Inr (st, rs)" "rs = map (\<lambda>r. managed_of (cr_value r)) (scope_rows env s)"
    "gs_revision st = int (length (cat_events s)) + 1" "gs_event_count st = int (length (cat_events s))"
    "co_expected_catalog c = gs_revision st" "rev' = gs_revision st + 1" "r = managed_of v"
    "resource_change env (cf_resource fr) now c rs s = Inr v"
    "check_events env (map (cv_id \<circ> cr_value) (cat_rows s)) 1 '''' (cat_events s) = Inr (gs_last_hash st)"
    "event = new_catalog_event env (cf_event fr) now (p_id actor) c st v"
    "cat_rows s' = replace_row \<lparr>cr_value = v, cr_payload_hash = resource_mac env v\<rparr> (cat_rows s)"
    "cat_events s' = cat_events s @ [event]"
    "cat_states s' = [new_catalog_state env rev' (gs_event_count st + 1) (g_hash event)]"
    "co_action c = ''created'' \<longleftrightarrow> cv_id v \<notin> (cv_id \<circ> cr_value) ` set (cat_rows s)"
proof -
  obtain last_hash where l: "cat_states s = [new_catalog_state env (int (length (cat_events s)) + 1) (int (length (cat_events s))) last_hash]"
    "check_events env (map (cv_id \<circ> cr_value) (cat_rows s)) 1 '''' (cat_events s) = Inr last_hash"
    "verified_catalog env s = Inr (new_catalog_state env (int (length (cat_events s)) + 1) (int (length (cat_events s))) last_hash,
       map (\<lambda>r. managed_of (cr_value r)) (scope_rows env s))"
    by (rule verified_catalog_inv [OF sound inv])
  define st where "st = new_catalog_state env (int (length (cat_events s)) + 1) (int (length (cat_events s))) last_hash"
  define rs where "rs = map (\<lambda>r. managed_of (cr_value r)) (scope_rows env s)"
  have ver: "verified_catalog env s = Inr (st, rs)" using l(3) by (simp add: st_def rs_def)
  obtain v s1 s2 where m: "co_expected_catalog c = gs_revision st" "resource_change env (cf_resource fr) now c rs s = Inr v"
    "store_resource env (co_action c) v s = Inr s1"
    "insert_catalog_event (new_catalog_event env (cf_event fr) now (p_id actor) c st v) s1 = Inr s2"
    "rev' = gs_revision st + 1" "r = managed_of v"
    "s' = update_catalog_state env (new_catalog_state env (gs_revision st + 1) (gs_event_count st + 1)
       (g_hash (new_catalog_event env (cf_event fr) now (p_id actor) c st v))) s2"
    using run fresh by (auto simp: mutate_body_def ver bind_res_Inr_iff if_Inl_eq_Inr Let_def)
  note rows = store_resource_rows [OF inv m(2,3)]
  have s2: "s2 = s1\<lparr>cat_events := cat_events s1 @ [new_catalog_event env (cf_event fr) now (p_id actor) c st v]\<rparr>"
    using m(4) by (auto simp: insert_catalog_event_def Let_def split: if_splits)
  show thesis
  proof (rule that [OF ver rs_def _ _ m(1,5,6,2) _ refl _ _ _ rows(2)])
    show "cat_states s' = [new_catalog_state env rev' (gs_event_count st + 1)
        (g_hash (new_catalog_event env (cf_event fr) now (p_id actor) c st v))]"
      using m(5,7) by (simp add: s2 rows(1) l(1) update_catalog_state_def new_catalog_state_def)
  qed (use l(2) m(5,7) in \<open>simp_all add: st_def new_catalog_state_def s2 rows(1) update_catalog_state_def\<close>)
qed


lemma mutate_body_replayed:
  assumes "catalog_replay env (co_command_id c) s = Some replay" and "mutate_body env fr now actor c s = Inr (a, s')"
  shows "s' = s" "g_actor (g_content replay) = p_id actor" "g_request_hash (g_content replay) = catalog_request_mac env c"
  using assms by (auto simp: mutate_body_def bind_res_Inr_iff if_Inl_eq_Inr Let_def split: option.splits)

lemma catalog_resources_unique:
  assumes "catalog_inv env s"
  shows "unique_on mr_id (map (\<lambda>r. managed_of (cr_value r)) (scope_rows env s))"
  using catalog_invD(2) [OF assms]
  by (auto simp: unique_on_def distinct_map managed_of_def scope_rows_def inj_on_def)

lemma catalog_resources_good:
  assumes "catalog_inv env s" and "r \<in> set (map (\<lambda>r. managed_of (cr_value r)) (scope_rows env s))"
  shows "fields_ok env (mr_label r) (mr_timezone r) (mr_capacity r) \<and> 0 < mr_revision r"
  using assms catalog_invD(1) [OF assms(1)] scope_rows_inv(1) [OF assms(1)]
  by (auto simp: managed_of_def good_row_def Let_def)

text \<open>A change never removes the last active resource.\<close>

lemma change_keeps_active:
  assumes inv: "catalog_inv env s" and change: "resource_change env fid now c (map (\<lambda>r. managed_of (cr_value r)) (scope_rows env s)) s = Inr v"
  shows "\<exists>r \<in> set (replace_row \<lparr>cr_value = v, cr_payload_hash = h\<rparr> (cat_rows s)). cv_active (cr_value r)"
proof (rule resource_change_cases [OF change])
  assume "cv_active v"
  then show ?thesis by (simp add: set_replace_row)
next
  fix current
  assume cur: "co_action c \<in> {''updated'', ''deactivated''}" "cv_active v \<longleftrightarrow> co_action c = ''updated''" "cv_id v = mr_id current"
    "co_action c = ''deactivated'' \<Longrightarrow> 1 < count_where mr_active (map (\<lambda>r. managed_of (cr_value r)) (scope_rows env s)) \<and>
       managed_of v = current\<lparr>mr_revision := mr_revision current + 1, mr_active := False\<rparr>"
  show ?thesis
  proof (cases "co_action c = ''updated''")
    case False
    then have "1 < count_where mr_active (map (\<lambda>r. managed_of (cr_value r)) (scope_rows env s))" using cur by simp
    then obtain q where "q \<in> set (scope_rows env s)" "cv_active (cr_value q)" "cv_id (cr_value q) \<noteq> cv_id v"
      using count_where_other [OF catalog_resources_unique [OF inv], of mr_active "cv_id v"] by (auto simp: managed_of_def)
    then show ?thesis using scope_rows_inv(1) [OF inv] by (auto simp: set_replace_row)
  qed (use cur(2) in \<open>simp add: set_replace_row\<close>)
qed

lemma mutate_body_inv:
  assumes sound: "sound_catalog env" and inv: "catalog_inv env s" and run: "mutate_body env fr now actor c s = Inr ((rev', r), s')"
  shows "catalog_inv env s'"
proof (cases "catalog_replay env (co_command_id c) s")
  case (Some replay)
  then show ?thesis using mutate_body_replayed(1) [OF Some run] inv by simp
next
  case None
  obtain st rs v event where n: "rs = map (\<lambda>r. managed_of (cr_value r)) (scope_rows env s)"
    "gs_revision st = int (length (cat_events s)) + 1" "gs_event_count st = int (length (cat_events s))" "rev' = gs_revision st + 1"
    "resource_change env (cf_resource fr) now c rs s = Inr v"
    "check_events env (map (cv_id \<circ> cr_value) (cat_rows s)) 1 '''' (cat_events s) = Inr (gs_last_hash st)"
    "event = new_catalog_event env (cf_event fr) now (p_id actor) c st v"
    "cat_rows s' = replace_row \<lparr>cr_value = v, cr_payload_hash = resource_mac env v\<rparr> (cat_rows s)"
    "cat_events s' = cat_events s @ [event]"
    "cat_states s' = [new_catalog_state env rev' (gs_event_count st + 1) (g_hash event)]"
    "co_action c = ''created'' \<longleftrightarrow> cv_id v \<notin> (cv_id \<circ> cr_value) ` set (cat_rows s)"
    by (rule mutate_body_new [OF sound inv None run])
  let ?new = "\<lparr>cr_value = v, cr_payload_hash = resource_mac env v\<rparr>"
  have good: "good_row env ?new" using resource_change_good(1) [OF n(5)] catalog_resources_good [OF inv] n(1) by blast
  have "check_events env (map (cv_id \<circ> cr_value) (cat_rows s')) 1 '''' (cat_events s) = Inr (gs_last_hash st)"
    by (rule check_events_mono [OF n(6)]) (simp add: n(8) replace_row_ids [simplified])
  then have chain: "check_events env (map (cv_id \<circ> cr_value) (cat_rows s')) 1 '''' (cat_events s') = Inr (g_hash event)"
    using n(2) by (simp add: n(9) check_events_append n(7) n(8) set_replace_row sound_catalogD [OF sound] Let_def)
  have "length (cat_rows s') \<le> MAX_RESOURCES"
  proof (cases "co_action c = ''created''")
    case True
    then have "length rs < MAX_RESOURCES" by (rule_tac resource_change_cases [OF n(5)]) auto
    then show ?thesis using True n(11) by (simp add: n(1,8) replace_row_def scope_rows_inv [OF inv])
  qed (use n(11) catalog_invD(5) [OF inv] in \<open>simp add: n(8) replace_row_def\<close>)
  moreover have "map (\<lambda>e. g_sequence (g_content e)) (cat_events s') = [1..int (length (cat_events s'))]"
    using catalog_invD(4) [OF inv] upto_rec2 [of 1 "int (length (cat_events s)) + 1"] by (simp add: n(3,7,9) add.commute)
  moreover have "\<forall>e \<in> set (cat_events s'). g_core (g_content e) = cat_core env \<and> g_home (g_content e) = cat_home env"
    using catalog_invD(3) [OF inv] by (auto simp: n(7,9))
  moreover have "\<forall>r \<in> set (cat_rows s'). good_row env r" using catalog_invD(1) [OF inv] good by (auto simp: n(8) set_replace_row)
  moreover have "unique_on (cv_id \<circ> cr_value) (cat_rows s')" using catalog_invD(2) [OF inv] by (simp add: n(8) replace_row_unique)
  moreover have "\<exists>r \<in> set (cat_rows s'). cv_active (cr_value r)" using change_keeps_active [OF inv n(5) [unfolded n(1)]] by (simp add: n(8))
  moreover have "cat_states s' = [new_catalog_state env (int (length (cat_events s')) + 1) (int (length (cat_events s'))) (g_hash event)]"
    using n(2,3,4) by (simp add: n(9,10) add.commute)
  ultimately show ?thesis using chain unfolding catalog_inv_def by blast
qed

lemma ensure_default_inv:
  assumes sound: "sound_catalog env" and run: "ensure_default_body env now s = Inr ((), s')"
    and start: "catalog_inv env s \<or> s = \<lparr>cat_rows = [], cat_events = [], cat_states = []\<rparr>"
  shows "catalog_inv env s'"
proof (cases "catalog_inv env s")
  case True
  then obtain st where "catalog_state_row env s = Some st"
    by (rule verified_catalog_inv [OF sound]) (simp add: catalog_state_row_def new_catalog_state_def)
  then show ?thesis using True run by (simp add: ensure_default_body_def bind_res_Inr_iff)
next
  case False
  then have "s = \<lparr>cat_rows = [], cat_events = [], cat_states = []\<rparr>" using start by simp
  then have "s' = \<lparr>cat_rows = [\<lparr>cr_value = default_value env now, cr_payload_hash = resource_mac env (default_value env now)\<rparr>],
      cat_events = [], cat_states = [new_catalog_state env 1 0 '''']\<rparr>"
    using run by (auto simp: ensure_default_body_def catalog_state_row_def scope_rows_def insert_catalog_row_def split: if_splits)
  moreover have "fields_ok env ''Shared home resource'' ''UTC'' 1"
    using sound_catalogD(1) [OF sound] by (simp add: fields_ok_def py_strip_def char_isspace_def)
  ultimately show ?thesis
    by (simp add: catalog_inv_def good_row_def default_value_def Let_def MAX_RESOURCES_def unique_on_def)
qed

section \<open>Reachable catalogs\<close>

inductive catalog_reach :: "catalog_env \<Rightarrow> catalog_db \<Rightarrow> bool" for env where
  catalog_start: "ensure_default env now \<lparr>cat_rows = [], cat_events = [], cat_states = []\<rparr> = (Inr (), s) \<Longrightarrow> catalog_reach env s"
| catalog_restart: "catalog_reach env s \<Longrightarrow> catalog_reach env (snd (ensure_default env now s))"
| catalog_mutate: "catalog_reach env s \<Longrightarrow> catalog_reach env (snd (mutate env fr now actor c s))"

lemma mutate_inv:
  assumes "sound_catalog env" "catalog_inv env s"
  shows "catalog_inv env (snd (mutate env fr now actor c s))"
proof (cases "p_role actor = Admin")
  case True
  have "catalog_inv env (snd (transaction (mutate_body env fr now actor c) s))"
  proof (rule transaction_preserves)
    show "catalog_inv env t" if "mutate_body env fr now actor c s = Inr (v, t)" for v t
      using mutate_body_inv [OF assms] that by (cases v) simp
  qed (rule assms(2))
  then show ?thesis using True by (simp add: mutate_def)
qed (use assms(2) in \<open>simp add: mutate_def\<close>)

lemma catalog_reach_inv:
  assumes sound: "sound_catalog env" and "catalog_reach env s"
  shows "catalog_inv env s"
  using assms(2)
proof induction
  case (catalog_start now s)
  then have "ensure_default_body env now \<lparr>cat_rows = [], cat_events = [], cat_states = []\<rparr> = Inr ((), s)"
    by (auto simp: ensure_default_def elim: transaction_cases)
  then show ?case by (rule ensure_default_inv [OF sound]) simp
next
  case (catalog_restart s now)
  show ?case unfolding ensure_default_def
  proof (rule transaction_preserves)
    show "catalog_inv env t" if "ensure_default_body env now s = Inr (v, t)" for v t
      using ensure_default_inv [OF sound] that catalog_restart.IH by simp
  qed (rule catalog_restart.IH)
next
  case (catalog_mutate s fr now actor c)
  then show ?case by (intro mutate_inv sound)
qed


lemma catalog_list_inv:
  assumes sound: "sound_catalog env" and inv: "catalog_inv env s"
  obtains rs where "catalog_list env s = Inr (int (length (cat_events s)) + 1, rs)"
    "set rs = (\<lambda>r. managed_of (cr_value r)) ` set (cat_rows s)" "unique_on mr_id rs" "length rs = length (cat_rows s)"
proof -
  obtain st where "verified_catalog env s = Inr (st, map (\<lambda>r. managed_of (cr_value r)) (scope_rows env s))"
    "gs_revision st = int (length (cat_events s)) + 1"
    by (rule verified_catalog_inv [OF sound inv]) (simp add: new_catalog_state_def)
  then have "catalog_list env s = Inr (int (length (cat_events s)) + 1,
      sort_key (\<lambda>r. (mr_label r, mr_id r)) (map (\<lambda>r. managed_of (cr_value r)) (scope_rows env s)))"
    by (simp add: catalog_list_def)
  then show thesis
    by (rule that) (simp_all add: unique_on_sort_key catalog_resources_unique [OF inv] scope_rows_inv [OF inv])
qed

text \<open>C37: The catalog can always be listed and never becomes unusable. In every catalog reached by the
  startup of the service and by commands, reading it raises no integrity error, it holds between one
  and 64 resources under distinct identifiers, all of them with a valid label, time zone and capacity,
  and at least one of them is active.\<close>

theorem catalog_always_usable:
  assumes "sound_catalog env" and "catalog_reach env s"
  shows "\<exists>revision rs. catalog_list env s = Inr (revision, rs) \<and> 1 \<le> length rs \<and> length rs \<le> MAX_RESOURCES \<and>
    distinct (map mr_id rs) \<and> (\<exists>r \<in> set rs. mr_active r) \<and>
    (\<forall>r \<in> set rs. fields_ok env (mr_label r) (mr_timezone r) (mr_capacity r))"
proof -
  note inv = catalog_reach_inv [OF assms]
  obtain rs where rs: "catalog_list env s = Inr (int (length (cat_events s)) + 1, rs)"
    "set rs = (\<lambda>r. managed_of (cr_value r)) ` set (cat_rows s)" "unique_on mr_id rs" "length rs = length (cat_rows s)"
    by (rule catalog_list_inv [OF assms(1) inv])
  have "\<exists>r \<in> set rs. mr_active r" using catalog_invD(6) [OF inv] by (auto simp: rs(2) managed_of_def)
  moreover have "\<forall>r \<in> set rs. fields_ok env (mr_label r) (mr_timezone r) (mr_capacity r)"
    using catalog_invD(1) [OF inv] by (auto simp: rs(2) managed_of_def good_row_def Let_def)
  moreover have "1 \<le> length rs" using catalog_invD(6) [OF inv] rs(4) by (auto simp: Suc_le_eq)
  ultimately show ?thesis using rs catalog_invD(5) [OF inv] by (auto simp: unique_on_def)
qed

lemma mutate_Inr:
  assumes "mutate env fr now actor c s = (Inr a, s')"
  shows "p_role actor = Admin" "mutate_body env fr now actor c s = Inr (a, s')"
  using assms by (auto simp: mutate_def transaction_def split: if_splits sum.splits)

text \<open>A new catalog command takes effect exactly once and on one resource. It is accepted only from
  an administrator who names the current catalog revision and, unless it creates a resource, the
  current revision of an active resource; the catalog revision grows by one and the listing afterwards
  is the old one with that resource replaced by the answer, under a revision one higher.\<close>

theorem catalog_mutate_effect:
  assumes sound: "sound_catalog env" and "catalog_reach env s"
    and fresh: "catalog_replay env (co_command_id c) s = None"
    and run: "mutate env fr now actor c s = (Inr (revision, r), s')"
  shows "p_role actor = Admin \<and> revision = co_expected_catalog c + 1 \<and>
    (\<exists>rs rs'. catalog_list env s = Inr (co_expected_catalog c, rs) \<and> catalog_list env s' = Inr (revision, rs') \<and>
      set rs' = insert r {q \<in> set rs. mr_id q \<noteq> mr_id r} \<and>
      (if co_action c = ''created'' then mr_id r \<notin> mr_id ` set rs \<and> mr_revision r = 1 \<and> mr_active r
       else \<exists>old \<in> set rs. mr_active old \<and> mr_id old = mr_id r \<and> co_resource c = Some (mr_id r) \<and>
         co_expected_resource c = Some (mr_revision old) \<and> mr_revision r = mr_revision old + 1))"
proof -
  note inv = catalog_reach_inv [OF assms(1,2)] and m = mutate_Inr [OF run]
  note inv' = mutate_body_inv [OF sound inv m(2)]
  obtain st ms v event where ver: "verified_catalog env s = Inr (st, ms)"
    and ms: "ms = map (\<lambda>r. managed_of (cr_value r)) (scope_rows env s)"
    and st: "gs_revision st = int (length (cat_events s)) + 1" "gs_event_count st = int (length (cat_events s))"
      "co_expected_catalog c = gs_revision st" "revision = gs_revision st + 1"
    and v: "r = managed_of v" "resource_change env (cf_resource fr) now c ms s = Inr v"
    and ev: "check_events env (map (cv_id \<circ> cr_value) (cat_rows s)) 1 '''' (cat_events s) = Inr (gs_last_hash st)"
      "event = new_catalog_event env (cf_event fr) now (p_id actor) c st v"
    and new: "cat_rows s' = replace_row \<lparr>cr_value = v, cr_payload_hash = resource_mac env v\<rparr> (cat_rows s)"
      "cat_events s' = cat_events s @ [event]"
      "cat_states s' = [new_catalog_state env revision (gs_event_count st + 1) (g_hash event)]"
      "co_action c = ''created'' \<longleftrightarrow> cv_id v \<notin> (cv_id \<circ> cr_value) ` set (cat_rows s)"
    by (rule mutate_body_new [OF sound inv fresh m(2)])
  obtain rs where rs: "catalog_list env s = Inr (int (length (cat_events s)) + 1, rs)"
    "set rs = (\<lambda>r. managed_of (cr_value r)) ` set (cat_rows s)"
    by (rule catalog_list_inv [OF sound inv])
  obtain rs' where rs': "catalog_list env s' = Inr (int (length (cat_events s')) + 1, rs')"
    "set rs' = (\<lambda>r. managed_of (cr_value r)) ` set (cat_rows s')"
    by (rule catalog_list_inv [OF sound inv'])
  have mem: "set ms = set rs" by (simp add: ms rs(2) scope_rows_inv [OF inv])
  have listed: "set rs' = insert r {q \<in> set rs. mr_id q \<noteq> mr_id r}"
    by (auto simp: rs(2) rs'(2) v(1) new(1) set_replace_row managed_of_def)
  have "if co_action c = ''created'' then mr_id r \<notin> mr_id ` set rs \<and> mr_revision r = 1 \<and> mr_active r
       else \<exists>old \<in> set rs. mr_active old \<and> mr_id old = mr_id r \<and> co_resource c = Some (mr_id r) \<and>
         co_expected_resource c = Some (mr_revision old) \<and> mr_revision r = mr_revision old + 1"
  proof (rule resource_change_cases [OF v(2)])
    assume "co_action c = ''created''" "cv_revision v = 1" "cv_active v"
    then show ?thesis using new(4) by (auto simp: v(1) rs(2) managed_of_def image_iff)
  next
    fix current
    assume "co_action c \<in> {''updated'', ''deactivated''}" "current \<in> set ms"
      "co_resource c = Some (mr_id current)" "co_expected_resource c = Some (mr_revision current)" "mr_active current"
      "cv_id v = mr_id current" "cv_revision v = mr_revision current + 1"
    then show ?thesis unfolding mem by (auto simp: v(1) managed_of_def)
  qed
  with m(1) listed rs(1) rs'(1) show ?thesis using st new(2) by (simp add: add.commute)
qed

text \<open>A catalog command sent again is answered as before and changes nothing, as long as the resource
  it concerned has not been changed since; another command about it in between makes the repetition a
  conflict.\<close>

theorem catalog_mutate_retry:
  assumes sound: "sound_catalog env" and "catalog_reach env s"
    and fresh: "catalog_replay env (co_command_id c) s = None"
    and run: "mutate env fr now actor c s = (Inr (revision, r), s')"
  shows "mutate env fr2 now2 actor c s' = (Inr (revision, r), s')"
proof -
  note inv = catalog_reach_inv [OF assms(1,2)] and m = mutate_Inr [OF run]
  note inv' = mutate_body_inv [OF sound inv m(2)]
  obtain st ms v event where n: "gs_revision st = int (length (cat_events s)) + 1" "revision = gs_revision st + 1"
    "r = managed_of v" "event = new_catalog_event env (cf_event fr) now (p_id actor) c st v"
    "cat_rows s' = replace_row \<lparr>cr_value = v, cr_payload_hash = resource_mac env v\<rparr> (cat_rows s)"
    "cat_events s' = cat_events s @ [event]"
    by (rule mutate_body_new [OF sound inv fresh m(2)]) blast
  have replay: "catalog_replay env (co_command_id c) s' = Some event"
    using fresh by (simp add: catalog_replay_def n(4,6) select_where_append)
  obtain last_hash where ver: "verified_catalog env s' =
      Inr (new_catalog_state env (int (length (cat_events s')) + 1) (int (length (cat_events s'))) last_hash,
        map (\<lambda>r. managed_of (cr_value r)) (scope_rows env s'))"
    by (rule verified_catalog_inv [OF sound inv'])
  have "r \<in> set (map (\<lambda>r. managed_of (cr_value r)) (scope_rows env s'))"
    by (simp add: scope_rows_inv [OF inv'] n(3,5) set_replace_row)
  then have "find_resource (Some (mr_id r)) (map (\<lambda>r. managed_of (cr_value r)) (scope_rows env s')) = Some r"
    using select_key_unique [OF catalog_resources_unique [OF inv']] by (simp add: find_resource_def)
  then have "mutate_body env fr2 now2 actor c s' = Inr ((revision, r), s')"
    using ver replay n(1,2,6)
    by (simp add: mutate_body_def n(3,4) managed_of_def Let_def sound_catalogD [OF sound] new_catalog_state_def)
  then show ?thesis using m(1) by (simp add: mutate_def transaction_def)
qed

section \<open>A sample catalog\<close>

definition cat_env :: catalog_env where
  "cat_env = \<lparr>cat_core = ''core'', cat_home = ''home'', cat_default = ''d'', cat_zone = (\<lambda>z. z = ''UTC''),
     resource_mac = (\<lambda>_. ''m''), catalog_state_mac = (\<lambda>_ _ _ _ _. ''s''), catalog_event_mac = (\<lambda>_. ''e''),
     catalog_request_mac = (\<lambda>_. ''q'')\<rparr>"

definition cat_command :: catalog_command where
  "cat_command = \<lparr>co_action = ''created'', co_command_id = ''c1'', co_expected_catalog = 1, co_resource = None,
     co_expected_resource = None, co_label = Some ''Car'', co_timezone = Some ''UTC'', co_capacity = Some 2\<rparr>"

definition cat0 :: catalog_db where
  "cat0 = snd (ensure_default cat_env 0 \<lparr>cat_rows = [], cat_events = [], cat_states = []\<rparr>)"

definition cat_mutate :: "catalog_db \<Rightarrow> (int \<times> managed_resource) result \<times> catalog_db" where
  "cat_mutate s = mutate cat_env \<lparr>cf_resource = ''r1'', cf_event = ''e1''\<rparr> 1 demo_principal cat_command s"

definition cat1 :: catalog_db where "cat1 = snd (cat_mutate cat0)"

definition cat_resource :: managed_resource where
  "cat_resource = \<lparr>mr_id = ''r1'', mr_revision = 1, mr_label = ''Car'', mr_timezone = ''UTC'', mr_capacity = 2, mr_active = True\<rparr>"

lemma cat_sound: "sound_catalog cat_env"
  by (simp add: sound_catalog_def cat_env_def is_ascii_def)

lemma cat_started: "ensure_default cat_env 0 \<lparr>cat_rows = [], cat_events = [], cat_states = []\<rparr> = (Inr (), cat0)"
proof -
  have "case fst (ensure_default cat_env 0 \<lparr>cat_rows = [], cat_events = [], cat_states = []\<rparr>) of Inr _ \<Rightarrow> True | Inl _ \<Rightarrow> False"
    by code_simp
  then show ?thesis unfolding cat0_def by (auto simp: prod_eq_iff split: sum.splits)
qed

lemma cat_mutated: "cat_mutate cat0 = (Inr (2, cat_resource), cat1)"
proof -
  have "fst (cat_mutate cat0) = Inr (2, cat_resource)" by code_simp
  then show ?thesis unfolding cat1_def by (simp add: prod_eq_iff)
qed

lemma cat_fresh: "catalog_replay cat_env (co_command_id cat_command) cat0 = None"
  by code_simp

lemma cat_reach: "catalog_reach cat_env cat0" "catalog_reach cat_env cat1"
proof -
  show start: "catalog_reach cat_env cat0" by (rule catalog_start [OF cat_started])
  show "catalog_reach cat_env cat1"
    unfolding cat1_def cat_mutate_def by (rule catalog_mutate [OF start])
qed

theorem catalog_always_usable_witness:
  "\<exists>revision rs. catalog_list cat_env cat1 = Inr (revision, rs) \<and> 1 \<le> length rs \<and> distinct (map mr_id rs)"
  using catalog_always_usable [OF cat_sound cat_reach(2)] by blast

theorem catalog_mutate_effect_witness:
  "\<exists>rs rs'. catalog_list cat_env cat0 = Inr (1, rs) \<and> catalog_list cat_env cat1 = Inr (2, rs') \<and>
     set rs' = insert cat_resource {q \<in> set rs. mr_id q \<noteq> ''r1''}"
  using catalog_mutate_effect [OF cat_sound cat_reach(1) cat_fresh cat_mutated [unfolded cat_mutate_def]]
  by (auto simp: cat_command_def cat_resource_def)

theorem catalog_mutate_retry_witness: "cat_mutate cat1 = (Inr (2, cat_resource), cat1)"
  using catalog_mutate_retry [OF cat_sound cat_reach(1) cat_fresh cat_mutated [unfolded cat_mutate_def]]
  unfolding cat_mutate_def .


end
