(* ===== verification/Reservation_Service.thy ===== *)
theory Reservation_Service
  imports Reservations Resource_Catalog "HOL-Library.Word" "HOL-Library.Sublist"
begin

text \<open>
  The reservation service of a home, \<open>resource_reservations/integration.py\<close> with the request
  bodies of \<open>resource_reservations/api.py\<close>: it joins the accounts, the catalog and the calendar.
  Every call first derives the caller's authority from the stored accounts, the catalog and the
  calendar revision and compares it with the authority the request was made under. The service
  keeps no state of its own: the state is the three groups of tables. A call that reads in one
  transaction and writes in another is split into the two parts, so that what happens between
  them can be stated.
\<close>

unbundle bit_operations_syntax

section \<open>Data\<close>

record 'ct service_db =
  sv_accounts :: db
  sv_catalog :: catalog_db
  sv_calendar :: "'ct calendar_db"

text \<open>\<open>members_digest\<close> is the first eight bytes of the keyed hash of the member list, and
  \<open>encode_command\<close> is \<open>json.dumps\<close> of a command whose keys are in order.\<close>

record ('raw, 'ct) service_env =
  sv_cat :: catalog_env
  sv_cal :: "('raw, 'ct) calendar_env"
  members_digest :: "(string \<times> int) list \<Rightarrow> 64 word"
  encode_command :: "(string \<times> jvalue) list \<Rightarrow> string"

text \<open>The authority a client is shown, and the one a request names: the same fields with the
  calendar revision.\<close>

record authority_view =
  av_core :: string
  av_home :: string
  av_account :: string
  av_session :: string
  av_core_revision :: int
  av_home_revision :: int
  av_account_revision :: int
  av_members_revision :: int
  av_resource :: string
  av_resource_revision :: int

record expected_authority = authority_view +
  av_calendar :: int

record create_request =
  cq_authority :: expected_authority
  cq_command :: string
  cq_timezone :: string
  cq_local_start :: string
  cq_fold :: int
  cq_duration :: int
  cq_units :: int
  cq_frequency :: string
  cq_count :: int

record cancel_request =
  nq_authority :: expected_authority
  nq_command :: string
  nq_reservation :: string

record resource_request =
  rq_command :: string
  rq_expected_catalog :: int
  rq_label :: string
  rq_timezone :: string
  rq_capacity :: int

record reservation_view =
  vw_id :: string
  vw_owner :: string
  vw_resource :: string
  vw_timezone :: string
  vw_local_start :: string
  vw_fold :: int
  vw_duration :: int
  vw_units :: int
  vw_recurrence :: "string \<times> int"
  vw_occurrences :: "occurrence list"
  vw_can_cancel :: bool
  vw_cancelled :: bool

record receipt_view =
  rj_authority :: authority_view
  rj_event_id :: string
  rj_actor_id :: string
  rj_command_id :: string
  rj_action :: string
  rj_expected_revision :: int
  rj_revision :: int
  rj_reservation :: reservation_view

section \<open>Authority\<close>

definition members_revision :: "('raw, 'ct) service_env \<Rightarrow> (string \<times> int) list \<Rightarrow> int" where
  "members_revision env rows =
     (let revision = uint (members_digest env (sort rows) AND mask 63) in if revision = 0 then 1 else revision)"

definition service_scope :: "('raw, 'ct) service_env \<Rightarrow> string \<Rightarrow> string \<Rightarrow> unit result" where
  "service_scope env core home =
     (if (core, home) \<noteq> (cat_core (sv_cat env), cat_home (sv_cat env)) then Inl not_found else Inr ())"

definition calendar_scope :: "('raw, 'ct) service_env \<Rightarrow> string \<Rightarrow> scope" where
  "calendar_scope env rid = (cat_core (sv_cat env), cat_home (sv_cat env), rid)"

definition facts :: "('raw, 'ct) service_env \<Rightarrow> time \<Rightarrow> principal \<Rightarrow> string \<Rightarrow> 'ct service_db
    \<Rightarrow> (user_row \<times> string list \<times> int \<times> int) result" where
  "facts env now actor rid s =
     bind_res (assert_current now actor (sv_accounts s)) (\<lambda>_.
       let members = sort_key u_id (filter (\<lambda>u. \<not> u_disabled u \<and> \<not> u_must_change_password u) (users (sv_accounts s))) in
       case select_key u_id (p_id actor) (users (sv_accounts s)) of
         None \<Rightarrow> Inl invalid_session
       | Some account \<Rightarrow>
           if u_disabled account \<or> u_must_change_password account then Inl invalid_session
           else if p_id actor \<notin> set (map u_id members) then Inl forbidden
           else Inr (account, map u_id members, members_revision env (map (\<lambda>u. (u_id u, u_revision u)) members),
             case select_key cs_scope (calendar_scope env rid) (cal_states (sv_calendar s)) of
               None \<Rightarrow> 1 | Some st \<Rightarrow> cs_revision st))"

definition service_authority :: "('raw, 'ct) service_env \<Rightarrow> time \<Rightarrow> principal \<Rightarrow> string \<Rightarrow> string \<Rightarrow> string option
    \<Rightarrow> 'ct service_db \<Rightarrow> reservation_authority result" where
  "service_authority env now actor core home rid s =
     bind_res (service_scope env core home) (\<lambda>_.
     bind_res (catalog_list (sv_cat env) (sv_catalog s)) (\<lambda>(_, resources).
       let selected = (case rid of
             Some i \<Rightarrow> select_key mr_id i resources
           | None \<Rightarrow> (case filter mr_active resources of [] \<Rightarrow> None | r # _ \<Rightarrow> Some r))
       in case selected of
         None \<Rightarrow> Inl not_found
       | Some item \<Rightarrow>
           bind_res (facts env now actor (mr_id item) s) (\<lambda>(account, members, members_rev, calendar_rev).
             let a = \<lparr>ra_core = cat_core (sv_cat env), ra_home = cat_home (sv_cat env), ra_account = p_id actor,
                      ra_core_revision = 1, ra_home_revision = 1, ra_account_revision = u_revision account,
                      ra_members_revision = members_rev, ra_calendar_revision = calendar_rev, ra_members = members,
                      ra_resource = \<lparr>rl_id = mr_id item, rl_revision = mr_revision item, rl_capacity = mr_capacity item,
                        rl_timezone = mr_timezone item, rl_members = members\<rparr>\<rparr>
             in if valid_authority (sv_cal env) a then Inr a else Inl ValueError)))"

definition authority_json :: "reservation_authority \<Rightarrow> principal \<Rightarrow> authority_view" where
  "authority_json a actor =
     \<lparr>av_core = ra_core a, av_home = ra_home a, av_account = ra_account a, av_session = p_family_id actor,
      av_core_revision = ra_core_revision a, av_home_revision = ra_home_revision a,
      av_account_revision = ra_account_revision a, av_members_revision = ra_members_revision a,
      av_resource = rl_id (ra_resource a), av_resource_revision = rl_revision (ra_resource a)\<rparr>"

text \<open>\<open>_expected\<close>: the request must name the current authority; a receipt may be asked for under an
  older calendar revision.\<close>

definition expected :: "('raw, 'ct) service_env \<Rightarrow> time \<Rightarrow> principal \<Rightarrow> string \<Rightarrow> string \<Rightarrow> string \<Rightarrow> expected_authority
    \<Rightarrow> bool \<Rightarrow> 'ct service_db \<Rightarrow> reservation_authority result" where
  "expected env now actor core home rid body for_receipt s =
     bind_res (service_authority env now actor core home (Some rid) s) (\<lambda>current.
       let same = (authority_view.truncate body = authority_json current actor) in
       if for_receipt then
         if \<not> same \<or> av_calendar body > ra_calendar_revision current then Inl authority_changed else Inr current
       else if \<not> same \<or> av_calendar body \<noteq> ra_calendar_revision current then Inl authority_changed else Inr current)"

section \<open>What a client is shown\<close>

abbreviation server_unavailable :: error where "server_unavailable \<equiv> ApiError ''server_unavailable'' 503"

text \<open>The recurrence is not stored: it is read off the local dates of the occurrences.\<close>

definition recurrence_json :: "('raw, 'ct) calendar_env \<Rightarrow> string \<Rightarrow> occurrence list \<Rightarrow> (string \<times> int) result" where
  "recurrence_json env zone os =
     (case map (\<lambda>oc. fst (to_wall env zone (oc_start oc)) div 86400) os of
        [] \<Rightarrow> Inl IndexError
      | [_] \<Rightarrow> Inr (''none'', 1)
      | d0 # d1 # ds \<Rightarrow>
          let days = d1 - d0;
              frequency = (if days = 1 then Some ''daily'' else if days = 7 then Some ''weekly'' else None)
          in case frequency of
               None \<Rightarrow> Inl server_unavailable
             | Some f \<Rightarrow>
                 if list_ex (\<lambda>(l, r). r - l \<noteq> days) (zip (d0 # d1 # ds) (d1 # ds)) then Inl server_unavailable
                 else Inr (f, int (length os)))"

definition reservation_json :: "('raw, 'ct) calendar_env \<Rightarrow> principal \<Rightarrow> reservation \<Rightarrow> reservation_view result" where
  "reservation_json env actor item =
     (let b = rv_body item in
      if \<not> cal_zone env (rb_timezone b) then Inl KeyError
      else case rb_occurrences b of
        [] \<Rightarrow> Inl IndexError
      | first # _ \<Rightarrow>
          bind_res (recurrence_json env (rb_timezone b) (rb_occurrences b)) (\<lambda>recurrence.
            Inr \<lparr>vw_id = rv_id item, vw_owner = rb_owner b, vw_resource = rb_resource b, vw_timezone = rb_timezone b,
                 vw_local_start = rb_local_start b, vw_fold = snd (to_wall env (rb_timezone b) (oc_start first)),
                 vw_duration = rb_duration b, vw_units = rb_units b, vw_recurrence = recurrence,
                 vw_occurrences = rb_occurrences b,
                 vw_can_cancel = (rv_cancelled_at item = None \<and> (p_role actor = Admin \<or> rb_owner b = p_id actor)),
                 vw_cancelled = (rv_cancelled_at item \<noteq> None)\<rparr>))"

fun reservations_json :: "('raw, 'ct) calendar_env \<Rightarrow> principal \<Rightarrow> reservation list \<Rightarrow> reservation_view list result" where
  "reservations_json env actor [] = Inr []"
| "reservations_json env actor (r # rs) =
     bind_res (reservation_json env actor r) (\<lambda>v. bind_res (reservations_json env actor rs) (\<lambda>vs. Inr (v # vs)))"

definition receipt_json :: "('raw, 'ct) calendar_env \<Rightarrow> principal \<Rightarrow> reservation_authority \<Rightarrow> reservation_receipt
    \<Rightarrow> receipt_view result" where
  "receipt_json env actor a r =
     bind_res (reservation_json env actor (rr_reservation r)) (\<lambda>v.
       Inr \<lparr>rj_authority = authority_json a actor, rj_event_id = rr_event_id r, rj_actor_id = p_id actor,
            rj_command_id = rr_command_id r, rj_action = (if rr_action r = ''created'' then ''create'' else ''cancel''),
            rj_expected_revision = rr_calendar_revision r - 1, rj_revision = rr_calendar_revision r,
            rj_reservation = v\<rparr>)"

section \<open>The catalog calls\<close>

definition with_catalog :: "'ct service_db \<Rightarrow> 'a \<times> catalog_db \<Rightarrow> 'a \<times> 'ct service_db" where
  "with_catalog s rc = (case rc of (r, c) \<Rightarrow> (r, s\<lparr>sv_catalog := c\<rparr>))"

definition service_resources :: "('raw, 'ct) service_env \<Rightarrow> time \<Rightarrow> principal \<Rightarrow> string \<Rightarrow> string \<Rightarrow> 'ct service_db
    \<Rightarrow> (int \<times> bool \<times> managed_resource list) result" where
  "service_resources env now actor core home s =
     bind_res (service_scope env core home) (\<lambda>_.
     bind_res (facts env now actor (cat_default (sv_cat env)) s) (\<lambda>_.
     bind_res (catalog_list (sv_cat env) (sv_catalog s)) (\<lambda>(revision, resources).
       Inr (revision, p_role actor = Admin, resources))))"

definition resource_command :: "string \<Rightarrow> string option \<Rightarrow> int option \<Rightarrow> resource_request \<Rightarrow> catalog_command" where
  "resource_command action rid expected_resource q =
     \<lparr>co_action = action, co_command_id = rq_command q, co_expected_catalog = rq_expected_catalog q, co_resource = rid,
      co_expected_resource = expected_resource, co_label = Some (rq_label q), co_timezone = Some (rq_timezone q),
      co_capacity = Some (rq_capacity q)\<rparr>"

definition create_resource :: "('raw, 'ct) service_env \<Rightarrow> catalog_fresh \<Rightarrow> time \<Rightarrow> time \<Rightarrow> principal \<Rightarrow> string \<Rightarrow> string
    \<Rightarrow> resource_request \<Rightarrow> 'ct service_db \<Rightarrow> (int \<times> managed_resource) result \<times> 'ct service_db" where
  "create_resource env fr now now2 actor core home q s =
     (case bind_res (service_scope env core home) (\<lambda>_. facts env now actor (cat_default (sv_cat env)) s) of
        Inl e \<Rightarrow> (Inl e, s)
      | Inr _ \<Rightarrow> with_catalog s (mutate (sv_cat env) fr now2 actor (resource_command ''created'' None None q) (sv_catalog s)))"

text \<open>\<open>update_resource\<close> looks at the calendar first: a resource with reservations keeps its time zone and
  its capacity. The catalog is written in a later transaction.\<close>

definition update_admitted :: "('raw, 'ct) service_env \<Rightarrow> time \<Rightarrow> principal \<Rightarrow> string \<Rightarrow> string \<Rightarrow> string
    \<Rightarrow> resource_request \<Rightarrow> 'ct service_db \<Rightarrow> unit result" where
  "update_admitted env now actor core home rid q s =
     bind_res (service_authority env now actor core home (Some rid) s) (\<lambda>current.
     bind_res (verified_calendar (sv_cal env) (scope_of current) (sv_calendar s)) (\<lambda>(_, records).
     bind_res (catalog_list (sv_cat env) (sv_catalog s)) (\<lambda>(_, catalog).
       case select_key mr_id rid catalog of
         None \<Rightarrow> Inl StopIteration
       | Some previous \<Rightarrow>
           if records \<noteq> [] \<and> (rq_timezone q \<noteq> mr_timezone previous \<or> rq_capacity q \<noteq> mr_capacity previous)
           then Inl (ApiError ''resource_in_use'' 409) else Inr ())))"

definition update_commit :: "('raw, 'ct) service_env \<Rightarrow> catalog_fresh \<Rightarrow> time \<Rightarrow> principal \<Rightarrow> string \<Rightarrow> int \<Rightarrow> resource_request
    \<Rightarrow> 'ct service_db \<Rightarrow> (int \<times> managed_resource) result \<times> 'ct service_db" where
  "update_commit env fr now actor rid expected_resource q s =
     with_catalog s (mutate (sv_cat env) fr now actor (resource_command ''updated'' (Some rid) (Some expected_resource) q) (sv_catalog s))"

definition update_resource :: "('raw, 'ct) service_env \<Rightarrow> catalog_fresh \<Rightarrow> time \<Rightarrow> time \<Rightarrow> principal \<Rightarrow> string \<Rightarrow> string \<Rightarrow> string
    \<Rightarrow> int \<Rightarrow> resource_request \<Rightarrow> 'ct service_db \<Rightarrow> (int \<times> managed_resource) result \<times> 'ct service_db" where
  "update_resource env fr now now2 actor core home rid expected_resource q s =
     (case update_admitted env now actor core home rid q s of
        Inl e \<Rightarrow> (Inl e, s)
      | Inr _ \<Rightarrow> update_commit env fr now2 actor rid expected_resource q s)"

definition deactivate_resource :: "('raw, 'ct) service_env \<Rightarrow> catalog_fresh \<Rightarrow> time \<Rightarrow> time \<Rightarrow> principal \<Rightarrow> string \<Rightarrow> string \<Rightarrow> string
    \<Rightarrow> string \<Rightarrow> int \<Rightarrow> int \<Rightarrow> 'ct service_db \<Rightarrow> (int \<times> managed_resource) result \<times> 'ct service_db" where
  "deactivate_resource env fr now now2 actor core home rid cmd expected_catalog expected_resource s =
     (case service_authority env now actor core home (Some rid) s of
        Inl e \<Rightarrow> (Inl e, s)
      | Inr _ \<Rightarrow> with_catalog s (mutate (sv_cat env) fr now2 actor
          \<lparr>co_action = ''deactivated'', co_command_id = cmd, co_expected_catalog = expected_catalog, co_resource = Some rid,
           co_expected_resource = Some expected_resource, co_label = None, co_timezone = None, co_capacity = None\<rparr>
          (sv_catalog s)))"

section \<open>The calendar calls\<close>

text \<open>\<open>body.command(action)\<close>: the request without \<open>schemaVersion\<close> and \<open>sessionId\<close>, in key order.\<close>

definition create_command :: "create_request \<Rightarrow> (string \<times> jvalue) list" where
  "create_command q = (let a = cq_authority q in
     [(''accountId'', V_str (av_account a)), (''accountRevision'', V_int (av_account_revision a)),
      (''action'', V_str ''create''), (''commandId'', V_str (cq_command q)), (''coreId'', V_str (av_core a)),
      (''coreRevision'', V_int (av_core_revision a)), (''durationSeconds'', V_int (cq_duration q)),
      (''expectedCalendarRevision'', V_int (av_calendar a)), (''fold'', V_int (cq_fold q)),
      (''homeId'', V_str (av_home a)), (''homeRevision'', V_int (av_home_revision a)),
      (''localStart'', V_str (cq_local_start q)), (''membersRevision'', V_int (av_members_revision a)),
      (''recurrence'', V_obj [(''count'', V_int (cq_count q)), (''frequency'', V_str (cq_frequency q))]),
      (''resourceId'', V_str (av_resource a)), (''resourceRevision'', V_int (av_resource_revision a)),
      (''timezone'', V_str (cq_timezone q)), (''units'', V_int (cq_units q))])"

definition cancel_command :: "cancel_request \<Rightarrow> (string \<times> jvalue) list" where
  "cancel_command q = (let a = nq_authority q in
     [(''accountId'', V_str (av_account a)), (''accountRevision'', V_int (av_account_revision a)),
      (''action'', V_str ''cancel''), (''commandId'', V_str (nq_command q)), (''coreId'', V_str (av_core a)),
      (''coreRevision'', V_int (av_core_revision a)), (''expectedCalendarRevision'', V_int (av_calendar a)),
      (''homeId'', V_str (av_home a)), (''homeRevision'', V_int (av_home_revision a)),
      (''membersRevision'', V_int (av_members_revision a)), (''reservationId'', V_str (nq_reservation q)),
      (''resourceId'', V_str (av_resource a)), (''resourceRevision'', V_int (av_resource_revision a))])"

text \<open>The calendar's answer, shown to the client after its transaction has committed.\<close>

definition with_calendar :: "('raw, 'ct) service_env \<Rightarrow> principal \<Rightarrow> reservation_authority \<Rightarrow> 'ct service_db
    \<Rightarrow> reservation_receipt result \<times> 'ct calendar_db \<Rightarrow> receipt_view result \<times> 'ct service_db" where
  "with_calendar env actor a s rc = (case rc of (r, c) \<Rightarrow> (bind_res r (receipt_json (sv_cal env) actor a), s\<lparr>sv_calendar := c\<rparr>))"

definition create_admitted :: "('raw, 'ct) service_env \<Rightarrow> time \<Rightarrow> principal \<Rightarrow> string \<Rightarrow> string \<Rightarrow> string \<Rightarrow> create_request
    \<Rightarrow> 'ct service_db \<Rightarrow> reservation_authority result" where
  "create_admitted env now actor core home rid q s =
     bind_res (expected env now actor core home rid (cq_authority q) False s) (\<lambda>a.
     bind_res (catalog_list (sv_cat env) (sv_catalog s)) (\<lambda>(_, resources).
       case select_key mr_id rid resources of
         None \<Rightarrow> Inl StopIteration
       | Some item \<Rightarrow> if \<not> mr_active item then Inl (ApiError ''resource_inactive'' 409) else Inr a))"

definition create_commit :: "('raw, 'ct) service_env \<Rightarrow> reservation_fresh \<Rightarrow> time \<Rightarrow> principal \<Rightarrow> reservation_authority
    \<Rightarrow> create_request \<Rightarrow> 'ct service_db \<Rightarrow> receipt_view result \<times> 'ct service_db" where
  "create_commit env fr now actor a q s =
     with_calendar env actor a s (reserve (sv_cal env) fr now actor (encode_command env (create_command q)) a (sv_calendar s))"

definition service_create :: "('raw, 'ct) service_env \<Rightarrow> reservation_fresh \<Rightarrow> time \<Rightarrow> time \<Rightarrow> principal \<Rightarrow> string \<Rightarrow> string \<Rightarrow> string
    \<Rightarrow> create_request \<Rightarrow> 'ct service_db \<Rightarrow> receipt_view result \<times> 'ct service_db" where
  "service_create env fr now now2 actor core home rid q s =
     (case create_admitted env now actor core home rid q s of
        Inl e \<Rightarrow> (Inl e, s)
      | Inr a \<Rightarrow> create_commit env fr now2 actor a q s)"

definition service_cancel :: "('raw, 'ct) service_env \<Rightarrow> string \<Rightarrow> time \<Rightarrow> time \<Rightarrow> principal \<Rightarrow> string \<Rightarrow> string \<Rightarrow> string
    \<Rightarrow> cancel_request \<Rightarrow> 'ct service_db \<Rightarrow> receipt_view result \<times> 'ct service_db" where
  "service_cancel env eid now now2 actor core home rid q s =
     (case expected env now actor core home rid (nq_authority q) False s of
        Inl e \<Rightarrow> (Inl e, s)
      | Inr a \<Rightarrow> with_calendar env actor a s
          (cancel (sv_cal env) eid now2 actor (encode_command env (cancel_command q)) a (sv_calendar s)))"

definition service_receipt :: "('raw, 'ct) service_env \<Rightarrow> time \<Rightarrow> principal \<Rightarrow> string \<Rightarrow> string \<Rightarrow> string \<Rightarrow> string
    \<Rightarrow> expected_authority \<Rightarrow> 'ct service_db \<Rightarrow> receipt_view option result" where
  "service_receipt env now actor core home rid cmd body s =
     bind_res (expected env now actor core home rid body True s) (\<lambda>a.
     bind_res (reservation_receipt_of (sv_cal env) actor a cmd (sv_calendar s)) (\<lambda>answer.
       case answer of
         None \<Rightarrow> Inr None
       | Some r \<Rightarrow>
           if rr_calendar_revision r \<noteq> av_calendar body + 1 then Inl authority_changed
           else bind_res (receipt_json (sv_cal env) actor a r) (\<lambda>v. Inr (Some v))))"

definition service_export :: "('raw, 'ct) service_env \<Rightarrow> time \<Rightarrow> principal \<Rightarrow> string \<Rightarrow> string \<Rightarrow> string \<Rightarrow> int
    \<Rightarrow> expected_authority \<Rightarrow> 'ct service_db \<Rightarrow> (authority_view \<times> int \<times> reservation_view list) result" where
  "service_export env now actor core home rid limit body s =
     bind_res (expected env now actor core home rid body False s) (\<lambda>a.
     bind_res (read_calendar (sv_cal env) actor a (sv_calendar s)) (\<lambda>(revision, _, records).
       if int (length records) > limit then Inl (ApiError ''reservation_export_limit_reached'' 413)
       else bind_res (reservations_json (sv_cal env) actor
              (sort_key (\<lambda>r. (rb_created_at (rv_body r), rv_id r)) records)) (\<lambda>vs.
         Inr (authority_json a actor, revision, vs))))"

definition service_bootstrap :: "('raw, 'ct) service_env \<Rightarrow> time \<Rightarrow> principal \<Rightarrow> string \<Rightarrow> string \<Rightarrow> string option
    \<Rightarrow> 'ct service_db \<Rightarrow> (authority_view \<times> int \<times> managed_resource) result" where
  "service_bootstrap env now actor core home rid s =
     bind_res (service_authority env now actor core home rid s) (\<lambda>a.
     bind_res (catalog_list (sv_cat env) (sv_catalog s)) (\<lambda>(_, resources).
       case select_key mr_id (rl_id (ra_resource a)) resources of
         None \<Rightarrow> Inl StopIteration
       | Some item \<Rightarrow> Inr (authority_json a actor, ra_calendar_revision a, item)))"

record calendar_snapshot =
  sn_authority :: authority_view
  sn_revision :: int
  sn_resource :: managed_resource
  sn_can_create :: bool
  sn_reservations :: "reservation_view list"
  sn_history :: "(string \<times> string \<times> string \<times> string \<times> int) list"
  sn_busy :: "(int \<times> int \<times> int) list"

definition history_json :: "reservation_event list \<Rightarrow> (string \<times> string \<times> string \<times> string \<times> int) list" where
  "history_json events = map (\<lambda>e. (rn_event_id e, if rn_action e = ''created'' then ''create'' else ''cancel'', rn_actor e,
     rn_reservation e, rn_calendar_revision e)) (drop (length events - 256) events)"

definition service_snapshot :: "('raw, 'ct) service_env \<Rightarrow> time \<Rightarrow> principal \<Rightarrow> string \<Rightarrow> string \<Rightarrow> string
    \<Rightarrow> expected_authority \<Rightarrow> 'ct service_db \<Rightarrow> calendar_snapshot result" where
  "service_snapshot env now actor core home rid body s =
     bind_res (expected env now actor core home rid body False s) (\<lambda>a.
     bind_res (read_calendar (sv_cal env) actor a (sv_calendar s)) (\<lambda>(revision, events, records).
       if length records > 256 then Inl (ApiError ''reservation_export_limit_reached'' 413)
       else bind_res (catalog_list (sv_cat env) (sv_catalog s)) (\<lambda>(_, resources).
         case select_key mr_id (rl_id (ra_resource a)) resources of
           None \<Rightarrow> Inl authority_changed
         | Some item \<Rightarrow>
             if mr_revision item \<noteq> rl_revision (ra_resource a) \<or> mr_timezone item \<noteq> rl_timezone (ra_resource a)
                \<or> mr_capacity item \<noteq> rl_capacity (ra_resource a)
             then Inl authority_changed
             else
               let ordered = sort_key (\<lambda>r. (rb_created_at (rv_body r), rv_id r)) records in
               bind_res (reservations_json (sv_cal env) actor ordered) (\<lambda>views.
                 let busy = active_spans ordered in
                 if length busy > 256 then Inl (ApiError ''availability_limit_reached'' 413)
                 else Inr \<lparr>sn_authority = authority_json a actor, sn_revision = revision, sn_resource = item,
                           sn_can_create = mr_active item, sn_reservations = views, sn_history = history_json events,
                           sn_busy = sort_key (\<lambda>(b, e, _). (b, e)) busy\<rparr>))))"

section \<open>The invariant of the service\<close>

text \<open>The authority of a call is that of one resource of the catalog.\<close>

lemma service_authority_Inr:
  assumes "service_authority env now actor core home rid s = Inr a"
  obtains revision resources item account where
    "catalog_list (sv_cat env) (sv_catalog s) = Inr (revision, resources)" "item \<in> set resources"
    "\<And>i. rid = Some i \<Longrightarrow> mr_id item = i" "scope_of a = calendar_scope env (mr_id item)"
    "rl_id (ra_resource a) = mr_id item" "rl_revision (ra_resource a) = mr_revision item"
    "rl_capacity (ra_resource a) = mr_capacity item" "rl_timezone (ra_resource a) = mr_timezone item"
    "valid_authority (sv_cal env) a" "ra_account a = p_id actor"
    "ra_calendar_revision a = (case select_key cs_scope (scope_of a) (cal_states (sv_calendar s)) of
       None \<Rightarrow> 1 | Some st \<Rightarrow> cs_revision st)"
    "facts env now actor (mr_id item) s = Inr (account, ra_members a, ra_members_revision a, ra_calendar_revision a)"
    "rl_members (ra_resource a) = ra_members a"
proof -
  obtain revision resources where l: "catalog_list (sv_cat env) (sv_catalog s) = Inr (revision, resources)"
    using assms by (auto simp: service_authority_def bind_res_Inr_iff)
  define selected where "selected = (case rid of Some i \<Rightarrow> select_key mr_id i resources
    | None \<Rightarrow> (case filter mr_active resources of [] \<Rightarrow> None | r # _ \<Rightarrow> Some r))"
  obtain item where it: "selected = Some item"
    using assms l by (auto simp: service_authority_def bind_res_Inr_iff selected_def [symmetric] Let_def split: option.splits)
  obtain account members mrev crev where f: "facts env now actor (mr_id item) s = Inr (account, members, mrev, crev)"
    using assms l it by (auto simp: service_authority_def bind_res_Inr_iff selected_def [symmetric] Let_def)
  have a: "a = \<lparr>ra_core = cat_core (sv_cat env), ra_home = cat_home (sv_cat env), ra_account = p_id actor,
      ra_core_revision = 1, ra_home_revision = 1, ra_account_revision = u_revision account,
      ra_members_revision = mrev, ra_calendar_revision = crev, ra_members = members,
      ra_resource = \<lparr>rl_id = mr_id item, rl_revision = mr_revision item, rl_capacity = mr_capacity item,
        rl_timezone = mr_timezone item, rl_members = members\<rparr>\<rparr>" and valid: "valid_authority (sv_cal env) a"
    using assms l it f
    by (simp_all add: service_authority_def bind_res_Inr_iff selected_def [symmetric] Let_def split: if_splits)
  have mem: "item \<in> set resources" "\<And>i. rid = Some i \<Longrightarrow> mr_id item = i"
    using it select_where_Some unfolding selected_def
    by (fastforce split: option.splits list.splits dest: filter_eq_ConsD)+
  have crev: "crev = (case select_key cs_scope (calendar_scope env (mr_id item)) (cal_states (sv_calendar s)) of
      None \<Rightarrow> 1 | Some st \<Rightarrow> cs_revision st)"
    using f by (auto simp: facts_def bind_res_Inr_iff Let_def split: option.splits if_splits)
  show thesis
    by (rule that [OF l mem]) (use f valid crev in \<open>simp_all add: a scope_of_def calendar_scope_def\<close>)
qed

definition cap_of :: "catalog_env \<Rightarrow> catalog_db \<Rightarrow> scope \<Rightarrow> int" where
  "cap_of env s sc = (case sc of (core, home, rid) \<Rightarrow>
     if (core, home) = (cat_core env, cat_home env)
     then (case select_key (cv_id \<circ> cr_value) rid (cat_rows s) of None \<Rightarrow> 0 | Some r \<Rightarrow> cv_capacity (cr_value r)) else 0)"

lemma cap_of_listed:
  assumes sound: "sound_catalog env" and inv: "catalog_inv env s" and l: "catalog_list env s = Inr (revision, rs)" "item \<in> set rs"
  shows "cap_of env s (cat_core env, cat_home env, mr_id item) = mr_capacity item"
proof -
  obtain qs where "catalog_list env s = Inr (int (length (cat_events s)) + 1, qs)"
    "set qs = (\<lambda>r. managed_of (cr_value r)) ` set (cat_rows s)"
    by (rule catalog_list_inv [OF sound inv])
  then obtain r where r: "r \<in> set (cat_rows s)" "item = managed_of (cr_value r)" using l by auto
  then show ?thesis
    using select_key_unique [OF catalog_invD(2) [OF inv] r(1)] by (simp add: cap_of_def managed_of_def)
qed

lemma cap_of_nonneg: "catalog_inv env s \<Longrightarrow> 0 \<le> cap_of env s sc"
  using select_where_Some catalog_invD(1)
  by (fastforce simp: cap_of_def good_row_def fields_ok_def Let_def split: prod.splits option.splits)

lemma calendar_inv_mono:
  assumes "calendar_inv env cap s"
    and "\<And>sc. cap sc \<le> cap' sc \<or> (\<exists>events. verified_calendar env sc s = Inr (events, [])) \<and> 0 \<le> cap' sc"
  shows "calendar_inv env cap' s"
  unfolding calendar_inv_def
proof
  fix sc
  obtain events rs where v: "verified_calendar env sc s = Inr (events, rs)" "\<forall>r \<in> set rs. 0 \<le> rb_units (rv_body r)"
    "\<forall>x. span_load (active_spans rs) x \<le> cap sc"
    using assms(1) unfolding calendar_inv_def calendar_ok_def by blast
  have "\<forall>x. span_load (active_spans rs) x \<le> cap' sc"
    using assms(2) [of sc] v by (auto simp: active_spans_def span_load_def intro: order_trans)
  then show "calendar_ok env cap' sc s" unfolding calendar_ok_def using v by blast
qed

text \<open>A command changes the capacity of at most the resource it is about.\<close>

lemma mutate_cap:
  assumes sound: "sound_catalog env" and inv: "catalog_inv env s"
  obtains (same) "snd (mutate env fr now actor c s) = s"
    | (changed) v where "resource_change env (cf_resource fr) now c (map (\<lambda>r. managed_of (cr_value r)) (scope_rows env s)) s = Inr v"
      "cv_id v \<notin> (cv_id \<circ> cr_value) ` set (cat_rows s) \<longleftrightarrow> co_action c = ''created''"
      "\<And>sc. cap_of env (snd (mutate env fr now actor c s)) sc =
        (if sc = (cat_core env, cat_home env, cv_id v) then cv_capacity v else cap_of env s sc)"
proof (cases "mutate env fr now actor c s")
  case (Pair a s')
  show thesis
  proof (cases a)
    case (Inl e)
    then have "s' = s" using Pair by (auto simp: mutate_def elim: transaction_cases split: if_splits)
    then show thesis using same Pair by simp
  next
    case (Inr ans)
    obtain revision r where ans: "ans = (revision, r)" by (cases ans)
    note run = mutate_Inr(2) [OF Pair [unfolded Inr ans]]
    show thesis
    proof (cases "catalog_replay env (co_command_id c) s")
      case (Some replay)
      then show thesis using same Pair mutate_body_replayed(1) [OF Some run] by simp
    next
      case None
      show thesis
      proof (rule mutate_body_new [OF sound inv None run])
        fix st rs v event
        assume v: "rs = map (\<lambda>r. managed_of (cr_value r)) (scope_rows env s)"
          "resource_change env (cf_resource fr) now c rs s = Inr v"
          "cat_rows s' = replace_row \<lparr>cr_value = v, cr_payload_hash = resource_mac env v\<rparr> (cat_rows s)"
          "(co_action c = ''created'') = (cv_id v \<notin> (cv_id \<circ> cr_value) ` set (cat_rows s))"
        have rows: "select_key (cv_id \<circ> cr_value) rid (cat_rows s') =
            (if rid = cv_id v then Some \<lparr>cr_value = v, cr_payload_hash = resource_mac env v\<rparr>
             else select_key (cv_id \<circ> cr_value) rid (cat_rows s))" for rid
          unfolding v(3) select_replace_row [OF catalog_invD(2) [OF inv]] by simp
        have "cap_of env s' sc = (if sc = (cat_core env, cat_home env, cv_id v) then cv_capacity v else cap_of env s sc)" for sc
          unfolding cap_of_def rows by (cases sc) simp
        then show thesis
          by (intro changed [OF v(2) [unfolded v(1)] v(4) [symmetric]]) (simp add: Pair)
      qed
    qed
  qed
qed


definition service_inv :: "('raw, 'ct) service_env \<Rightarrow> 'ct service_db \<Rightarrow> bool" where
  "service_inv env s \<longleftrightarrow> catalog_inv (sv_cat env) (sv_catalog s) \<and>
     calendar_inv (sv_cal env) (cap_of (sv_cat env) (sv_catalog s)) (sv_calendar s)"

definition sound_service :: "('raw, 'ct) service_env \<Rightarrow> bool" where
  "sound_service env \<longleftrightarrow> sound_catalog (sv_cat env) \<and> sound_calendar (sv_cal env)"

text \<open>A catalog command keeps the invariant when the capacity it sets is not below what is reserved.\<close>

lemma mutate_service_inv:
  assumes sound: "sound_service env" and inv: "service_inv env s"
    and room: "\<And>item. co_action c = ''updated'' \<Longrightarrow> item \<in> set (map (\<lambda>r. managed_of (cr_value r)) (scope_rows (sv_cat env) (sv_catalog s))) \<Longrightarrow>
      co_resource c = Some (mr_id item) \<Longrightarrow> co_capacity c = Some (mr_capacity item) \<or>
      (\<exists>events. verified_calendar (sv_cal env) (calendar_scope env (mr_id item)) (sv_calendar s) = Inr (events, []))"
  shows "service_inv env (snd (with_catalog s (mutate (sv_cat env) fr now actor c (sv_catalog s))))"
proof -
  let ?e = "sv_cat env" and ?c = "sv_catalog s"
  let ?t = "snd (mutate ?e fr now actor c ?c)"
  have snd: "sound_catalog ?e" and cat: "catalog_inv ?e ?c" and cal: "calendar_inv (sv_cal env) (cap_of ?e ?c) (sv_calendar s)"
    using sound inv by (simp_all add: sound_service_def service_inv_def)
  have cat': "catalog_inv ?e ?t" by (rule mutate_inv [OF snd cat])
  have "calendar_inv (sv_cal env) (cap_of ?e ?t) (sv_calendar s)"
  proof (rule mutate_cap [OF snd cat])
    assume "?t = ?c"
    then show ?thesis using cal by simp
  next
    fix v
    assume v: "resource_change ?e (cf_resource fr) now c (map (\<lambda>r. managed_of (cr_value r)) (scope_rows ?e ?c)) ?c = Inr v"
      "cv_id v \<notin> (cv_id \<circ> cr_value) ` set (cat_rows ?c) \<longleftrightarrow> co_action c = ''created''"
      "\<And>sc. cap_of ?e ?t sc = (if sc = (cat_core ?e, cat_home ?e, cv_id v) then cv_capacity v else cap_of ?e ?c sc)"
    let ?sc = "(cat_core ?e, cat_home ?e, cv_id v)"
    have good: "0 \<le> cv_capacity v"
      using resource_change_good(1) [OF v(1)] catalog_resources_good [OF cat] by (fastforce simp: good_row_def fields_ok_def)
    have "cap_of ?e ?c ?sc \<le> cv_capacity v \<or> (\<exists>events. verified_calendar (sv_cal env) ?sc (sv_calendar s) = Inr (events, []))"
    proof (rule resource_change_cases [OF v(1)])
      assume "co_action c = ''created''"
      then have "select_key (cv_id \<circ> cr_value) (cv_id v) (cat_rows ?c) = None" using v(2) by (auto simp: select_where_None_iff image_iff)
      then show ?thesis using good by (simp add: cap_of_def)
    next
      fix current
      assume cur: "co_action c \<in> {''updated'', ''deactivated''}" "co_resource c = Some (mr_id current)" "cv_id v = mr_id current"
        "current \<in> set (map (\<lambda>r. managed_of (cr_value r)) (scope_rows ?e ?c))"
        "co_action c = ''deactivated'' \<Longrightarrow> 1 < count_where mr_active (map (\<lambda>r. managed_of (cr_value r)) (scope_rows ?e ?c)) \<and>
           managed_of v = current\<lparr>mr_revision := mr_revision current + 1, mr_active := False\<rparr>"
      obtain rs where "catalog_list ?e ?c = Inr (int (length (cat_events ?c)) + 1, rs)"
        "set rs = (\<lambda>r. managed_of (cr_value r)) ` set (cat_rows ?c)"
        by (rule catalog_list_inv [OF snd cat])
      then have old: "cap_of ?e ?c ?sc = mr_capacity current"
        using cap_of_listed [OF snd cat] cur(3,4) scope_rows_inv(1) [OF cat] by auto
      show ?thesis
      proof (cases "co_action c = ''deactivated''")
        case True
        then have "mr_capacity (managed_of v) = mr_capacity current" using cur(5) by simp
        then show ?thesis using old by (simp add: managed_of_def)
      next
        case False
        then have "co_capacity c = Some (cv_capacity v)"
          using resource_change_good(3) [OF v(1)] catalog_resources_good [OF cat] by blast
        then show ?thesis using room [OF _ cur(4,2)] False cur(1,3) old by (auto simp: calendar_scope_def)
      qed
    qed
    then show ?thesis using good v(3) by (intro calendar_inv_mono [OF cal]) auto
  qed
  with cat' show ?thesis
    by (cases "mutate ?e fr now actor c ?c") (simp add: service_inv_def with_catalog_def)
qed

lemma update_admitted_Inr:
  assumes "update_admitted env now actor core home rid q s = Inr ()"
  obtains revision resources item events records where
    "catalog_list (sv_cat env) (sv_catalog s) = Inr (revision, resources)" "select_key mr_id rid resources = Some item"
    "verified_calendar (sv_cal env) (calendar_scope env rid) (sv_calendar s) = Inr (events, records)"
    "records = [] \<or> rq_capacity q = mr_capacity item"
proof -
  obtain a where a: "service_authority env now actor core home (Some rid) s = Inr a"
    using assms by (auto simp: update_admitted_def bind_res_Inr_iff)
  have sc: "scope_of a = calendar_scope env rid"
    by (rule service_authority_Inr [OF a]) simp
  show thesis
    using assms a
    by (auto simp: update_admitted_def bind_res_Inr_iff sc if_Inl_eq_Inr split: option.splits intro: that)
qed

lemma update_resource_inv:
  assumes sound: "sound_service env" and inv: "service_inv env s"
  shows "service_inv env (snd (update_resource env fr now now2 actor core home rid ex q s))"
proof (cases "update_admitted env now actor core home rid q s")
  case (Inr u)
  have snd: "sound_catalog (sv_cat env)" and cat: "catalog_inv (sv_cat env) (sv_catalog s)"
    using sound inv by (simp_all add: sound_service_def service_inv_def)
  obtain revision resources item events records where
    adm: "catalog_list (sv_cat env) (sv_catalog s) = Inr (revision, resources)" "select_key mr_id rid resources = Some item"
    "verified_calendar (sv_cal env) (calendar_scope env rid) (sv_calendar s) = Inr (events, records)"
    "records = [] \<or> rq_capacity q = mr_capacity item"
    by (rule update_admitted_Inr) (use Inr in simp)
  obtain rs where l: "catalog_list (sv_cat env) (sv_catalog s) = Inr (int (length (cat_events (sv_catalog s))) + 1, rs)"
    "set rs = (\<lambda>r. managed_of (cr_value r)) ` set (cat_rows (sv_catalog s))" "unique_on mr_id rs"
    by (rule catalog_list_inv [OF snd cat])
  have only: "other = item" if "other \<in> set rs" "mr_id other = rid" for other
    using select_key_unique [OF l(3) that(1)] adm(1,2) l(1) that(2) by simp
  have "service_inv env (snd (update_commit env fr now2 actor rid ex q s))"
    unfolding update_commit_def
  proof (rule mutate_service_inv [OF sound inv])
    fix other
    assume "other \<in> set (map (\<lambda>r. managed_of (cr_value r)) (scope_rows (sv_cat env) (sv_catalog s)))"
      "co_resource (resource_command ''updated'' (Some rid) (Some ex) q) = Some (mr_id other)"
    then have "other = item" "mr_id other = rid" using only scope_rows_inv(1) [OF cat] by (auto simp: resource_command_def l(2))
    then show "co_capacity (resource_command ''updated'' (Some rid) (Some ex) q) = Some (mr_capacity other) \<or>
        (\<exists>events. verified_calendar (sv_cal env) (calendar_scope env (mr_id other)) (sv_calendar s) = Inr (events, []))"
      using adm(3,4) by (auto simp: resource_command_def)
  qed
  then show ?thesis using Inr by (simp add: update_resource_def)
qed (use inv in \<open>simp add: update_resource_def\<close>)

lemma create_resource_inv:
  assumes "sound_service env" "service_inv env s"
  shows "service_inv env (snd (create_resource env fr now now2 actor core home q s))"
  unfolding create_resource_def
  using assms(2) mutate_service_inv [OF assms, of "resource_command ''created'' None None q" fr now2 actor]
  by (simp add: resource_command_def split: sum.split)

lemma deactivate_resource_inv:
  assumes "sound_service env" "service_inv env s"
  shows "service_inv env (snd (deactivate_resource env fr now now2 actor core home rid cmd ec er s))"
  unfolding deactivate_resource_def
  using assms(2) mutate_service_inv [OF assms, of "\<lparr>co_action = ''deactivated'', co_command_id = cmd, co_expected_catalog = ec,
    co_resource = Some rid, co_expected_resource = Some er, co_label = None, co_timezone = None, co_capacity = None\<rparr>" fr now2 actor]
  by (simp split: sum.split)


lemma admitted_capacity:
  assumes sound: "sound_service env" and inv: "service_inv env s"
    and a: "service_authority env now actor core home (Some rid) s = Inr a"
  shows "rl_capacity (ra_resource a) = cap_of (sv_cat env) (sv_catalog s) (scope_of a)"
proof (rule service_authority_Inr [OF a])
  fix revision resources item
  assume "catalog_list (sv_cat env) (sv_catalog s) = Inr (revision, resources)" "item \<in> set resources"
    "scope_of a = calendar_scope env (mr_id item)" "rl_capacity (ra_resource a) = mr_capacity item"
  then show ?thesis
    using cap_of_listed sound inv unfolding sound_service_def service_inv_def calendar_scope_def by metis
qed

lemma with_calendar_inv:
  assumes "service_inv env s" and "calendar_inv (sv_cal env) (cap_of (sv_cat env) (sv_catalog s)) (snd rc)"
  shows "service_inv env (snd (with_calendar env actor a s rc))"
  using assms by (cases rc) (simp add: with_calendar_def service_inv_def)

lemma expected_authority:
  "expected env now actor core home rid body for_receipt s = Inr a \<Longrightarrow>
     service_authority env now actor core home (Some rid) s = Inr a"
  by (auto simp: expected_def bind_res_Inr_iff Let_def split: if_splits)

lemma create_admitted_Inr:
  assumes "create_admitted env now actor core home rid q s = Inr a"
  shows "expected env now actor core home rid (cq_authority q) False s = Inr a"
  using assms by (auto simp: create_admitted_def bind_res_Inr_iff if_Inl_eq_Inr split: option.splits)

lemma service_create_inv:
  assumes sound: "sound_service env" and inv: "service_inv env s"
  shows "service_inv env (snd (service_create env fr now now2 actor core home rid q s))"
proof (cases "create_admitted env now actor core home rid q s")
  case (Inr a)
  note a = expected_authority [OF create_admitted_Inr [OF Inr]]
  have "valid_authority (sv_cal env) a" by (rule service_authority_Inr [OF a])
  then have "calendar_step (sv_cal env) (cap_of (sv_cat env) (sv_catalog s)) (sv_calendar s)
      (snd (reserve (sv_cal env) fr now2 actor (encode_command env (create_command q)) a (sv_calendar s)))"
    using admitted_capacity [OF sound inv a] by (rule step_reserve)
  then have "calendar_inv (sv_cal env) (cap_of (sv_cat env) (sv_catalog s))
      (snd (reserve (sv_cal env) fr now2 actor (encode_command env (create_command q)) a (sv_calendar s)))"
    using calendar_step_inv sound inv unfolding sound_service_def service_inv_def by blast
  then show ?thesis using Inr inv by (simp add: service_create_def create_commit_def with_calendar_inv)
qed (use inv in \<open>simp add: service_create_def\<close>)

lemma service_cancel_inv:
  assumes sound: "sound_service env" and inv: "service_inv env s"
  shows "service_inv env (snd (service_cancel env eid now now2 actor core home rid q s))"
proof (cases "expected env now actor core home rid (nq_authority q) False s")
  case (Inr a)
  have "valid_authority (sv_cal env) a" by (rule service_authority_Inr [OF expected_authority [OF Inr]])
  then have "calendar_step (sv_cal env) (cap_of (sv_cat env) (sv_catalog s)) (sv_calendar s)
      (snd (cancel (sv_cal env) eid now2 actor (encode_command env (cancel_command q)) a (sv_calendar s)))"
    by (rule calendar_step.step_cancel)
  then have "calendar_inv (sv_cal env) (cap_of (sv_cat env) (sv_catalog s))
      (snd (cancel (sv_cal env) eid now2 actor (encode_command env (cancel_command q)) a (sv_calendar s)))"
    using calendar_step_inv sound inv unfolding sound_service_def service_inv_def by blast
  then show ?thesis using Inr inv by (simp add: service_cancel_def with_calendar_inv)
qed (use inv in \<open>simp add: service_cancel_def\<close>)

section \<open>Calls one after the other\<close>

text \<open>The calls of the service, each run to its end before the next, interleaved with anything the
  account service does and with restarts.\<close>

inductive service_step :: "('raw, 'ct) service_env \<Rightarrow> 'ct service_db \<Rightarrow> 'ct service_db \<Rightarrow> bool" for env where
  step_create_resource: "service_step env s (snd (create_resource env fr now now2 actor core home q s))"
| step_update_resource: "service_step env s (snd (update_resource env fr now now2 actor core home rid ex q s))"
| step_deactivate_resource: "service_step env s (snd (deactivate_resource env fr now now2 actor core home rid cmd ec er s))"
| step_create: "service_step env s (snd (service_create env fr' now now2 actor core home rid q' s))"
| step_cancel: "service_step env s (snd (service_cancel env eid now now2 actor core home rid q'' s))"
| step_accounts: "service_step env s (s\<lparr>sv_accounts := accounts\<rparr>)"
| step_restart: "service_step env s (s\<lparr>sv_catalog := snd (ensure_default (sv_cat env) now (sv_catalog s))\<rparr>)"

inductive_cases service_stepE: "service_step env s t"

lemma service_step_inv:
  assumes sound: "sound_service env" and "service_step env s t" and inv: "service_inv env s"
  shows "service_inv env t"
  using assms(2)
proof cases
  case (step_restart now)
  have snd: "sound_catalog (sv_cat env)" and cat: "catalog_inv (sv_cat env) (sv_catalog s)"
    using sound inv by (simp_all add: sound_service_def service_inv_def)
  have "snd (ensure_default (sv_cat env) now (sv_catalog s)) = sv_catalog s"
    by (rule verified_catalog_inv [OF snd cat])
      (simp add: ensure_default_def ensure_default_body_def transaction_def catalog_state_row_def new_catalog_state_def)
  then show ?thesis using inv step_restart by simp
qed (use sound inv in \<open>simp_all add: create_resource_inv update_resource_inv deactivate_resource_inv service_create_inv
  service_cancel_inv, simp add: service_inv_def\<close>)

interpretation service: stable_step "service_step env" "\<lambda>s. sound_service env \<and> service_inv env s"
  by unfold_locales (auto intro: service_step_inv)

definition service_start :: "('raw, 'ct) service_env \<Rightarrow> 'ct service_db \<Rightarrow> bool" where
  "service_start env s \<longleftrightarrow> (\<exists>now. ensure_default (sv_cat env) now \<lparr>cat_rows = [], cat_events = [], cat_states = []\<rparr>
       = (Inr (), sv_catalog s)) \<and> sv_calendar s = \<lparr>cal_rows = [], cal_events = [], cal_states = []\<rparr>"

definition service_reach :: "('raw, 'ct) service_env \<Rightarrow> 'ct service_db \<Rightarrow> bool" where
  "service_reach env s \<longleftrightarrow> (\<exists>s0. service_start env s0 \<and> (service_step env)\<^sup>*\<^sup>* s0 s)"

lemma service_reach_inv:
  assumes sound: "sound_service env" and "service_reach env s"
  shows "service_inv env s"
proof -
  obtain s0 where s0: "service_start env s0" "(service_step env)\<^sup>*\<^sup>* s0 s" using assms(2) by (auto simp: service_reach_def)
  have cat: "catalog_inv (sv_cat env) (sv_catalog s0)"
    using s0(1) sound catalog_reach_inv catalog_start unfolding service_start_def sound_service_def by blast
  have "calendar_reach (sv_cal env) (cap_of (sv_cat env) (sv_catalog s0)) (sv_calendar s0)"
    using s0(1) by (simp add: service_start_def calendar_reach_def)
  then have "service_inv env s0"
    using calendar_reach_inv sound cap_of_nonneg [OF cat] cat unfolding service_inv_def sound_service_def by blast
  then show ?thesis using service.steps_inv [OF s0(2)] sound by blast
qed

text \<open>C6: The capacity the catalog shows is never exceeded. When the calls of the service run one after
  the other, from an empty store and through any changes of accounts and any catalog commands, reading
  the catalog and every calendar succeeds, and for every resource, active or not, the units reserved at
  any instant are at most its current capacity.\<close>

theorem service_never_overbooked:
  assumes "sound_service env" and "service_reach env s"
  shows "\<exists>revision resources. catalog_list (sv_cat env) (sv_catalog s) = Inr (revision, resources) \<and>
    (\<forall>item \<in> set resources. \<exists>events rs. verified_calendar (sv_cal env) (calendar_scope env (mr_id item)) (sv_calendar s)
       = Inr (events, rs) \<and> (\<forall>x. span_load (active_spans rs) x \<le> mr_capacity item))"
proof -
  note inv = service_reach_inv [OF assms]
  have snd: "sound_catalog (sv_cat env)" and cat: "catalog_inv (sv_cat env) (sv_catalog s)"
    and cal: "calendar_inv (sv_cal env) (cap_of (sv_cat env) (sv_catalog s)) (sv_calendar s)"
    using assms(1) inv by (simp_all add: sound_service_def service_inv_def)
  obtain rs where l: "catalog_list (sv_cat env) (sv_catalog s) = Inr (int (length (cat_events (sv_catalog s))) + 1, rs)"
    by (rule catalog_list_inv [OF snd cat])
  have "calendar_ok (sv_cal env) (cap_of (sv_cat env) (sv_catalog s)) (calendar_scope env (mr_id item)) (sv_calendar s)" for item
    using cal unfolding calendar_inv_def by blast
  moreover have "cap_of (sv_cat env) (sv_catalog s) (calendar_scope env (mr_id item)) = mr_capacity item" if "item \<in> set rs" for item
    unfolding calendar_scope_def by (rule cap_of_listed [OF snd cat l that])
  ultimately show ?thesis using l unfolding calendar_ok_def by metis
qed


section \<open>The recurrence can be read back\<close>

lemma local_occurrence_wall:
  assumes "local_occurrence env zone local duration fld = Inr o1"
  shows "fst (to_wall env zone (oc_start o1)) = local"
proof -
  let ?start = "local - utc_offset env zone local (if utc_offset env zone local 0 \<noteq> utc_offset env zone local 1 then the fld else 0)"
  have "(case to_wall env zone ?start of (back, back_fold) \<Rightarrow>
      back = local \<and> o1 = \<lparr>oc_start = ?start, oc_end = ?start + duration\<rparr>)"
    using assms unfolding local_occurrence_def Let_def if_Inl_eq_Inr
    by (cases "to_wall env zone ?start") (simp only: prod.case if_Inl_eq_Inr de_Morgan_disj not_not sum.inject)
  then show ?thesis by auto
qed

lemma local_loop_walls:
  "local_loop env zone locals duration fld = Inr os \<Longrightarrow> map (\<lambda>oc. fst (to_wall env zone (oc_start oc))) os = locals"
proof (induction locals arbitrary: os)
  case (Cons local locals)
  then obtain o1 os' where os: "os = o1 # os'" "local_occurrence env zone local duration fld = Inr o1"
    "local_loop env zone locals duration fld = Inr os'"
    by (auto simp: bind_res_Inr_iff)
  show ?case using local_occurrence_wall [OF os(2)] Cons.IH [OF os(3)] by (simp add: os(1))
qed simp

lemma arithmetic_differences:
  "list_ex (\<lambda>(l, r). r - l \<noteq> k) (zip (map (\<lambda>i. c + k * i) [a..b]) (tl (map (\<lambda>i. c + k * i) [a..b]))) = False"
proof -
  have "r - l = k" if "(l, r) \<in> set (zip (map (\<lambda>i. c + k * i) [a..b]) (tl (map (\<lambda>i. c + k * i) [a..b])))" for l r
    using that by (auto simp: set_zip nth_tl algebra_simps)
  then show ?thesis by (auto simp: list_ex_iff)
qed

lemma recurrence_json_arithmetic:
  assumes "map (\<lambda>oc. fst (to_wall env zone (oc_start oc)) div 86400) os = map (\<lambda>i. c + k * i) [0..n - 1]"
    and "1 \<le> n" and "k = 1 \<or> k = 7"
  shows "recurrence_json env zone os = Inr (if n = 1 then (''none'', 1) else (if k = 1 then ''daily'' else ''weekly'', n))"
proof -
  have len: "int (length os) = n" using arg_cong [OF assms(1), of length] assms(2) by simp
  show ?thesis
  proof (cases "n = 1")
    case True
    then show ?thesis using assms(1) by (simp add: recurrence_json_def)
  next
    case False
    then have up: "[0..n - 1] = 0 # 1 # [2..n - 1]" using assms(2) upto_rec1 [of 0 "n - 1"] upto_rec1 [of 1 "n - 1"] by simp
    have "list_ex (\<lambda>(l, r). r - l \<noteq> k) (zip (map (\<lambda>i. c + k * i) [0..n - 1]) (tl (map (\<lambda>i. c + k * i) [0..n - 1]))) = False"
      by (rule arithmetic_differences)
    then show ?thesis using assms(1,3) False len unfolding recurrence_json_def assms(1) up by (auto simp: Let_def)
  qed
qed

text \<open>C36: The recurrence of a booking is not stored and yet can always be shown: reading it off the local
  dates of the resolved occurrences, across any change of the clocks, gives back the requested
  frequency and count (and \<open>none\<close> for a single occurrence), so that showing an accepted reservation
  never fails.\<close>

theorem recurrence_roundtrip:
  assumes run: "local_occurrences env v rule = Inr b" and rec: "map_of v ''recurrence'' = Some (V_obj rec)"
    and f: "map_of rec ''frequency'' = Some (V_str frequency)" and n: "map_of rec ''count'' = Some (V_int repeat)"
  shows "recurrence_json env (rl_timezone rule) (bk_occurrences b) = Inr (if repeat = 1 then (''none'', 1) else (frequency, repeat))"
proof -
  obtain step repeat' start duration fld where r: "recurrence_of rec = Inr (step, repeat')"
    and l: "local_loop env (rl_timezone rule) (map (\<lambda>i. start + step * i) [0..repeat' - 1]) duration fld = Inr (bk_occurrences b)"
    using run rec by (auto simp: local_occurrences_def bind_res_Inr_iff if_Inl_eq_Inr split: option.splits jvalue.splits)
  have eq: "repeat' = repeat" "1 \<le> repeat" and st: "frequency_step frequency = Some step" "frequency = ''none'' \<Longrightarrow> repeat = 1"
    using r f n by (auto simp: recurrence_of_def if_Inl_eq_Inr split: option.splits)
  have cases: "frequency = ''none'' \<and> step = 0 \<or> frequency = ''daily'' \<and> step = 86400 \<or> frequency = ''weekly'' \<and> step = 86400 * 7"
    using st(1) by (auto simp: frequency_step_def split: if_splits)
  define k :: int where "k = (if frequency = ''weekly'' then 7 else 1)"
  have walls: "map (\<lambda>oc. fst (to_wall env (rl_timezone rule) (oc_start oc)) div 86400) (bk_occurrences b) =
      map (\<lambda>i. (start + step * i) div 86400) [0..repeat - 1]"
    using arg_cong [OF local_loop_walls [OF l], of "map (\<lambda>w. w div 86400)"] eq by (simp add: comp_def)
  also have "\<dots> = map (\<lambda>i. start div 86400 + k * i) [0..repeat - 1]"
  proof (cases "frequency = ''none''")
    case True
    then show ?thesis using st(2) by simp
  next
    case False
    then have "step = 86400 * k" using cases by (auto simp: k_def)
    then have "(start + step * i) div 86400 = start div 86400 + k * i" for i
      using div_mult_self2 [of "86400 :: int" start "k * i"] by (simp add: mult.assoc)
    then show ?thesis by simp
  qed
  finally have "recurrence_json env (rl_timezone rule) (bk_occurrences b) =
      Inr (if repeat = 1 then (''none'', 1) else (if k = 1 then ''daily'' else ''weekly'', repeat))"
    by (rule recurrence_json_arithmetic) (use eq in \<open>simp_all add: k_def\<close>)
  then show ?thesis using cases st(2) by (auto simp: k_def)
qed


section \<open>A lost acknowledgement\<close>

text \<open>The calendar only grows: rows and events are appended, row identifiers stay unique and no calendar
  revision falls.\<close>

definition shown_revision :: "scope \<Rightarrow> 'ct calendar_db \<Rightarrow> int" where
  "shown_revision sc s = (case select_key cs_scope sc (cal_states s) of None \<Rightarrow> 1 | Some st \<Rightarrow> cs_revision st)"

definition calendar_extends :: "'ct calendar_db \<Rightarrow> 'ct calendar_db \<Rightarrow> bool" where
  "calendar_extends s t \<longleftrightarrow> prefix (cal_events s) (cal_events t) \<and> prefix (cal_rows s) (cal_rows t) \<and>
     (unique_on rw_id (cal_rows s) \<longrightarrow> unique_on rw_id (cal_rows t)) \<and> (\<forall>sc. shown_revision sc s \<le> shown_revision sc t)"

lemma calendar_extends_refl [simp]: "calendar_extends s s"
  by (simp add: calendar_extends_def)

lemma calendar_extends_trans: "calendar_extends s t \<Longrightarrow> calendar_extends t u \<Longrightarrow> calendar_extends s u"
  unfolding calendar_extends_def by (meson order_trans prefix_order.trans)

lemma insert_event_grows:
  assumes "insert_event env eid a state cmd action aid rid rh now s1 = Inr (revision, s')"
    and "ra_calendar_revision a = shown_revision (scope_of a) s1" and "calendar_state_of env (scope_of a) s1 = Inr state"
  shows "calendar_extends s1 s'"
proof -
  obtain row st s2 where i: "insert_calendar_row row s1 = Inr s2" "upsert_calendar_state st s2 = Inr s'" "cs_scope st = scope_of a"
    "cs_revision st = (case state of None \<Rightarrow> ra_calendar_revision a | Some q \<Rightarrow> cs_revision q) + 1"
    "\<forall>q. state = Some q \<longrightarrow> cs_base_revision q = cs_base_revision st"
    using assms(1) by (fastforce simp: insert_event_def Let_def bind_res_Inr_iff split: option.splits)
  have s2: "s2 = s1\<lparr>cal_events := cal_events s1 @ [row]\<rparr>"
    using i(1) by (auto simp: insert_calendar_row_def Let_def split: if_splits)
  have old: "select_key cs_scope (scope_of a) (cal_states s1) = state"
    using assms(3) by (auto simp: calendar_state_of_def split: option.splits if_splits)
  note up = upsert_calendar_state_effect [OF i(2)]
  have "shown_revision sc s1 \<le> shown_revision sc s'" for sc
  proof (cases "sc = scope_of a")
    case True
    then have "shown_revision sc s' = cs_revision st" using up(1) i(3,5) old by (simp add: shown_revision_def s2)
    moreover have "cs_revision st = shown_revision sc s1 + 1"
      using i(4) assms(2) old True by (auto simp: shown_revision_def split: option.splits)
    ultimately show ?thesis by simp
  next
    case False
    then show ?thesis using up(2) [of sc] i(3,5) old by (simp add: shown_revision_def s2)
  qed
  moreover have "cal_rows s' = cal_rows s1" "cal_events s' = cal_events s1 @ [row]"
    using up(3,4) i(3,5) old by (simp_all add: s2)
  ultimately show ?thesis by (simp add: calendar_extends_def)
qed

lemma reserve_extends:
  assumes "ra_calendar_revision a = shown_revision (scope_of a) s"
  shows "calendar_extends s (snd (reserve env fr now actor bytes a s))"
proof -
  have "calendar_extends s s'" if run: "reserve_body env fr now actor a cmd b rh s = Inr (r, s')" for cmd b rh r s'
  proof (cases "find_replay (scope_of a) cmd s")
    case (Some row)
    then show ?thesis using reserve_body_replayed [OF Some run] by simp
  next
    case None
    show ?thesis
    proof (rule reserve_body_new [OF None run])
      fix state s1 revision
      assume n: "calendar_state_of env (scope_of a) s = Inr state" "fr_reservation fr \<notin> rw_id ` set (cal_rows s)"
        "s1 = s\<lparr>cal_rows := cal_rows s @ [new_reservation_row env fr (scope_of a) (body_of_booking a actor now b) rh now]\<rparr>"
        "insert_event env (fr_event fr) a state cmd ''created'' (p_id actor) (fr_reservation fr) rh now s1 = Inr (revision, s')"
      have "calendar_extends s s1"
        using n(2) by (simp add: n(3) calendar_extends_def shown_revision_def unique_on_append_single new_reservation_row_def Let_def)
      moreover have "calendar_extends s1 s'"
        by (rule insert_event_grows [OF n(4)]) (use assms n(1) in \<open>simp_all add: n(3) shown_revision_def calendar_state_of_def\<close>)
      ultimately show ?thesis by (rule calendar_extends_trans)
    qed
  qed
  then show ?thesis
    by (auto simp: reserve_def transaction_def split: sum.splits)
qed

lemma cancel_extends:
  assumes "ra_calendar_revision a = shown_revision (scope_of a) s"
  shows "calendar_extends s (snd (cancel env eid now actor bytes a s))"
proof -
  have "calendar_extends s s'" if run: "cancel_body env eid now actor a cmd rid rh s = Inr (r, s')" for cmd rid rh r s'
  proof (cases "find_replay (scope_of a) cmd s")
    case (Some row)
    then show ?thesis using cancel_body_replayed [OF Some run] by simp
  next
    case None
    show ?thesis
      by (rule cancel_body_new [OF None run]) (rule insert_event_grows [OF _ assms])
  qed
  then show ?thesis
    by (auto simp: cancel_def transaction_def split: sum.splits)
qed

lemma authority_revision:
  assumes "service_authority env now actor core home rid s = Inr a"
  shows "ra_calendar_revision a = shown_revision (scope_of a) (sv_calendar s)"
  by (rule service_authority_Inr [OF assms]) (simp add: shown_revision_def)

lemma with_catalog_calendar [simp]: "sv_calendar (snd (with_catalog s rc)) = sv_calendar s"
  by (cases rc) (simp add: with_catalog_def)

lemma with_calendar_calendar [simp]: "sv_calendar (snd (with_calendar env actor a s rc)) = snd rc"
  by (cases rc) (simp add: with_calendar_def)

lemma catalog_calls_calendar [simp]:
  "sv_calendar (snd (create_resource env fr now now2 actor core home q s)) = sv_calendar s"
  "sv_calendar (snd (update_resource env fr now now2 actor core home rid ex q s)) = sv_calendar s"
  "sv_calendar (snd (deactivate_resource env fr now now2 actor core home rid cmd ec er s)) = sv_calendar s"
  by (simp_all add: create_resource_def update_resource_def update_commit_def deactivate_resource_def split: sum.split)

lemma service_create_extends:
  "calendar_extends (sv_calendar s) (sv_calendar (snd (service_create env fr now now2 actor core home rid q s)))"
  using reserve_extends [OF authority_revision [OF expected_authority [OF create_admitted_Inr]]]
  by (cases "create_admitted env now actor core home rid q s") (simp_all add: service_create_def create_commit_def)

lemma service_cancel_extends:
  "calendar_extends (sv_calendar s) (sv_calendar (snd (service_cancel env eid now now2 actor core home rid q s)))"
  using cancel_extends [OF authority_revision [OF expected_authority]]
  by (cases "expected env now actor core home rid (nq_authority q) False s") (simp_all add: service_cancel_def)

lemma service_step_extends:
  assumes "service_step env s t"
  shows "calendar_extends (sv_calendar s) (sv_calendar t)"
  using assms by cases (simp_all add: service_create_extends service_cancel_extends)

lemma service_steps_extend: "(service_step env)\<^sup>*\<^sup>* s t \<Longrightarrow> calendar_extends (sv_calendar s) (sv_calendar t)"
  by (induction rule: rtranclp_induct) (auto intro: calendar_extends_trans service_step_extends)

lemma service_reach_unique: "service_reach env s \<Longrightarrow> unique_on rw_id (cal_rows (sv_calendar s))"
  using service_steps_extend by (fastforce simp: service_reach_def service_start_def calendar_extends_def)

lemma find_replay_kept: "find_replay sc cmd s = Some row \<Longrightarrow> calendar_extends s t \<Longrightarrow> find_replay sc cmd t = Some row"
  by (auto simp: find_replay_def calendar_extends_def prefix_def select_where_append)

lemma reservation_kept:
  assumes ver: "verified_calendar env sc s = Inr (es, rs)" "r0 \<in> set rs" "verified_calendar env sc t = Inr (es', rs')"
    and grow: "calendar_extends s t" and uniq: "unique_on rw_id (cal_rows t)"
  obtains r1 where "find_reservation (rv_id r0) rs' = Some r1" "rv_id r1 = rv_id r0" "rv_body r1 = rv_body r0"
proof -
  obtain ca where s: "\<forall>row \<in> set (scope_records sc s). \<not> isl (decrypt_reservation env ca row)"
    "rs = map (reservation_at env ca) (scope_records sc s)"
    using ver(1) unfolding verified_calendar_iff by blast
  obtain ca' where t: "\<forall>row \<in> set (scope_records sc t). \<not> isl (decrypt_reservation env ca' row)"
    "rs' = map (reservation_at env ca') (scope_records sc t)"
    using ver(3) unfolding verified_calendar_iff by blast
  obtain row where row: "row \<in> set (scope_records sc s)" "r0 = reservation_at env ca row" using ver(2) s(2) by auto
  have row_t: "row \<in> set (scope_records sc t)"
    using row(1) grow by (auto simp: scope_records_def calendar_extends_def prefix_def)
  have id0: "rv_id r0 = rw_id row" using reservation_at_fields(1) s(1) row by blast
  have id_t: "rv_id (reservation_at env ca' q) = rw_id q" if "q \<in> set (scope_records sc t)" for q
    using reservation_at_fields(1) t(1) that by blast
  have "\<exists>r \<in> set rs'. rv_id r = rv_id r0" using row_t id_t id0 t(2) by auto
  then obtain r1 where r1: "find_reservation (rv_id r0) rs' = Some r1"
    by (cases "find_reservation (rv_id r0) rs'") (auto simp: find_reservation_def find_None_iff)
  then have mem: "r1 \<in> set rs'" "rv_id r1 = rv_id r0" by (auto simp: find_reservation_def find_Some_iff)
  then obtain q where q: "q \<in> set (scope_records sc t)" "r1 = reservation_at env ca' q" using t(2) by auto
  have "rw_id q = rw_id row" using id_t q mem(2) id0 by simp
  then have "q = row" using unique_on_inj [OF uniq, of q row] q(1) row_t by (auto simp: scope_records_def)
  then have "r1 = r0\<lparr>rv_cancelled_at := ca' (rw_id row)\<rparr>"
    using decrypt_reservation_cancels(2) s(1) row q(2) by blast
  then show thesis using mem(2) by (intro that [OF r1]) simp_all
qed

lemma reservation_json_body:
  assumes "reservation_json env actor r0 = Inr v" and "rv_id r1 = rv_id r0" and "rv_body r1 = rv_body r0"
  obtains w where "reservation_json env actor r1 = Inr w"
    "w\<lparr>vw_can_cancel := vw_can_cancel v, vw_cancelled := vw_cancelled v\<rparr> = v"
  using assms by (auto simp: reservation_json_def Let_def bind_res_Inr_iff if_Inl_eq_Inr split: list.splits)

lemma parse_create_command:
  assumes "decode_command env bytes = Some (create_command q)" and "parse_reserve env actor bytes a = Inr (cmd, b)"
  shows "cmd = cq_command q" "is_identifier cmd" "calendar_authorize actor a = Inr ()"
proof -
  have "parse_command env bytes create_fields = Inr v \<Longrightarrow> v = create_command q" for v
    using assms(1) by (auto simp: parse_command_def split: if_splits)
  then have "identifier_field (create_command q) ''commandId'' = Some cmd"
    using assms(2) by (auto simp: parse_reserve_def bind_res_Inr_iff if_Inl_eq_Inr split: option.splits)
  then show "cmd = cq_command q" "is_identifier cmd"
    by (auto simp: identifier_field_def create_command_def Let_def split: if_splits)
  show "calendar_authorize actor a = Inr ()" using assms(2) by (auto simp: parse_reserve_def bind_res_Inr_iff)
qed

lemma service_create_Inr:
  assumes "service_create env fr now now2 actor core home rid q s = (Inr v, s1)"
  obtains a r where "create_admitted env now actor core home rid q s = Inr a"
    "reserve (sv_cal env) fr now2 actor (encode_command env (create_command q)) a (sv_calendar s) = (Inr r, sv_calendar s1)"
    "receipt_json (sv_cal env) actor a r = Inr v" "s1 = s\<lparr>sv_calendar := sv_calendar s1\<rparr>"
proof -
  obtain a where a: "create_admitted env now actor core home rid q s = Inr a"
    using assms by (cases "create_admitted env now actor core home rid q s") (auto simp: service_create_def)
  obtain x c where x: "reserve (sv_cal env) fr now2 actor (encode_command env (create_command q)) a (sv_calendar s) = (x, c)"
    by fastforce
  then show thesis using assms a
    by (intro that [of a "projr x"]) (auto simp: service_create_def create_commit_def with_calendar_def bind_res_Inr_iff)
qed

text \<open>The authority a member is given admits it to its own calendar, at the revision that is stored.\<close>

lemma authority_authorizes:
  assumes "service_authority env now actor core home rid s = Inr a"
  shows "calendar_authorize actor a = Inr ()"
proof (rule service_authority_Inr [OF assms])
  fix item account
  assume a: "facts env now actor (mr_id item) s = Inr (account, ra_members a, ra_members_revision a, ra_calendar_revision a)"
    "ra_account a = p_id actor" "rl_members (ra_resource a) = ra_members a"
  have "p_id actor \<in> set (ra_members a)"
    using a(1) by (auto simp: facts_def bind_res_Inr_iff Let_def simp del: set_map split: option.splits if_splits)
  then show ?thesis using a(2,3) by (simp add: calendar_authorize_def)
qed

lemma authority_reads:
  assumes a: "service_authority env now actor core home rid s = Inr a"
    and ver: "verified_calendar (sv_cal env) (scope_of a) (sv_calendar s) = Inr (es, rs)"
  shows "read_calendar (sv_cal env) actor a (sv_calendar s) = Inr (ra_calendar_revision a, es, rs)"
proof -
  obtain state where st: "calendar_state_of (sv_cal env) (scope_of a) (sv_calendar s) = Inr state"
    using ver unfolding verified_calendar_iff by blast
  then have "select_key cs_scope (scope_of a) (cal_states (sv_calendar s)) = state"
    by (auto simp: calendar_state_of_def split: option.splits if_splits)
  then have "current_revision a state = ra_calendar_revision a"
    using authority_revision [OF a] by (auto simp: current_revision_def shown_revision_def split: option.splits)
  then show ?thesis using authority_authorizes [OF a] ver st by (simp add: read_calendar_def)
qed


lemma reachable_calendar:
  assumes "sound_service env" and "service_reach env s"
  obtains es rs where "verified_calendar (sv_cal env) sc (sv_calendar s) = Inr (es, rs)"
  using service_reach_inv [OF assms] unfolding service_inv_def calendar_inv_def calendar_ok_def by blast

text \<open>What a new reservation leaves in the calendar for its command.\<close>

lemma service_create_recorded:
  assumes sound: "sound_service env" and run: "service_create env fr now now2 actor core home rid q s = (Inr v, s1)"
    and codec: "decode_command (sv_cal env) (encode_command env (create_command q)) = Some (create_command q)"
    and unused: "find_replay (calendar_scope env rid) (cq_command q) (sv_calendar s) = None"
  obtains a r row es rs where "service_authority env now actor core home (Some rid) s = Inr a"
    "authority_json a actor = authority_view.truncate (cq_authority q)" "ra_calendar_revision a = av_calendar (cq_authority q)"
    "receipt_json (sv_cal env) actor a r = Inr v" "rr_calendar_revision r = av_calendar (cq_authority q) + 1"
    "is_identifier (cq_command q)" "find_replay (calendar_scope env rid) (cq_command q) (sv_calendar s1) = Some row"
    "calendar_receipt row (rr_reservation r) = r" "v_actor (v_content row) = p_id actor"
    "v_reservation (v_content row) = rv_id (rr_reservation r)"
    "verified_calendar (sv_cal env) (calendar_scope env rid) (sv_calendar s1) = Inr (es, rs)" "rr_reservation r \<in> set rs"
proof -
  obtain a r where cr: "create_admitted env now actor core home rid q s = Inr a"
    "reserve (sv_cal env) fr now2 actor (encode_command env (create_command q)) a (sv_calendar s) = (Inr r, sv_calendar s1)"
    "receipt_json (sv_cal env) actor a r = Inr v"
    by (rule service_create_Inr [OF run])
  note ex = create_admitted_Inr [OF cr(1)]
  note au = expected_authority [OF ex]
  have sc: "scope_of a = calendar_scope env rid" by (rule service_authority_Inr [OF au]) simp
  have same: "authority_json a actor = authority_view.truncate (cq_authority q)" "ra_calendar_revision a = av_calendar (cq_authority q)"
    using ex by (auto simp: expected_def bind_res_Inr_iff Let_def au split: if_splits)
  obtain cmd b where p: "parse_reserve (sv_cal env) actor (encode_command env (create_command q)) a = Inr (cmd, b)"
    "reserve_body (sv_cal env) fr now2 actor a cmd b (request_print (sv_cal env) (encode_command env (create_command q))) (sv_calendar s)
       = Inr (r, sv_calendar s1)"
    by (rule reserve_Inr [OF cr(2)])
  note cmd = parse_create_command [OF codec p(1)]
  have snd: "sound_calendar (sv_cal env)" using sound by (simp add: sound_service_def)
  have none: "find_replay (scope_of a) cmd (sv_calendar s) = None" using unused by (simp add: sc cmd(1))
  show thesis
  proof (rule reserve_body_adds [OF snd sound_calendarD(5) [OF snd] parse_reserve_booking [OF p(1)] none p(2)])
    fix events rs rs' ev
    assume n: "verified_calendar (sv_cal env) (scope_of a) (sv_calendar s1) = Inr (events @ [ev], rs')"
      "set rs' = insert (rr_reservation r) (set rs)" "rr_calendar_revision r = ra_calendar_revision a + 1"
      "\<exists>row. find_replay (scope_of a) cmd (sv_calendar s1) = Some row \<and> calendar_receipt row (rr_reservation r) = r \<and>
        v_action (v_content row) = ''created'' \<and> v_actor (v_content row) = p_id actor \<and>
        v_request_hash (v_content row) = request_print (sv_cal env) (encode_command env (create_command q)) \<and>
        v_reservation (v_content row) = rv_id (rr_reservation r)"
    then obtain row where "find_replay (scope_of a) cmd (sv_calendar s1) = Some row" "calendar_receipt row (rr_reservation r) = r"
      "v_actor (v_content row) = p_id actor" "v_reservation (v_content row) = rv_id (rr_reservation r)" by blast
    with n show thesis
      using au same cr(3) cmd by (intro that [of a r row "events @ [ev]" rs']) (simp_all add: sc)
  qed
qed



section \<open>A sample service\<close>

definition svc_view :: "string \<Rightarrow> expected_authority" where
  "svc_view rid = \<lparr>av_core = ''core'', av_home = ''home'', av_account = ''u1'', av_session = ''f1'', av_core_revision = 1,
     av_home_revision = 1, av_account_revision = 1, av_members_revision = 5, av_resource = rid, av_resource_revision = 1,
     av_calendar = 1\<rparr>"

definition svc_request :: create_request where
  "svc_request = \<lparr>cq_authority = svc_view ''r1'', cq_command = ''cmd'', cq_timezone = ''UTC'', cq_local_start = ''T'', cq_fold = 0,
     cq_duration = 60, cq_units = 2, cq_frequency = ''daily'', cq_count = 2\<rparr>"

definition svc_env :: "(reservation_body, reservation_body) service_env" where
  "svc_env = \<lparr>sv_cat = cat_env,
     sv_cal = cal_env\<lparr>decode_command := \<lambda>bytes. if bytes = ''+'' then Some (create_command svc_request) else None\<rparr>,
     members_digest = \<lambda>_. 5, encode_command = \<lambda>_. ''+''\<rparr>"

definition svc_resource :: "int \<Rightarrow> string \<Rightarrow> int \<Rightarrow> resource_request" where
  "svc_resource revision cmd capacity = \<lparr>rq_command = cmd, rq_expected_catalog = revision, rq_label = ''Car'',
     rq_timezone = ''UTC'', rq_capacity = capacity\<rparr>"

definition svc0 :: "reservation_body service_db" where
  "svc0 = \<lparr>sv_accounts = demo_db, sv_catalog = cat0, sv_calendar = cal0\<rparr>"

definition svc1 :: "reservation_body service_db" where
  "svc1 = snd (create_resource svc_env \<lparr>cf_resource = ''r1'', cf_event = ''e1''\<rparr> 10 10 demo_principal ''core'' ''home''
     (svc_resource 1 ''c1'' 2) svc0)"

definition svc_create :: "reservation_body service_db \<Rightarrow> receipt_view result \<times> reservation_body service_db" where
  "svc_create s = service_create svc_env \<lparr>fr_reservation = ''b1'', fr_event = ''v1'', fr_nonce = ''n''\<rparr> 10 11 demo_principal
     ''core'' ''home'' ''r1'' svc_request s"

definition svc2 :: "reservation_body service_db" where "svc2 = snd (svc_create svc1)"

definition svc_shrink :: "reservation_body service_db \<Rightarrow> (int \<times> managed_resource) result \<times> reservation_body service_db" where
  "svc_shrink s = update_commit svc_env \<lparr>cf_resource = ''r2'', cf_event = ''e2''\<rparr> 12 demo_principal ''r1'' 1 (svc_resource 2 ''c2'' 1) s"

lemma svc_sound: "sound_service svc_env"
  using cat_sound cal_sound
  by (simp add: sound_service_def svc_env_def sound_calendar_def)

lemma svc_reach: "service_reach svc_env svc1" "service_reach svc_env svc2"
proof -
  have "service_start svc_env svc0"
    using cat_started by (auto simp: service_start_def svc_env_def svc0_def cal0_def)
  moreover have one: "service_step svc_env svc0 svc1" unfolding svc1_def by (rule step_create_resource)
  moreover have two: "service_step svc_env svc1 svc2" unfolding svc2_def svc_create_def by (rule step_create)
  ultimately show "service_reach svc_env svc1" "service_reach svc_env svc2"
    unfolding service_reach_def by (meson r_into_rtranclp rtranclp.rtrancl_into_rtrancl)+
qed

lemma svc_created: "\<exists>v. svc_create svc1 = (Inr v, svc2)"
proof -
  have "case fst (svc_create svc1) of Inr v \<Rightarrow> True | Inl _ \<Rightarrow> False" by code_simp
  then show ?thesis unfolding svc2_def by (cases "svc_create svc1") (auto split: sum.splits)
qed


theorem service_never_overbooked_witness:
  "\<exists>revision resources. catalog_list cat_env (sv_catalog svc2) = Inr (revision, resources) \<and> length (cal_rows (sv_calendar svc2)) = 1"
proof -
  have "length (cal_rows (sv_calendar svc2)) = 1" by code_simp
  moreover have "sv_cat svc_env = cat_env" by (simp add: svc_env_def)
  ultimately show ?thesis using service_never_overbooked [OF svc_sound svc_reach(2)] by metis
qed

theorem recurrence_roundtrip_witness:
  "\<exists>b. local_occurrences cal_env cal_sample_create (ra_resource (cal_authority 1)) = Inr b \<and>
     recurrence_json cal_env ''UTC'' (bk_occurrences b) = Inr (''daily'', 2)"
proof -
  have "case local_occurrences cal_env cal_sample_create (ra_resource (cal_authority 1)) of Inr b \<Rightarrow> True | Inl _ \<Rightarrow> False"
    by code_simp
  then obtain b where b: "local_occurrences cal_env cal_sample_create (ra_resource (cal_authority 1)) = Inr b"
    by (auto split: sum.splits)
  have rec: "map_of cal_sample_create ''recurrence'' = Some (V_obj [(''frequency'', V_str ''daily''), (''count'', V_int 2)])"
    by code_simp
  have "rl_timezone (ra_resource (cal_authority 1)) = ''UTC''" by (simp add: cal_authority_def)
  with recurrence_roundtrip [OF b rec, of "''daily''" 2] b show ?thesis by simp
qed



end
