(* ===== verification/Garden_Irrigation.thy ===== *)
theory Garden_Irrigation
  imports Larenor_Prelude "HOL-Library.Multiset" "HOL-Library.List_Lexorder" "HOL-Library.Char_ord"
begin

text \<open>
  Irrigation planning: the contracts of \<open>server/larenor_server/garden_irrigation/models.py\<close> and
  the deterministic planner of \<open>garden_irrigation/planner.py\<close>. A zone of the garden is watered for
  its moisture deficit or a manual override, inside a daily water budget, unless one of the hard
  safety gates is up. The two SHA-256 digests and the two resolvers are parameters.
\<close>

section \<open>Contracts\<close>

datatype irrigation_role = IAdmin | IMember

record irrigation_authority =
  ga_coreId :: string
  ga_homeId :: string
  ga_homeRevision :: int
  ga_accountId :: string
  ga_accountRevision :: int
  ga_sessionFamilyId :: string
  ga_role :: irrigation_role
  ga_active :: bool
  ga_canManageIrrigation :: bool

definition valid_irrigation_authority :: "irrigation_authority \<Rightarrow> bool" where
  "valid_irrigation_authority a =
     (is_identity (ga_coreId a) \<and> is_identity (ga_homeId a) \<and> is_revision (ga_homeRevision a) \<and>
      is_identity (ga_accountId a) \<and> is_revision (ga_accountRevision a) \<and>
      is_identity (ga_sessionFamilyId a))"

record irrigation_zone =
  zn_coreId :: string
  zn_homeId :: string
  zn_zoneId :: string
  zn_zoneRevision :: int
  zn_areaId :: string
  zn_areaRevision :: int
  zn_valveServiceId :: string
  zn_valveServiceRevision :: int
  zn_valveBindingId :: string
  zn_valveBindingRevision :: int
  zn_flowMlPerMinute :: int
  zn_maxDurationSeconds :: int

definition valid_zone :: "irrigation_zone \<Rightarrow> bool" where
  "valid_zone z =
     (is_identity (zn_coreId z) \<and> is_identity (zn_homeId z) \<and> is_identity (zn_zoneId z) \<and>
      is_revision (zn_zoneRevision z) \<and> is_identity (zn_areaId z) \<and> is_revision (zn_areaRevision z) \<and>
      is_identity (zn_valveServiceId z) \<and> is_revision (zn_valveServiceRevision z) \<and>
      is_identity (zn_valveBindingId z) \<and> is_revision (zn_valveBindingRevision z) \<and>
      between 1 1000000 (zn_flowMlPerMinute z) \<and> between 1 7200 (zn_maxDurationSeconds z))"

record irrigation_policy =
  gp_coreId :: string
  gp_homeId :: string
  gp_policyId :: string
  gp_policyRevision :: int
  gp_zones :: "irrigation_zone list"
  gp_targetMoisturePermille :: int
  gp_soilMaxAgeMs :: int
  gp_safetyMaxAgeMs :: int
  gp_forecastMaxAgeMs :: int
  gp_rainDeferralMilliMm :: int
  gp_freezeThresholdMilliC :: int
  gp_windLimitMilliMps :: int
  gp_previewTtlMs :: int
  gp_active :: bool

definition unique_zones :: "irrigation_policy \<Rightarrow> bool" where
  "unique_zones p =
     (unique_on zn_zoneId (gp_zones p) \<and> unique_on zn_valveBindingId (gp_zones p) \<and>
      list_all (\<lambda>z. (zn_coreId z, zn_homeId z) = (gp_coreId p, gp_homeId p)) (gp_zones p))"

definition valid_irrigation_policy :: "irrigation_policy \<Rightarrow> bool" where
  "valid_irrigation_policy p =
     (is_identity (gp_coreId p) \<and> is_identity (gp_homeId p) \<and> is_identity (gp_policyId p) \<and>
      is_revision (gp_policyRevision p) \<and>
      1 \<le> length (gp_zones p) \<and> length (gp_zones p) \<le> 32 \<and> list_all valid_zone (gp_zones p) \<and>
      between 1 1000 (gp_targetMoisturePermille p) \<and>
      between 1000 (24 * 60 * 60 * 1000) (gp_soilMaxAgeMs p) \<and>
      between 1000 (60 * 60 * 1000) (gp_safetyMaxAgeMs p) \<and>
      between 60000 (48 * 60 * 60 * 1000) (gp_forecastMaxAgeMs p) \<and>
      between 0 1000000 (gp_rainDeferralMilliMm p) \<and>
      between (- 50000) 20000 (gp_freezeThresholdMilliC p) \<and>
      between 0 100000 (gp_windLimitMilliMps p) \<and> between 1000 60000 (gp_previewTtlMs p) \<and>
      unique_zones p)"

record soil_reading =
  sm_coreId :: string
  sm_homeId :: string
  sm_zoneId :: string
  sm_zoneRevision :: int
  sm_sensorId :: string
  sm_sensorRevision :: int
  sm_readingRevision :: int
  sm_moisturePermille :: int
  sm_observedAtMs :: int

definition valid_soil :: "soil_reading \<Rightarrow> bool" where
  "valid_soil s =
     (is_identity (sm_coreId s) \<and> is_identity (sm_homeId s) \<and> is_identity (sm_zoneId s) \<and>
      is_revision (sm_zoneRevision s) \<and> is_identity (sm_sensorId s) \<and> is_revision (sm_sensorRevision s) \<and>
      is_revision (sm_readingRevision s) \<and> between 0 1000 (sm_moisturePermille s) \<and>
      is_timestamp (sm_observedAtMs s))"

record safety_snapshot =
  sf_coreId :: string
  sf_homeId :: string
  sf_safetyRevision :: int
  sf_leakDetected :: bool
  sf_temperatureMilliC :: int
  sf_windMilliMps :: int
  sf_observedAtMs :: int

definition valid_safety :: "safety_snapshot \<Rightarrow> bool" where
  "valid_safety s =
     (is_identity (sf_coreId s) \<and> is_identity (sf_homeId s) \<and> is_revision (sf_safetyRevision s) \<and>
      between (- 100000) 100000 (sf_temperatureMilliC s) \<and> between 0 200000 (sf_windMilliMps s) \<and>
      is_timestamp (sf_observedAtMs s))"

record rain_forecast =
  rf_coreId :: string
  rf_homeId :: string
  rf_sourceId :: string
  rf_sourceRevision :: int
  rf_forecastRevision :: int
  rf_generatedAtMs :: int
  rf_validUntilMs :: int
  rf_rainMilliMm :: int

definition valid_rain_forecast :: "rain_forecast \<Rightarrow> bool" where
  "valid_rain_forecast f =
     (is_identity (rf_coreId f) \<and> is_identity (rf_homeId f) \<and> is_identity (rf_sourceId f) \<and>
      is_revision (rf_sourceRevision f) \<and> is_revision (rf_forecastRevision f) \<and>
      is_timestamp (rf_generatedAtMs f) \<and> is_timestamp (rf_validUntilMs f) \<and>
      between 0 10000000 (rf_rainMilliMm f) \<and> \<not> rf_validUntilMs f \<le> rf_generatedAtMs f)"

record water_budget =
  wb_coreId :: string
  wb_homeId :: string
  wb_budgetRevision :: int
  wb_dayStartMs :: int
  wb_dailyLimitMl :: int
  wb_usedMl :: int
  wb_priceMicrosPerLiter :: int

definition valid_budget :: "water_budget \<Rightarrow> bool" where
  "valid_budget b =
     (is_identity (wb_coreId b) \<and> is_identity (wb_homeId b) \<and> is_revision (wb_budgetRevision b) \<and>
      is_timestamp (wb_dayStartMs b) \<and> between 0 10000000000 (wb_dailyLimitMl b) \<and>
      between 0 10000000000 (wb_usedMl b) \<and> between 0 1000000000 (wb_priceMicrosPerLiter b) \<and>
      \<not> wb_usedMl b > wb_dailyLimitMl b)"

record water_override =
  wo_overrideId :: string
  wo_coreId :: string
  wo_homeId :: string
  wo_policyId :: string
  wo_expectedPolicyRevision :: int
  wo_zoneId :: string
  wo_expectedZoneRevision :: int
  wo_actorAccountId :: string
  wo_durationSeconds :: int
  wo_createdAtMs :: int
  wo_expiresAtMs :: int

definition valid_water_override :: "water_override \<Rightarrow> bool" where
  "valid_water_override w =
     (is_identity (wo_overrideId w) \<and> is_identity (wo_coreId w) \<and> is_identity (wo_homeId w) \<and>
      is_identity (wo_policyId w) \<and> is_revision (wo_expectedPolicyRevision w) \<and>
      is_identity (wo_zoneId w) \<and> is_revision (wo_expectedZoneRevision w) \<and>
      is_identity (wo_actorAccountId w) \<and> between 1 7200 (wo_durationSeconds w) \<and>
      is_timestamp (wo_createdAtMs w) \<and> is_timestamp (wo_expiresAtMs w) \<and>
      \<not> (wo_expiresAtMs w \<le> wo_createdAtMs w
          \<or> wo_expiresAtMs w - wo_createdAtMs w > 24 * 60 * 60 * 1000))"

text \<open>The dictionaries of the recorded revisions are association lists in the order of their
  keys, which is the order they are built in.\<close>

record irrigation_revisions =
  gr_policyRevision :: int
  gr_safetyRevision :: int
  gr_forecastRevision :: int
  gr_budgetRevision :: int
  gr_forecastSourceId :: string
  gr_forecastSourceRevision :: int
  gr_soilSensorIds :: "(string \<times> string) list"
  gr_soilSensorRevisions :: "(string \<times> int) list"
  gr_soilReadingRevisions :: "(string \<times> int) list"

definition valid_revisions :: "irrigation_revisions \<Rightarrow> bool" where
  "valid_revisions r =
     (is_revision (gr_policyRevision r) \<and> is_revision (gr_safetyRevision r) \<and>
      is_revision (gr_forecastRevision r) \<and> is_revision (gr_budgetRevision r) \<and>
      is_identity (gr_forecastSourceId r) \<and> is_revision (gr_forecastSourceRevision r) \<and>
      revision_dict is_identity (gr_soilSensorIds r) \<and>
      revision_dict is_revision (gr_soilSensorRevisions r) \<and>
      revision_dict is_revision (gr_soilReadingRevisions r))"

datatype zone_status = Planned | Deferred | Skipped | Blocked

datatype zone_reason =
    MoistureDeficit | WaterOverride | RainForecastDue | MoistureSufficient | BudgetExhausted
  | LeakDetected | FreezeRisk | WindRisk | SafetyStale | SoilSensorStale

record irrigation_item =
  gi_zone :: irrigation_zone
  gi_status :: zone_status
  gi_reason :: zone_reason
  gi_durationSeconds :: int
  gi_estimatedWaterMl :: int

definition valid_irrigation_item :: "irrigation_item \<Rightarrow> bool" where
  "valid_irrigation_item i =
     (valid_zone (gi_zone i) \<and> between 0 7200 (gi_durationSeconds i) \<and>
      between 0 10000000000 (gi_estimatedWaterMl i))"

datatype forecast_status = ForecastAvailable | ForecastStale

record irrigation_plan =
  gl_planId :: string
  gl_coreId :: string
  gl_homeId :: string
  gl_homeRevision :: int
  gl_policyId :: string
  gl_policyRevision :: int
  gl_policyHash :: string
  gl_actorAccountId :: string
  gl_accountRevision :: int
  gl_sessionFamilyId :: string
  gl_generatedAtMs :: int
  gl_forecastStatus :: forecast_status
  gl_inputRevisions :: irrigation_revisions
  gl_items :: "irrigation_item list"
  gl_totalWaterMl :: int
  gl_estimatedCostMicros :: int

definition valid_irrigation_plan :: "irrigation_plan \<Rightarrow> bool" where
  "valid_irrigation_plan p =
     (is_identity (gl_planId p) \<and> is_identity (gl_coreId p) \<and> is_identity (gl_homeId p) \<and>
      is_revision (gl_homeRevision p) \<and> is_identity (gl_policyId p) \<and> is_revision (gl_policyRevision p) \<and>
      is_snapshot (gl_policyHash p) \<and> is_identity (gl_actorAccountId p) \<and>
      is_revision (gl_accountRevision p) \<and> is_identity (gl_sessionFamilyId p) \<and>
      is_timestamp (gl_generatedAtMs p) \<and> valid_revisions (gl_inputRevisions p) \<and>
      1 \<le> length (gl_items p) \<and> length (gl_items p) \<le> 32 \<and>
      list_all valid_irrigation_item (gl_items p) \<and>
      between 0 10000000000 (gl_totalWaterMl p) \<and> between 0 (2 ^ 63 - 1) (gl_estimatedCostMicros p))"

section \<open>The planner\<close>

text \<open>Everything the identifier of a plan is a digest of.\<close>

record irrigation_identity =
  gy_core :: string
  gy_home :: string
  gy_policyHash :: string
  gy_actor :: string
  gy_accountRevision :: int
  gy_at :: int
  gy_inputs :: irrigation_revisions
  gy_soil :: "soil_reading list"
  gy_safety :: safety_snapshot
  gy_forecast :: rain_forecast
  gy_budget :: water_budget
  gy_overrides :: "water_override list"
  gy_items :: "irrigation_item list"

record irrigation_env =
  ge_authority :: "string \<Rightarrow> irrigation_authority lookup"
  ge_policy :: "string \<Rightarrow> irrigation_policy lookup"
  ge_policy_hash :: "irrigation_policy \<Rightarrow> string"
  ge_identity_hash :: "irrigation_identity \<Rightarrow> string"

definition irrigation_admin :: "irrigation_authority \<Rightarrow> bool" where
  "irrigation_admin a = (ga_active a \<and> ga_role a = IAdmin \<and> ga_canManageIrrigation a)"

definition irrigation_authority_of :: "irrigation_env \<Rightarrow> irrigation_authority raw
    \<Rightarrow> irrigation_authority result" where
  "irrigation_authority_of env presented =
     bind_res (resolve_current valid_irrigation_authority (ge_authority env) ga_accountId
                 bad_request forbidden forbidden presented)
       (\<lambda>a. if \<not> irrigation_admin a then Inl forbidden else Inr a)"

definition irrigation_policy_of :: "irrigation_env \<Rightarrow> irrigation_policy raw \<Rightarrow> irrigation_policy result" where
  "irrigation_policy_of env presented =
     bind_res (resolve_current valid_irrigation_policy (ge_policy env) gp_policyId
                 bad_request revision_conflict revision_conflict presented)
       (\<lambda>p. if \<not> gp_active p then Inl forbidden else Inr p)"

record irrigation_inputs =
  gn_soil :: "soil_reading list"
  gn_safety :: safety_snapshot
  gn_forecast :: rain_forecast
  gn_budget :: water_budget
  gn_overrides :: "water_override list"

definition irrigation_inputs_of :: "soil_reading raw list \<Rightarrow> safety_snapshot raw \<Rightarrow> rain_forecast raw
    \<Rightarrow> water_budget raw \<Rightarrow> water_override raw list \<Rightarrow> int \<Rightarrow> irrigation_inputs result" where
  "irrigation_inputs_of rawSoil rawSafety rawForecast rawBudget rawOverrides now =
     (case (validate_all valid_soil rawSoil, model_validate valid_safety rawSafety,
            model_validate valid_rain_forecast rawForecast, model_validate valid_budget rawBudget,
            validate_all valid_water_override rawOverrides) of
        (Some soil, Some safety, Some forecast, Some budget, Some overrides) \<Rightarrow>
          if now < 0 then Inl bad_request
          else Inr \<lparr>gn_soil = soil, gn_safety = safety, gn_forecast = forecast, gn_budget = budget,
                    gn_overrides = overrides\<rparr>
      | _ \<Rightarrow> Inl bad_request)"

text \<open>The scope and revision checks up to the overrides.\<close>

definition check_irrigation_scope :: "irrigation_authority \<Rightarrow> irrigation_policy \<Rightarrow> irrigation_inputs \<Rightarrow> int
    \<Rightarrow> unit result" where
  "check_irrigation_scope authority policy i now =
     (let safety = gn_safety i; forecast = gn_forecast i; budget = gn_budget i; soil = gn_soil i;
          scope = (gp_coreId policy, gp_homeId policy) in
      if scope \<noteq> (ga_coreId authority, ga_homeId authority) then Inl not_found
      else if (sf_coreId safety, sf_homeId safety) \<noteq> scope \<or> (rf_coreId forecast, rf_homeId forecast) \<noteq> scope
              \<or> (wb_coreId budget, wb_homeId budget) \<noteq> scope then Inl not_found
      else if \<not> (wb_dayStartMs budget \<le> now \<and> now < wb_dayStartMs budget + 24 * 60 * 60 * 1000)
      then Inl revision_conflict
      else if \<not> unique_on sm_zoneId soil \<or> sm_zoneId ` set soil \<noteq> zn_zoneId ` set (gp_zones policy)
      then Inl revision_conflict
      else if list_ex (\<lambda>r. case select_key zn_zoneId (sm_zoneId r) (gp_zones policy) of
                None \<Rightarrow> True
              | Some zone \<Rightarrow> (sm_coreId r, sm_homeId r, sm_zoneRevision r)
                  \<noteq> (gp_coreId policy, gp_homeId policy, zn_zoneRevision zone)) soil
      then Inl revision_conflict
      else Inr ())"

text \<open>One turn of the loop over the overrides; \<open>active\<close> is the dictionary of those that are
  in force, by zone, in insertion order.\<close>

definition override_step :: "irrigation_authority \<Rightarrow> irrigation_policy \<Rightarrow> int \<Rightarrow> water_override
    \<Rightarrow> water_override list \<Rightarrow> water_override list result" where
  "override_step authority policy now item active =
     (case select_key zn_zoneId (wo_zoneId item) (gp_zones policy) of
        None \<Rightarrow> Inl revision_conflict
      | Some zone \<Rightarrow>
          if (wo_coreId item, wo_homeId item, wo_policyId item, wo_expectedPolicyRevision item,
              wo_expectedZoneRevision item, wo_actorAccountId item)
             \<noteq> (gp_coreId policy, gp_homeId policy, gp_policyId policy, gp_policyRevision policy,
                zn_zoneRevision zone, ga_accountId authority)
          then Inl revision_conflict
          else if wo_createdAtMs item > now then Inl bad_request
          else if wo_durationSeconds item > zn_maxDurationSeconds zone then Inl bad_request
          else if wo_zoneId item \<in> wo_zoneId ` set active then Inl bad_request
          else if now < wo_expiresAtMs item then Inr (active @ [item])
          else Inr active)"

definition active_overrides :: "irrigation_authority \<Rightarrow> irrigation_policy \<Rightarrow> int \<Rightarrow> water_override list
    \<Rightarrow> water_override list result" where
  "active_overrides authority policy now overrides =
     fold_res (override_step authority policy now) overrides []"

definition safety_reason :: "irrigation_policy \<Rightarrow> safety_snapshot \<Rightarrow> int \<Rightarrow> zone_reason option" where
  "safety_reason policy safety now =
     (if sf_observedAtMs safety > now \<or> now - sf_observedAtMs safety > gp_safetyMaxAgeMs policy
      then Some SafetyStale
      else if sf_leakDetected safety then Some LeakDetected
      else if sf_temperatureMilliC safety \<le> gp_freezeThresholdMilliC policy then Some FreezeRisk
      else if sf_windMilliMps safety \<ge> gp_windLimitMilliMps policy then Some WindRisk
      else None)"

definition forecast_available :: "irrigation_policy \<Rightarrow> rain_forecast \<Rightarrow> int \<Rightarrow> bool" where
  "forecast_available policy forecast now =
     (rf_generatedAtMs forecast \<le> now \<and> now \<le> rf_validUntilMs forecast \<and>
      now - rf_generatedAtMs forecast \<le> gp_forecastMaxAgeMs policy)"

definition soil_stale :: "irrigation_policy \<Rightarrow> soil_reading \<Rightarrow> int \<Rightarrow> bool" where
  "soil_stale policy reading now =
     (sm_observedAtMs reading > now \<or> now - sm_observedAtMs reading > gp_soilMaxAgeMs policy)"

text \<open>What a zone gets before the budget is looked at: reason, status and seconds.\<close>

definition zone_decision :: "irrigation_policy \<Rightarrow> irrigation_inputs \<Rightarrow> water_override list \<Rightarrow> int
    \<Rightarrow> irrigation_zone \<Rightarrow> soil_reading \<Rightarrow> zone_reason \<times> zone_status \<times> int" where
  "zone_decision policy i active now zone reading =
     (case safety_reason policy (gn_safety i) now of
        Some reason \<Rightarrow> (reason, Blocked, 0)
      | None \<Rightarrow>
          if soil_stale policy reading now then (SoilSensorStale, Blocked, 0)
          else case select_key wo_zoneId (zn_zoneId zone) active of
            Some ov \<Rightarrow> (WaterOverride, Planned, wo_durationSeconds ov)
          | None \<Rightarrow>
              if sm_moisturePermille reading \<ge> gp_targetMoisturePermille policy
              then (MoistureSufficient, Skipped, 0)
              else if forecast_available policy (gn_forecast i) now
                   \<and> rf_rainMilliMm (gn_forecast i) \<ge> gp_rainDeferralMilliMm policy
              then (RainForecastDue, Deferred, 0)
              else (MoistureDeficit, Planned,
                    max 1 ((gp_targetMoisturePermille policy - sm_moisturePermille reading)
                             * zn_maxDurationSeconds zone div gp_targetMoisturePermille policy)))"

definition water_for :: "irrigation_zone \<Rightarrow> int \<Rightarrow> int" where
  "water_for zone duration = max 1 (duration * zn_flowMlPerMinute zone div 60)"

text \<open>What the budget leaves of it.\<close>

definition fund_zone :: "irrigation_zone \<Rightarrow> int \<Rightarrow> zone_reason \<times> zone_status \<times> int \<Rightarrow> irrigation_item" where
  "fund_zone zone remaining decision =
     (case decision of (reason, status, duration) \<Rightarrow>
       (let water = (if duration \<noteq> 0 then water_for zone duration else 0);
            affordable = remaining * 60 div zn_flowMlPerMinute zone;
            funded = (if status = Planned \<and> water > remaining
                      then if affordable < 1 then (BudgetExhausted, Skipped, 0, 0)
                           else (reason, status, min duration affordable,
                                 water_for zone (min duration affordable))
                      else (reason, status, duration, water))
        in case funded of (reason, status, duration, water) \<Rightarrow>
          \<lparr>gi_zone = zone, gi_status = status, gi_reason = reason,
           gi_durationSeconds = (if status \<noteq> Planned then 0 else duration),
           gi_estimatedWaterMl = (if status \<noteq> Planned then 0 else water)\<rparr>))"

text \<open>The loop over the zones, with the water that remains of the budget.\<close>

fun plan_zones :: "irrigation_policy \<Rightarrow> irrigation_inputs \<Rightarrow> water_override list \<Rightarrow> int
    \<Rightarrow> irrigation_zone list \<Rightarrow> int \<Rightarrow> irrigation_item list result" where
  "plan_zones policy i active now [] remaining = Inr []"
| "plan_zones policy i active now (zone # zones) remaining =
     (case select_key sm_zoneId (zn_zoneId zone) (gn_soil i) of
        None \<Rightarrow> Inl KeyError
      | Some reading \<Rightarrow>
          (let item = fund_zone zone remaining (zone_decision policy i active now zone reading) in
           bind_res (plan_zones policy i active now zones (remaining - gi_estimatedWaterMl item))
             (\<lambda>items. Inr (item # items))))"

definition irrigation_revisions_of :: "irrigation_policy \<Rightarrow> irrigation_inputs \<Rightarrow> irrigation_revisions" where
  "irrigation_revisions_of policy i =
     (let soil = sort_key sm_zoneId (gn_soil i) in
      \<lparr>gr_policyRevision = gp_policyRevision policy,
       gr_safetyRevision = sf_safetyRevision (gn_safety i),
       gr_forecastRevision = rf_forecastRevision (gn_forecast i),
       gr_budgetRevision = wb_budgetRevision (gn_budget i),
       gr_forecastSourceId = rf_sourceId (gn_forecast i),
       gr_forecastSourceRevision = rf_sourceRevision (gn_forecast i),
       gr_soilSensorIds = map (\<lambda>r. (sm_zoneId r, sm_sensorId r)) soil,
       gr_soilSensorRevisions = map (\<lambda>r. (sm_zoneId r, sm_sensorRevision r)) soil,
       gr_soilReadingRevisions = map (\<lambda>r. (sm_zoneId r, sm_readingRevision r)) soil\<rparr>)"

definition irrigation_plan_build :: "irrigation_env \<Rightarrow> irrigation_authority \<Rightarrow> irrigation_policy
    \<Rightarrow> irrigation_inputs \<Rightarrow> water_override list \<Rightarrow> int \<Rightarrow> irrigation_item list \<Rightarrow> irrigation_plan" where
  "irrigation_plan_build env authority policy i active now items =
     (let revisions = irrigation_revisions_of policy i;
          used = sum_list (map gi_estimatedWaterMl items);
          identity = \<lparr>gy_core = gp_coreId policy, gy_home = gp_homeId policy,
            gy_policyHash = ge_policy_hash env policy, gy_actor = ga_accountId authority,
            gy_accountRevision = ga_accountRevision authority, gy_at = now, gy_inputs = revisions,
            gy_soil = sort_key sm_zoneId (gn_soil i), gy_safety = gn_safety i,
            gy_forecast = gn_forecast i, gy_budget = gn_budget i,
            gy_overrides = sort_key wo_zoneId active, gy_items = items\<rparr>
      in \<lparr>gl_planId = take 32 (ge_identity_hash env identity),
          gl_coreId = gp_coreId policy, gl_homeId = gp_homeId policy,
          gl_homeRevision = ga_homeRevision authority, gl_policyId = gp_policyId policy,
          gl_policyRevision = gp_policyRevision policy, gl_policyHash = ge_policy_hash env policy,
          gl_actorAccountId = ga_accountId authority,
          gl_accountRevision = ga_accountRevision authority,
          gl_sessionFamilyId = ga_sessionFamilyId authority, gl_generatedAtMs = now,
          gl_forecastStatus = (if forecast_available policy (gn_forecast i) now
                               then ForecastAvailable else ForecastStale),
          gl_inputRevisions = revisions, gl_items = items, gl_totalWaterMl = used,
          gl_estimatedCostMicros = used * wb_priceMicrosPerLiter (gn_budget i) div 1000\<rparr>)"

text \<open>\<open>IrrigationPlanner.plan\<close>: the part after the inputs are read, and the whole. The items,
  the revisions and the plan are contracts, whose constructors raise on a field out of range.\<close>

definition irrigation_plan_from :: "irrigation_env \<Rightarrow> irrigation_authority \<Rightarrow> irrigation_policy
    \<Rightarrow> irrigation_inputs \<Rightarrow> int \<Rightarrow> irrigation_plan result" where
  "irrigation_plan_from env authority policy i now =
     bind_res (check_irrigation_scope authority policy i now) (\<lambda>_.
     bind_res (active_overrides authority policy now (gn_overrides i)) (\<lambda>active.
     bind_res (plan_zones policy i active now (sort_key zn_zoneId (gp_zones policy))
                 (wb_dailyLimitMl (gn_budget i) - wb_usedMl (gn_budget i))) (\<lambda>items.
       let plan = irrigation_plan_build env authority policy i active now items in
       if valid_irrigation_plan plan then Inr plan else Inl ValidationError)))"

definition irrigation_plan_of :: "irrigation_env \<Rightarrow> irrigation_authority raw \<Rightarrow> irrigation_policy raw
    \<Rightarrow> soil_reading raw list \<Rightarrow> safety_snapshot raw \<Rightarrow> rain_forecast raw \<Rightarrow> water_budget raw
    \<Rightarrow> int \<Rightarrow> water_override raw list \<Rightarrow> irrigation_plan result" where
  "irrigation_plan_of env rawAuthority rawPolicy rawSoil rawSafety rawForecast rawBudget now rawOverrides =
     bind_res (irrigation_authority_of env rawAuthority) (\<lambda>authority.
     bind_res (irrigation_policy_of env rawPolicy) (\<lambda>policy.
     bind_res (irrigation_inputs_of rawSoil rawSafety rawForecast rawBudget rawOverrides now) (\<lambda>i.
       irrigation_plan_from env authority policy i now)))"


section \<open>Water and safety\<close>

text \<open>What an item of a plan promises: a planned zone runs for a positive time within its own
  limit and takes the water that time costs, any other zone takes none.\<close>

definition item_ok :: "irrigation_item \<Rightarrow> bool" where
  "item_ok it =
     (if gi_status it = Planned
      then between 1 (zn_maxDurationSeconds (gi_zone it)) (gi_durationSeconds it) \<and>
           gi_estimatedWaterMl it = water_for (gi_zone it) (gi_durationSeconds it)
      else gi_durationSeconds it = 0 \<and> gi_estimatedWaterMl it = 0)"

lemma affordable_water:
  assumes "1 \<le> zn_flowMlPerMinute z" and "1 \<le> remaining * 60 div zn_flowMlPerMinute z"
    and "d \<le> remaining * 60 div zn_flowMlPerMinute z"
  shows "water_for z d \<le> remaining"
proof -
  let ?f = "zn_flowMlPerMinute z" and ?a = "remaining * 60 div zn_flowMlPerMinute z"
  have "?a * ?f \<le> remaining * 60" using assms(1) minus_mod_eq_div_mult [of "remaining * 60" ?f] pos_mod_sign [of ?f "remaining * 60"]
    by linarith
  moreover have "d * ?f \<le> ?a * ?f" "1 * ?f \<le> ?a * ?f" using assms by (simp_all add: mult_right_mono)
  ultimately have "d * ?f \<le> remaining * 60" "1 \<le> remaining" using assms(1) by linarith+
  then show ?thesis by (simp add: water_for_def)
qed

lemma fund_zone_ok:
  assumes "valid_zone z" and "0 \<le> remaining"
    and "status = Planned \<Longrightarrow> between 1 (zn_maxDurationSeconds z) duration"
  shows "item_ok (fund_zone z remaining (reason, status, duration))"
    and "between 0 remaining (gi_estimatedWaterMl (fund_zone z remaining (reason, status, duration)))"
    and "gi_zone (fund_zone z remaining (reason, status, duration)) = z"
proof -
  have flow: "1 \<le> zn_flowMlPerMinute z" using assms(1) by (simp add: valid_zone_def)
  have pos: "1 \<le> water_for z d" for d by (simp add: water_for_def)
  note parts = fund_zone_def Let_def item_ok_def
  show "item_ok (fund_zone z remaining (reason, status, duration))"
    using assms(2,3) by (cases "status = Planned") (auto simp: parts)
  show "between 0 remaining (gi_estimatedWaterMl (fund_zone z remaining (reason, status, duration)))"
    using assms(2,3) affordable_water [OF flow] pos order_trans [OF _ pos, of 0]
    by (simp add: parts del: min_less_iff_conj)
  show "gi_zone (fund_zone z remaining (reason, status, duration)) = z" by (simp add: parts)
qed

text \<open>An override in force is one of the presented ones, bound to its zone and the actor.\<close>

definition override_in_force :: "irrigation_authority \<Rightarrow> irrigation_policy \<Rightarrow> int \<Rightarrow> water_override \<Rightarrow> bool" where
  "override_in_force authority policy now ov \<longleftrightarrow>
     now < wo_expiresAtMs ov \<and> wo_createdAtMs ov \<le> now \<and> wo_actorAccountId ov = ga_accountId authority \<and>
     wo_expectedPolicyRevision ov = gp_policyRevision policy \<and>
     (\<exists>z \<in> set (gp_zones policy). zn_zoneId z = wo_zoneId ov \<and> wo_durationSeconds ov \<le> zn_maxDurationSeconds z)"

lemma override_step_Inr:
  assumes "override_step authority policy now item active = Inr active'"
  shows "active' = active \<or>
    (active' = active @ [item] \<and> override_in_force authority policy now item \<and>
     wo_zoneId item \<notin> wo_zoneId ` set active)"
  using assms
  by (auto simp: override_step_def override_in_force_def split: option.splits if_splits
      dest: select_where_Some)

lemma active_overrides_Inr:
  assumes "active_overrides authority policy now overrides = Inr active"
  shows "set active \<subseteq> set overrides" "unique_on wo_zoneId active"
    "\<forall>ov \<in> set active. override_in_force authority policy now ov"
proof -
  have "set active \<subseteq> set overrides \<and> unique_on wo_zoneId active \<and>
      (\<forall>ov \<in> set active. override_in_force authority policy now ov)"
    by (rule fold_res_invariant [OF assms [unfolded active_overrides_def]])
      (auto dest!: override_step_Inr simp: unique_on_append_single)
  then show "set active \<subseteq> set overrides" "unique_on wo_zoneId active"
    "\<forall>ov \<in> set active. override_in_force authority policy now ov" by simp_all
qed

lemma deficit_duration:
  fixes t m d :: int
  assumes "1 \<le> t" and "0 \<le> m" and "m < t" and "1 \<le> d"
  shows "between 1 d (max 1 ((t - m) * d div t))"
proof -
  have "(t - m) * d \<le> t * d" using assms by (simp add: mult_right_mono)
  then have "(t - m) * d div t \<le> t * d div t" using assms(1) by (intro zdiv_mono1) simp_all
  then show ?thesis using assms by simp
qed

lemma zone_decision_planned:
  assumes "valid_irrigation_policy policy" and "zone \<in> set (gp_zones policy)" and "valid_soil reading"
    and "\<forall>ov \<in> set active. override_in_force authority policy now ov \<and> valid_water_override ov"
    and "zone_decision policy i active now zone reading = (reason, Planned, duration)"
  shows "between 1 (zn_maxDurationSeconds zone) duration"
proof -
  have z: "1 \<le> zn_maxDurationSeconds zone" and t: "1 \<le> gp_targetMoisturePermille policy"
    and u: "unique_on zn_zoneId (gp_zones policy)"
    using assms(1,2) by (auto simp: valid_irrigation_policy_def unique_zones_def list_all_iff valid_zone_def)
  show ?thesis
  proof (cases "select_key wo_zoneId (zn_zoneId zone) active")
    case None
    have m: "0 \<le> sm_moisturePermille reading" using assms(3) by (simp add: valid_soil_def)
    show ?thesis
      using assms(5) None deficit_duration [OF t m _ z]
      by (auto simp: zone_decision_def split: option.splits if_splits)
  next
    case (Some ov)
    then have ov: "ov \<in> set active" "wo_zoneId ov = zn_zoneId zone" using select_where_Some by fastforce+
    then have "wo_durationSeconds ov \<le> zn_maxDurationSeconds zone"
      using assms(2,4) unique_on_inj [OF u] by (fastforce simp: override_in_force_def)
    moreover have "1 \<le> wo_durationSeconds ov" using assms(4) ov(1) by (auto simp: valid_water_override_def)
    ultimately show ?thesis
      using assms(5) Some by (auto simp: zone_decision_def split: option.splits if_splits)
  qed
qed

lemma plan_zones_ok:
  assumes "valid_irrigation_policy policy" and "set zones \<subseteq> set (gp_zones policy)"
    and "list_all valid_soil (gn_soil i)"
    and "\<forall>ov \<in> set active. override_in_force authority policy now ov \<and> valid_water_override ov"
    and "0 \<le> remaining" and "plan_zones policy i active now zones remaining = Inr items"
  shows "map gi_zone items = zones \<and> list_all item_ok items \<and>
    (\<forall>it \<in> set items. 0 \<le> gi_estimatedWaterMl it) \<and> sum_list (map gi_estimatedWaterMl items) \<le> remaining"
  using assms(2,5,6)
proof (induction zones arbitrary: remaining items)
  case (Cons zone zones)
  obtain reading where r: "select_key sm_zoneId (zn_zoneId zone) (gn_soil i) = Some reading"
    using Cons.prems(3) by (auto split: option.splits)
  obtain reason status duration where d:
    "zone_decision policy i active now zone reading = (reason, status, duration)"
    by (cases "zone_decision policy i active now zone reading") auto
  define it where "it = fund_zone zone remaining (reason, status, duration)"
  obtain rest where rest: "plan_zones policy i active now zones (remaining - gi_estimatedWaterMl it) = Inr rest"
    "items = it # rest"
    using Cons.prems(3) r d by (auto simp: it_def Let_def bind_res_Inr_iff)
  have z: "valid_zone zone" using assms(1) Cons.prems(1) by (auto simp: valid_irrigation_policy_def list_all_iff)
  have s: "valid_soil reading" using assms(3) select_where_Some [OF r] by (auto simp: list_all_iff)
  have planned: "status = Planned \<Longrightarrow> between 1 (zn_maxDurationSeconds zone) duration"
    using zone_decision_planned [OF assms(1) _ s assms(4), of zone i reason duration] Cons.prems(1) d by auto
  note it = fund_zone_ok [OF z Cons.prems(2), of status duration reason, OF planned, folded it_def]
  have "map gi_zone rest = zones \<and> list_all item_ok rest \<and> (\<forall>it \<in> set rest. 0 \<le> gi_estimatedWaterMl it) \<and>
      sum_list (map gi_estimatedWaterMl rest) \<le> remaining - gi_estimatedWaterMl it"
    using Cons.IH [OF _ _ rest(1)] Cons.prems(1) it(2) by simp
  with it rest(2) show ?case by simp
qed simp


lemma irrigation_inputs_of_Inr:
  "irrigation_inputs_of rawSoil rawSafety rawForecast rawBudget rawOverrides now = Inr i \<longleftrightarrow>
     rawSoil = map Some (gn_soil i) \<and> list_all valid_soil (gn_soil i) \<and>
     rawSafety = Some (gn_safety i) \<and> valid_safety (gn_safety i) \<and>
     rawForecast = Some (gn_forecast i) \<and> valid_rain_forecast (gn_forecast i) \<and>
     rawBudget = Some (gn_budget i) \<and> valid_budget (gn_budget i) \<and>
     rawOverrides = map Some (gn_overrides i) \<and> list_all valid_water_override (gn_overrides i) \<and> 0 \<le> now"
proof -
  have "irrigation_inputs_of rawSoil rawSafety rawForecast rawBudget rawOverrides now = Inr i \<longleftrightarrow>
     validate_all valid_soil rawSoil = Some (gn_soil i) \<and>
     model_validate valid_safety rawSafety = Some (gn_safety i) \<and>
     model_validate valid_rain_forecast rawForecast = Some (gn_forecast i) \<and>
     model_validate valid_budget rawBudget = Some (gn_budget i) \<and>
     validate_all valid_water_override rawOverrides = Some (gn_overrides i) \<and> 0 \<le> now"
    by (cases i) (auto simp: irrigation_inputs_of_def simp del: model_validate_Some_iff split: option.splits)
  then show ?thesis by (auto simp: validate_all_Some_iff)
qed

lemma irrigation_policy_of_Inr:
  "irrigation_policy_of env raw = Inr policy \<longleftrightarrow>
     raw = Some policy \<and> valid_irrigation_policy policy \<and> ge_policy env (gp_policyId policy) = Found (Some policy) \<and>
     gp_active policy"
  by (auto simp: irrigation_policy_of_def bind_res_Inr_iff resolve_current_Inr_iff)

lemma irrigation_authority_of_Inr:
  "irrigation_authority_of env raw = Inr a \<longleftrightarrow>
     raw = Some a \<and> valid_irrigation_authority a \<and> ge_authority env (ga_accountId a) = Found (Some a) \<and>
     irrigation_admin a"
  by (auto simp: irrigation_authority_of_def bind_res_Inr_iff resolve_current_Inr_iff)

text \<open>The parts of an accepted call.\<close>

lemma irrigation_plan_of_Inr:
  assumes "irrigation_plan_of env rawAuthority rawPolicy rawSoil rawSafety rawForecast rawBudget now rawOverrides
    = Inr plan"
  obtains authority policy i active items where
    "irrigation_authority_of env rawAuthority = Inr authority" "irrigation_policy_of env rawPolicy = Inr policy"
    "irrigation_inputs_of rawSoil rawSafety rawForecast rawBudget rawOverrides now = Inr i"
    "check_irrigation_scope authority policy i now = Inr ()"
    "active_overrides authority policy now (gn_overrides i) = Inr active"
    "plan_zones policy i active now (sort_key zn_zoneId (gp_zones policy))
       (wb_dailyLimitMl (gn_budget i) - wb_usedMl (gn_budget i)) = Inr items"
    "plan = irrigation_plan_build env authority policy i active now items" "valid_irrigation_plan plan"
  using assms
  by (auto simp: irrigation_plan_of_def irrigation_plan_from_def bind_res_Inr_iff Let_def split: if_splits)

lemma irrigation_plan_items_ok:
  assumes "irrigation_policy_of env rawPolicy = Inr policy"
    and "irrigation_inputs_of rawSoil rawSafety rawForecast rawBudget rawOverrides now = Inr i"
    and "active_overrides authority policy now (gn_overrides i) = Inr active"
    and "plan_zones policy i active now (sort_key zn_zoneId (gp_zones policy))
       (wb_dailyLimitMl (gn_budget i) - wb_usedMl (gn_budget i)) = Inr items"
  shows "map gi_zone items = sort_key zn_zoneId (gp_zones policy)" "list_all item_ok items"
    "\<forall>it \<in> set items. 0 \<le> gi_estimatedWaterMl it"
    "wb_usedMl (gn_budget i) + sum_list (map gi_estimatedWaterMl items) \<le> wb_dailyLimitMl (gn_budget i)"
proof -
  have p: "valid_irrigation_policy policy" using assms(1) by (simp add: irrigation_policy_of_Inr)
  note i = assms(2) [unfolded irrigation_inputs_of_Inr]
  have ov: "\<forall>ov \<in> set active. override_in_force authority policy now ov \<and> valid_water_override ov"
    using active_overrides_Inr [OF assms(3)] i by (auto simp: list_all_iff)
  have b: "0 \<le> wb_dailyLimitMl (gn_budget i) - wb_usedMl (gn_budget i)" using i by (simp add: valid_budget_def)
  have s: "list_all valid_soil (gn_soil i)" using i by simp
  have "set (sort_key zn_zoneId (gp_zones policy)) \<subseteq> set (gp_zones policy)" by simp
  note ok = plan_zones_ok [OF p this s ov b assms(4)]
  show "map gi_zone items = sort_key zn_zoneId (gp_zones policy)" "list_all item_ok items"
    "\<forall>it \<in> set items. 0 \<le> gi_estimatedWaterMl it"
    "wb_usedMl (gn_budget i) + sum_list (map gi_estimatedWaterMl items) \<le> wb_dailyLimitMl (gn_budget i)"
    using ok by auto
qed

lemma sorted_zones_distinct:
  assumes "map gi_zone items = sort_key zn_zoneId zones" and "unique_on zn_zoneId zones"
  shows "distinct (map (zn_zoneId \<circ> gi_zone) items)"
proof -
  have "map (zn_zoneId \<circ> gi_zone) items = map zn_zoneId (sort_key zn_zoneId zones)"
    using assms(1) by (metis map_map)
  then show ?thesis using assms(2) unique_on_sort_key [of zn_zoneId zn_zoneId zones] by (simp add: unique_on_def)
qed

text \<open>C10: An irrigation plan never spends more water than the day's budget has left, and lists
  every zone of the policy exactly once, in the order of the zone identifiers; a planned zone runs for
  at least one second and at most its own limit, with the water that time costs at the zone's flow;
  every other zone gets no time and no water; the plan's total is the sum over its zones, and its cost
  that total at the budget's price per litre, rounded down.\<close>

theorem irrigation_within_budget:
  assumes "irrigation_plan_of env rawAuthority (Some policy) rawSoil rawSafety rawForecast (Some budget) now
    rawOverrides = Inr plan"
  shows "wb_usedMl budget + gl_totalWaterMl plan \<le> wb_dailyLimitMl budget \<and> 0 \<le> gl_totalWaterMl plan \<and>
    gl_totalWaterMl plan = (\<Sum>it\<leftarrow>gl_items plan. gi_estimatedWaterMl it) \<and>
    gl_estimatedCostMicros plan = gl_totalWaterMl plan * wb_priceMicrosPerLiter budget div 1000 \<and>
    map gi_zone (gl_items plan) = sort_key zn_zoneId (gp_zones policy) \<and>
    distinct (map (zn_zoneId \<circ> gi_zone) (gl_items plan)) \<and>
    list_all item_ok (gl_items plan)"
proof -
  obtain authority policy' i active items where run: "irrigation_policy_of env (Some policy) = Inr policy'"
    "irrigation_inputs_of rawSoil rawSafety rawForecast (Some budget) rawOverrides now = Inr i"
    "active_overrides authority policy' now (gn_overrides i) = Inr active"
    "plan_zones policy' i active now (sort_key zn_zoneId (gp_zones policy'))
       (wb_dailyLimitMl (gn_budget i) - wb_usedMl (gn_budget i)) = Inr items"
    "plan = irrigation_plan_build env authority policy' i active now items"
    by (rule irrigation_plan_of_Inr [OF assms])
  have same: "policy' = policy" "gn_budget i = budget" and u: "unique_on zn_zoneId (gp_zones policy)"
    using run(1,2) by (auto simp: irrigation_policy_of_Inr irrigation_inputs_of_Inr
        valid_irrigation_policy_def unique_zones_def)
  note ok = irrigation_plan_items_ok [OF run(1-4), unfolded same]
  have "distinct (map (zn_zoneId \<circ> gi_zone) items)" by (rule sorted_zones_distinct [OF ok(1) u])
  moreover have "0 \<le> sum_list (map gi_estimatedWaterMl items)" using ok(3) by (intro sum_list_nonneg) auto
  ultimately show ?thesis using ok run(5) same by (simp add: irrigation_plan_build_def Let_def)
qed


text \<open>The safety gates, without the order they are tried in.\<close>

definition safety_hazard :: "irrigation_policy \<Rightarrow> safety_snapshot \<Rightarrow> int \<Rightarrow> bool" where
  "safety_hazard policy safety now =
     (now < sf_observedAtMs safety \<or> sf_observedAtMs safety + gp_safetyMaxAgeMs policy < now \<or>
      sf_leakDetected safety \<or> sf_temperatureMilliC safety \<le> gp_freezeThresholdMilliC policy \<or>
      gp_windLimitMilliMps policy \<le> sf_windMilliMps safety)"

lemma safety_reason_hazard: "safety_hazard policy safety now \<longleftrightarrow> safety_reason policy safety now \<noteq> None"
  by (auto simp: safety_hazard_def safety_reason_def)

lemma plan_zones_member:
  assumes "plan_zones policy i active now zones remaining = Inr items" and "it \<in> set items"
  shows "\<exists>zone reading rest. zone \<in> set zones \<and> select_key sm_zoneId (zn_zoneId zone) (gn_soil i) = Some reading \<and>
    it = fund_zone zone rest (zone_decision policy i active now zone reading)"
  using assms
  by (induction zones arbitrary: remaining items)
    (fastforce simp: Let_def bind_res_Inr_iff split: option.splits)+

lemma fund_zone_status:
  "gi_status (fund_zone z rest (reason, status, d)) = (if status = Planned then gi_status (fund_zone z rest (reason, Planned, d)) else status)"
  "gi_zone (fund_zone z rest (reason, status, d)) = z"
  by (auto simp: fund_zone_def Let_def)

definition zone_due :: "irrigation_policy \<Rightarrow> rain_forecast \<Rightarrow> int \<Rightarrow> soil_reading \<Rightarrow> bool" where
  "zone_due policy forecast now reading =
     (sm_moisturePermille reading < gp_targetMoisturePermille policy \<and>
      \<not> (forecast_available policy forecast now \<and> gp_rainDeferralMilliMm policy \<le> rf_rainMilliMm forecast))"

lemma zone_decision_safe:
  assumes "zone_decision policy i active now zone reading = (reason, status, d)"
  shows "safety_hazard policy (gn_safety i) now \<Longrightarrow> status = Blocked"
    and "status = Planned \<Longrightarrow> \<not> safety_hazard policy (gn_safety i) now \<and> \<not> soil_stale policy reading now \<and>
      ((\<exists>ov \<in> set active. wo_zoneId ov = zn_zoneId zone) \<or> zone_due policy (gn_forecast i) now reading)"
  using assms
  by (auto simp: zone_decision_def safety_reason_hazard zone_due_def split: option.splits if_splits
      dest: select_where_Some)

text \<open>C11: Water flows only when it is safe and wanted. Whatever the overrides say, while the safety
  snapshot is stale or from the future, a leak is reported, it is at or below the freeze threshold or
  the wind is at or above its limit, every zone of the plan is blocked. A planned zone has a fresh soil
  reading, and either an override in force, which the acting administrator made for this zone and policy
  revision, or a moisture below the target with no usable forecast of enough rain.\<close>

theorem irrigation_only_when_safe:
  assumes "irrigation_plan_of env (Some authority) (Some policy) rawSoil (Some safety) (Some forecast) rawBudget
    now rawOverrides = Inr plan" and "it \<in> set (gl_items plan)"
  shows "(safety_hazard policy safety now \<longrightarrow> gi_status it = Blocked) \<and>
    (gi_status it = Planned \<longrightarrow>
      (\<exists>reading. Some reading \<in> set rawSoil \<and> sm_zoneId reading = zn_zoneId (gi_zone it) \<and>
         \<not> soil_stale policy reading now \<and>
         (zone_due policy forecast now reading \<or>
          (\<exists>ov. Some ov \<in> set rawOverrides \<and> wo_zoneId ov = zn_zoneId (gi_zone it) \<and>
             override_in_force authority policy now ov))))"
proof -
  obtain authority' policy' i active items where run: "irrigation_authority_of env (Some authority) = Inr authority'"
    "irrigation_policy_of env (Some policy) = Inr policy'"
    "irrigation_inputs_of rawSoil (Some safety) (Some forecast) rawBudget rawOverrides now = Inr i"
    "active_overrides authority' policy' now (gn_overrides i) = Inr active"
    "plan_zones policy' i active now (sort_key zn_zoneId (gp_zones policy'))
       (wb_dailyLimitMl (gn_budget i) - wb_usedMl (gn_budget i)) = Inr items"
    "plan = irrigation_plan_build env authority' policy' i active now items"
    by (rule irrigation_plan_of_Inr [OF assms(1)])
  have same: "policy' = policy" "authority' = authority" "gn_safety i = safety" "gn_forecast i = forecast"
    "rawSoil = map Some (gn_soil i)" "rawOverrides = map Some (gn_overrides i)"
    using run(1-3) by (simp_all add: irrigation_policy_of_Inr irrigation_authority_of_Inr irrigation_inputs_of_Inr)
  have "it \<in> set items" using assms(2) run(6) by (simp add: irrigation_plan_build_def Let_def)
  then obtain zone reading rest where z: "select_key sm_zoneId (zn_zoneId zone) (gn_soil i) = Some reading"
    "it = fund_zone zone rest (zone_decision policy i active now zone reading)"
    using plan_zones_member [OF run(5)] same by blast
  obtain reason status d where dec: "zone_decision policy i active now zone reading = (reason, status, d)"
    by (cases "zone_decision policy i active now zone reading") auto
  note st = fund_zone_status [of zone rest reason status d, folded dec, folded z(2)]
  note safe = zone_decision_safe [OF dec, unfolded same]
  have r: "reading \<in> set (gn_soil i)" "sm_zoneId reading = zn_zoneId zone" using select_where_Some [OF z(1)] by auto
  have "safety_hazard policy safety now \<longrightarrow> gi_status it = Blocked" using st(1) safe(1) by auto
  moreover have "status = Planned" if "gi_status it = Planned" using that st(1) by (simp split: if_splits)
  moreover have "\<exists>ov. ov \<in> set (gn_overrides i) \<and> wo_zoneId ov = zn_zoneId zone \<and> override_in_force authority policy now ov"
    if "\<exists>ov \<in> set active. wo_zoneId ov = zn_zoneId zone"
    using that active_overrides_Inr [OF run(4)] same by blast
  ultimately show ?thesis using safe(2) r st(2) same(5,6) by fastforce
qed


section \<open>Totality and independence of the input order\<close>

lemma plan_zones_total:
  assumes "zn_zoneId ` set zones \<subseteq> sm_zoneId ` set (gn_soil i)"
  shows "\<exists>items. plan_zones policy i active now zones remaining = Inr items"
  using assms
proof (induction zones arbitrary: remaining)
  case (Cons zone zones)
  obtain reading where r: "select_key sm_zoneId (zn_zoneId zone) (gn_soil i) = Some reading"
    using Cons.prems by (cases "select_key sm_zoneId (zn_zoneId zone) (gn_soil i)") (auto simp: select_where_None_iff)
  have "zn_zoneId ` set zones \<subseteq> sm_zoneId ` set (gn_soil i)" using Cons.prems by simp
  note rest = Cons.IH [OF this, of "remaining - gi_estimatedWaterMl (fund_zone zone remaining
    (zone_decision policy i active now zone reading))"]
  then show ?case using r by (auto simp: Let_def bind_res_Inr_iff)
qed simp

lemma scope_ok_soil:
  assumes "check_irrigation_scope authority policy i now = Inr ()"
  shows "unique_on sm_zoneId (gn_soil i)" "sm_zoneId ` set (gn_soil i) = zn_zoneId ` set (gp_zones policy)"
  using assms by (simp_all add: check_irrigation_scope_def Let_def if_Inl_eq_Inr del: if_split)

lemma irrigation_revisions_valid:
  assumes "valid_irrigation_policy policy" and "list_all valid_soil (gn_soil i)" "valid_safety (gn_safety i)"
    "valid_rain_forecast (gn_forecast i)" "valid_budget (gn_budget i)"
    and "length (gn_soil i) = length (gp_zones policy)"
  shows "valid_revisions (irrigation_revisions_of policy i)"
proof -
  have n: "1 \<le> length (sort_key sm_zoneId (gn_soil i))" "length (sort_key sm_zoneId (gn_soil i)) \<le> 32"
    using assms(1,6) by (simp_all add: valid_irrigation_policy_def)
  have s: "\<forall>r \<in> set (sort_key sm_zoneId (gn_soil i)). valid_soil r" using assms(2) by (simp add: list_all_iff)
  show ?thesis
    using assms(1,3-5) s
    by (auto simp: irrigation_revisions_of_def Let_def valid_revisions_def valid_irrigation_policy_def
        valid_safety_def valid_rain_forecast_def valid_budget_def valid_soil_def intro!: revision_dict_map [OF n])
qed

lemma item_ok_valid:
  assumes "item_ok it" and "valid_zone (gi_zone it)" and "between 0 10000000000 (gi_estimatedWaterMl it)"
  shows "valid_irrigation_item it"
  using assms by (auto simp: item_ok_def valid_irrigation_item_def valid_zone_def split: if_splits)

lemma cost_bound:
  fixes w p :: int
  assumes "between 0 10000000000 w" and "between 0 1000000000 p"
  shows "between 0 (2 ^ 63 - 1) (w * p div 1000)"
proof -
  have "w * p \<le> 10000000000 * 1000000000" using assms by (intro mult_mono) auto
  then have "w * p div 1000 \<le> 10000000000 * 1000000000 div 1000" by (intro zdiv_mono1) auto
  moreover have "0 \<le> w * p div 1000" using assms by (simp add: pos_imp_zdiv_nonneg_iff)
  ultimately show ?thesis by simp
qed

text \<open>What the digests have to look like: 64 lower-case hexadecimal digits, as
  \<open>hashlib.sha256(\<dots>).hexdigest()\<close> does.\<close>

definition hex_digests :: "irrigation_env \<Rightarrow> bool" where
  "hex_digests env \<longleftrightarrow>
     (\<forall>p. is_snapshot (ge_policy_hash env p)) \<and> (\<forall>y. is_snapshot (ge_identity_hash env y))"

lemma irrigation_plan_build_valid:
  assumes "hex_digests env" and "now \<le> 2 ^ 63 - 1"
    and "irrigation_authority_of env rawAuthority = Inr authority" "irrigation_policy_of env rawPolicy = Inr policy"
    "irrigation_inputs_of rawSoil rawSafety rawForecast rawBudget rawOverrides now = Inr i"
    "check_irrigation_scope authority policy i now = Inr ()"
    "active_overrides authority policy now (gn_overrides i) = Inr active"
    "plan_zones policy i active now (sort_key zn_zoneId (gp_zones policy))
       (wb_dailyLimitMl (gn_budget i) - wb_usedMl (gn_budget i)) = Inr items"
  shows "valid_irrigation_plan (irrigation_plan_build env authority policy i active now items)"
proof -
  note ok = irrigation_plan_items_ok [OF assms(4,5,7,8)]
  have p: "valid_irrigation_policy policy" and a: "valid_irrigation_authority authority"
    using assms(3,4) by (simp_all add: irrigation_policy_of_Inr irrigation_authority_of_Inr)
  have v: "list_all valid_soil (gn_soil i)" "valid_safety (gn_safety i)" "valid_rain_forecast (gn_forecast i)"
    "valid_budget (gn_budget i)" "0 \<le> now" using assms(5) by (simp_all add: irrigation_inputs_of_Inr)
  have "length (gn_soil i) = length (gp_zones policy)"
    using unique_same_keys_length [OF scope_ok_soil(1) [OF assms(6)] _ scope_ok_soil(2) [OF assms(6)]] p
    by (simp add: valid_irrigation_policy_def unique_zones_def)
  note rv = irrigation_revisions_valid [OF p v(1-4) this]
  let ?used = "sum_list (map gi_estimatedWaterMl items)"
  have used: "between 0 10000000000 ?used"
    using ok(3,4) v(4) by (auto simp: valid_budget_def intro!: sum_list_nonneg)
  have item: "valid_irrigation_item it" if "it \<in> set items" for it
  proof (rule item_ok_valid)
    show "item_ok it" using ok(2) that by (simp add: list_all_iff)
    have "gi_zone it \<in> set (gp_zones policy)" using ok(1) that by (metis image_eqI set_map set_sort)
    then show "valid_zone (gi_zone it)" using p by (simp add: valid_irrigation_policy_def list_all_iff)
    have "gi_estimatedWaterMl it \<le> ?used" using ok(3) that by (intro member_le_sum_list) auto
    then show "between 0 10000000000 (gi_estimatedWaterMl it)" using ok(3) that used by simp
  qed
  have len: "length items = length (gp_zones policy)" using ok(1) by (metis length_map length_sort)
  have price: "between 0 1000000000 (wb_priceMicrosPerLiter (gn_budget i))" using v(4) by (simp add: valid_budget_def)
  show ?thesis
    using p a rv used item len cost_bound [OF used price] assms(1,2) v(5)
    by (simp add: irrigation_plan_build_def Let_def valid_irrigation_plan_def valid_irrigation_policy_def
        valid_irrigation_authority_def hex_digests_def take_snapshot is_timestamp_def list_all_iff)
qed

text \<open>The errors of the planner.\<close>

abbreviation irrigation_errors :: "error set" where
  "irrigation_errors \<equiv> {bad_request, forbidden, not_found, revision_conflict}"

lemma irrigation_admission_errors:
  "irrigation_authority_of env rawAuthority = Inl e \<Longrightarrow> e \<in> irrigation_errors"
  "irrigation_policy_of env rawPolicy = Inl e \<Longrightarrow> e \<in> irrigation_errors"
  "irrigation_inputs_of rawSoil rawSafety rawForecast rawBudget rawOverrides now = Inl e \<Longrightarrow> e \<in> irrigation_errors"
  "check_irrigation_scope authority policy i now = Inl e \<Longrightarrow> e \<in> irrigation_errors"
  by (auto simp: irrigation_authority_of_def irrigation_policy_of_def resolve_current_def bind_res_Inl_iff
      split: option.splits lookup.splits if_splits)
    (auto simp: irrigation_inputs_of_def check_irrigation_scope_def Let_def split: option.splits if_splits)

lemma active_overrides_errors:
  assumes "active_overrides authority policy now ovs = Inl e"
  shows "e \<in> irrigation_errors"
proof -
  obtain item active where "override_step authority policy now item active = Inl e"
    using fold_res_error [OF assms [unfolded active_overrides_def]] by (elim exE conjE)
  then show ?thesis by (auto simp: override_step_def split: option.splits if_splits)
qed

lemma irrigation_plan_from_errors:
  assumes "hex_digests env" and "now \<le> 2 ^ 63 - 1"
    and 1: "irrigation_authority_of env rawAuthority = Inr authority" and 2: "irrigation_policy_of env rawPolicy = Inr policy"
    and 3: "irrigation_inputs_of rawSoil rawSafety rawForecast rawBudget rawOverrides now = Inr i"
    and failed: "irrigation_plan_from env authority policy i now = Inl e"
  shows "e \<in> irrigation_errors"
proof (rule ccontr)
  assume ne: "e \<notin> irrigation_errors"
  have 4: "check_irrigation_scope authority policy i now = Inr ()"
    using failed ne irrigation_admission_errors(4) [of authority policy i now]
    by (cases "check_irrigation_scope authority policy i now") (simp_all add: irrigation_plan_from_def)
  obtain active where 5: "active_overrides authority policy now (gn_overrides i) = Inr active"
    using failed ne active_overrides_errors [of authority policy now "gn_overrides i"] 4
    by (cases "active_overrides authority policy now (gn_overrides i)") (simp_all add: irrigation_plan_from_def)
  obtain items where 6: "plan_zones policy i active now (sort_key zn_zoneId (gp_zones policy))
     (wb_dailyLimitMl (gn_budget i) - wb_usedMl (gn_budget i)) = Inr items"
    using plan_zones_total [of "sort_key zn_zoneId (gp_zones policy)" i policy active now] scope_ok_soil(2) [OF 4]
    by (metis order_refl set_sort)
  show False
    using failed 4 5 6 irrigation_plan_build_valid [OF assms(1,2) 1 2 3 4 5 6] by (simp add: irrigation_plan_from_def)
qed

text \<open>C31: The planner answers every call with a plan or an error of the API: no lookup fails and
  no contract of its own output is violated, up to the last representable time stamp.\<close>

theorem irrigation_plan_never_crashes:
  assumes "hex_digests env" and "now \<le> 2 ^ 63 - 1"
  shows "case irrigation_plan_of env rawAuthority rawPolicy rawSoil rawSafety rawForecast rawBudget now rawOverrides of
     Inl e \<Rightarrow> e \<in> {bad_request, forbidden, not_found, revision_conflict}
   | Inr plan \<Rightarrow> valid_irrigation_plan plan"
proof (cases "irrigation_plan_of env rawAuthority rawPolicy rawSoil rawSafety rawForecast rawBudget now rawOverrides")
  case (Inr plan)
  then show ?thesis using irrigation_plan_of_Inr [OF Inr, of "valid_irrigation_plan plan"] by simp
next
  case (Inl e)
  then consider "irrigation_authority_of env rawAuthority = Inl e" | "irrigation_policy_of env rawPolicy = Inl e"
    | "irrigation_inputs_of rawSoil rawSafety rawForecast rawBudget rawOverrides now = Inl e"
    | authority policy i where "irrigation_authority_of env rawAuthority = Inr authority"
        "irrigation_policy_of env rawPolicy = Inr policy"
        "irrigation_inputs_of rawSoil rawSafety rawForecast rawBudget rawOverrides now = Inr i"
        "irrigation_plan_from env authority policy i now = Inl e"
    by (auto simp: irrigation_plan_of_def bind_res_Inl_iff)
  then have "e \<in> irrigation_errors"
    by cases (fact irrigation_admission_errors irrigation_plan_from_errors [OF assms])+
  then show ?thesis by (simp add: Inl)
qed


text \<open>Lists that hold the same elements in another order.\<close>

lemma validate_all_eq:
  "validate_all valid rs = (if \<forall>r \<in> set rs. r \<noteq> None \<and> valid (the r) then Some (map the rs) else None)"
  by (induction rs) (auto simp: model_validate_def split: option.splits)

lemma unique_on_mset: "mset xs = mset ys \<Longrightarrow> unique_on f xs = unique_on f ys"
  by (metis mset_eq_imp_distinct_iff mset_map unique_on_def)

lemma sort_key_mset:
  assumes "mset xs = mset ys" and "unique_on f xs"
  shows "sort_key f xs = sort_key f ys"
proof (rule sort_key_inj_key_eq)
  show "mset xs = mset (sort_key f ys)" using assms(1) by simp
  show "inj_on f (set xs)" using assms(2) by (simp add: unique_on_def distinct_map)
qed simp

lemma select_key_mset:
  assumes "mset xs = mset ys" and "unique_on f xs"
  shows "select_key f k xs = select_key f k ys"
proof -
  have "set xs = set ys" "unique_on f ys" using assms mset_eq_setD unique_on_mset by blast+
  then have "\<forall>r. (select_key f k xs = Some r) = (select_key f k ys = Some r)"
    using select_key_iff [OF assms(2), of k] select_key_iff [of f ys k] by simp
  then show ?thesis by (metis option.exhaust)
qed

lemma plan_zones_soil:
  assumes "mset (gn_soil i) = mset soil" and "unique_on sm_zoneId (gn_soil i)"
  shows "plan_zones policy (i\<lparr>gn_soil := soil\<rparr>) active now zones remaining =
    plan_zones policy i active now zones remaining"
proof (induction zones arbitrary: remaining)
  case (Cons zone zones)
  have "select_key sm_zoneId (zn_zoneId zone) soil = select_key sm_zoneId (zn_zoneId zone) (gn_soil i)"
    using select_key_mset [OF assms] by simp
  moreover have f: "gn_forecast (i\<lparr>gn_soil := soil\<rparr>) = gn_forecast i" "gn_safety (i\<lparr>gn_soil := soil\<rparr>) = gn_safety i"
    by simp_all
  have "zone_decision policy (i\<lparr>gn_soil := soil\<rparr>) active now zone reading =
      zone_decision policy i active now zone reading" for reading
    unfolding zone_decision_def f by (rule refl)
  ultimately show ?case by (simp add: Cons.IH Let_def split: option.split)
qed simp

lemma irrigation_plan_from_soil:
  assumes "mset (gn_soil i) = mset soil"
  shows "irrigation_plan_from env authority policy (i\<lparr>gn_soil := soil\<rparr>) now =
    irrigation_plan_from env authority policy i now"
proof -
  have s: "set soil = set (gn_soil i)" "unique_on sm_zoneId soil = unique_on sm_zoneId (gn_soil i)"
    using assms mset_eq_setD [OF assms] unique_on_mset [OF assms, of sm_zoneId] by simp_all
  have scope: "check_irrigation_scope authority policy (i\<lparr>gn_soil := soil\<rparr>) now =
      check_irrigation_scope authority policy i now"
    by (simp add: check_irrigation_scope_def Let_def s list_ex_iff)
  show ?thesis
  proof (cases "check_irrigation_scope authority policy i now")
    case (Inr x)
    then have u: "unique_on sm_zoneId (gn_soil i)" using scope_ok_soil(1) by simp
    have "irrigation_plan_build env authority policy (i\<lparr>gn_soil := soil\<rparr>) active now items =
        irrigation_plan_build env authority policy i active now items" for active items
      by (simp add: irrigation_plan_build_def irrigation_revisions_of_def Let_def
          sort_key_mset [OF assms u, symmetric])
    with scope plan_zones_soil [OF assms u] show ?thesis by (simp add: irrigation_plan_from_def)
  qed (simp add: irrigation_plan_from_def scope)
qed

text \<open>The order in which the soil readings arrive changes nothing: a call with the same
  readings in another order has the same result, the identifier of the plan and every error included.\<close>

theorem irrigation_plan_soil_order:
  assumes "mset rawSoil = mset rawSoil'"
  shows "irrigation_plan_of env rawAuthority rawPolicy rawSoil rawSafety rawForecast rawBudget now rawOverrides =
    irrigation_plan_of env rawAuthority rawPolicy rawSoil' rawSafety rawForecast rawBudget now rawOverrides"
proof -
  let ?in = "\<lambda>soil. irrigation_inputs_of soil rawSafety rawForecast rawBudget rawOverrides now"
  have perm: "mset (map the rawSoil) = mset (map the rawSoil')" "set rawSoil' = set rawSoil"
    using assms mset_eq_setD by (metis mset_map, metis)
  have some: "validate_all valid_soil rawSoil' = map_option (\<lambda>_. map the rawSoil') (validate_all valid_soil rawSoil)"
    "soil = map the rawSoil" if "validate_all valid_soil rawSoil = Some soil" for soil
    using that perm(2) by (simp_all add: validate_all_eq split: if_splits)
  have "(\<exists>i soil. ?in rawSoil = Inr i \<and> mset (gn_soil i) = mset soil \<and> ?in rawSoil' = Inr (i\<lparr>gn_soil := soil\<rparr>))
      \<or> ?in rawSoil = Inl bad_request \<and> ?in rawSoil' = Inl bad_request"
  proof (cases "validate_all valid_soil rawSoil")
    case None
    then have "validate_all valid_soil rawSoil' = None" using perm(2) by (simp add: validate_all_eq split: if_splits)
    with None show ?thesis by (simp add: irrigation_inputs_of_def)
  next
    case (Some soil)
    then show ?thesis
      using some [OF Some] perm(1)
      by (auto simp: irrigation_inputs_of_def simp del: model_validate_Some_iff split: option.splits)
  qed
  then show ?thesis using irrigation_plan_from_soil by (auto simp: irrigation_plan_of_def)
qed


section \<open>A concrete garden\<close>

definition gar_authority :: irrigation_authority where
  "gar_authority = \<lparr>ga_coreId = id_of CHR ''a'', ga_homeId = id_of CHR ''b'', ga_homeRevision = 1,
     ga_accountId = id_of CHR ''c'', ga_accountRevision = 1, ga_sessionFamilyId = id_of CHR ''d'',
     ga_role = IAdmin, ga_active = True, ga_canManageIrrigation = True\<rparr>"

definition gar_zone :: "char \<Rightarrow> irrigation_zone" where
  "gar_zone c = \<lparr>zn_coreId = id_of CHR ''a'', zn_homeId = id_of CHR ''b'', zn_zoneId = id_of c,
     zn_zoneRevision = 1, zn_areaId = id_of c, zn_areaRevision = 1, zn_valveServiceId = id_of c,
     zn_valveServiceRevision = 1, zn_valveBindingId = id_of c, zn_valveBindingRevision = 1,
     zn_flowMlPerMinute = 6000, zn_maxDurationSeconds = 600\<rparr>"

definition gar_policy :: irrigation_policy where
  "gar_policy = \<lparr>gp_coreId = id_of CHR ''a'', gp_homeId = id_of CHR ''b'', gp_policyId = id_of CHR ''e'',
     gp_policyRevision = 3, gp_zones = [gar_zone CHR ''2'', gar_zone CHR ''1''], gp_targetMoisturePermille = 500,
     gp_soilMaxAgeMs = 60000, gp_safetyMaxAgeMs = 60000, gp_forecastMaxAgeMs = 60000,
     gp_rainDeferralMilliMm = 5000, gp_freezeThresholdMilliC = 2000, gp_windLimitMilliMps = 10000,
     gp_previewTtlMs = 30000, gp_active = True\<rparr>"

definition gar_reading :: "char \<Rightarrow> int \<Rightarrow> soil_reading" where
  "gar_reading c moisture = \<lparr>sm_coreId = id_of CHR ''a'', sm_homeId = id_of CHR ''b'', sm_zoneId = id_of c,
     sm_zoneRevision = 1, sm_sensorId = id_of c, sm_sensorRevision = 1, sm_readingRevision = 1,
     sm_moisturePermille = moisture, sm_observedAtMs = 90000\<rparr>"

definition gar_safety :: safety_snapshot where
  "gar_safety = \<lparr>sf_coreId = id_of CHR ''a'', sf_homeId = id_of CHR ''b'', sf_safetyRevision = 1,
     sf_leakDetected = False, sf_temperatureMilliC = 18000, sf_windMilliMps = 2000, sf_observedAtMs = 95000\<rparr>"

definition gar_forecast :: rain_forecast where
  "gar_forecast = \<lparr>rf_coreId = id_of CHR ''a'', rf_homeId = id_of CHR ''b'', rf_sourceId = id_of CHR ''f'',
     rf_sourceRevision = 1, rf_forecastRevision = 1, rf_generatedAtMs = 80000, rf_validUntilMs = 200000,
     rf_rainMilliMm = 100\<rparr>"

definition gar_budget :: water_budget where
  "gar_budget = \<lparr>wb_coreId = id_of CHR ''a'', wb_homeId = id_of CHR ''b'', wb_budgetRevision = 1,
     wb_dayStartMs = 0, wb_dailyLimitMl = 50000, wb_usedMl = 10000, wb_priceMicrosPerLiter = 2000\<rparr>"

definition gar_override :: "string \<Rightarrow> int \<Rightarrow> water_override" where
  "gar_override oid expires = \<lparr>wo_overrideId = oid, wo_coreId = id_of CHR ''a'', wo_homeId = id_of CHR ''b'',
     wo_policyId = id_of CHR ''e'', wo_expectedPolicyRevision = 3, wo_zoneId = id_of CHR ''1'',
     wo_expectedZoneRevision = 1, wo_actorAccountId = id_of CHR ''c'', wo_durationSeconds = 120,
     wo_createdAtMs = 50000, wo_expiresAtMs = expires\<rparr>"

definition gar_env :: irrigation_env where
  "gar_env = \<lparr>ge_authority = (\<lambda>_. Found (Some gar_authority)), ge_policy = (\<lambda>_. Found (Some gar_policy)),
     ge_policy_hash = (\<lambda>_. digest_of CHR ''1''), ge_identity_hash = (\<lambda>_. digest_of CHR ''2'')\<rparr>"

definition gar_soil :: "soil_reading raw list" where
  "gar_soil = [Some (gar_reading CHR ''1'' 600), Some (gar_reading CHR ''2'' 100)]"

definition gar_inputs :: "water_override list \<Rightarrow> irrigation_inputs" where
  "gar_inputs overrides = \<lparr>gn_soil = [gar_reading CHR ''1'' 600, gar_reading CHR ''2'' 100],
     gn_safety = gar_safety, gn_forecast = gar_forecast, gn_budget = gar_budget, gn_overrides = overrides\<rparr>"

definition gar_plan :: "water_override list \<Rightarrow> irrigation_plan result" where
  "gar_plan overrides = irrigation_plan_of gar_env (Some gar_authority) (Some gar_policy) gar_soil
     (Some gar_safety) (Some gar_forecast) (Some gar_budget) 100000 (map Some overrides)"

definition gar_active :: "water_override list \<Rightarrow> water_override list result" where
  "gar_active overrides = active_overrides gar_authority gar_policy 100000 overrides"

definition gar_items :: "water_override list \<Rightarrow> water_override list \<Rightarrow> irrigation_item list result" where
  "gar_items overrides active =
     plan_zones gar_policy (gar_inputs overrides) active 100000 (sort_key zn_zoneId (gp_zones gar_policy)) 40000"

lemma gar_admitted:
  "irrigation_authority_of gar_env (Some gar_authority) = Inr gar_authority"
  "irrigation_policy_of gar_env (Some gar_policy) = Inr gar_policy"
proof -
  have "valid_irrigation_authority gar_authority" "irrigation_admin gar_authority"
    "valid_irrigation_policy gar_policy" "gp_active gar_policy" by code_simp+
  then show "irrigation_authority_of gar_env (Some gar_authority) = Inr gar_authority"
    "irrigation_policy_of gar_env (Some gar_policy) = Inr gar_policy"
    by (simp_all add: irrigation_authority_of_Inr irrigation_policy_of_Inr gar_env_def)
qed

lemma gar_admitted_inputs:
  assumes "list_all valid_water_override overrides"
  shows "irrigation_inputs_of gar_soil (Some gar_safety) (Some gar_forecast) (Some gar_budget)
      (map Some overrides) 100000 = Inr (gar_inputs overrides)"
    "check_irrigation_scope gar_authority gar_policy (gar_inputs overrides) 100000 = Inr ()"
proof -
  have "valid_safety gar_safety" "valid_rain_forecast gar_forecast" "valid_budget gar_budget"
    "list_all valid_soil [gar_reading CHR ''1'' 600, gar_reading CHR ''2'' 100]" by code_simp+
  then show "irrigation_inputs_of gar_soil (Some gar_safety) (Some gar_forecast) (Some gar_budget)
      (map Some overrides) 100000 = Inr (gar_inputs overrides)"
    using assms by (simp add: irrigation_inputs_of_Inr gar_soil_def gar_inputs_def)
  have "check_irrigation_scope gar_authority gar_policy (gar_inputs []) 100000 = Inr ()" by code_simp
  then show "check_irrigation_scope gar_authority gar_policy (gar_inputs overrides) 100000 = Inr ()"
    by (simp add: check_irrigation_scope_def gar_inputs_def)
qed

lemma gar_hex: "hex_digests gar_env"
  by (simp add: hex_digests_def gar_env_def digest_of_def is_snapshot_def lower_hex_def list_all_iff)

lemma gar_planned:
  assumes "list_all valid_water_override overrides" and "gar_active overrides = Inr active"
    and "gar_items overrides active = Inr items"
  shows "gar_plan overrides = Inr (irrigation_plan_build gar_env gar_authority gar_policy (gar_inputs overrides)
    active 100000 items)"
proof -
  note i = gar_admitted_inputs [OF assms(1)]
  have o: "gn_overrides (gar_inputs overrides) = overrides" by (simp add: gar_inputs_def)
  have b: "wb_dailyLimitMl (gn_budget (gar_inputs overrides)) - wb_usedMl (gn_budget (gar_inputs overrides)) = 40000"
    by (simp add: gar_inputs_def gar_budget_def)
  have active: "active_overrides gar_authority gar_policy 100000 (gn_overrides (gar_inputs overrides)) = Inr active"
    using assms(2) o by (simp add: gar_active_def)
  have items: "plan_zones gar_policy (gar_inputs overrides) active 100000 (sort_key zn_zoneId (gp_zones gar_policy))
     (wb_dailyLimitMl (gn_budget (gar_inputs overrides)) - wb_usedMl (gn_budget (gar_inputs overrides))) = Inr items"
    using assms(3) unfolding b gar_items_def .
  have "valid_irrigation_plan (irrigation_plan_build gar_env gar_authority gar_policy (gar_inputs overrides)
      active 100000 items)"
    by (rule irrigation_plan_build_valid [OF gar_hex _ gar_admitted i active items]) simp
  then show ?thesis
    by (simp add: gar_plan_def irrigation_plan_of_def irrigation_plan_from_def gar_admitted i active items)
qed

text \<open>The override waters the moist zone first; the dry zone gets what the budget leaves.\<close>

definition gar_now :: water_override where "gar_now = gar_override (id_of CHR ''8'') 150000"
definition gar_expired :: water_override where "gar_expired = gar_override (id_of CHR ''7'') 60000"

lemma gar_overrides:
  "list_all valid_water_override [gar_now, gar_expired]" "gar_active [gar_now] = Inr [gar_now]"
  "gar_active [gar_expired, gar_now] = Inr [gar_now]" "gar_active [gar_now, gar_expired] = Inl bad_request"
  by code_simp+

lemma gar_plan_now:
  "\<exists>plan. gar_plan [gar_now] = Inr plan \<and>
     map (\<lambda>it. (gi_status it, gi_reason it, gi_durationSeconds it, gi_estimatedWaterMl it)) (gl_items plan) =
       [(Planned, WaterOverride, 120, 12000), (Planned, MoistureDeficit, 280, 28000)]"
proof -
  have "case gar_items [gar_now] [gar_now] of
      Inl e \<Rightarrow> False
    | Inr items \<Rightarrow> map (\<lambda>it. (gi_status it, gi_reason it, gi_durationSeconds it, gi_estimatedWaterMl it)) items =
        [(Planned, WaterOverride, 120, 12000), (Planned, MoistureDeficit, 280, 28000)]"
    by code_simp
  then obtain items where items: "gar_items [gar_now] [gar_now] = Inr items"
    "map (\<lambda>it. (gi_status it, gi_reason it, gi_durationSeconds it, gi_estimatedWaterMl it)) items =
        [(Planned, WaterOverride, 120, 12000), (Planned, MoistureDeficit, 280, 28000)]"
    by (cases "gar_items [gar_now] [gar_now]") auto
  with gar_planned [OF _ gar_overrides(2) items(1)] gar_overrides(1) show ?thesis
    by (simp add: irrigation_plan_build_def Let_def)
qed

lemma irrigation_within_budget_witness:
  "\<exists>plan. gar_plan [gar_now] = Inr plan \<and>
     wb_usedMl gar_budget + gl_totalWaterMl plan \<le> wb_dailyLimitMl gar_budget \<and> list_all item_ok (gl_items plan)"
proof -
  obtain plan where run: "gar_plan [gar_now] = Inr plan" using gar_plan_now by blast
  then show ?thesis using irrigation_within_budget [OF run [unfolded gar_plan_def]] by simp
qed

lemma irrigation_only_when_safe_witness:
  "\<exists>plan it. gar_plan [gar_now] = Inr plan \<and> it \<in> set (gl_items plan) \<and>
     gi_status it = Planned \<and> (\<exists>reading. Some reading \<in> set gar_soil \<and> \<not> soil_stale gar_policy reading 100000)"
proof -
  obtain plan where run: "gar_plan [gar_now] = Inr plan"
    "map (\<lambda>it. (gi_status it, gi_reason it, gi_durationSeconds it, gi_estimatedWaterMl it)) (gl_items plan) =
        [(Planned, WaterOverride, 120, 12000), (Planned, MoistureDeficit, 280, 28000)]"
    using gar_plan_now by (elim exE conjE) (rule that)
  then obtain it where it: "it \<in> set (gl_items plan)" "gi_status it = Planned" by (cases "gl_items plan") auto
  then show ?thesis using irrigation_only_when_safe [OF run(1) [unfolded gar_plan_def] it(1)] run(1) by blast
qed

lemma irrigation_plan_never_crashes_witness:
  "hex_digests gar_env \<and> (case gar_plan [gar_now] of Inl e \<Rightarrow> False | Inr plan \<Rightarrow> valid_irrigation_plan plan)"
proof -
  obtain plan where run: "gar_plan [gar_now] = Inr plan" using gar_plan_now by blast
  then show ?thesis
    using gar_hex irrigation_plan_never_crashes [OF gar_hex, of 100000 "Some gar_authority" "Some gar_policy" gar_soil
      "Some gar_safety" "Some gar_forecast" "Some gar_budget" "map Some [gar_now]", folded gar_plan_def]
    by simp
qed

lemma irrigation_plan_soil_order_witness:
  "irrigation_plan_of gar_env (Some gar_authority) (Some gar_policy) (rev gar_soil) (Some gar_safety)
     (Some gar_forecast) (Some gar_budget) 100000 [] = gar_plan []"
  using irrigation_plan_soil_order [of "rev gar_soil" gar_soil] by (simp add: gar_plan_def)

text \<open>The order of the manual overrides does change the outcome: an expired override of a
  zone followed by one in force gives a plan, and the same two overrides in the other order are refused
  as a duplicate.\<close>

theorem irrigation_override_order_matters:
  "\<not> isl (gar_plan [gar_expired, gar_now]) \<and> gar_plan [gar_now, gar_expired] = Inl bad_request"
proof -
  have v: "list_all valid_water_override [gar_now, gar_expired]" "list_all valid_water_override [gar_expired, gar_now]"
    using gar_overrides(1) by simp_all
  have "\<not> isl (gar_items [gar_expired, gar_now] [gar_now])" by code_simp
  then obtain items where "gar_items [gar_expired, gar_now] [gar_now] = Inr items"
    by (cases "gar_items [gar_expired, gar_now] [gar_now]") auto
  then have "\<not> isl (gar_plan [gar_expired, gar_now])" using gar_planned [OF v(2) gar_overrides(3)] by simp
  moreover have "active_overrides gar_authority gar_policy 100000 (gn_overrides (gar_inputs [gar_now, gar_expired]))
      = Inl bad_request"
    using gar_overrides(4) by (simp add: gar_active_def gar_inputs_def)
  then have "gar_plan [gar_now, gar_expired] = Inl bad_request"
    using gar_admitted_inputs [OF v(1)]
    by (simp add: gar_plan_def irrigation_plan_of_def irrigation_plan_from_def gar_admitted)
  ultimately show ?thesis by simp
qed

end
