(* ===== verification/Irrigation_Effects.thy ===== *)
theory Irrigation_Effects
  imports Garden_Irrigation Hash_Chain "HOL-Library.AList"
begin

text \<open>
  The valve boundary of the irrigation: the coordinator of \<open>garden_irrigation/effects.py\<close>, which
  turns a confirmed plan into valve commands, and the audit chain of \<open>garden_irrigation/audit.py\<close>
  it writes. The coordinator's dictionaries are association lists in insertion order; its lock makes
  every operation one step. Resolvers, the valve worker, the digests and the random identifiers are
  parameters. The state records the commands sent to the worker, so that one can say how often a valve
  is driven.
\<close>

section \<open>The audit chain\<close>

definition ZERO :: string where "ZERO = replicate 64 (CHR ''0'')"

datatype irrigation_audit_kind = AuditPlan | AuditPreview | AuditResult

record irrigation_audit_body =
  ib_sequence :: int
  ib_kind :: irrigation_audit_kind
  ib_coreId :: string
  ib_homeId :: string
  ib_policyId :: string
  ib_policyRevision :: int
  ib_actorAccountId :: string
  ib_requestId :: string
  ib_status :: string
  ib_payloadHash :: string
  ib_atMs :: int
  ib_previousHash :: string

record irrigation_audit_event =
  ie_body :: irrigation_audit_body
  ie_entryHash :: string

definition status_text :: "string \<Rightarrow> bool" where
  "status_text s = (1 \<le> length s \<and> length s \<le> 40 \<and>
     list_all (\<lambda>c. (let n = of_char c :: nat in 97 \<le> n \<and> n \<le> 122) \<or> c = CHR ''_'') s)"

definition valid_irrigation_event :: "irrigation_audit_event \<Rightarrow> bool" where
  "valid_irrigation_event e =
     (let b = ie_body e in
      between 1 16384 (ib_sequence b) \<and> is_identity (ib_coreId b) \<and> is_identity (ib_homeId b) \<and>
      is_identity (ib_policyId b) \<and> is_revision (ib_policyRevision b) \<and> is_identity (ib_actorAccountId b) \<and>
      is_identity (ib_requestId b) \<and> status_text (ib_status b) \<and> is_snapshot (ib_payloadHash b) \<and>
      is_timestamp (ib_atMs b) \<and> is_snapshot (ib_previousHash b) \<and> is_snapshot (ie_entryHash e))"

record irrigation_audit =
  ad_coreId :: string
  ad_homeId :: string
  ad_limit :: int
  ad_chain :: string
  ad_events :: "irrigation_audit_event list"
  ad_head :: string

record audit_hashes =
  ah_event :: "irrigation_audit_body \<Rightarrow> string"
  ah_tag :: "string \<Rightarrow> string \<Rightarrow> string \<Rightarrow> int \<Rightarrow> string \<Rightarrow> string"

text \<open>\<open>TamperEvidentIrrigationAudit.__init__\<close>, with the chain identifier given or drawn.\<close>

definition new_irrigation_audit :: "string \<Rightarrow> string \<Rightarrow> int \<Rightarrow> string \<Rightarrow> irrigation_audit result" where
  "new_irrigation_audit coreId homeId maxEvents chainId =
     (if \<not> between 1 16384 maxEvents \<or> \<not> is_identity coreId \<or> \<not> is_identity homeId then Inl ValueError
      else Inr \<lparr>ad_coreId = coreId, ad_homeId = homeId, ad_limit = maxEvents, ad_chain = chainId,
                ad_events = [], ad_head = ZERO\<rparr>)"

abbreviation irrigation_audit_limit :: error where
  "irrigation_audit_limit \<equiv> ApiError ''irrigation_audit_limit'' 429"

definition ensure_capacity :: "int \<Rightarrow> irrigation_audit \<Rightarrow> unit result" where
  "ensure_capacity n a =
     (if n < 0 \<or> int (length (ad_events a)) + n > ad_limit a then Inl irrigation_audit_limit else Inr ())"

definition irrigation_audit_append :: "audit_hashes \<Rightarrow> irrigation_audit_kind \<Rightarrow> string \<Rightarrow> int \<Rightarrow> string \<Rightarrow> string
    \<Rightarrow> string \<Rightarrow> string \<Rightarrow> int \<Rightarrow> irrigation_audit \<Rightarrow> irrigation_audit result" where
  "irrigation_audit_append h kind policyId policyRevision actor requestId status payloadHash atMs a =
     bind_res (ensure_capacity 1 a) (\<lambda>_.
       let body = \<lparr>ib_sequence = int (length (ad_events a)) + 1, ib_kind = kind, ib_coreId = ad_coreId a,
             ib_homeId = ad_homeId a, ib_policyId = policyId, ib_policyRevision = policyRevision,
             ib_actorAccountId = actor, ib_requestId = requestId, ib_status = status,
             ib_payloadHash = payloadHash, ib_atMs = atMs, ib_previousHash = ad_head a\<rparr>;
           event = \<lparr>ie_body = body, ie_entryHash = ah_event h body\<rparr>
       in if \<not> valid_irrigation_event event then Inl ValidationError
          else Inr (a\<lparr>ad_events := ad_events a @ [event], ad_head := ie_entryHash event\<rparr>))"

definition audit_tag :: "audit_hashes \<Rightarrow> irrigation_audit \<Rightarrow> string" where
  "audit_tag h a = ah_tag h (ad_coreId a) (ad_homeId a) (ad_chain a) (int (length (ad_events a))) (ad_head a)"

text \<open>The exported document, and \<open>restore\<close>. What is presented to it has the right keys; an event is
  \<open>None\<close> when it does not have the fields of the contract.\<close>

record audit_export =
  ax_chainId :: string
  ax_events :: "irrigation_audit_event raw list"
  ax_headHash :: string
  ax_headTag :: string

definition audit_export_of :: "audit_hashes \<Rightarrow> irrigation_audit \<Rightarrow> audit_export" where
  "audit_export_of h a =
     \<lparr>ax_chainId = ad_chain a, ax_events = map Some (ad_events a), ax_headHash = ad_head a,
      ax_headTag = audit_tag h a\<rparr>"

abbreviation audit_invalid :: error where "audit_invalid \<equiv> StartupError ''irrigation_audit_invalid''"

text \<open>One turn of the restoring loop; the sequence number is that of \<open>enumerate(events, 1)\<close>.
  Strings that are not ASCII make \<open>compare_digest\<close> raise a \<open>TypeError\<close>, which is caught like the
  rest, and hashes of events are validated before.\<close>

definition restore_step :: "audit_hashes \<Rightarrow> irrigation_audit_event \<Rightarrow> irrigation_audit \<Rightarrow> irrigation_audit result" where
  "restore_step h event a =
     (let b = ie_body event in
      if ib_sequence b \<noteq> int (length (ad_events a)) + 1 \<or> ib_coreId b \<noteq> ad_coreId a
         \<or> ib_homeId b \<noteq> ad_homeId a \<or> ib_previousHash b \<noteq> ad_head a \<or> ie_entryHash event \<noteq> ah_event h b
      then Inl audit_invalid
      else Inr (a\<lparr>ad_events := ad_events a @ [event], ad_head := ie_entryHash event\<rparr>))"

definition irrigation_audit_restore :: "audit_hashes \<Rightarrow> audit_export \<Rightarrow> string \<Rightarrow> string \<Rightarrow> int
    \<Rightarrow> irrigation_audit result" where
  "irrigation_audit_restore h x coreId homeId maxEvents =
     (if \<not> is_identity (ax_chainId x) then Inl audit_invalid
      else case validate_all valid_irrigation_event (ax_events x) of
        None \<Rightarrow> Inl audit_invalid
      | Some events \<Rightarrow>
          if int (length events) > maxEvents then Inl audit_invalid
          else case new_irrigation_audit coreId homeId maxEvents (ax_chainId x) of
            Inl _ \<Rightarrow> Inl audit_invalid
          | Inr a \<Rightarrow>
              bind_res (fold_res (restore_step h) events a) (\<lambda>a'.
                if ax_headHash x \<noteq> ad_head a' \<or> ax_headTag x \<noteq> audit_tag h a' then Inl audit_invalid
                else Inr a'))"

section \<open>Contracts of the effects\<close>

record valve_readback =
  vr_coreId :: string
  vr_homeId :: string
  vr_zone :: irrigation_zone
  vr_stateRevision :: int
  vr_valveOpen :: bool
  vr_observedAtMs :: int

definition valid_valve_readback :: "valve_readback \<Rightarrow> bool" where
  "valid_valve_readback r =
     (is_identity (vr_coreId r) \<and> is_identity (vr_homeId r) \<and> valid_zone (vr_zone r) \<and>
      is_revision (vr_stateRevision r) \<and> is_timestamp (vr_observedAtMs r))"

record valve_command =
  vc_commandId :: string
  vc_requestId :: string
  vc_planId :: string
  vc_policyRevision :: int
  vc_actorAccountId :: string
  vc_zone :: irrigation_zone
  vc_expectedStateRevision :: int
  vc_durationSeconds :: int
  vc_expectedWaterMl :: int

definition valid_valve_command :: "valve_command \<Rightarrow> bool" where
  "valid_valve_command c =
     (is_identity (vc_commandId c) \<and> is_identity (vc_requestId c) \<and> is_identity (vc_planId c) \<and>
      is_revision (vc_policyRevision c) \<and> is_identity (vc_actorAccountId c) \<and> valid_zone (vc_zone c) \<and>
      is_revision (vc_expectedStateRevision c) \<and> between 1 7200 (vc_durationSeconds c) \<and>
      between 1 10000000000 (vc_expectedWaterMl c))"

record worker_readback =
  wr_commandId :: string
  wr_zone :: irrigation_zone
  wr_stateRevision :: int
  wr_valveOpen :: bool
  wr_deliveredMl :: int
  wr_flowVerified :: bool
  wr_observedAtMs :: int

definition valid_worker_readback :: "worker_readback \<Rightarrow> bool" where
  "valid_worker_readback r =
     (is_identity (wr_commandId r) \<and> valid_zone (wr_zone r) \<and> is_revision (wr_stateRevision r) \<and>
      between 0 10000000000 (wr_deliveredMl r) \<and> is_timestamp (wr_observedAtMs r))"

record irrigation_preview =
  iv_previewId :: string
  iv_confirmToken :: string
  iv_requestId :: string
  iv_planId :: string
  iv_policyRevision :: int
  iv_expiresAtMs :: int
  iv_commandCount :: int

definition is_token :: "string \<Rightarrow> bool" where
  "is_token s = (length s = 43 \<and> list_all (\<lambda>c. (let n = of_char c :: nat in
     (48 \<le> n \<and> n \<le> 57) \<or> (65 \<le> n \<and> n \<le> 90) \<or> (97 \<le> n \<and> n \<le> 122)) \<or> c \<in> set ''_-'') s)"

definition valid_irrigation_preview :: "irrigation_preview \<Rightarrow> bool" where
  "valid_irrigation_preview p =
     (is_identity (iv_previewId p) \<and> is_token (iv_confirmToken p) \<and> is_identity (iv_requestId p) \<and>
      is_identity (iv_planId p) \<and> is_revision (iv_policyRevision p) \<and> is_timestamp (iv_expiresAtMs p) \<and>
      between 1 32 (iv_commandCount p))"

datatype valve_status = ValveApplied | ValveFailed | ValveUnknown

datatype valve_code =
  CodeApplied | FlowNotVerified | FlowOutOfBounds | ValveReadbackMismatch | WorkerAckUnknown

record valve_result =
  ve_commandId :: string
  ve_zoneId :: string
  ve_status :: valve_status
  ve_code :: valve_code
  ve_readback :: "worker_readback option"

datatype receipt_status = ReceiptApplied | ReceiptPartial | ReceiptFailed | ReceiptUnknown

record irrigation_receipt =
  it_requestId :: string
  it_planId :: string
  it_status :: receipt_status
  it_results :: "valve_result list"
  it_completedAtMs :: int

definition valid_irrigation_receipt :: "irrigation_receipt \<Rightarrow> bool" where
  "valid_irrigation_receipt r =
     (is_identity (it_requestId r) \<and> is_identity (it_planId r) \<and>
      1 \<le> length (it_results r) \<and> length (it_results r) \<le> 32 \<and>
      list_all (\<lambda>v. is_identity (ve_commandId v) \<and> is_identity (ve_zoneId v) \<and>
        (case ve_readback v of None \<Rightarrow> True | Some b \<Rightarrow> valid_worker_readback b)) (it_results r) \<and>
      is_timestamp (it_completedAtMs r))"

section \<open>The coordinator\<close>

record stored_irrigation =
  st_authority :: irrigation_authority
  st_plan :: irrigation_plan
  st_readbacks :: "valve_readback list"
  st_request_id :: string
  st_token :: string
  st_expires_at :: int

record irrigation_coordinator =
  co_limit :: int
  co_previews :: "(string \<times> stored_irrigation) list"
  co_request_previews :: "(string \<times> string) list"
  co_receipts :: "(string \<times> irrigation_receipt) list"
  co_audit :: irrigation_audit
  co_sent :: "valve_command list"

record valve_env =
  le_authority :: "string \<Rightarrow> irrigation_authority lookup"
  le_policy :: "string \<Rightarrow> irrigation_policy lookup"
  le_plan :: "string \<Rightarrow> irrigation_plan lookup"
  le_worker :: "valve_command \<Rightarrow> worker_readback lookup"
  le_policy_hash :: "irrigation_policy \<Rightarrow> string"
  le_plan_hash :: "irrigation_plan \<Rightarrow> string"
  le_receipt_hash :: "irrigation_receipt \<Rightarrow> string"
  le_command_hash :: "string \<Rightarrow> string"
  le_audit :: audit_hashes

definition new_irrigation_coordinator :: "irrigation_audit \<Rightarrow> int \<Rightarrow> irrigation_coordinator result" where
  "new_irrigation_coordinator audit maxReceipts =
     (if \<not> between 1 4096 maxReceipts then Inl ValueError
      else Inr \<lparr>co_limit = maxReceipts, co_previews = [], co_request_previews = [], co_receipts = [],
                co_audit = audit, co_sent = []\<rparr>)"

text \<open>Asking a resolver and validating its answer; any exception on the way is one failure.\<close>

definition resolved :: "('a \<Rightarrow> bool) \<Rightarrow> 'a lookup \<Rightarrow> 'a option" where
  "resolved valid l = (case l of Raised \<Rightarrow> None | Missing \<Rightarrow> None | Found r \<Rightarrow> model_validate valid r)"

definition irrigation_live :: "valve_env \<Rightarrow> irrigation_authority raw \<Rightarrow> irrigation_plan raw
    \<Rightarrow> (irrigation_authority \<times> irrigation_plan \<times> irrigation_policy) result" where
  "irrigation_live env rawAuthority rawPlan =
     (case (model_validate valid_irrigation_authority rawAuthority, model_validate valid_irrigation_plan rawPlan) of
        (Some authority, Some plan) \<Rightarrow>
          (case (resolved valid_irrigation_authority (le_authority env (ga_accountId authority)),
                 resolved valid_irrigation_policy (le_policy env (gl_policyId plan))) of
             (Some current_authority, Some current_policy) \<Rightarrow>
               (case resolved valid_irrigation_plan (le_plan env (gl_planId plan)) of
                  None \<Rightarrow> Inl revision_conflict
                | Some current_plan \<Rightarrow>
                    if current_authority \<noteq> authority then Inl revision_conflict
                    else if \<not> irrigation_admin authority then Inl forbidden
                    else if (gl_coreId plan, gl_homeId plan, gl_homeRevision plan, gl_actorAccountId plan,
                             gl_accountRevision plan, gl_sessionFamilyId plan)
                            \<noteq> (ga_coreId authority, ga_homeId authority, ga_homeRevision authority,
                               ga_accountId authority, ga_accountRevision authority, ga_sessionFamilyId authority)
                            \<or> le_policy_hash env current_policy \<noteq> gl_policyHash plan
                            \<or> current_plan \<noteq> plan
                    then Inl revision_conflict
                    else Inr (authority, plan, current_policy))
           | _ \<Rightarrow> Inl forbidden)
      | _ \<Rightarrow> Inl bad_request)"

text \<open>\<open>{key(x): x for x in xs}\<close>: the last value of a key wins and keeps the first one's place.\<close>

definition dict_by :: "('x \<Rightarrow> 'k) \<Rightarrow> 'x list \<Rightarrow> ('k \<times> 'x) list" where
  "dict_by key xs = fold (\<lambda>x d. AList.update (key x) x d) xs []"

definition planned_items :: "irrigation_plan \<Rightarrow> (string \<times> irrigation_item) list" where
  "planned_items plan =
     dict_by (zn_zoneId \<circ> gi_zone) (filter (\<lambda>it. gi_status it = Planned) (gl_items plan))"

definition observed_valves :: "valve_readback list \<Rightarrow> (string \<times> valve_readback) list" where
  "observed_valves readbacks = dict_by (zn_zoneId \<circ> vr_zone) readbacks"

definition check_readbacks :: "irrigation_plan \<Rightarrow> valve_readback list \<Rightarrow> int \<Rightarrow> unit result" where
  "check_readbacks plan readbacks now =
     (let planned = planned_items plan; observed = observed_valves readbacks in
      if planned = [] \<or> length observed \<noteq> length readbacks \<or> fst ` set observed \<noteq> fst ` set planned
      then Inl revision_conflict
      else if list_ex (\<lambda>(zone_id, r).
                (case map_of planned zone_id of
                   None \<Rightarrow> True
                 | Some item \<Rightarrow> (vr_coreId r, vr_homeId r, vr_zone r)
                     \<noteq> (gl_coreId plan, gl_homeId plan, gi_zone item))
                \<or> vr_observedAtMs r > now \<or> vr_valveOpen r) observed
      then Inl revision_conflict
      else Inr ())"

text \<open>\<open>preview\<close>, with the two random identifiers it may draw. It changes the coordinator in place:
  what is written before an exception stays, so the state is returned with the result.\<close>

definition preview_made :: "irrigation_preview \<Rightarrow> irrigation_preview result" where
  "preview_made p = (if valid_irrigation_preview p then Inr p else Inl ValidationError)"

definition irrigation_preview_locked :: "valve_env \<Rightarrow> string \<Rightarrow> string \<Rightarrow> irrigation_authority \<Rightarrow> irrigation_plan
    \<Rightarrow> irrigation_policy \<Rightarrow> valve_readback list \<Rightarrow> string \<Rightarrow> int \<Rightarrow> irrigation_coordinator
    \<Rightarrow> irrigation_preview result \<times> irrigation_coordinator" where
  "irrigation_preview_locked env preview_id token authority plan policy readbacks requestId now s =
     (case map_of (co_request_previews s) requestId of
        Some old_id \<Rightarrow>
          (case map_of (co_previews s) old_id of
             None \<Rightarrow> (Inl KeyError, s)
           | Some old \<Rightarrow>
               if (st_authority old, st_plan old, st_readbacks old) \<noteq> (authority, plan, readbacks)
               then (Inl command_conflict, s)
               else (preview_made \<lparr>iv_previewId = old_id, iv_confirmToken = st_token old,
                       iv_requestId = st_request_id old, iv_planId = gl_planId (st_plan old),
                       iv_policyRevision = gl_policyRevision (st_plan old), iv_expiresAtMs = st_expires_at old,
                       iv_commandCount = int (length (filter (\<lambda>it. gi_status it = Planned) (gl_items (st_plan old))))\<rparr>,
                     s))
      | None \<Rightarrow>
          if int (length (co_previews s)) \<ge> co_limit s then (Inl (ApiError ''invalid_request'' 429), s)
          else
            (let expires = now + gp_previewTtlMs policy;
                 stored = \<lparr>st_authority = authority, st_plan = plan, st_readbacks = readbacks,
                           st_request_id = requestId, st_token = token, st_expires_at = expires\<rparr>
             in case irrigation_audit_append (le_audit env) AuditPreview (gl_policyId plan) (gl_policyRevision plan)
                       (ga_accountId authority) requestId ''accepted'' (le_plan_hash env plan) now (co_audit s) of
                  Inl e \<Rightarrow> (Inl e, s)
                | Inr audit \<Rightarrow>
                    (preview_made \<lparr>iv_previewId = preview_id, iv_confirmToken = token, iv_requestId = requestId,
                       iv_planId = gl_planId plan, iv_policyRevision = gl_policyRevision plan,
                       iv_expiresAtMs = expires, iv_commandCount = int (length (planned_items plan))\<rparr>,
                     s\<lparr>co_audit := audit,
                       co_previews := AList.update preview_id stored (co_previews s),
                       co_request_previews := AList.update requestId preview_id (co_request_previews s)\<rparr>)))"

definition irrigation_preview_of :: "valve_env \<Rightarrow> string \<Rightarrow> string \<Rightarrow> irrigation_authority raw \<Rightarrow> irrigation_plan raw
    \<Rightarrow> valve_readback raw list \<Rightarrow> string \<Rightarrow> int \<Rightarrow> irrigation_coordinator
    \<Rightarrow> irrigation_preview result \<times> irrigation_coordinator" where
  "irrigation_preview_of env preview_id token rawAuthority rawPlan rawReadbacks requestId now s =
     (case irrigation_live env rawAuthority rawPlan of
        Inl e \<Rightarrow> (Inl e, s)
      | Inr (authority, plan, policy) \<Rightarrow>
         (case validate_all valid_valve_readback rawReadbacks of
            None \<Rightarrow> (Inl bad_request, s)
          | Some readbacks \<Rightarrow>
              if \<not> is_identity requestId \<or> now < gl_generatedAtMs plan then (Inl bad_request, s)
              else (case check_readbacks plan readbacks now of
                      Inl e \<Rightarrow> (Inl e, s)
                    | Inr _ \<Rightarrow>
                        irrigation_preview_locked env preview_id token authority plan policy readbacks requestId
                          now s)))"

text \<open>The command for one zone and what is made of the worker's answer.\<close>

definition valve_command_of :: "valve_env \<Rightarrow> stored_irrigation \<Rightarrow> irrigation_authority \<Rightarrow> string
    \<Rightarrow> irrigation_item \<Rightarrow> valve_readback \<Rightarrow> valve_command" where
  "valve_command_of env stored authority zone_id item before =
     (let plan = st_plan stored in
      \<lparr>vc_commandId = take 32 (le_command_hash env (st_request_id stored @ zone_id @ gl_planId plan)),
       vc_requestId = st_request_id stored, vc_planId = gl_planId plan,
       vc_policyRevision = gl_policyRevision plan, vc_actorAccountId = ga_accountId authority,
       vc_zone = gi_zone item, vc_expectedStateRevision = vr_stateRevision before,
       vc_durationSeconds = gi_durationSeconds item, vc_expectedWaterMl = gi_estimatedWaterMl item\<rparr>)"

definition valve_result_of :: "valve_command \<Rightarrow> string \<Rightarrow> valve_readback \<Rightarrow> worker_readback lookup \<Rightarrow> valve_result" where
  "valve_result_of c zone_id before answer =
     (case answer of
        Raised \<Rightarrow> \<lparr>ve_commandId = vc_commandId c, ve_zoneId = zone_id, ve_status = ValveUnknown,
                   ve_code = WorkerAckUnknown, ve_readback = None\<rparr>
      | _ \<Rightarrow>
         (case resolved valid_worker_readback answer of
            None \<Rightarrow> \<lparr>ve_commandId = vc_commandId c, ve_zoneId = zone_id, ve_status = ValveFailed,
                     ve_code = ValveReadbackMismatch, ve_readback = None\<rparr>
          | Some r \<Rightarrow>
              (let exact = wr_commandId r = vc_commandId c \<and> wr_zone r = vc_zone c
                     \<and> wr_stateRevision r > vr_stateRevision before
                     \<and> wr_observedAtMs r \<ge> vr_observedAtMs before \<and> \<not> wr_valveOpen r;
                   flow = wr_flowVerified r \<and> wr_deliveredMl r > 0;
                   bounded_flow = vc_expectedWaterMl c * 80 div 100 \<le> wr_deliveredMl r
                     \<and> wr_deliveredMl r \<le> vc_expectedWaterMl c * 110 div 100;
                   code = (if exact \<and> flow \<and> bounded_flow then CodeApplied
                           else if \<not> exact then ValveReadbackMismatch
                           else if \<not> flow then FlowNotVerified else FlowOutOfBounds)
               in \<lparr>ve_commandId = vc_commandId c, ve_zoneId = zone_id,
                   ve_status = (if code = CodeApplied then ValveApplied else ValveFailed),
                   ve_code = code, ve_readback = Some r\<rparr>)))"

text \<open>The loop over the planned zones: the commands sent so far are kept also when a later command
  cannot be built.\<close>

fun drive_valves :: "valve_env \<Rightarrow> stored_irrigation \<Rightarrow> irrigation_authority \<Rightarrow> (string \<times> valve_readback) list
    \<Rightarrow> (string \<times> irrigation_item) list \<Rightarrow> valve_result list result \<times> valve_command list" where
  "drive_valves env stored authority observed [] = (Inr [], [])"
| "drive_valves env stored authority observed ((zone_id, item) # rest) =
     (case map_of observed zone_id of
        None \<Rightarrow> (Inl KeyError, [])
      | Some before \<Rightarrow>
         (let c = valve_command_of env stored authority zone_id item before in
          if \<not> valid_valve_command c then (Inl ValidationError, [])
          else case drive_valves env stored authority observed rest of
                 (r, sent) \<Rightarrow>
                   (bind_res r (\<lambda>results. Inr (valve_result_of c zone_id before (le_worker env c) # results)),
                    c # sent)))"

definition receipt_status_of :: "valve_result list \<Rightarrow> receipt_status result" where
  "receipt_status_of results =
     (let states = remdups (map ve_status results) in
      if set states = {ValveApplied} then Inr ReceiptApplied
      else if length states > 1 then Inr ReceiptPartial
      else case states of
             [] \<Rightarrow> Inl StopIteration
           | v # _ \<Rightarrow> Inr (case v of ValveApplied \<Rightarrow> ReceiptApplied | ValveFailed \<Rightarrow> ReceiptFailed
                                   | ValveUnknown \<Rightarrow> ReceiptUnknown))"

definition receipt_status_text :: "receipt_status \<Rightarrow> string" where
  "receipt_status_text s = (case s of ReceiptApplied \<Rightarrow> ''applied'' | ReceiptPartial \<Rightarrow> ''partial''
     | ReceiptFailed \<Rightarrow> ''failed'' | ReceiptUnknown \<Rightarrow> ''unknown'')"

text \<open>What follows the commands: the receipt and its audit entry.\<close>

definition make_receipt :: "valve_env \<Rightarrow> stored_irrigation \<Rightarrow> irrigation_authority \<Rightarrow> int \<Rightarrow> valve_result list
    \<Rightarrow> irrigation_audit \<Rightarrow> (irrigation_receipt \<times> irrigation_audit) result" where
  "make_receipt env stored authority now results audit =
     bind_res (receipt_status_of results) (\<lambda>status.
       let plan = st_plan stored;
           receipt = \<lparr>it_requestId = st_request_id stored, it_planId = gl_planId plan, it_status = status,
                      it_results = results, it_completedAtMs = now\<rparr>
       in if \<not> valid_irrigation_receipt receipt then Inl ValidationError
          else bind_res (irrigation_audit_append (le_audit env) AuditResult (gl_policyId plan)
                 (gl_policyRevision plan) (ga_accountId authority) (st_request_id stored)
                 (receipt_status_text status) (le_receipt_hash env receipt) now audit)
               (\<lambda>audit'. Inr (receipt, audit')))"

definition irrigation_confirm :: "valve_env \<Rightarrow> irrigation_authority raw \<Rightarrow> string \<Rightarrow> string \<Rightarrow> int
    \<Rightarrow> irrigation_coordinator \<Rightarrow> irrigation_receipt result \<times> irrigation_coordinator" where
  "irrigation_confirm env rawAuthority previewId confirmToken now s =
     (case map_of (co_previews s) previewId of
        None \<Rightarrow> (Inl bad_request, s)
      | Some stored \<Rightarrow>
          if \<not> is_ascii confirmToken then (Inl TypeError, s)
          else if st_token stored \<noteq> confirmToken then (Inl bad_request, s)
          else (case irrigation_live env rawAuthority (Some (st_plan stored)) of
             Inl e \<Rightarrow> (Inl e, s)
           | Inr (authority, plan, _) \<Rightarrow>
              (case map_of (co_receipts s) (st_request_id stored) of
                 Some old \<Rightarrow> (Inr old, s)
               | None \<Rightarrow>
                  if now > st_expires_at stored \<or> now < gl_generatedAtMs plan then (Inl bad_request, s)
                  else (case ensure_capacity 1 (co_audit s) of
                     Inl e \<Rightarrow> (Inl e, s)
                   | Inr _ \<Rightarrow>
                      (case drive_valves env stored authority (observed_valves (st_readbacks stored))
                              (sort_key fst (planned_items plan)) of
                         (r, sent) \<Rightarrow>
                           (case bind_res r (\<lambda>results. make_receipt env stored authority now results (co_audit s)) of
                              Inl e \<Rightarrow> (Inl e, s\<lparr>co_sent := co_sent s @ sent\<rparr>)
                            | Inr (receipt, audit) \<Rightarrow>
                                (Inr receipt,
                                 s\<lparr>co_sent := co_sent s @ sent, co_audit := audit,
                                   co_receipts := AList.update (st_request_id stored) receipt (co_receipts s)\<rparr>)))))))"


section \<open>The audit chain verifies\<close>

text \<open>An audit is sound when \<open>restore\<close> would rebuild it from its events.\<close>

definition audit_sound :: "audit_hashes \<Rightarrow> irrigation_audit \<Rightarrow> bool" where
  "audit_sound h a \<longleftrightarrow>
     is_identity (ad_chain a) \<and> list_all valid_irrigation_event (ad_events a) \<and>
     int (length (ad_events a)) \<le> ad_limit a \<and> is_snapshot (ad_head a) \<and>
     (\<exists>a0. new_irrigation_audit (ad_coreId a) (ad_homeId a) (ad_limit a) (ad_chain a) = Inr a0 \<and>
           fold_res (restore_step h) (ad_events a) a0 = Inr a)"

lemma zero_snapshot: "is_snapshot ZERO"
  by code_simp

lemma new_audit_sound:
  assumes "new_irrigation_audit coreId homeId maxEvents chainId = Inr a" and "is_identity chainId"
  shows "audit_sound h a"
  using assms zero_snapshot
  by (auto simp: new_irrigation_audit_def audit_sound_def split: if_splits)

text \<open>An event the contract accepts can always be appended below the limit.\<close>

definition auditable :: "string \<Rightarrow> int \<Rightarrow> string \<Rightarrow> string \<Rightarrow> string \<Rightarrow> string \<Rightarrow> int \<Rightarrow> bool" where
  "auditable policyId policyRevision actor requestId status payloadHash atMs =
     (is_identity policyId \<and> is_revision policyRevision \<and> is_identity actor \<and> is_identity requestId \<and>
      status_text status \<and> is_snapshot payloadHash \<and> is_timestamp atMs)"

lemma audit_append_ok:
  assumes "audit_sound h a" and "ensure_capacity 1 a = Inr ()" and "\<And>b. is_snapshot (ah_event h b)"
    and "auditable policyId policyRevision actor requestId status payloadHash atMs"
  shows "\<exists>a'. irrigation_audit_append h kind policyId policyRevision actor requestId status payloadHash atMs a = Inr a'"
proof -
  have "int (length (ad_events a)) + 1 \<le> 16384" "is_identity (ad_coreId a)" "is_identity (ad_homeId a)"
    "is_snapshot (ad_head a)"
    using assms(1,2) by (auto simp: audit_sound_def ensure_capacity_def new_irrigation_audit_def split: if_splits)
  then show ?thesis
    using assms(2-4) by (simp add: irrigation_audit_append_def Let_def valid_irrigation_event_def auditable_def)
qed

lemma audit_append_sound:
  assumes "audit_sound h a" and "\<And>b. is_snapshot (ah_event h b)"
    and "irrigation_audit_append h kind policyId policyRevision actor requestId status payloadHash atMs a = Inr a'"
  shows "audit_sound h a'"
proof -
  obtain a0 where a0: "new_irrigation_audit (ad_coreId a) (ad_homeId a) (ad_limit a) (ad_chain a) = Inr a0"
    "fold_res (restore_step h) (ad_events a) a0 = Inr a" using assms(1) by (auto simp: audit_sound_def)
  define e where "e = \<lparr>ie_body = \<lparr>ib_sequence = int (length (ad_events a)) + 1, ib_kind = kind,
    ib_coreId = ad_coreId a, ib_homeId = ad_homeId a, ib_policyId = policyId, ib_policyRevision = policyRevision,
    ib_actorAccountId = actor, ib_requestId = requestId, ib_status = status, ib_payloadHash = payloadHash,
    ib_atMs = atMs, ib_previousHash = ad_head a\<rparr>, ie_entryHash = ah_event h \<lparr>ib_sequence = int (length (ad_events a)) + 1,
    ib_kind = kind, ib_coreId = ad_coreId a, ib_homeId = ad_homeId a, ib_policyId = policyId,
    ib_policyRevision = policyRevision, ib_actorAccountId = actor, ib_requestId = requestId, ib_status = status,
    ib_payloadHash = payloadHash, ib_atMs = atMs, ib_previousHash = ad_head a\<rparr>\<rparr>"
  have a': "a' = a\<lparr>ad_events := ad_events a @ [e], ad_head := ie_entryHash e\<rparr>" "valid_irrigation_event e"
    "int (length (ad_events a)) + 1 \<le> ad_limit a"
    using assms(3) by (auto simp: irrigation_audit_append_def Let_def e_def bind_res_Inr_iff ensure_capacity_def
        split: if_splits)
  have "restore_step h e a = Inr a'" using a'(1) by (simp add: restore_step_def Let_def e_def)
  then have "fold_res (restore_step h) (ad_events a @ [e]) a0 = Inr a'" by (simp add: fold_res_append a0(2))
  then show ?thesis
    using assms(1,2) a0(1) a' by (simp add: audit_sound_def e_def)
qed

lemma audit_sound_restores:
  assumes "audit_sound h a"
  shows "irrigation_audit_restore h (audit_export_of h a) (ad_coreId a) (ad_homeId a) (ad_limit a) = Inr a"
proof -
  obtain a0 where a0: "new_irrigation_audit (ad_coreId a) (ad_homeId a) (ad_limit a) (ad_chain a) = Inr a0"
    "fold_res (restore_step h) (ad_events a) a0 = Inr a" using assms by (auto simp: audit_sound_def)
  have "validate_all valid_irrigation_event (map Some (ad_events a)) = Some (ad_events a)"
    using assms by (simp add: validate_all_Some_iff audit_sound_def)
  then show ?thesis
    using assms a0 by (simp add: irrigation_audit_restore_def audit_export_of_def audit_sound_def)
qed

text \<open>The audits that can exist: a new one, and what \<open>append\<close> makes of one.\<close>

inductive audit_written :: "audit_hashes \<Rightarrow> irrigation_audit \<Rightarrow> bool" for h where
  written_new: "new_irrigation_audit coreId homeId maxEvents chainId = Inr a \<Longrightarrow> is_identity chainId \<Longrightarrow> audit_written h a"
| written_append: "audit_written h a \<Longrightarrow>
    irrigation_audit_append h kind policyId policyRevision actor requestId status payloadHash atMs a = Inr a' \<Longrightarrow>
    audit_written h a'"

lemma audit_written_sound:
  "audit_written h a \<Longrightarrow> (\<And>b. is_snapshot (ah_event h b)) \<Longrightarrow> audit_sound h a"
  by (induction rule: audit_written.induct) (auto intro: new_audit_sound audit_append_sound)


text \<open>The restored events form a hash chain.\<close>

abbreviation irrigation_linked :: "audit_hashes \<Rightarrow> irrigation_audit_event list \<Rightarrow> bool" where
  "irrigation_linked h \<equiv> linked (\<lambda>e. ah_event h (ie_body e)) (\<lambda>e. ib_previousHash (ie_body e)) ie_entryHash ZERO"

interpretation irrigation_chain: hash_chain "\<lambda>e :: irrigation_audit_event. ah_event h (ie_body e)" "\<lambda>e. ib_previousHash (ie_body e)"
    ie_entryHash ie_body for h
proof
  fix e f :: irrigation_audit_event
  assume "ie_body e = ie_body f" and "ie_entryHash e = ie_entryHash f"
  then show "e = f" by (cases e; cases f) simp
qed simp

lemma restore_steps:
  assumes "fold_res (restore_step h) events a = Inr a'"
    and "irrigation_linked h (ad_events a)" and "ad_head a = tip ie_entryHash ZERO (ad_events a)"
  shows "ad_events a' = ad_events a @ events \<and> irrigation_linked h (ad_events a') \<and>
    ad_head a' = tip ie_entryHash ZERO (ad_events a')"
  using assms
proof (induction events arbitrary: a)
  case (Cons e es)
  obtain a1 where a1: "restore_step h e a = Inr a1" "fold_res (restore_step h) es a1 = Inr a'"
    using Cons.prems(1) by (auto simp: bind_res_Inr_iff)
  have s: "a1 = a\<lparr>ad_events := ad_events a @ [e], ad_head := ie_entryHash e\<rparr>"
    "ib_previousHash (ie_body e) = ad_head a" "ie_entryHash e = ah_event h (ie_body e)"
    using a1(1) by (auto simp: restore_step_def Let_def split: if_splits)
  have "irrigation_linked h (ad_events a1)"
    using irrigation_chain.append_linked [OF Cons.prems(2), of e] s Cons.prems(3) by simp
  moreover have "ad_head a1 = tip ie_entryHash ZERO (ad_events a1)" using s(1) by simp
  ultimately have ih: "ad_events a' = ad_events a1 @ es \<and> irrigation_linked h (ad_events a') \<and>
      ad_head a' = tip ie_entryHash ZERO (ad_events a')" by (rule Cons.IH [OF a1(2)])
  have eq: "ad_events a1 @ es = ad_events a @ e # es" using s(1) by simp
  show ?case using ih unfolding eq .
qed simp

lemma restore_linked:
  assumes "irrigation_audit_restore h x coreId homeId maxEvents = Inr a"
  shows "irrigation_linked h (ad_events a)" "ad_head a = tip ie_entryHash ZERO (ad_events a)"
    "ax_events x = map Some (ad_events a)" "ax_headHash x = ad_head a"
proof -
  obtain events a0 where run: "validate_all valid_irrigation_event (ax_events x) = Some events"
    "new_irrigation_audit coreId homeId maxEvents (ax_chainId x) = Inr a0"
    "fold_res (restore_step h) events a0 = Inr a" "ax_headHash x = ad_head a"
    using assms by (auto simp: irrigation_audit_restore_def bind_res_Inr_iff split: if_splits option.splits sum.splits)
  have a0: "ad_events a0 = []" "ad_head a0 = ZERO"
    using run(2) by (auto simp: new_irrigation_audit_def split: if_splits)
  have "ad_events a = ad_events a0 @ events \<and> irrigation_linked h (ad_events a) \<and>
      ad_head a = tip ie_entryHash ZERO (ad_events a)"
    by (rule restore_steps [OF run(3)]) (simp_all add: a0)
  then show "irrigation_linked h (ad_events a)" "ad_head a = tip ie_entryHash ZERO (ad_events a)"
    and "ax_events x = map Some (ad_events a)"
    using a0 run(1) by (auto simp only: validate_all_Some_iff append.simps)
  show "ax_headHash x = ad_head a" by (rule run(4))
qed

text \<open>The exported audit is tamper evident: two documents with the same head hash that both
  restore hold the same events, as long as the event digests do not collide on them and do not hit the
  initial hash.\<close>

theorem irrigation_audit_tamper_evident:
  assumes "irrigation_audit_restore h x coreId homeId maxEvents = Inr a"
    and "irrigation_audit_restore h y coreId' homeId' maxEvents' = Inr b"
    and "ax_headHash x = ax_headHash y"
    and "\<forall>e \<in> set (ad_events a). \<forall>f \<in> set (ad_events b).
      ah_event h (ie_body e) = ah_event h (ie_body f) \<longrightarrow> ie_body e = ie_body f"
    and "\<forall>e \<in> set (ad_events a) \<union> set (ad_events b). ah_event h (ie_body e) \<noteq> ZERO"
  shows "ax_events x = ax_events y"
proof -
  note a = restore_linked [OF assms(1)] and b = restore_linked [OF assms(2)]
  have "tip ie_entryHash ZERO (ad_events a) = tip ie_entryHash ZERO (ad_events b)"
    using a(2,4) b(2,4) assms(3) by simp
  then have "ad_events a = ad_events b"
    by (rule irrigation_chain.same_tip_same_chain [OF a(1) b(1) _ assms(4,5)])
  then show ?thesis using a(3) b(3) by simp
qed


section \<open>Commands\<close>

lemma dict_by_snoc: "dict_by key (xs @ [x]) = AList.update (key x) x (dict_by key xs)"
  by (simp add: dict_by_def)

lemma update_list_facts:
  "length (AList.update k v d) \<le> Suc (length d)"
  "p \<in> set (AList.update k v d) \<Longrightarrow> p = (k, v) \<or> p \<in> set d"
  "fst ` set (AList.update k v d) = insert k (fst ` set d)"
  by (induction d) (auto split: if_splits)

lemma dict_by_facts:
  "distinct (map fst (dict_by key xs)) \<and> fst ` set (dict_by key xs) = key ` set xs \<and>
   length (dict_by key xs) \<le> length xs \<and> (\<forall>(k, v) \<in> set (dict_by key xs). v \<in> set xs \<and> key v = k)"
proof (induction xs rule: rev_induct)
  case (snoc x xs)
  show ?case
    unfolding dict_by_snoc
  proof (intro conjI)
    show "distinct (map fst (AList.update (key x) x (dict_by key xs)))" using snoc by (simp add: distinct_update)
    show "fst ` set (AList.update (key x) x (dict_by key xs)) = key ` set (xs @ [x])" using snoc by (simp add: update_list_facts(3))
    show "length (AList.update (key x) x (dict_by key xs)) \<le> length (xs @ [x])"
      using snoc update_list_facts(1) [of "key x" x "dict_by key xs"] by simp
    show "\<forall>(k, v) \<in> set (AList.update (key x) x (dict_by key xs)). v \<in> set (xs @ [x]) \<and> key v = k"
      using snoc by (auto dest!: update_list_facts(2))
  qed
qed (simp add: dict_by_def)

lemmas dict_by_distinct = dict_by_facts [THEN conjunct1]
  and dict_by_keys = dict_by_facts [THEN conjunct2, THEN conjunct1]
  and dict_by_length = dict_by_facts [THEN conjunct2, THEN conjunct2, THEN conjunct1]

lemma dict_by_member: "(k, v) \<in> set (dict_by key xs) \<Longrightarrow> v \<in> set xs \<and> key v = k"
  using dict_by_facts [of key xs] by blast

lemma map_of_dict_by: "map_of (dict_by key xs) k = Some v \<Longrightarrow> v \<in> set xs \<and> key v = k"
  by (drule map_of_SomeD) (rule dict_by_member)

text \<open>The plan resolver answers with plans the planner made, and the digests are hexadecimal.\<close>

definition planner_made :: "irrigation_plan \<Rightarrow> bool" where
  "planner_made plan \<longleftrightarrow> (\<exists>env authority policy soil safety forecast budget now overrides.
     irrigation_plan_of env authority policy soil safety forecast budget now overrides = Inr plan)"

definition valve_env_ok :: "valve_env \<Rightarrow> bool" where
  "valve_env_ok env \<longleftrightarrow>
     (\<forall>pid plan. le_plan env pid = Found (Some plan) \<longrightarrow> planner_made plan) \<and>
     (\<forall>p. is_snapshot (le_plan_hash env p)) \<and> (\<forall>r. is_snapshot (le_receipt_hash env r)) \<and>
     (\<forall>c. is_snapshot (le_command_hash env c)) \<and> (\<forall>b. is_snapshot (ah_event (le_audit env) b))"

lemma planner_made_items:
  assumes "planner_made plan"
  shows "valid_irrigation_plan plan" "list_all item_ok (gl_items plan)"
    "distinct (map (zn_zoneId \<circ> gi_zone) (gl_items plan))"
    "gl_totalWaterMl plan = (\<Sum>it\<leftarrow>gl_items plan. gi_estimatedWaterMl it)"
proof -
  obtain env rawAuthority rawPolicy rawSoil rawSafety rawForecast rawBudget now rawOverrides where
    run: "irrigation_plan_of env rawAuthority rawPolicy rawSoil rawSafety rawForecast rawBudget now rawOverrides
      = Inr plan" using assms by (auto simp: planner_made_def)
  obtain authority policy i active items where parts: "irrigation_policy_of env rawPolicy = Inr policy"
    "irrigation_inputs_of rawSoil rawSafety rawForecast rawBudget rawOverrides now = Inr i"
    "active_overrides authority policy now (gn_overrides i) = Inr active"
    "plan_zones policy i active now (sort_key zn_zoneId (gp_zones policy))
       (wb_dailyLimitMl (gn_budget i) - wb_usedMl (gn_budget i)) = Inr items"
    "plan = irrigation_plan_build env authority policy i active now items" "valid_irrigation_plan plan"
    by (rule irrigation_plan_of_Inr [OF run])
  show "valid_irrigation_plan plan" by (rule parts(6))
  have items: "gl_items plan = items" by (simp add: parts(5) irrigation_plan_build_def Let_def)
  note ok = irrigation_plan_items_ok [OF parts(1-4)]
  show "list_all item_ok (gl_items plan)" using ok(2) items by simp
  have "unique_on zn_zoneId (gp_zones policy)"
    using parts(1) by (auto simp: irrigation_policy_of_Inr valid_irrigation_policy_def unique_zones_def)
  then show "distinct (map (zn_zoneId \<circ> gi_zone) (gl_items plan))"
    unfolding items by (rule sorted_zones_distinct [OF ok(1)])
  show "gl_totalWaterMl plan = (\<Sum>it\<leftarrow>gl_items plan. gi_estimatedWaterMl it)"
    by (simp add: parts(5) irrigation_plan_build_def Let_def)
qed

lemma resolved_Some: "resolved valid l = Some v \<longleftrightarrow> l = Found (Some v) \<and> valid v"
  by (auto simp: resolved_def split: lookup.splits)

lemma irrigation_live_Inr:
  assumes "irrigation_live env rawAuthority rawPlan = Inr (authority, plan, policy)"
  shows "rawAuthority = Some authority" "rawPlan = Some plan" "valid_irrigation_authority authority"
    "irrigation_admin authority" "le_authority env (ga_accountId authority) = Found (Some authority)"
    "le_plan env (gl_planId plan) = Found (Some plan)" "valid_irrigation_plan plan"
    "le_policy env (gl_policyId plan) = Found (Some policy)" "valid_irrigation_policy policy"
    "le_policy_hash env policy = gl_policyHash plan" "gl_actorAccountId plan = ga_accountId authority"
  using assms
  by (auto simp: irrigation_live_def resolved_Some split: option.splits if_splits)

lemma planned_items_member:
  assumes "planner_made plan" and "(z, item) \<in> set (planned_items plan)"
  shows "zn_zoneId (gi_zone item) = z" "valid_irrigation_item item" "item_ok item" "gi_status item = Planned"
    "item \<in> set (gl_items plan)"
proof -
  have m: "item \<in> set (filter (\<lambda>it. gi_status it = Planned) (gl_items plan))" "zn_zoneId (gi_zone item) = z"
    using dict_by_member [OF assms(2) [unfolded planned_items_def]] by auto
  then show "zn_zoneId (gi_zone item) = z" "gi_status item = Planned" "item \<in> set (gl_items plan)" by auto
  then show "valid_irrigation_item item" "item_ok item"
    using planner_made_items [OF assms(1)] by (simp_all add: valid_irrigation_plan_def list_all_iff)
qed

text \<open>What a stored preview promises.\<close>

definition stored_ok :: "stored_irrigation \<Rightarrow> bool" where
  "stored_ok st \<longleftrightarrow>
     is_identity (st_request_id st) \<and> planner_made (st_plan st) \<and>
     list_all valid_valve_readback (st_readbacks st) \<and>
     (\<exists>t. check_readbacks (st_plan st) (st_readbacks st) t = Inr ())"

lemma check_readbacks_Inr:
  assumes "check_readbacks plan readbacks now = Inr ()"
  shows "planned_items plan \<noteq> []" "fst ` set (observed_valves readbacks) = fst ` set (planned_items plan)"
    "map_of (observed_valves readbacks) z = Some r \<Longrightarrow> map_of (planned_items plan) z = Some item \<Longrightarrow>
       vr_zone r = gi_zone item \<and> vr_observedAtMs r \<le> now \<and> \<not> vr_valveOpen r"
proof -
  have c: "planned_items plan \<noteq> [] \<and> fst ` set (observed_valves readbacks) = fst ` set (planned_items plan) \<and>
    \<not> list_ex (\<lambda>(zone_id, r).
                (case map_of (planned_items plan) zone_id of
                   None \<Rightarrow> True
                 | Some item \<Rightarrow> (vr_coreId r, vr_homeId r, vr_zone r)
                     \<noteq> (gl_coreId plan, gl_homeId plan, gi_zone item))
                \<or> vr_observedAtMs r > now \<or> vr_valveOpen r) (observed_valves readbacks)"
    using assms by (simp add: check_readbacks_def Let_def if_Inl_eq_Inr del: if_split)
  then show "planned_items plan \<noteq> []" "fst ` set (observed_valves readbacks) = fst ` set (planned_items plan)"
    by simp_all
  show "vr_zone r = gi_zone item \<and> vr_observedAtMs r \<le> now \<and> \<not> vr_valveOpen r"
    if "map_of (observed_valves readbacks) z = Some r" "map_of (planned_items plan) z = Some item"
    using c that map_of_SomeD [OF that(1)] by (auto simp: list_ex_iff)
qed

abbreviation before_of :: "stored_irrigation \<Rightarrow> string \<Rightarrow> valve_readback" where
  "before_of st z \<equiv> the (map_of (observed_valves (st_readbacks st)) z)"

definition sent_for :: "valve_env \<Rightarrow> stored_irrigation \<Rightarrow> irrigation_authority \<Rightarrow> string \<times> irrigation_item
    \<Rightarrow> valve_command" where
  "sent_for env st authority zi = valve_command_of env st authority (fst zi) (snd zi) (before_of st (fst zi))"

definition result_for :: "valve_env \<Rightarrow> stored_irrigation \<Rightarrow> irrigation_authority \<Rightarrow> string \<times> irrigation_item
    \<Rightarrow> valve_result" where
  "result_for env st authority zi =
     valve_result_of (sent_for env st authority zi) (fst zi) (before_of st (fst zi))
       (le_worker env (sent_for env st authority zi))"

lemma drive_valves_all:
  assumes "\<forall>zi \<in> set zis. map_of (observed_valves (st_readbacks st)) (fst zi) \<noteq> None \<and>
    valid_valve_command (sent_for env st authority zi)"
  shows "drive_valves env st authority (observed_valves (st_readbacks st)) zis =
    (Inr (map (result_for env st authority) zis), map (sent_for env st authority) zis)"
  using assms by (induction zis) (auto simp: sent_for_def result_for_def Let_def)

lemma before_of_valid:
  assumes "stored_ok st" and "z \<in> fst ` set (planned_items (st_plan st))"
  shows "map_of (observed_valves (st_readbacks st)) z = Some (before_of st z)" "valid_valve_readback (before_of st z)"
proof -
  obtain t where "check_readbacks (st_plan st) (st_readbacks st) t = Inr ()"
    using assms(1) by (auto simp: stored_ok_def)
  note keys = check_readbacks_Inr(2) [OF this]
  have "map_of (observed_valves (st_readbacks st)) z \<noteq> None" using assms(2) keys by (simp add: map_of_eq_None_iff)
  then show 1: "map_of (observed_valves (st_readbacks st)) z = Some (before_of st z)" by auto
  show "valid_valve_readback (before_of st z)"
    using map_of_dict_by [OF 1 [unfolded observed_valves_def]] assms(1)
    by (auto simp: stored_ok_def list_all_iff observed_valves_def)
qed

lemma sent_for_valid:
  assumes "stored_ok st" and "valve_env_ok env" and "valid_irrigation_authority authority"
    and "zi \<in> set (planned_items (st_plan st))"
  shows "map_of (observed_valves (st_readbacks st)) (fst zi) \<noteq> None" "valid_valve_command (sent_for env st authority zi)"
proof -
  obtain z item where zi: "zi = (z, item)" by fastforce
  have made: "planner_made (st_plan st)" using assms(1) by (simp add: stored_ok_def)
  note it = planned_items_member [OF made assms(4) [unfolded zi]]
  have "fst zi \<in> fst ` set (planned_items (st_plan st))" using assms(4) by simp
  note b = before_of_valid [OF assms(1) this]
  show "map_of (observed_valves (st_readbacks st)) (fst zi) \<noteq> None"
    using b(1) by (metis option.distinct(1))
  have hash: "is_identity (take 32 (le_command_hash env c))" for c
    using assms(2) by (simp add: valve_env_ok_def take_snapshot)
  have zone: "valid_zone (gi_zone item)" using it(2) by (simp add: valid_irrigation_item_def)
  have dur: "between 1 7200 (gi_durationSeconds item)" "between 1 10000000000 (gi_estimatedWaterMl item)"
    using it(2-4) by (auto simp: item_ok_def valid_irrigation_item_def water_for_def)
  show "valid_valve_command (sent_for env st authority zi)"
    using assms(1,3) b(2) hash zone dur planner_made_items(1) [OF made]
    by (simp add: zi sent_for_def valve_command_of_def Let_def valid_valve_command_def stored_ok_def
        valid_irrigation_plan_def valid_irrigation_authority_def valid_valve_readback_def)
qed


section \<open>Reachable coordinators\<close>

text \<open>Resolvers and the worker may answer differently at every call; the audit digest is fixed. The
  clock stays within the representable time stamps.\<close>

inductive irrigation_step :: "audit_hashes \<Rightarrow> irrigation_coordinator \<Rightarrow> irrigation_coordinator \<Rightarrow> bool" for h where
  preview_step: "valve_env_ok env \<Longrightarrow> le_audit env = h \<Longrightarrow> now \<le> 2 ^ 63 - 1 \<Longrightarrow>
    irrigation_step h s (snd (irrigation_preview_of env pid token rawAuthority rawPlan rawReadbacks rid now s))"
| confirm_step: "valve_env_ok env \<Longrightarrow> le_audit env = h \<Longrightarrow> now \<le> 2 ^ 63 - 1 \<Longrightarrow>
    irrigation_step h s (snd (irrigation_confirm env rawAuthority pid token now s))"

definition coordinator_inv :: "audit_hashes \<Rightarrow> irrigation_coordinator \<Rightarrow> bool" where
  "coordinator_inv h s \<longleftrightarrow> audit_sound h (co_audit s) \<and> (\<forall>(k, st) \<in> set (co_previews s). stored_ok st)"

lemma coordinator_inv_stored:
  "coordinator_inv h s \<Longrightarrow> map_of (co_previews s) pid = Some st \<Longrightarrow> stored_ok st"
  by (drule map_of_SomeD) (auto simp: coordinator_inv_def)

lemma receipt_status_total: "results \<noteq> [] \<Longrightarrow> \<exists>status. receipt_status_of results = Inr status"
  by (auto simp: receipt_status_of_def Let_def split: list.split)

lemma receipt_status_applied:
  assumes "receipt_status_of results = Inr ReceiptApplied" and "v \<in> set results"
  shows "ve_status v = ValveApplied"
proof -
  have "set states = {ValveApplied}"
    if "(if set states = {ValveApplied} then Inr ReceiptApplied
         else if length states > 1 then Inr ReceiptPartial
         else case states of
                [] \<Rightarrow> Inl StopIteration
              | v # _ \<Rightarrow> Inr (case v of ValveApplied \<Rightarrow> ReceiptApplied | ValveFailed \<Rightarrow> ReceiptFailed
                                      | ValveUnknown \<Rightarrow> ReceiptUnknown)) = Inr ReceiptApplied" for states
    using that by (cases states) (auto split: if_splits valve_status.splits)
  from this [OF assms(1) [unfolded receipt_status_of_def Let_def]]
  have "ve_status ` set results = {ValveApplied}" by simp
  then show ?thesis using assms(2) by blast
qed

lemma receipt_text: "status_text (receipt_status_text status)"
  by (cases status) (simp_all add: status_text_def receipt_status_text_def)

lemma result_for_valid:
  assumes "valve_env_ok env" and "is_identity (fst zi)"
  shows "is_identity (ve_commandId (result_for env st authority zi)) \<and>
    is_identity (ve_zoneId (result_for env st authority zi)) \<and>
    (case ve_readback (result_for env st authority zi) of None \<Rightarrow> True | Some b \<Rightarrow> valid_worker_readback b)"
proof -
  have "is_identity (vc_commandId (sent_for env st authority zi))"
    using assms(1) by (simp add: sent_for_def valve_command_of_def Let_def valve_env_ok_def take_snapshot)
  then show ?thesis
    using assms(2)
    by (auto simp: result_for_def valve_result_of_def Let_def resolved_Some split: lookup.splits option.splits)
qed

abbreviation plan_zis :: "irrigation_plan \<Rightarrow> (string \<times> irrigation_item) list" where
  "plan_zis plan \<equiv> sort_key fst (planned_items plan)"

lemma plan_zis_facts:
  assumes "stored_ok st"
  shows "plan_zis (st_plan st) \<noteq> []" "length (plan_zis (st_plan st)) \<le> 32"
    "distinct (map fst (plan_zis (st_plan st)))"
    "zi \<in> set (plan_zis (st_plan st)) \<Longrightarrow> is_identity (fst zi) \<and> zn_zoneId (gi_zone (snd zi)) = fst zi"
proof -
  have made: "planner_made (st_plan st)" using assms by (simp add: stored_ok_def)
  show "plan_zis (st_plan st) \<noteq> []"
  proof -
    obtain t where "check_readbacks (st_plan st) (st_readbacks st) t = Inr ()" using assms by (auto simp: stored_ok_def)
    note ne = check_readbacks_Inr(1) [OF this]
    show ?thesis by (metis length_0_conv length_sort ne)
  qed
  have "length (planned_items (st_plan st)) \<le> length (gl_items (st_plan st))"
    using dict_by_length [of "zn_zoneId \<circ> gi_zone" "filter (\<lambda>it. gi_status it = Planned) (gl_items (st_plan st))"]
      length_filter_le [of "\<lambda>it. gi_status it = Planned" "gl_items (st_plan st)"]
    unfolding planned_items_def by (rule order_trans)
  then show "length (plan_zis (st_plan st)) \<le> 32"
    using planner_made_items(1) [OF made] by (simp add: valid_irrigation_plan_def)
  show "distinct (map fst (plan_zis (st_plan st)))"
    using dict_by_distinct [of "zn_zoneId \<circ> gi_zone" "filter (\<lambda>it. gi_status it = Planned) (gl_items (st_plan st))"]
      unique_on_sort_key [of fst fst "planned_items (st_plan st)"]
    by (simp add: unique_on_def planned_items_def)
  show "is_identity (fst zi) \<and> zn_zoneId (gi_zone (snd zi)) = fst zi" if "zi \<in> set (plan_zis (st_plan st))"
    using planned_items_member [OF made, of "fst zi" "snd zi"] that
    by (auto simp: valid_irrigation_item_def valid_zone_def)
qed

lemma make_receipt_ok:
  assumes "stored_ok st" and "valve_env_ok env" and "valid_irrigation_authority authority"
    and "audit_sound (le_audit env) audit" and "ensure_capacity 1 audit = Inr ()"
    and "gl_generatedAtMs (st_plan st) \<le> now" and "now \<le> 2 ^ 63 - 1"
    and "results = map (result_for env st authority) (plan_zis (st_plan st))"
  shows "\<exists>receipt audit'. make_receipt env st authority now results audit = Inr (receipt, audit') \<and>
    audit_sound (le_audit env) audit'"
proof -
  have made: "valid_irrigation_plan (st_plan st)" using assms(1) planner_made_items(1) by (simp add: stored_ok_def)
  note z = plan_zis_facts [OF assms(1)]
  obtain status where status: "receipt_status_of results = Inr status"
    using receipt_status_total [of results] assms(8) z(1) by auto
  define receipt where "receipt = \<lparr>it_requestId = st_request_id st, it_planId = gl_planId (st_plan st),
    it_status = status, it_results = results, it_completedAtMs = now\<rparr>"
  have now: "is_timestamp now" using made assms(6,7) by (simp add: valid_irrigation_plan_def is_timestamp_def)
  have "list_all (\<lambda>v. is_identity (ve_commandId v) \<and> is_identity (ve_zoneId v) \<and>
      (case ve_readback v of None \<Rightarrow> True | Some b \<Rightarrow> valid_worker_readback b)) results"
    unfolding assms(8) list_all_iff using result_for_valid [OF assms(2)] z(4) by fastforce
  moreover have "1 \<le> length results" "length results \<le> 32"
    using z(1,2) assms(8) by (simp_all add: Suc_le_eq del: length_sort)
  ultimately have valid: "valid_irrigation_receipt receipt"
    using assms(1) made now
    by (simp add: receipt_def valid_irrigation_receipt_def stored_ok_def valid_irrigation_plan_def)
  have hash: "is_snapshot (ah_event (le_audit env) b)" for b using assms(2) by (simp add: valve_env_ok_def)
  have "auditable (gl_policyId (st_plan st)) (gl_policyRevision (st_plan st)) (ga_accountId authority)
      (st_request_id st) (receipt_status_text status) (le_receipt_hash env receipt) now"
    using assms(1-3) made now receipt_text
    by (simp add: auditable_def stored_ok_def valid_irrigation_plan_def valid_irrigation_authority_def valve_env_ok_def)
  then obtain audit' where a: "irrigation_audit_append (le_audit env) AuditResult (gl_policyId (st_plan st))
      (gl_policyRevision (st_plan st)) (ga_accountId authority) (st_request_id st) (receipt_status_text status)
      (le_receipt_hash env receipt) now audit = Inr audit'"
    using audit_append_ok [OF assms(4,5) hash] by blast
  have "make_receipt env st authority now results audit = Inr (receipt, audit')"
    using status valid a by (simp add: make_receipt_def Let_def receipt_def)
  then show ?thesis using audit_append_sound [OF assms(4) hash a] by blast
qed

text \<open>A confirmation that passes every guard completes.\<close>

lemma irrigation_confirm_sends:
  assumes "coordinator_inv h s" and "valve_env_ok env" and "le_audit env = h" and "now \<le> 2 ^ 63 - 1"
    and "map_of (co_previews s) pid = Some st" and "is_ascii token" and "st_token st = token"
    and "irrigation_live env rawAuthority (Some (st_plan st)) = Inr (authority, st_plan st, policy)"
    and "map_of (co_receipts s) (st_request_id st) = None"
    and "gl_generatedAtMs (st_plan st) \<le> now" and "now \<le> st_expires_at st" and "ensure_capacity 1 (co_audit s) = Inr ()"
  shows "\<exists>receipt audit.
    make_receipt env st authority now (map (result_for env st authority) (plan_zis (st_plan st))) (co_audit s)
      = Inr (receipt, audit) \<and> audit_sound h audit \<and>
    irrigation_confirm env rawAuthority pid token now s =
      (Inr receipt, s\<lparr>co_sent := co_sent s @ map (sent_for env st authority) (plan_zis (st_plan st)),
         co_audit := audit, co_receipts := AList.update (st_request_id st) receipt (co_receipts s)\<rparr>)"
proof -
  have st: "stored_ok st" by (rule coordinator_inv_stored [OF assms(1,5)])
  have auth: "valid_irrigation_authority authority" using irrigation_live_Inr [OF assms(8)] by simp
  have audit: "audit_sound (le_audit env) (co_audit s)" using assms(1,3) by (simp add: coordinator_inv_def)
  obtain receipt audit' where m: "make_receipt env st authority now
      (map (result_for env st authority) (plan_zis (st_plan st))) (co_audit s) = Inr (receipt, audit')"
    "audit_sound (le_audit env) audit'"
    using make_receipt_ok [OF st assms(2) auth audit assms(12,10,4) refl] by blast
  have "drive_valves env st authority (observed_valves (st_readbacks st)) (plan_zis (st_plan st)) =
      (Inr (map (result_for env st authority) (plan_zis (st_plan st))),
       map (sent_for env st authority) (plan_zis (st_plan st)))"
    by (rule drive_valves_all) (use sent_for_valid [OF st assms(2) auth] in simp)
  then have "irrigation_confirm env rawAuthority pid token now s =
       (Inr receipt, s\<lparr>co_sent := co_sent s @ map (sent_for env st authority) (plan_zis (st_plan st)),
          co_audit := audit', co_receipts := AList.update (st_request_id st) receipt (co_receipts s)\<rparr>)"
    using assms(5-12) m(1) by (simp add: irrigation_confirm_def)
  with m assms(3) show ?thesis by (intro exI [of _ receipt] exI [of _ audit']) simp
qed

text \<open>A confirmation changes nothing, or sends one command per planned zone of a preview whose
  request has no receipt yet, and stores the receipt.\<close>

lemma irrigation_confirm_cases:
  assumes "coordinator_inv h s" and "valve_env_ok env" and "le_audit env = h" and "now \<le> 2 ^ 63 - 1"
  obtains (same) "snd (irrigation_confirm env rawAuthority pid token now s) = s"
    "\<And>r. fst (irrigation_confirm env rawAuthority pid token now s) = Inr r \<Longrightarrow>
       \<exists>st. map_of (co_previews s) pid = Some st \<and> map_of (co_receipts s) (st_request_id st) = Some r"
  | (sent) st authority policy receipt audit where
    "map_of (co_previews s) pid = Some st" "st_token st = token"
    "irrigation_live env rawAuthority (Some (st_plan st)) = Inr (authority, st_plan st, policy)"
    "map_of (co_receipts s) (st_request_id st) = None"
    "gl_generatedAtMs (st_plan st) \<le> now" "now \<le> st_expires_at st"
    "make_receipt env st authority now (map (result_for env st authority) (plan_zis (st_plan st))) (co_audit s)
       = Inr (receipt, audit)"
    "irrigation_confirm env rawAuthority pid token now s =
       (Inr receipt, s\<lparr>co_sent := co_sent s @ map (sent_for env st authority) (plan_zis (st_plan st)),
          co_audit := audit, co_receipts := AList.update (st_request_id st) receipt (co_receipts s)\<rparr>)"
    "audit_sound h audit"
proof (cases "\<exists>st authority policy. map_of (co_previews s) pid = Some st \<and> is_ascii token \<and> st_token st = token \<and>
    irrigation_live env rawAuthority (Some (st_plan st)) = Inr (authority, st_plan st, policy) \<and>
    map_of (co_receipts s) (st_request_id st) = None \<and> \<not> (now > st_expires_at st \<or> now < gl_generatedAtMs (st_plan st)) \<and>
    ensure_capacity 1 (co_audit s) = Inr ()")
  case True
  then obtain st authority policy where c': "map_of (co_previews s) pid = Some st" "is_ascii token" "st_token st = token"
    "irrigation_live env rawAuthority (Some (st_plan st)) = Inr (authority, st_plan st, policy)"
    "map_of (co_receipts s) (st_request_id st) = None"
    "\<not> (now > st_expires_at st \<or> now < gl_generatedAtMs (st_plan st))" "ensure_capacity 1 (co_audit s) = Inr ()"
    by (elim exE conjE) (rule that)
  from c'(6) have "gl_generatedAtMs (st_plan st) \<le> now" "now \<le> st_expires_at st" by simp_all
  note c = c'(1-5) this c'(7)
  obtain receipt audit where m: "make_receipt env st authority now
      (map (result_for env st authority) (plan_zis (st_plan st))) (co_audit s) = Inr (receipt, audit)"
    "audit_sound h audit"
    "irrigation_confirm env rawAuthority pid token now s =
      (Inr receipt, s\<lparr>co_sent := co_sent s @ map (sent_for env st authority) (plan_zis (st_plan st)),
         co_audit := audit, co_receipts := AList.update (st_request_id st) receipt (co_receipts s)\<rparr>)"
    using irrigation_confirm_sends [OF assms c] by (elim exE conjE) (rule that)
  show thesis by (rule sent [OF c(1,3,4,5,6,7) m(1,3,2)])
next
  case False
  have stored: "plan = st_plan st" if "irrigation_live env rawAuthority (Some (st_plan st)) = Inr (a, plan, p)"
    for st a plan p using irrigation_live_Inr(2) [OF that] by simp
  show thesis
  proof (rule same)
    show "snd (irrigation_confirm env rawAuthority pid token now s) = s"
      using False
      by (auto simp: irrigation_confirm_def dest: stored split: option.splits sum.splits prod.splits)
    show "\<exists>st. map_of (co_previews s) pid = Some st \<and> map_of (co_receipts s) (st_request_id st) = Some r"
      if "fst (irrigation_confirm env rawAuthority pid token now s) = Inr r" for r
      using False that
      by (auto simp: irrigation_confirm_def dest: stored split: option.splits sum.splits prod.splits if_splits)
  qed
qed


lemma irrigation_preview_cases:
  fixes env pid token rawAuthority rawPlan rawReadbacks rid now s
  defines "s' \<equiv> snd (irrigation_preview_of env pid token rawAuthority rawPlan rawReadbacks rid now s)"
  assumes "coordinator_inv h s" and "valve_env_ok env" and "le_audit env = h"
  shows "co_sent s' = co_sent s \<and> co_receipts s' = co_receipts s \<and> coordinator_inv h s'"
proof (cases "s' = s")
  case True
  then show ?thesis using assms(2) by simp
next
  case False
  then obtain authority plan policy readbacks where l: "irrigation_live env rawAuthority rawPlan = Inr (authority, plan, policy)"
    "validate_all valid_valve_readback rawReadbacks = Some readbacks" "is_identity rid"
    "check_readbacks plan readbacks now = Inr ()"
    "s' = snd (irrigation_preview_locked env pid token authority plan policy readbacks rid now s)"
    unfolding s'_def irrigation_preview_of_def by (auto split: sum.splits option.splits if_splits)
  define st where "st = \<lparr>st_authority = authority, st_plan = plan, st_readbacks = readbacks,
    st_request_id = rid, st_token = token, st_expires_at = now + gp_previewTtlMs policy\<rparr>"
  obtain audit where a: "irrigation_audit_append (le_audit env) AuditPreview (gl_policyId plan) (gl_policyRevision plan)
      (ga_accountId authority) rid ''accepted'' (le_plan_hash env plan) now (co_audit s) = Inr audit"
    "s' = s\<lparr>co_audit := audit, co_previews := AList.update pid st (co_previews s),
      co_request_previews := AList.update rid pid (co_request_previews s)\<rparr>"
    using False l(5) unfolding irrigation_preview_locked_def Let_def st_def
    by (auto split: option.splits sum.splits if_splits)
  have "planner_made plan" using irrigation_live_Inr(6) [OF l(1)] assms(3) by (simp add: valve_env_ok_def)
  then have "stored_ok st" using l(2-4) by (auto simp: stored_ok_def st_def validate_all_Some_iff)
  moreover have "audit_sound h audit"
    by (rule audit_append_sound [of h "co_audit s"]) (use assms(2-4) a(1) in \<open>auto simp: coordinator_inv_def valve_env_ok_def\<close>)
  ultimately show ?thesis
    using assms(2) a(2) by (auto simp: coordinator_inv_def dest!: update_list_facts(2))
qed

lemma irrigation_step_inv:
  assumes "irrigation_step h s t" and "coordinator_inv h s"
  shows "coordinator_inv h t"
  using assms(1)
proof cases
  case (preview_step env now pid token rawAuthority rawPlan rawReadbacks rid)
  then show ?thesis using irrigation_preview_cases [OF assms(2)] by simp
next
  case (confirm_step env now rawAuthority pid token)
  from assms(2) confirm_step(2-4) show ?thesis
  proof (cases rule: irrigation_confirm_cases [where rawAuthority = rawAuthority and pid = pid and token = token])
    case same
    then show ?thesis using confirm_step(1) assms(2) by simp
  next
    case (sent st authority policy receipt audit)
    then show ?thesis using confirm_step(1) assms(2) by (simp add: coordinator_inv_def)
  qed
qed

lemma sent_for_fields:
  "vc_requestId (sent_for env st authority zi) = st_request_id st"
  "vc_zone (sent_for env st authority zi) = gi_zone (snd zi)"
  "vc_durationSeconds (sent_for env st authority zi) = gi_durationSeconds (snd zi)"
  "vc_expectedWaterMl (sent_for env st authority zi) = gi_estimatedWaterMl (snd zi)"
  "vc_planId (sent_for env st authority zi) = gl_planId (st_plan st)"
  "vc_actorAccountId (sent_for env st authority zi) = ga_accountId authority"
  "vc_expectedStateRevision (sent_for env st authority zi) = vr_stateRevision (before_of st (fst zi))"
  by (simp_all add: sent_for_def valve_command_of_def Let_def)

lemma sent_targets:
  assumes "stored_ok st"
  shows "map (\<lambda>c. zn_zoneId (vc_zone c)) (map (sent_for env st authority) (plan_zis (st_plan st))) =
    map fst (plan_zis (st_plan st))"
  using plan_zis_facts(4) [OF assms] by (simp add: sent_for_fields)

interpretation valves: dispatch_log "irrigation_step h" "coordinator_inv h" co_sent vc_requestId
    "\<lambda>c. zn_zoneId (vc_zone c)" "\<lambda>s. fst ` set (co_receipts s)" for h
proof
  fix s t
  show "irrigation_step h s t \<Longrightarrow> coordinator_inv h s \<Longrightarrow> coordinator_inv h t" by (rule irrigation_step_inv)
  assume inv: "coordinator_inv h s" and "irrigation_step h s t"
  from this(2) show "fst ` set (co_receipts s) \<subseteq> fst ` set (co_receipts t) \<and>
    (co_sent t = co_sent s \<or>
     (\<exists>r cs. r \<notin> fst ` set (co_receipts s) \<and> r \<in> fst ` set (co_receipts t) \<and> co_sent t = co_sent s @ cs \<and>
        (\<forall>c \<in> set cs. vc_requestId c = r) \<and> distinct (map (\<lambda>c. zn_zoneId (vc_zone c)) cs)))"
  proof cases
    case (preview_step env now pid token rawAuthority rawPlan rawReadbacks rid)
    then show ?thesis using irrigation_preview_cases [OF inv] by simp
  next
    case (confirm_step env now rawAuthority pid token)
    from inv confirm_step(2-4) show ?thesis
    proof (cases rule: irrigation_confirm_cases [where rawAuthority = rawAuthority and pid = pid and token = token])
      case same
      then show ?thesis using confirm_step(1) by simp
    next
      case (sent st authority policy receipt audit)
      have st: "stored_ok st" by (rule coordinator_inv_stored [OF inv sent(1)])
      let ?cs = "map (sent_for env st authority) (plan_zis (st_plan st))"
      have t: "co_sent t = co_sent s @ ?cs" "fst ` set (co_receipts t) = insert (st_request_id st) (fst ` set (co_receipts s))"
        using sent(8) confirm_step(1) by (simp_all add: update_list_facts(3))
      moreover have "st_request_id st \<notin> fst ` set (co_receipts s)" using sent(4) by (simp add: map_of_eq_None_iff)
      moreover have "\<forall>c \<in> set ?cs. vc_requestId c = st_request_id st" by (auto simp: sent_for_fields)
      moreover have "distinct (map (\<lambda>c. zn_zoneId (vc_zone c)) ?cs)"
        unfolding sent_targets [OF st] by (rule plan_zis_facts(3) [OF st])
      ultimately show ?thesis
        by (intro conjI disjI2 exI [of _ "st_request_id st"] exI [of _ ?cs]) (simp_all only: t(2), auto)
    qed
  qed
qed

text \<open>C12: No valve is driven twice for one request. From a new coordinator with a sound audit,
  after any sequence of previews and confirmations, repeated, interleaved and with workers that answer,
  fail or stay silent, the commands sent have pairwise different pairs of request and zone, and every
  request with a command has its receipt stored.\<close>

theorem valves_driven_once:
  assumes "new_irrigation_coordinator audit maxReceipts = Inr s0" and "audit_sound h audit"
    and "(irrigation_step h)\<^sup>*\<^sup>* s0 s"
  shows "distinct (map (\<lambda>c. (vc_requestId c, zn_zoneId (vc_zone c))) (co_sent s)) \<and>
    vc_requestId ` set (co_sent s) \<subseteq> fst ` set (co_receipts s)"
proof -
  have "coordinator_inv h s0" "co_sent s0 = []"
    using assms(1,2) by (auto simp: new_irrigation_coordinator_def coordinator_inv_def split: if_splits)
  then show ?thesis by (rule valves.sent_once [OF assms(3)])
qed


lemma dict_by_distinct_list:
  assumes "distinct (map key xs)"
  shows "dict_by key xs = map (\<lambda>x. (key x, x)) xs"
  using assms
proof (induction xs rule: rev_induct)
  case (snoc x xs)
  then show ?case by (simp add: dict_by_snoc update_fresh image_image)
qed (simp add: dict_by_def)

lemma sum_list_sort_key': "sum_list (map f (sort_key g xs)) = sum_list (map f xs :: int list)"
  by (metis mset_map mset_sort sum_mset_sum_list)

text \<open>The water that a plan's commands ask for is the plan's total.\<close>

lemma commanded_water:
  assumes "planner_made plan"
  shows "(\<Sum>zi\<leftarrow>plan_zis plan. gi_estimatedWaterMl (snd zi)) = gl_totalWaterMl plan"
proof -
  let ?ps = "filter (\<lambda>it. gi_status it = Planned) (gl_items plan)"
  have "distinct (map (zn_zoneId \<circ> gi_zone) ?ps)"
    using planner_made_items(3) [OF assms] by (rule distinct_map_filter)
  then have "planned_items plan = map (\<lambda>it. ((zn_zoneId \<circ> gi_zone) it, it)) ?ps"
    unfolding planned_items_def by (rule dict_by_distinct_list)
  then have "(\<Sum>zi\<leftarrow>plan_zis plan. gi_estimatedWaterMl (snd zi)) = (\<Sum>it\<leftarrow>?ps. gi_estimatedWaterMl it)"
    by (simp add: sum_list_sort_key' comp_def)
  also have "\<dots> = (\<Sum>it\<leftarrow>gl_items plan. gi_estimatedWaterMl it)"
    using planner_made_items(2) [OF assms]
    by (intro sum_list_map_filter) (auto simp: list_all_iff item_ok_def split: if_splits)
  finally show ?thesis using planner_made_items(4) [OF assms] by simp
qed

text \<open>C13: A confirmation drives the valves only under every guard of the boundary, and exactly as
  planned. When one sends commands at all, it names a stored preview by its identifier and token within
  the preview's window, the request has no receipt yet, the acting administrator, the plan and the policy
  are the current ones, and each command waters one planned zone of that plan, whose valve was read
  closed, for the planned time and amount; together the commands ask for the plan's total, no more.\<close>

theorem irrigation_confirm_guarded:
  assumes "new_irrigation_coordinator audit maxReceipts = Inr s0" and "audit_sound h audit"
    and "(irrigation_step h)\<^sup>*\<^sup>* s0 s" and "valve_env_ok env" and "le_audit env = h" and "now \<le> 2 ^ 63 - 1"
    and "co_sent (snd (irrigation_confirm env rawAuthority pid token now s)) = co_sent s @ cs" and "cs \<noteq> []"
  shows "\<exists>st authority policy. map_of (co_previews s) pid = Some st \<and> st_token st = token \<and>
    gl_generatedAtMs (st_plan st) \<le> now \<and> now \<le> st_expires_at st \<and>
    map_of (co_receipts s) (st_request_id st) = None \<and>
    rawAuthority = Some authority \<and> irrigation_admin authority \<and>
    le_authority env (ga_accountId authority) = Found (Some authority) \<and>
    gl_actorAccountId (st_plan st) = ga_accountId authority \<and>
    le_plan env (gl_planId (st_plan st)) = Found (Some (st_plan st)) \<and>
    le_policy env (gl_policyId (st_plan st)) = Found (Some policy) \<and>
    le_policy_hash env policy = gl_policyHash (st_plan st) \<and>
    (\<Sum>c\<leftarrow>cs. vc_expectedWaterMl c) = gl_totalWaterMl (st_plan st) \<and>
    (\<forall>c \<in> set cs. \<exists>item \<in> set (gl_items (st_plan st)). \<exists>r \<in> set (st_readbacks st).
       gi_status item = Planned \<and> vc_zone c = gi_zone item \<and> vc_durationSeconds c = gi_durationSeconds item \<and>
       vc_expectedWaterMl c = gi_estimatedWaterMl item \<and> vr_zone r = gi_zone item \<and> \<not> vr_valveOpen r \<and>
       vc_expectedStateRevision c = vr_stateRevision r)"
proof -
  have "coordinator_inv h s0"
    using assms(1,2) by (auto simp: new_irrigation_coordinator_def coordinator_inv_def split: if_splits)
  then have inv: "coordinator_inv h s" by (rule valves.steps_inv [OF assms(3)])
  from inv assms(4-6) show ?thesis
  proof (cases rule: irrigation_confirm_cases [where rawAuthority = rawAuthority and pid = pid and token = token])
    case same
    then show ?thesis using assms(7,8) by simp
  next
    case (sent st authority policy receipt audit')
    have st: "stored_ok st" by (rule coordinator_inv_stored [OF inv sent(1)])
    have made: "planner_made (st_plan st)" using st by (simp add: stored_ok_def)
    have cs: "cs = map (sent_for env st authority) (plan_zis (st_plan st))" using assms(7) sent(8) by simp
    have water: "(\<Sum>c\<leftarrow>cs. vc_expectedWaterMl c) = gl_totalWaterMl (st_plan st)"
      using commanded_water [OF made] by (simp add: cs sent_for_fields comp_def)
    have each: "\<exists>item \<in> set (gl_items (st_plan st)). \<exists>r \<in> set (st_readbacks st).
       gi_status item = Planned \<and> vc_zone c = gi_zone item \<and> vc_durationSeconds c = gi_durationSeconds item \<and>
       vc_expectedWaterMl c = gi_estimatedWaterMl item \<and> vr_zone r = gi_zone item \<and> \<not> vr_valveOpen r \<and>
       vc_expectedStateRevision c = vr_stateRevision r" if c: "c \<in> set cs" for c
    proof -
      obtain z item where zi: "(z, item) \<in> set (planned_items (st_plan st))" "c = sent_for env st authority (z, item)"
        using c by (auto simp: cs)
      have "z \<in> fst ` set (planned_items (st_plan st))" using zi(1) by force
      note b = before_of_valid(1) [OF st this]
      obtain t where "check_readbacks (st_plan st) (st_readbacks st) t = Inr ()" using st by (auto simp: stored_ok_def)
      moreover have "map_of (planned_items (st_plan st)) z = Some item"
        unfolding planned_items_def by (rule map_of_is_SomeI [OF dict_by_distinct zi(1) [unfolded planned_items_def]])
      ultimately have closed: "vr_zone (before_of st z) = gi_zone item" "\<not> vr_valveOpen (before_of st z)"
        using check_readbacks_Inr(3) [OF _ b] by blast+
      have "before_of st z \<in> set (st_readbacks st)"
        using map_of_dict_by b by (fastforce simp: observed_valves_def)
      then show ?thesis
        using closed planned_items_member(4,5) [OF made zi(1)] zi(2)
        by (intro bexI [of _ item] bexI [of _ "before_of st z"]) (simp_all add: sent_for_fields)
    qed
    show ?thesis
      using sent(1-6) irrigation_live_Inr [OF sent(3)] water each
      by (intro exI [of _ st] exI [of _ authority] exI [of _ policy]) auto
  qed
qed

lemma valve_result_applied:
  assumes "ve_status (valve_result_of c z before answer) = ValveApplied"
  shows "\<exists>r. answer = Found (Some r) \<and> wr_commandId r = vc_commandId c \<and> wr_zone r = vc_zone c \<and>
    vr_stateRevision before < wr_stateRevision r \<and> \<not> wr_valveOpen r \<and> wr_flowVerified r \<and> 0 < wr_deliveredMl r \<and>
    vc_expectedWaterMl c * 80 div 100 \<le> wr_deliveredMl r \<and> wr_deliveredMl r \<le> vc_expectedWaterMl c * 110 div 100"
  using assms
  by (auto simp: valve_result_of_def Let_def resolved_Some split: lookup.splits option.splits if_splits)

text \<open>A receipt that says applied means verified irrigation: for every command of the
  request the worker answered with a readback of that very command and zone, newer than the state the plan
  was previewed on, with the valve closed again and a verified flow between 80 and 110 per cent of the
  planned water.\<close>

theorem irrigation_applied_verified:
  assumes "coordinator_inv h s" and "valve_env_ok env" and "le_audit env = h" and "now \<le> 2 ^ 63 - 1"
    and "irrigation_confirm env rawAuthority pid token now s = (Inr receipt, s')"
    and "it_status receipt = ReceiptApplied" and "co_sent s' = co_sent s @ cs" and "c \<in> set cs"
  shows "\<exists>r. le_worker env c = Found (Some r) \<and> wr_commandId r = vc_commandId c \<and> wr_zone r = vc_zone c \<and>
    vc_expectedStateRevision c < wr_stateRevision r \<and> \<not> wr_valveOpen r \<and> wr_flowVerified r \<and> 0 < wr_deliveredMl r \<and>
    vc_expectedWaterMl c * 80 div 100 \<le> wr_deliveredMl r \<and> wr_deliveredMl r \<le> vc_expectedWaterMl c * 110 div 100"
  using assms(1-4)
proof (cases rule: irrigation_confirm_cases [where rawAuthority = rawAuthority and pid = pid and token = token])
  case same
  then show ?thesis using assms(5,7,8) by simp
next
  case (sent st authority policy receipt' audit)
  let ?results = "map (result_for env st authority) (plan_zis (st_plan st))"
  have "receipt' = receipt" "cs = map (sent_for env st authority) (plan_zis (st_plan st))"
    using sent(8) assms(5,7) by simp_all
  then obtain zi where zi: "zi \<in> set (plan_zis (st_plan st))" "c = sent_for env st authority zi"
    and "receipt_status_of ?results = Inr ReceiptApplied"
    using assms(6,8) sent(7) by (auto simp: make_receipt_def bind_res_Inr_iff Let_def split: if_splits)
  then have "ve_status (result_for env st authority zi) = ValveApplied"
    by (intro receipt_status_applied [of ?results]) simp_all
  then show ?thesis
    using valve_result_applied [of c "fst zi" "before_of st (fst zi)" "le_worker env c"]
      sent_for_fields(7) [of env st authority zi] zi(2)
    by (auto simp: result_for_def)
qed


section \<open>A confirmed preview completes\<close>

lemma token_ascii: "is_token t \<Longrightarrow> is_ascii t"
proof -
  have small: "(of_char c :: nat) < 128" if "c \<in> set ''_-''" for c using that by auto
  show ?thesis if "is_token t"
    using that small by (fastforce simp: is_token_def is_ascii_def list_all_iff Let_def)
qed

lemma irrigation_preview_stores:
  assumes "coordinator_inv h s" and "valve_env_ok env" and "le_audit env = h"
    and "irrigation_live env rawAuthority rawPlan = Inr (authority, plan, policy)"
    and "list_all valid_valve_readback readbacks" and "is_identity rid" and "is_identity pid" and "is_token token"
    and "gl_generatedAtMs plan \<le> now" and "check_readbacks plan readbacks now = Inr ()"
    and "now + gp_previewTtlMs policy \<le> 2 ^ 63 - 1"
    and "map_of (co_request_previews s) rid = None" and "int (length (co_previews s)) < co_limit s"
    and "ensure_capacity 1 (co_audit s) = Inr ()"
  shows "\<exists>audit. irrigation_preview_of env pid token rawAuthority rawPlan (map Some readbacks) rid now s =
    (Inr \<lparr>iv_previewId = pid, iv_confirmToken = token, iv_requestId = rid, iv_planId = gl_planId plan,
          iv_policyRevision = gl_policyRevision plan, iv_expiresAtMs = now + gp_previewTtlMs policy,
          iv_commandCount = int (length (planned_items plan))\<rparr>,
     s\<lparr>co_audit := audit,
       co_previews := AList.update pid \<lparr>st_authority = authority, st_plan = plan, st_readbacks = readbacks,
         st_request_id = rid, st_token = token, st_expires_at = now + gp_previewTtlMs policy\<rparr> (co_previews s),
       co_request_previews := AList.update rid pid (co_request_previews s)\<rparr>) \<and>
    length (ad_events audit) = length (ad_events (co_audit s)) + 1 \<and> ad_limit audit = ad_limit (co_audit s)"
proof -
  note live = irrigation_live_Inr [OF assms(4)]
  have made: "planner_made plan" using live(6) assms(2) by (simp add: valve_env_ok_def)
  define st where "st = \<lparr>st_authority = authority, st_plan = plan, st_readbacks = readbacks,
         st_request_id = rid, st_token = token, st_expires_at = now + gp_previewTtlMs policy\<rparr>"
  have st: "stored_ok st" "st_plan st = plan" using made assms(5,6,10) by (auto simp: st_def stored_ok_def)
  have n: "1 \<le> length (planned_items plan)" "length (planned_items plan) \<le> 32"
    using plan_zis_facts(2) [OF st(1)] check_readbacks_Inr(1) [OF assms(10)] st(2) by (simp_all add: Suc_le_eq)
  have t: "is_timestamp now" "is_timestamp (now + gp_previewTtlMs policy)"
    using live(7,9) assms(9,11)
    by (auto simp: valid_irrigation_plan_def is_timestamp_def valid_irrigation_policy_def)
  have hash: "is_snapshot (ah_event h b)" for b using assms(2,3) by (auto simp: valve_env_ok_def)
  have "status_text ''accepted''" by (simp add: status_text_def)
  then have "auditable (gl_policyId plan) (gl_policyRevision plan) (ga_accountId authority) rid ''accepted''
      (le_plan_hash env plan) now"
    using live(3,7) assms(2,6) t(1)
    by (simp add: auditable_def valid_irrigation_plan_def valid_irrigation_authority_def valve_env_ok_def)
  moreover have "audit_sound h (co_audit s)" using assms(1) by (simp add: coordinator_inv_def)
  ultimately obtain audit where a: "irrigation_audit_append h AuditPreview (gl_policyId plan) (gl_policyRevision plan)
      (ga_accountId authority) rid ''accepted'' (le_plan_hash env plan) now (co_audit s) = Inr audit"
    using audit_append_ok [OF _ assms(14) hash] by blast
  have len: "length (ad_events audit) = length (ad_events (co_audit s)) + 1" "ad_limit audit = ad_limit (co_audit s)"
    using a by (auto simp: irrigation_audit_append_def bind_res_Inr_iff Let_def split: if_splits)
  have "validate_all valid_valve_readback (map Some readbacks) = Some readbacks"
    using assms(5) by (simp add: validate_all_Some_iff)
  moreover have "valid_irrigation_preview \<lparr>iv_previewId = pid, iv_confirmToken = token, iv_requestId = rid,
      iv_planId = gl_planId plan, iv_policyRevision = gl_policyRevision plan,
      iv_expiresAtMs = now + gp_previewTtlMs policy, iv_commandCount = int (length (planned_items plan))\<rparr>"
    using live(7) assms(6-8) t(2) n by (simp add: valid_irrigation_preview_def valid_irrigation_plan_def)
  ultimately show ?thesis
    using assms(3,4,6,9,10,12,13) a len
    by (intro exI [of _ audit])
      (simp add: irrigation_preview_of_def irrigation_preview_locked_def preview_made_def Let_def)
qed

text \<open>C14: A confirmed plan is carried out. When an administrator previews a current plan with
  valid readbacks of closed valves under a new request, while the coordinator and its audit have room, the
  preview is given; confirming it with its token inside its window, with administrator, policy and plan
  unchanged, answers with a receipt that has one result for every planned zone of the plan, in order, however
  the worker behaves.\<close>

theorem irrigation_preview_confirm:
  assumes "new_irrigation_coordinator audit maxReceipts = Inr s0" and "audit_sound h audit"
    and "(irrigation_step h)\<^sup>*\<^sup>* s0 s" and "valve_env_ok env" and "le_audit env = h"
    and "irrigation_live env rawAuthority (Some plan) = Inr (authority, plan, policy)"
    and "list_all valid_valve_readback readbacks" and "is_identity rid" and "is_identity pid" and "is_token token"
    and "gl_generatedAtMs plan \<le> now" and "check_readbacks plan readbacks now = Inr ()"
    and "now \<le> later" and "later \<le> now + gp_previewTtlMs policy" and "now + gp_previewTtlMs policy \<le> 2 ^ 63 - 1"
    and "map_of (co_request_previews s) rid = None" and "map_of (co_receipts s) rid = None"
    and "int (length (co_previews s)) < co_limit s" and "int (length (ad_events (co_audit s))) + 2 \<le> ad_limit (co_audit s)"
  shows "\<exists>pv s1 receipt s2.
    irrigation_preview_of env pid token rawAuthority (Some plan) (map Some readbacks) rid now s = (Inr pv, s1) \<and>
    irrigation_confirm env rawAuthority (iv_previewId pv) (iv_confirmToken pv) later s1 = (Inr receipt, s2) \<and>
    it_requestId receipt = rid \<and> map ve_zoneId (it_results receipt) = map fst (sort_key fst (planned_items plan))"
proof -
  have "coordinator_inv h s0"
    using assms(1,2) by (auto simp: new_irrigation_coordinator_def coordinator_inv_def split: if_splits)
  then have inv: "coordinator_inv h s" by (rule valves.steps_inv [OF assms(3)])
  have room: "ensure_capacity 1 (co_audit s) = Inr ()" using assms(19) by (simp add: ensure_capacity_def)
  define st where "st = \<lparr>st_authority = authority, st_plan = plan, st_readbacks = readbacks,
         st_request_id = rid, st_token = token, st_expires_at = now + gp_previewTtlMs policy\<rparr>"
  obtain audit' where p: "irrigation_preview_of env pid token rawAuthority (Some plan) (map Some readbacks) rid now s =
    (Inr \<lparr>iv_previewId = pid, iv_confirmToken = token, iv_requestId = rid, iv_planId = gl_planId plan,
          iv_policyRevision = gl_policyRevision plan, iv_expiresAtMs = now + gp_previewTtlMs policy,
          iv_commandCount = int (length (planned_items plan))\<rparr>,
     s\<lparr>co_audit := audit', co_previews := AList.update pid st (co_previews s),
       co_request_previews := AList.update rid pid (co_request_previews s)\<rparr>)"
    "length (ad_events audit') = length (ad_events (co_audit s)) + 1" "ad_limit audit' = ad_limit (co_audit s)"
    using irrigation_preview_stores [OF inv assms(4-12,15,16,18) room, folded st_def] by (elim exE conjE) (rule that)
  let ?s1 = "s\<lparr>co_audit := audit', co_previews := AList.update pid st (co_previews s),
       co_request_previews := AList.update rid pid (co_request_previews s)\<rparr>"
  have inv1: "coordinator_inv h ?s1"
    using irrigation_preview_cases [OF inv assms(4,5), of pid token rawAuthority "Some plan" "map Some readbacks" rid now]
      p(1) by simp
  have c: "map_of (co_previews ?s1) pid = Some st" "st_token st = token" "st_plan st = plan" "st_request_id st = rid"
    "st_expires_at st = now + gp_previewTtlMs policy"
    by (simp_all add: st_def update_conv')
  have "\<exists>receipt audit. make_receipt env st authority later
      (map (result_for env st authority) (plan_zis (st_plan st))) (co_audit ?s1) = Inr (receipt, audit) \<and>
    audit_sound h audit \<and>
    irrigation_confirm env rawAuthority pid token later ?s1 =
      (Inr receipt, ?s1\<lparr>co_sent := co_sent ?s1 @ map (sent_for env st authority) (plan_zis (st_plan st)),
         co_audit := audit, co_receipts := AList.update (st_request_id st) receipt (co_receipts ?s1)\<rparr>)"
    by (rule irrigation_confirm_sends [OF inv1 assms(4,5) _ c(1) token_ascii [OF assms(10)] c(2)])
      (use assms(6,11,13,14,15,17,19) c p(2,3) in \<open>simp_all add: ensure_capacity_def\<close>)
  then obtain receipt audit'' where r: "make_receipt env st authority later
      (map (result_for env st authority) (plan_zis plan)) audit' = Inr (receipt, audit'')"
    "fst (irrigation_confirm env rawAuthority pid token later ?s1) = Inr receipt"
    unfolding c(3) by (elim exE conjE) (rule that, simp_all)
  have "it_requestId receipt = rid" "it_results receipt = map (result_for env st authority) (plan_zis plan)"
    using r(1) c(4) by (auto simp: make_receipt_def bind_res_Inr_iff Let_def split: if_splits)
  moreover have "ve_zoneId (result_for env st authority zi) = fst zi" for zi
    by (simp add: result_for_def valve_result_of_def Let_def split: lookup.split option.split)
  ultimately have ids: "it_requestId receipt = rid" "map ve_zoneId (it_results receipt) = map fst (plan_zis plan)"
    by (simp_all add: comp_def)
  obtain s2 where s2: "irrigation_confirm env rawAuthority pid token later ?s1 = (Inr receipt, s2)"
    using r(2) by (metis prod.collapse)
  show ?thesis by (rule exI, rule exI, rule exI [of _ receipt], rule exI [of _ s2], rule conjI [OF p(1)]) (simp add: s2 ids)
qed

section \<open>A concrete run\<close>

definition gar_hashes :: audit_hashes where
  "gar_hashes = \<lparr>ah_event = (\<lambda>b. digest_of (if ib_sequence b = 1 then CHR ''3'' else CHR ''4'')),
     ah_tag = (\<lambda>_ _ _ _ _. digest_of CHR ''5'')\<rparr>"

definition gar_audit :: irrigation_audit where
  "gar_audit = \<lparr>ad_coreId = id_of CHR ''a'', ad_homeId = id_of CHR ''b'', ad_limit = 16, ad_chain = id_of CHR ''9'',
     ad_events = [], ad_head = ZERO\<rparr>"

definition gar_start :: irrigation_coordinator where
  "gar_start = \<lparr>co_limit = 8, co_previews = [], co_request_previews = [], co_receipts = [], co_audit = gar_audit,
     co_sent = []\<rparr>"

definition gar_made :: irrigation_plan where
  "gar_made = irrigation_plan_build gar_env gar_authority gar_policy (gar_inputs [gar_now]) [gar_now] 100000
     (projr (gar_items [gar_now] [gar_now]))"

text \<open>A worker that waters each zone with 90 per cent of the plan and closes the valve.\<close>

definition gar_worker :: "valve_command \<Rightarrow> worker_readback lookup" where
  "gar_worker c = Found (Some \<lparr>wr_commandId = vc_commandId c, wr_zone = vc_zone c,
     wr_stateRevision = vc_expectedStateRevision c + 1, wr_valveOpen = False,
     wr_deliveredMl = vc_expectedWaterMl c * 90 div 100, wr_flowVerified = True, wr_observedAtMs = 130000\<rparr>)"

definition gar_valves :: valve_env where
  "gar_valves = \<lparr>le_authority = (\<lambda>_. Found (Some gar_authority)), le_policy = (\<lambda>_. Found (Some gar_policy)),
     le_plan = (\<lambda>_. Found (Some gar_made)), le_worker = gar_worker,
     le_policy_hash = (\<lambda>_. digest_of CHR ''1''), le_plan_hash = (\<lambda>_. digest_of CHR ''6''),
     le_receipt_hash = (\<lambda>_. digest_of CHR ''7''), le_command_hash = (\<lambda>_. digest_of CHR ''8''),
     le_audit = gar_hashes\<rparr>"

definition gar_closed :: "char \<Rightarrow> valve_readback" where
  "gar_closed c = \<lparr>vr_coreId = id_of CHR ''a'', vr_homeId = id_of CHR ''b'', vr_zone = gar_zone c,
     vr_stateRevision = 5, vr_valveOpen = False, vr_observedAtMs = 105000\<rparr>"

definition gar_token :: string where "gar_token = replicate 43 (CHR ''t'')"

lemma gar_made_plan: "gar_plan [gar_now] = Inr gar_made"
proof -
  have "\<not> isl (gar_items [gar_now] [gar_now])" by code_simp
  then have "gar_items [gar_now] [gar_now] = Inr (projr (gar_items [gar_now] [gar_now]))" by simp
  then show ?thesis
    using gar_planned [OF _ gar_overrides(2)] gar_overrides(1) unfolding gar_made_def by simp
qed

lemma gar_made_by_planner: "planner_made gar_made"
  using gar_made_plan unfolding gar_plan_def planner_made_def by blast

lemma gar_valves_ok: "valve_env_ok gar_valves" "le_audit gar_valves = gar_hashes"
  using gar_made_by_planner
  by (simp_all add: valve_env_ok_def gar_valves_def gar_hashes_def digest_of_def is_snapshot_def lower_hex_def list_all_iff)

lemma gar_live:
  "irrigation_live gar_valves (Some gar_authority) (Some gar_made) = Inr (gar_authority, gar_made, gar_policy)"
proof -
  have v: "valid_irrigation_authority gar_authority" "irrigation_admin gar_authority" "valid_irrigation_policy gar_policy"
    using gar_admitted by (auto simp: irrigation_authority_of_Inr irrigation_policy_of_Inr)
  have m: "gl_coreId gar_made = ga_coreId gar_authority" "gl_homeId gar_made = ga_homeId gar_authority"
    "gl_homeRevision gar_made = ga_homeRevision gar_authority" "gl_actorAccountId gar_made = ga_accountId gar_authority"
    "gl_accountRevision gar_made = ga_accountRevision gar_authority"
    "gl_sessionFamilyId gar_made = ga_sessionFamilyId gar_authority" "gl_policyHash gar_made = digest_of CHR ''1''"
    by (simp_all add: gar_made_def irrigation_plan_build_def Let_def gar_policy_def gar_authority_def gar_env_def)
  show ?thesis
    using v planner_made_items(1) [OF gar_made_by_planner]
    by (simp add: irrigation_live_def gar_valves_def resolved_def model_validate_def m)
qed

lemma gar_audit_sound: "new_irrigation_coordinator gar_audit 8 = Inr gar_start" "audit_sound h gar_audit"
proof -
  show "new_irrigation_coordinator gar_audit 8 = Inr gar_start"
    by (simp add: new_irrigation_coordinator_def gar_start_def)
  have "new_irrigation_audit (id_of CHR ''a'') (id_of CHR ''b'') 16 (id_of CHR ''9'') = Inr gar_audit"
    "is_identity (id_of CHR ''9'')" by code_simp+
  then show "audit_sound h gar_audit" by (rule new_audit_sound)
qed


definition gar_closed_valves :: "valve_readback list" where
  "gar_closed_valves = [gar_closed CHR ''1'', gar_closed CHR ''2'']"

lemma gar_checks:
  "list_all valid_valve_readback gar_closed_valves" "check_readbacks gar_made gar_closed_valves 110000 = Inr ()"
  "is_identity (id_of CHR ''f'')" "is_identity (id_of CHR ''d'')" "is_token gar_token"
  by code_simp+

lemma gar_generated: "gl_generatedAtMs gar_made = 100000" "gp_previewTtlMs gar_policy = 30000"
  by (simp_all add: gar_made_def irrigation_plan_build_def Let_def gar_policy_def)

lemma gar_start_fields [simp]:
  "co_previews gar_start = []" "co_request_previews gar_start = []" "co_receipts gar_start = []"
  "co_limit gar_start = 8" "ad_events (co_audit gar_start) = []" "ad_limit (co_audit gar_start) = 16"
  "co_sent gar_start = []"
  by (simp_all add: gar_start_def gar_audit_def)

lemma irrigation_preview_confirm_witness:
  "\<exists>pv s1 receipt s2.
    irrigation_preview_of gar_valves (id_of CHR ''d'') gar_token (Some gar_authority) (Some gar_made)
      (map Some gar_closed_valves) (id_of CHR ''f'') 110000 gar_start = (Inr pv, s1) \<and>
    irrigation_confirm gar_valves (Some gar_authority) (iv_previewId pv) (iv_confirmToken pv) 120000 s1
      = (Inr receipt, s2) \<and>
    it_requestId receipt = id_of CHR ''f'' \<and>
    map ve_zoneId (it_results receipt) = map fst (sort_key fst (planned_items gar_made))"
  by (rule irrigation_preview_confirm [OF gar_audit_sound(1) gar_audit_sound(2) rtranclp.rtrancl_refl gar_valves_ok gar_live
        gar_checks(1,3,4,5) _ gar_checks(2)])
    (simp_all add: gar_generated)

text \<open>The preview and the confirmation as the coordinator's steps.\<close>

lemma gar_run:
  obtains s1 receipt s2 where
    "irrigation_preview_of gar_valves (id_of CHR ''d'') gar_token (Some gar_authority) (Some gar_made)
      (map Some gar_closed_valves) (id_of CHR ''f'') 110000 gar_start = (Inr \<lparr>iv_previewId = id_of CHR ''d'',
        iv_confirmToken = gar_token, iv_requestId = id_of CHR ''f'', iv_planId = gl_planId gar_made,
        iv_policyRevision = gl_policyRevision gar_made, iv_expiresAtMs = 140000,
        iv_commandCount = int (length (planned_items gar_made))\<rparr>, s1)"
    "irrigation_confirm gar_valves (Some gar_authority) (id_of CHR ''d'') gar_token 120000 s1 = (Inr receipt, s2)"
    "(irrigation_step gar_hashes)\<^sup>*\<^sup>* gar_start s1" "(irrigation_step gar_hashes)\<^sup>*\<^sup>* gar_start s2"
    "coordinator_inv gar_hashes s1" "co_sent s1 = []"
    "map vc_expectedWaterMl (co_sent s2) = [12000, 28000]" "it_status receipt = ReceiptApplied"
proof -
  have inv: "coordinator_inv gar_hashes gar_start"
    using gar_audit_sound(2) by (simp add: coordinator_inv_def) (simp add: gar_start_def)
  have room: "ensure_capacity 1 (co_audit gar_start) = Inr ()" by (simp add: ensure_capacity_def)
  define st where "st = \<lparr>st_authority = gar_authority, st_plan = gar_made, st_readbacks = gar_closed_valves,
         st_request_id = id_of CHR ''f'', st_token = gar_token, st_expires_at = 140000\<rparr>"
  define s1 where "s1 = snd (irrigation_preview_of gar_valves (id_of CHR ''d'') gar_token (Some gar_authority)
    (Some gar_made) (map Some gar_closed_valves) (id_of CHR ''f'') 110000 gar_start)"
  have step1: "irrigation_step gar_hashes gar_start s1"
    unfolding s1_def by (rule preview_step [OF gar_valves_ok]) simp
  have inv1: "coordinator_inv gar_hashes s1" by (rule irrigation_step_inv [OF step1 inv])
  obtain audit where p: "irrigation_preview_of gar_valves (id_of CHR ''d'') gar_token (Some gar_authority) (Some gar_made)
      (map Some gar_closed_valves) (id_of CHR ''f'') 110000 gar_start = (Inr \<lparr>iv_previewId = id_of CHR ''d'',
        iv_confirmToken = gar_token, iv_requestId = id_of CHR ''f'', iv_planId = gl_planId gar_made,
        iv_policyRevision = gl_policyRevision gar_made, iv_expiresAtMs = 140000,
        iv_commandCount = int (length (planned_items gar_made))\<rparr>, s1)"
    "s1 = gar_start\<lparr>co_audit := audit, co_previews := AList.update (id_of CHR ''d'') st [],
       co_request_previews := AList.update (id_of CHR ''f'') (id_of CHR ''d'') []\<rparr>"
    "length (ad_events audit) = 1" "ad_limit audit = 16"
    using irrigation_preview_stores [OF inv gar_valves_ok gar_live gar_checks(1,3,4,5) _ gar_checks(2) _ _ _ room]
    unfolding s1_def by (auto simp: gar_generated st_def)
  have c: "map_of (co_previews s1) (id_of CHR ''d'') = Some st" "st_token st = gar_token" "st_plan st = gar_made"
    by (simp_all add: p(2) st_def)
  obtain receipt audit2 where r: "make_receipt gar_valves st gar_authority 120000
      (map (result_for gar_valves st gar_authority) (plan_zis gar_made)) (co_audit s1) = Inr (receipt, audit2)"
    "irrigation_confirm gar_valves (Some gar_authority) (id_of CHR ''d'') gar_token 120000 s1 =
      (Inr receipt, s1\<lparr>co_sent := co_sent s1 @ map (sent_for gar_valves st gar_authority) (plan_zis gar_made),
         co_audit := audit2, co_receipts := AList.update (st_request_id st) receipt (co_receipts s1)\<rparr>)"
    using irrigation_confirm_sends [OF inv1 gar_valves_ok _ c(1) token_ascii [OF gar_checks(5)] c(2)
        gar_live [folded c(3)], of 120000] c(3) p
    by (auto simp: gar_generated ensure_capacity_def st_def)
  let ?s2 = "snd (irrigation_confirm gar_valves (Some gar_authority) (id_of CHR ''d'') gar_token 120000 s1)"
  have step2: "irrigation_step gar_hashes s1 ?s2" by (rule confirm_step [OF gar_valves_ok]) simp
  have "map (gi_estimatedWaterMl \<circ> snd) (plan_zis gar_made) = [12000, 28000]" by code_simp
  then have water: "map vc_expectedWaterMl (co_sent ?s2) = [12000, 28000]"
    using r(2) p(2) by (simp add: sent_for_fields comp_def)
  have "map (ve_status \<circ> result_for gar_valves st gar_authority) (plan_zis gar_made) = [ValveApplied, ValveApplied]"
    unfolding st_def by code_simp
  then have "receipt_status_of (map (result_for gar_valves st gar_authority) (plan_zis gar_made)) = Inr ReceiptApplied"
    by (simp add: receipt_status_of_def Let_def comp_def)
  then have applied: "it_status receipt = ReceiptApplied"
    using r(1) by (auto simp: make_receipt_def bind_res_Inr_iff Let_def split: if_splits)
  have run2: "irrigation_confirm gar_valves (Some gar_authority) (id_of CHR ''d'') gar_token 120000 s1 = (Inr receipt, ?s2)"
    using r(2) by simp
  show thesis
    by (rule that [OF p(1) run2 _ _ inv1 _ water applied]) (use step1 step2 p(2) in auto)
qed

lemma valves_driven_once_witness:
  "\<exists>s. (irrigation_step gar_hashes)\<^sup>*\<^sup>* gar_start s \<and> map vc_expectedWaterMl (co_sent s) = [12000, 28000] \<and>
     distinct (map (\<lambda>c. (vc_requestId c, zn_zoneId (vc_zone c))) (co_sent s))"
proof -
  obtain s2 where s2: "(irrigation_step gar_hashes)\<^sup>*\<^sup>* gar_start s2" "map vc_expectedWaterMl (co_sent s2) = [12000, 28000]"
    by (rule gar_run)
  from valves_driven_once [OF gar_audit_sound s2(1)]
  have "distinct (map (\<lambda>c. (vc_requestId c, zn_zoneId (vc_zone c))) (co_sent s2))" by (rule conjunct1)
  with s2 show ?thesis by (intro exI [of _ s2] conjI)
qed

lemma irrigation_confirm_guarded_witness:
  "\<exists>s c. (irrigation_step gar_hashes)\<^sup>*\<^sup>* gar_start s \<and>
     c \<in> set (co_sent (snd (irrigation_confirm gar_valves (Some gar_authority) (id_of CHR ''d'') gar_token 120000 s))) \<and>
     (\<exists>st. map_of (co_previews s) (id_of CHR ''d'') = Some st \<and> st_token st = gar_token)"
proof -
  obtain s1 receipt s2 where s: "irrigation_confirm gar_valves (Some gar_authority) (id_of CHR ''d'') gar_token 120000 s1
      = (Inr receipt, s2)" "(irrigation_step gar_hashes)\<^sup>*\<^sup>* gar_start s1" "co_sent s1 = []"
    "map vc_expectedWaterMl (co_sent s2) = [12000, 28000]"
    by (rule gar_run)
  have ne: "co_sent s2 \<noteq> []" using s(4) by auto
  then obtain c where c: "c \<in> set (co_sent s2)" by (cases "co_sent s2") auto
  have sent: "co_sent (snd (irrigation_confirm gar_valves (Some gar_authority) (id_of CHR ''d'') gar_token 120000 s1))
      = co_sent s1 @ co_sent s2" using s by simp
  have clock: "120000 \<le> (2 ^ 63 - 1 :: int)" by simp
  have "\<exists>st. map_of (co_previews s1) (id_of CHR ''d'') = Some st \<and> st_token st = gar_token"
    using irrigation_confirm_guarded [OF gar_audit_sound s(2) gar_valves_ok clock sent ne] by (elim exE conjE) auto
  then show ?thesis using c s by (intro exI [of _ s1] exI [of _ c]) simp
qed

lemma irrigation_applied_verified_witness:
  "\<exists>s receipt s' c r. irrigation_confirm gar_valves (Some gar_authority) (id_of CHR ''d'') gar_token 120000 s
      = (Inr receipt, s') \<and> it_status receipt = ReceiptApplied \<and> c \<in> set (co_sent s') \<and>
     gar_worker c = Found (Some r) \<and> wr_flowVerified r \<and> \<not> wr_valveOpen r"
proof -
  obtain s1 receipt s2 where s: "irrigation_confirm gar_valves (Some gar_authority) (id_of CHR ''d'') gar_token 120000 s1
      = (Inr receipt, s2)" "coordinator_inv gar_hashes s1" "co_sent s1 = []"
    "map vc_expectedWaterMl (co_sent s2) = [12000, 28000]" "it_status receipt = ReceiptApplied"
    by (rule gar_run)
  obtain c where c: "c \<in> set (co_sent s2)" using s(4) by (cases "co_sent s2") auto
  have w: "le_worker gar_valves c = gar_worker c" by (simp add: gar_valves_def)
  have clock: "120000 \<le> (2 ^ 63 - 1 :: int)" by simp
  have sent: "co_sent s2 = co_sent s1 @ co_sent s2" using s(3) by simp
  obtain r where "gar_worker c = Found (Some r)" "wr_flowVerified r" "\<not> wr_valveOpen r"
    using irrigation_applied_verified [OF s(2) gar_valves_ok clock s(1,5) sent c] w by auto
  then show ?thesis using s(1,5) c by (intro exI [of _ s1] exI [of _ receipt] exI [of _ s2] exI [of _ c] exI [of _ r]) simp
qed

definition gar_audit1 :: irrigation_audit where
  "gar_audit1 = projr (irrigation_audit_append gar_hashes AuditPreview (id_of CHR ''e'') 3 (id_of CHR ''c'')
     (id_of CHR ''f'') ''accepted'' (digest_of CHR ''6'') 110000 gar_audit)"

lemma gar_digests: "\<forall>b. is_snapshot (ah_event gar_hashes b)"
  by (simp add: gar_hashes_def digest_of_def is_snapshot_def lower_hex_def list_all_iff)

lemma gar_audit1_written: "audit_written gar_hashes gar_audit1"
proof -
  let ?r = "irrigation_audit_append gar_hashes AuditPreview (id_of CHR ''e'') 3 (id_of CHR ''c'')
     (id_of CHR ''f'') ''accepted'' (digest_of CHR ''6'') 110000 gar_audit"
  have "new_irrigation_audit (id_of CHR ''a'') (id_of CHR ''b'') 16 (ad_chain gar_audit) = Inr gar_audit"
    "is_identity (ad_chain gar_audit)" by code_simp+
  then have start: "audit_written gar_hashes gar_audit" by (rule written_new)
  have "\<not> isl ?r" by code_simp
  then have "?r = Inr gar_audit1" by (simp add: gar_audit1_def)
  then show ?thesis by (rule written_append [OF start])
qed


text \<open>The same events exported from a chain of another identifier.\<close>

definition gar_audit2 :: irrigation_audit where "gar_audit2 = gar_audit1\<lparr>ad_chain := id_of CHR ''8''\<rparr>"

lemma irrigation_audit_tamper_evident_witness:
  "ax_chainId (audit_export_of gar_hashes gar_audit1) \<noteq> ax_chainId (audit_export_of gar_hashes gar_audit2) \<and>
   ax_events (audit_export_of gar_hashes gar_audit1) = ax_events (audit_export_of gar_hashes gar_audit2)"
proof -
  have runs: "irrigation_audit_restore gar_hashes (audit_export_of gar_hashes gar_audit1) (id_of CHR ''a'') (id_of CHR ''b'') 16
      = Inr gar_audit1"
    "irrigation_audit_restore gar_hashes (audit_export_of gar_hashes gar_audit2) (id_of CHR ''a'') (id_of CHR ''b'') 16
      = Inr gar_audit2"
    "ax_headHash (audit_export_of gar_hashes gar_audit1) = ax_headHash (audit_export_of gar_hashes gar_audit2)"
    "\<forall>e \<in> set (ad_events gar_audit1). \<forall>f \<in> set (ad_events gar_audit2).
      ah_event gar_hashes (ie_body e) = ah_event gar_hashes (ie_body f) \<longrightarrow> ie_body e = ie_body f"
    "\<forall>e \<in> set (ad_events gar_audit1) \<union> set (ad_events gar_audit2). ah_event gar_hashes (ie_body e) \<noteq> ZERO"
    "ax_chainId (audit_export_of gar_hashes gar_audit1) \<noteq> ax_chainId (audit_export_of gar_hashes gar_audit2)"
    by code_simp+
  show ?thesis using irrigation_audit_tamper_evident [OF runs(1-5)] runs(6) by simp
qed

end
