(* ===== verification/Room_Comfort.thy ===== *)
theory Room_Comfort
  imports Larenor_Prelude "HOL-Library.List_Lexorder" "HOL-Library.Char_ord"
begin

text \<open>
  Room comfort: the contracts of \<open>server/larenor_server/room_comfort/models.py\<close> and the
  deterministic planner of \<open>room_comfort/planner.py\<close>, which recommends a heating mode and a window
  state for every room of a policy behind hard safety gates. The two SHA-256 digests and the two
  resolvers are parameters.
\<close>

section \<open>Contracts\<close>

datatype comfort_role = ComfortAdmin | ComfortMember

record comfort_authority =
  xa_coreId :: string
  xa_homeId :: string
  xa_homeRevision :: int
  xa_accountId :: string
  xa_accountRevision :: int
  xa_sessionFamilyId :: string
  xa_role :: comfort_role
  xa_active :: bool
  xa_canManageComfort :: bool

definition valid_comfort_authority :: "comfort_authority \<Rightarrow> bool" where
  "valid_comfort_authority a =
     (is_identity (xa_coreId a) \<and> is_identity (xa_homeId a) \<and> is_revision (xa_homeRevision a) \<and>
      is_identity (xa_accountId a) \<and> is_revision (xa_accountRevision a) \<and>
      is_identity (xa_sessionFamilyId a))"

datatype device_kind = HvacDevice | WindowDevice

record comfort_device =
  xd_kind :: device_kind
  xd_deviceId :: string
  xd_deviceRevision :: int
  xd_serviceId :: string
  xd_serviceRevision :: int
  xd_bindingId :: string
  xd_bindingRevision :: int

definition valid_device :: "comfort_device \<Rightarrow> bool" where
  "valid_device d =
     (is_identity (xd_deviceId d) \<and> is_revision (xd_deviceRevision d) \<and> is_identity (xd_serviceId d) \<and>
      is_revision (xd_serviceRevision d) \<and> is_identity (xd_bindingId d) \<and> is_revision (xd_bindingRevision d))"

record room_scope =
  xs_coreId :: string
  xs_homeId :: string
  xs_roomId :: string
  xs_roomRevision :: int
  xs_areaId :: string
  xs_areaRevision :: int
  xs_hvac :: comfort_device
  xs_window :: comfort_device

definition correct_devices :: "room_scope \<Rightarrow> bool" where
  "correct_devices r =
     (\<not> (xd_kind (xs_hvac r) \<noteq> HvacDevice \<or> xd_kind (xs_window r) \<noteq> WindowDevice) \<and>
      \<not> (xd_deviceId (xs_hvac r) = xd_deviceId (xs_window r)
          \<or> xd_bindingId (xs_hvac r) = xd_bindingId (xs_window r)))"

definition valid_room :: "room_scope \<Rightarrow> bool" where
  "valid_room r =
     (is_identity (xs_coreId r) \<and> is_identity (xs_homeId r) \<and> is_identity (xs_roomId r) \<and>
      is_revision (xs_roomRevision r) \<and> is_identity (xs_areaId r) \<and> is_revision (xs_areaRevision r) \<and>
      valid_device (xs_hvac r) \<and> valid_device (xs_window r) \<and> correct_devices r)"

record comfort_policy =
  xp_coreId :: string
  xp_homeId :: string
  xp_policyId :: string
  xp_policyRevision :: int
  xp_rooms :: "room_scope list"
  xp_targetTemperatureMilliC :: int
  xp_temperatureToleranceMilliC :: int
  xp_humidityHighPermille :: int
  xp_co2HighPpm :: int
  xp_vocHighPpb :: int
  xp_outdoorAqiLimit :: int
  xp_freezeThresholdMilliC :: int
  xp_indoorMaxAgeMs :: int
  xp_outdoorMaxAgeMs :: int
  xp_occupancyMaxAgeMs :: int
  xp_previewTtlMs :: int
  xp_active :: bool

definition unique_rooms :: "comfort_policy \<Rightarrow> bool" where
  "unique_rooms p =
     (unique_on xs_roomId (xp_rooms p) \<and>
      distinct (concat (map (\<lambda>r. [xd_deviceId (xs_hvac r), xd_deviceId (xs_window r)]) (xp_rooms p))) \<and>
      list_all (\<lambda>r. (xs_coreId r, xs_homeId r) = (xp_coreId p, xp_homeId p)) (xp_rooms p))"

definition valid_comfort_policy :: "comfort_policy \<Rightarrow> bool" where
  "valid_comfort_policy p =
     (is_identity (xp_coreId p) \<and> is_identity (xp_homeId p) \<and> is_identity (xp_policyId p) \<and>
      is_revision (xp_policyRevision p) \<and>
      1 \<le> length (xp_rooms p) \<and> length (xp_rooms p) \<le> 32 \<and> list_all valid_room (xp_rooms p) \<and>
      between 5000 35000 (xp_targetTemperatureMilliC p) \<and>
      between 100 10000 (xp_temperatureToleranceMilliC p) \<and>
      between 1 1000 (xp_humidityHighPermille p) \<and> between 400 10000 (xp_co2HighPpm p) \<and>
      between 1 100000 (xp_vocHighPpb p) \<and> between 1 500 (xp_outdoorAqiLimit p) \<and>
      between (- 50000) 15000 (xp_freezeThresholdMilliC p) \<and>
      between 1000 (24 * 60 * 60 * 1000) (xp_indoorMaxAgeMs p) \<and>
      between 1000 (24 * 60 * 60 * 1000) (xp_outdoorMaxAgeMs p) \<and>
      between 1000 (24 * 60 * 60 * 1000) (xp_occupancyMaxAgeMs p) \<and>
      between 1000 60000 (xp_previewTtlMs p) \<and> unique_rooms p)"

datatype metric_kind = TemperatureMilliC | HumidityPermille | Co2Ppm | VocPpb

record metric_reading =
  xm_kind :: metric_kind
  xm_sensorId :: string
  xm_sensorRevision :: int
  xm_readingRevision :: int
  xm_value :: int
  xm_observedAtMs :: int

definition valid_metric :: "metric_reading \<Rightarrow> bool" where
  "valid_metric m =
     (is_identity (xm_sensorId m) \<and> is_revision (xm_sensorRevision m) \<and> is_revision (xm_readingRevision m) \<and>
      between (- 100000) 1000000 (xm_value m) \<and> is_timestamp (xm_observedAtMs m))"

record room_climate =
  xc_coreId :: string
  xc_homeId :: string
  xc_roomId :: string
  xc_roomRevision :: int
  xc_snapshotRevision :: int
  xc_temperature :: metric_reading
  xc_humidity :: metric_reading
  xc_co2 :: metric_reading
  xc_voc :: metric_reading
  xc_smokeDetected :: bool
  xc_smokeSensorId :: string
  xc_smokeSensorRevision :: int
  xc_smokeReadingRevision :: int
  xc_smokeObservedAtMs :: int

definition climate_metrics :: "room_climate \<Rightarrow> metric_reading list" where
  "climate_metrics c = [xc_temperature c, xc_humidity c, xc_co2 c, xc_voc c]"

definition valid_metrics :: "room_climate \<Rightarrow> bool" where
  "valid_metrics c =
     (map xm_kind (climate_metrics c) = [TemperatureMilliC, HumidityPermille, Co2Ppm, VocPpb] \<and>
      between (- 50000) 80000 (xm_value (xc_temperature c)) \<and> between 0 1000 (xm_value (xc_humidity c)) \<and>
      between 0 100000 (xm_value (xc_co2 c)) \<and> between 0 1000000 (xm_value (xc_voc c)) \<and>
      unique_on xm_sensorId (climate_metrics c) \<and>
      xc_smokeSensorId c \<notin> set (map xm_sensorId (climate_metrics c)))"

definition valid_climate :: "room_climate \<Rightarrow> bool" where
  "valid_climate c =
     (is_identity (xc_coreId c) \<and> is_identity (xc_homeId c) \<and> is_identity (xc_roomId c) \<and>
      is_revision (xc_roomRevision c) \<and> is_revision (xc_snapshotRevision c) \<and>
      list_all valid_metric (climate_metrics c) \<and> is_identity (xc_smokeSensorId c) \<and>
      is_revision (xc_smokeSensorRevision c) \<and> is_revision (xc_smokeReadingRevision c) \<and>
      is_timestamp (xc_smokeObservedAtMs c) \<and> valid_metrics c)"

record outdoor_weather =
  xw_coreId :: string
  xw_homeId :: string
  xw_sourceId :: string
  xw_sourceRevision :: int
  xw_weatherRevision :: int
  xw_temperatureMilliC :: int
  xw_raining :: bool
  xw_airQualityIndex :: int
  xw_observedAtMs :: int

definition valid_weather :: "outdoor_weather \<Rightarrow> bool" where
  "valid_weather w =
     (is_identity (xw_coreId w) \<and> is_identity (xw_homeId w) \<and> is_identity (xw_sourceId w) \<and>
      is_revision (xw_sourceRevision w) \<and> is_revision (xw_weatherRevision w) \<and>
      between (- 100000) 100000 (xw_temperatureMilliC w) \<and> between 0 500 (xw_airQualityIndex w) \<and>
      is_timestamp (xw_observedAtMs w))"

record occupancy_snapshot =
  xo_coreId :: string
  xo_homeId :: string
  xo_roomId :: string
  xo_roomRevision :: int
  xo_sourceId :: string
  xo_sourceRevision :: int
  xo_occupancyRevision :: int
  xo_occupied :: bool
  xo_observedAtMs :: int

definition valid_occupancy :: "occupancy_snapshot \<Rightarrow> bool" where
  "valid_occupancy s =
     (is_identity (xo_coreId s) \<and> is_identity (xo_homeId s) \<and> is_identity (xo_roomId s) \<and>
      is_revision (xo_roomRevision s) \<and> is_identity (xo_sourceId s) \<and> is_revision (xo_sourceRevision s) \<and>
      is_revision (xo_occupancyRevision s) \<and> is_timestamp (xo_observedAtMs s))"

datatype hvac_mode = HvacOff | HvacHeat | HvacCool | HvacVentilate
datatype window_state = WindowClosed | WindowOpen

record comfort_override =
  xv_overrideId :: string
  xv_coreId :: string
  xv_homeId :: string
  xv_policyId :: string
  xv_expectedPolicyRevision :: int
  xv_roomId :: string
  xv_expectedRoomRevision :: int
  xv_actorAccountId :: string
  xv_hvacMode :: hvac_mode
  xv_windowState :: window_state
  xv_createdAtMs :: int
  xv_expiresAtMs :: int

definition valid_comfort_override :: "comfort_override \<Rightarrow> bool" where
  "valid_comfort_override v =
     (is_identity (xv_overrideId v) \<and> is_identity (xv_coreId v) \<and> is_identity (xv_homeId v) \<and>
      is_identity (xv_policyId v) \<and> is_revision (xv_expectedPolicyRevision v) \<and> is_identity (xv_roomId v) \<and>
      is_revision (xv_expectedRoomRevision v) \<and> is_identity (xv_actorAccountId v) \<and>
      is_timestamp (xv_createdAtMs v) \<and> is_timestamp (xv_expiresAtMs v) \<and>
      \<not> (xv_expiresAtMs v \<le> xv_createdAtMs v
          \<or> xv_expiresAtMs v - xv_createdAtMs v > 24 * 60 * 60 * 1000) \<and>
      \<not> (xv_windowState v = WindowOpen \<and> xv_hvacMode v \<noteq> HvacOff))"

text \<open>The dictionaries of the plan are association lists in the order they are built in, which is
  that of the room identifiers; the inner dictionaries of a metric list its four kinds.\<close>

record comfort_revisions =
  xr_policyRevision :: int
  xr_weatherRevision :: int
  xr_weatherSourceId :: string
  xr_weatherSourceRevision :: int
  xr_roomSnapshotRevisions :: "(string \<times> int) list"
  xr_occupancyRevisions :: "(string \<times> int) list"
  xr_occupancySourceIds :: "(string \<times> string) list"
  xr_occupancySourceRevisions :: "(string \<times> int) list"
  xr_metricSensorRevisions :: "(string \<times> (metric_kind \<times> int) list) list"
  xr_metricReadingRevisions :: "(string \<times> (metric_kind \<times> int) list) list"
  xr_smokeSensorRevisions :: "(string \<times> int) list"
  xr_smokeReadingRevisions :: "(string \<times> int) list"

definition valid_comfort_revisions :: "comfort_revisions \<Rightarrow> bool" where
  "valid_comfort_revisions r =
     (is_revision (xr_policyRevision r) \<and> is_revision (xr_weatherRevision r) \<and>
      is_identity (xr_weatherSourceId r) \<and> is_revision (xr_weatherSourceRevision r) \<and>
      revision_dict is_revision (xr_roomSnapshotRevisions r) \<and> revision_dict is_revision (xr_occupancyRevisions r) \<and>
      revision_dict is_identity (xr_occupancySourceIds r) \<and> revision_dict is_revision (xr_occupancySourceRevisions r) \<and>
      revision_dict (list_all (is_revision \<circ> snd)) (xr_metricSensorRevisions r) \<and>
      revision_dict (list_all (is_revision \<circ> snd)) (xr_metricReadingRevisions r) \<and>
      revision_dict is_revision (xr_smokeSensorRevisions r) \<and> revision_dict is_revision (xr_smokeReadingRevisions r))"

datatype comfort_status = RoomPlanned | RoomSkipped | RoomBlocked

datatype comfort_reason =
    AirRefresh | TemperatureLow | TemperatureHigh | Comfortable | ComfortOverride | SensorStale
  | SmokeDetected | OutdoorFreeze | RainWindowBlock | OutdoorAirUnsafe

record comfort_item =
  xi_room :: room_scope
  xi_status :: comfort_status
  xi_reason :: comfort_reason
  xi_hvacMode :: hvac_mode
  xi_windowState :: window_state

datatype occupancy_advice = Occupied | Unoccupied | OccupancyStale

record comfort_plan =
  xl_planId :: string
  xl_coreId :: string
  xl_homeId :: string
  xl_homeRevision :: int
  xl_policyId :: string
  xl_policyRevision :: int
  xl_policyHash :: string
  xl_actorAccountId :: string
  xl_accountRevision :: int
  xl_sessionFamilyId :: string
  xl_generatedAtMs :: int
  xl_inputRevisions :: comfort_revisions
  xl_occupancyAdvisory :: "(string \<times> occupancy_advice) list"
  xl_items :: "comfort_item list"

definition valid_comfort_plan :: "comfort_plan \<Rightarrow> bool" where
  "valid_comfort_plan p =
     (is_identity (xl_planId p) \<and> is_identity (xl_coreId p) \<and> is_identity (xl_homeId p) \<and>
      is_revision (xl_homeRevision p) \<and> is_identity (xl_policyId p) \<and> is_revision (xl_policyRevision p) \<and>
      is_snapshot (xl_policyHash p) \<and> is_identity (xl_actorAccountId p) \<and>
      is_revision (xl_accountRevision p) \<and> is_identity (xl_sessionFamilyId p) \<and>
      is_timestamp (xl_generatedAtMs p) \<and> valid_comfort_revisions (xl_inputRevisions p) \<and>
      list_all (is_identity \<circ> fst) (xl_occupancyAdvisory p) \<and>
      1 \<le> length (xl_items p) \<and> length (xl_items p) \<le> 32 \<and> list_all (valid_room \<circ> xi_room) (xl_items p))"

section \<open>The planner\<close>

record comfort_identity =
  xy_policy :: comfort_policy
  xy_climate :: "room_climate list"
  xy_weather :: outdoor_weather
  xy_occupancy :: "occupancy_snapshot list"
  xy_overrides :: "comfort_override list"
  xy_actor :: string
  xy_accountRevision :: int
  xy_generatedAtMs :: int
  xy_items :: "comfort_item list"

record comfort_env =
  xe_authority :: "string \<Rightarrow> comfort_authority lookup"
  xe_policy :: "string \<Rightarrow> comfort_policy lookup"
  xe_policy_hash :: "comfort_policy \<Rightarrow> string"
  xe_identity_hash :: "comfort_identity \<Rightarrow> string"

definition comfort_authority_of :: "comfort_env \<Rightarrow> comfort_authority raw \<Rightarrow> comfort_authority result" where
  "comfort_authority_of env presented =
     bind_res (resolve_current valid_comfort_authority (xe_authority env) xa_accountId
                 bad_request forbidden forbidden presented)
       (\<lambda>a. if \<not> xa_active a \<or> xa_role a \<noteq> ComfortAdmin \<or> \<not> xa_canManageComfort a
             then Inl forbidden else Inr a)"

definition comfort_policy_of :: "comfort_env \<Rightarrow> comfort_policy raw \<Rightarrow> comfort_policy result" where
  "comfort_policy_of env presented =
     bind_res (resolve_current valid_comfort_policy (xe_policy env) xp_policyId
                 bad_request revision_conflict revision_conflict presented)
       (\<lambda>p. if \<not> xp_active p then Inl forbidden else Inr p)"

record comfort_inputs =
  xn_climate :: "room_climate list"
  xn_weather :: outdoor_weather
  xn_occupancy :: "occupancy_snapshot list"
  xn_overrides :: "comfort_override list"

definition comfort_inputs_of :: "room_climate raw list \<Rightarrow> outdoor_weather raw \<Rightarrow> occupancy_snapshot raw list
    \<Rightarrow> comfort_override raw list \<Rightarrow> int \<Rightarrow> comfort_inputs result" where
  "comfort_inputs_of rawClimate rawWeather rawOccupancy rawOverrides now =
     (case (validate_all valid_climate rawClimate, model_validate valid_weather rawWeather,
            validate_all valid_occupancy rawOccupancy, validate_all valid_comfort_override rawOverrides) of
        (Some climate, Some weather, Some occupancy, Some overrides) \<Rightarrow>
          if now < 0 then Inl bad_request
          else Inr \<lparr>xn_climate = climate, xn_weather = weather, xn_occupancy = occupancy,
                    xn_overrides = overrides\<rparr>
      | _ \<Rightarrow> Inl bad_request)"

definition check_comfort_scope :: "comfort_authority \<Rightarrow> comfort_policy \<Rightarrow> comfort_inputs \<Rightarrow> unit result" where
  "check_comfort_scope authority policy i =
     (let climate = xn_climate i; weather = xn_weather i; occupancy = xn_occupancy i;
          scope = (xp_coreId policy, xp_homeId policy) in
      if scope \<noteq> (xa_coreId authority, xa_homeId authority) then Inl not_found
      else if (xw_coreId weather, xw_homeId weather) \<noteq> scope then Inl not_found
      else if \<not> unique_on xc_roomId climate \<or> \<not> unique_on xo_roomId occupancy
              \<or> xc_roomId ` set climate \<noteq> xs_roomId ` set (xp_rooms policy)
              \<or> xo_roomId ` set occupancy \<noteq> xs_roomId ` set (xp_rooms policy)
      then Inl revision_conflict
      else if list_ex (\<lambda>room.
                case (select_key xc_roomId (xs_roomId room) climate, select_key xo_roomId (xs_roomId room) occupancy) of
                  (Some inside, Some occupied) \<Rightarrow>
                    (xc_coreId inside, xc_homeId inside, xc_roomRevision inside)
                      \<noteq> (xp_coreId policy, xp_homeId policy, xs_roomRevision room)
                    \<or> (xo_coreId occupied, xo_homeId occupied, xo_roomRevision occupied)
                      \<noteq> (xp_coreId policy, xp_homeId policy, xs_roomRevision room)
                | _ \<Rightarrow> True) (xp_rooms policy)
      then Inl revision_conflict
      else Inr ())"

definition comfort_override_step :: "comfort_authority \<Rightarrow> comfort_policy \<Rightarrow> int \<Rightarrow> comfort_override
    \<Rightarrow> comfort_override list \<Rightarrow> comfort_override list result" where
  "comfort_override_step authority policy now v active =
     (case select_key xs_roomId (xv_roomId v) (xp_rooms policy) of
        None \<Rightarrow> Inl revision_conflict
      | Some room \<Rightarrow>
          if (xv_coreId v, xv_homeId v, xv_policyId v, xv_expectedPolicyRevision v, xv_expectedRoomRevision v,
              xv_actorAccountId v)
             \<noteq> (xp_coreId policy, xp_homeId policy, xp_policyId policy, xp_policyRevision policy,
                xs_roomRevision room, xa_accountId authority)
          then Inl revision_conflict
          else if xv_createdAtMs v > now \<or> xv_roomId v \<in> xv_roomId ` set active then Inl bad_request
          else if now < xv_expiresAtMs v then Inr (active @ [v])
          else Inr active)"

definition comfort_overrides :: "comfort_authority \<Rightarrow> comfort_policy \<Rightarrow> int \<Rightarrow> comfort_override list
    \<Rightarrow> comfort_override list result" where
  "comfort_overrides authority policy now overrides =
     fold_res (comfort_override_step authority policy now) overrides []"

text \<open>A reading is stale when it is from the future or older than the policy allows.\<close>

definition stale_at :: "int \<Rightarrow> int \<Rightarrow> int \<Rightarrow> bool" where
  "stale_at now maxAge observedAt = (observedAt > now \<or> now - observedAt > maxAge)"

definition indoor_stale :: "comfort_policy \<Rightarrow> room_climate \<Rightarrow> int \<Rightarrow> bool" where
  "indoor_stale policy inside now =
     (list_ex (\<lambda>m. stale_at now (xp_indoorMaxAgeMs policy) (xm_observedAtMs m)) (climate_metrics inside)
      \<or> stale_at now (xp_indoorMaxAgeMs policy) (xc_smokeObservedAtMs inside))"

definition weather_stale :: "comfort_policy \<Rightarrow> outdoor_weather \<Rightarrow> int \<Rightarrow> bool" where
  "weather_stale policy weather now = stale_at now (xp_outdoorMaxAgeMs policy) (xw_observedAtMs weather)"

definition air_refresh :: "comfort_policy \<Rightarrow> room_climate \<Rightarrow> bool" where
  "air_refresh policy inside =
     (xm_value (xc_humidity inside) \<ge> xp_humidityHighPermille policy
      \<or> xm_value (xc_co2 inside) \<ge> xp_co2HighPpm policy \<or> xm_value (xc_voc inside) \<ge> xp_vocHighPpb policy)"

definition too_cold :: "comfort_policy \<Rightarrow> room_climate \<Rightarrow> bool" where
  "too_cold policy inside =
     (xm_value (xc_temperature inside) < xp_targetTemperatureMilliC policy - xp_temperatureToleranceMilliC policy)"

definition too_warm :: "comfort_policy \<Rightarrow> room_climate \<Rightarrow> bool" where
  "too_warm policy inside =
     (xm_value (xc_temperature inside) > xp_targetTemperatureMilliC policy + xp_temperatureToleranceMilliC policy)"

definition occupancy_advice_of :: "comfort_policy \<Rightarrow> int \<Rightarrow> occupancy_snapshot \<Rightarrow> occupancy_advice" where
  "occupancy_advice_of policy now occupied =
     (if stale_at now (xp_occupancyMaxAgeMs policy) (xo_observedAtMs occupied) then OccupancyStale
      else if xo_occupied occupied then Occupied else Unoccupied)"

definition room_item :: "comfort_policy \<Rightarrow> outdoor_weather \<Rightarrow> comfort_override list \<Rightarrow> int \<Rightarrow> room_scope
    \<Rightarrow> room_climate \<Rightarrow> comfort_item" where
  "room_item policy weather active now room inside =
     (let item = (\<lambda>status reason hvac window.
            \<lparr>xi_room = room, xi_status = status, xi_reason = reason, xi_hvacMode = hvac, xi_windowState = window\<rparr>) in
      if indoor_stale policy inside now \<or> weather_stale policy weather now
      then item RoomBlocked SensorStale HvacOff WindowClosed
      else if xc_smokeDetected inside then item RoomBlocked SmokeDetected HvacOff WindowClosed
      else if xw_temperatureMilliC weather \<le> xp_freezeThresholdMilliC policy
      then item RoomBlocked OutdoorFreeze (if too_cold policy inside then HvacHeat else HvacOff) WindowClosed
      else if air_refresh policy inside \<and> xw_raining weather
      then item RoomBlocked RainWindowBlock HvacOff WindowClosed
      else if air_refresh policy inside \<and> xw_airQualityIndex weather \<ge> xp_outdoorAqiLimit policy
      then item RoomBlocked OutdoorAirUnsafe HvacOff WindowClosed
      else case select_key xv_roomId (xs_roomId room) active of
             Some v \<Rightarrow> item RoomPlanned ComfortOverride (xv_hvacMode v) (xv_windowState v)
           | None \<Rightarrow>
               if air_refresh policy inside then item RoomPlanned AirRefresh HvacOff WindowOpen
               else if too_cold policy inside then item RoomPlanned TemperatureLow HvacHeat WindowClosed
               else if too_warm policy inside then item RoomPlanned TemperatureHigh HvacCool WindowClosed
               else item RoomSkipped Comfortable HvacOff WindowClosed)"

text \<open>The loop over the rooms gives an item and an occupancy label for each.\<close>

fun plan_rooms :: "comfort_policy \<Rightarrow> comfort_inputs \<Rightarrow> comfort_override list \<Rightarrow> int \<Rightarrow> room_scope list
    \<Rightarrow> (comfort_item \<times> (string \<times> occupancy_advice)) list result" where
  "plan_rooms policy i active now [] = Inr []"
| "plan_rooms policy i active now (room # rooms) =
     (case (select_key xc_roomId (xs_roomId room) (xn_climate i), select_key xo_roomId (xs_roomId room) (xn_occupancy i)) of
        (Some inside, Some occupied) \<Rightarrow>
          bind_res (plan_rooms policy i active now rooms) (\<lambda>rest.
            Inr ((room_item policy (xn_weather i) active now room inside,
                  (xs_roomId room, occupancy_advice_of policy now occupied)) # rest))
      | _ \<Rightarrow> Inl KeyError)"

definition metric_dict :: "(metric_reading \<Rightarrow> int) \<Rightarrow> room_climate \<Rightarrow> (metric_kind \<times> int) list" where
  "metric_dict f c =
     [(TemperatureMilliC, f (xc_temperature c)), (HumidityPermille, f (xc_humidity c)),
      (Co2Ppm, f (xc_co2 c)), (VocPpb, f (xc_voc c))]"

definition comfort_revisions_of :: "comfort_policy \<Rightarrow> comfort_inputs \<Rightarrow> comfort_revisions" where
  "comfort_revisions_of policy i =
     (let climates = sort_key xc_roomId (xn_climate i); occupancies = sort_key xo_roomId (xn_occupancy i) in
      \<lparr>xr_policyRevision = xp_policyRevision policy,
       xr_weatherRevision = xw_weatherRevision (xn_weather i),
       xr_weatherSourceId = xw_sourceId (xn_weather i),
       xr_weatherSourceRevision = xw_sourceRevision (xn_weather i),
       xr_roomSnapshotRevisions = map (\<lambda>c. (xc_roomId c, xc_snapshotRevision c)) climates,
       xr_occupancyRevisions = map (\<lambda>v. (xo_roomId v, xo_occupancyRevision v)) occupancies,
       xr_occupancySourceIds = map (\<lambda>v. (xo_roomId v, xo_sourceId v)) occupancies,
       xr_occupancySourceRevisions = map (\<lambda>v. (xo_roomId v, xo_sourceRevision v)) occupancies,
       xr_metricSensorRevisions = map (\<lambda>c. (xc_roomId c, metric_dict xm_sensorRevision c)) climates,
       xr_metricReadingRevisions = map (\<lambda>c. (xc_roomId c, metric_dict xm_readingRevision c)) climates,
       xr_smokeSensorRevisions = map (\<lambda>c. (xc_roomId c, xc_smokeSensorRevision c)) climates,
       xr_smokeReadingRevisions = map (\<lambda>c. (xc_roomId c, xc_smokeReadingRevision c)) climates\<rparr>)"

definition comfort_plan_build :: "comfort_env \<Rightarrow> comfort_authority \<Rightarrow> comfort_policy \<Rightarrow> comfort_inputs
    \<Rightarrow> comfort_override list \<Rightarrow> int \<Rightarrow> (comfort_item \<times> (string \<times> occupancy_advice)) list \<Rightarrow> comfort_plan" where
  "comfort_plan_build env authority policy i active now rows =
     (let identity = \<lparr>xy_policy = policy, xy_climate = sort_key xc_roomId (xn_climate i),
            xy_weather = xn_weather i, xy_occupancy = sort_key xo_roomId (xn_occupancy i),
            xy_overrides = sort_key xv_roomId active, xy_actor = xa_accountId authority,
            xy_accountRevision = xa_accountRevision authority, xy_generatedAtMs = now,
            xy_items = map fst rows\<rparr>
      in \<lparr>xl_planId = take 32 (xe_identity_hash env identity),
          xl_coreId = xp_coreId policy, xl_homeId = xp_homeId policy,
          xl_homeRevision = xa_homeRevision authority, xl_policyId = xp_policyId policy,
          xl_policyRevision = xp_policyRevision policy, xl_policyHash = xe_policy_hash env policy,
          xl_actorAccountId = xa_accountId authority, xl_accountRevision = xa_accountRevision authority,
          xl_sessionFamilyId = xa_sessionFamilyId authority, xl_generatedAtMs = now,
          xl_inputRevisions = comfort_revisions_of policy i, xl_occupancyAdvisory = map snd rows,
          xl_items = map fst rows\<rparr>)"

text \<open>\<open>ComfortPlanner.plan\<close>.\<close>

definition comfort_plan_from :: "comfort_env \<Rightarrow> comfort_authority \<Rightarrow> comfort_policy \<Rightarrow> comfort_inputs \<Rightarrow> int
    \<Rightarrow> comfort_plan result" where
  "comfort_plan_from env authority policy i now =
     bind_res (check_comfort_scope authority policy i) (\<lambda>_.
     bind_res (comfort_overrides authority policy now (xn_overrides i)) (\<lambda>active.
     bind_res (plan_rooms policy i active now (sort_key xs_roomId (xp_rooms policy))) (\<lambda>rows.
       let plan = comfort_plan_build env authority policy i active now rows in
       if valid_comfort_plan plan then Inr plan else Inl ValidationError)))"

definition comfort_plan_of :: "comfort_env \<Rightarrow> comfort_authority raw \<Rightarrow> comfort_policy raw \<Rightarrow> room_climate raw list
    \<Rightarrow> outdoor_weather raw \<Rightarrow> occupancy_snapshot raw list \<Rightarrow> int \<Rightarrow> comfort_override raw list
    \<Rightarrow> comfort_plan result" where
  "comfort_plan_of env rawAuthority rawPolicy rawClimate rawWeather rawOccupancy now rawOverrides =
     bind_res (comfort_authority_of env rawAuthority) (\<lambda>authority.
     bind_res (comfort_policy_of env rawPolicy) (\<lambda>policy.
     bind_res (comfort_inputs_of rawClimate rawWeather rawOccupancy rawOverrides now) (\<lambda>i.
       comfort_plan_from env authority policy i now)))"


section \<open>Safety before preference\<close>

lemma comfort_inputs_of_Inr:
  "comfort_inputs_of rawClimate rawWeather rawOccupancy rawOverrides now = Inr i \<longleftrightarrow>
     rawClimate = map Some (xn_climate i) \<and> list_all valid_climate (xn_climate i) \<and>
     rawWeather = Some (xn_weather i) \<and> valid_weather (xn_weather i) \<and>
     rawOccupancy = map Some (xn_occupancy i) \<and> list_all valid_occupancy (xn_occupancy i) \<and>
     rawOverrides = map Some (xn_overrides i) \<and> list_all valid_comfort_override (xn_overrides i) \<and> 0 \<le> now"
proof -
  have "comfort_inputs_of rawClimate rawWeather rawOccupancy rawOverrides now = Inr i \<longleftrightarrow>
     validate_all valid_climate rawClimate = Some (xn_climate i) \<and>
     model_validate valid_weather rawWeather = Some (xn_weather i) \<and>
     validate_all valid_occupancy rawOccupancy = Some (xn_occupancy i) \<and>
     validate_all valid_comfort_override rawOverrides = Some (xn_overrides i) \<and> 0 \<le> now"
    by (cases i) (auto simp: comfort_inputs_of_def simp del: model_validate_Some_iff split: option.splits)
  then show ?thesis by (auto simp: validate_all_Some_iff)
qed

lemma comfort_policy_of_Inr:
  "comfort_policy_of env raw = Inr policy \<longleftrightarrow>
     raw = Some policy \<and> valid_comfort_policy policy \<and> xe_policy env (xp_policyId policy) = Found (Some policy) \<and>
     xp_active policy"
  by (auto simp: comfort_policy_of_def bind_res_Inr_iff resolve_current_Inr_iff)

lemma comfort_authority_of_Inr:
  "comfort_authority_of env raw = Inr a \<longleftrightarrow>
     raw = Some a \<and> valid_comfort_authority a \<and> xe_authority env (xa_accountId a) = Found (Some a) \<and>
     xa_active a \<and> xa_role a = ComfortAdmin \<and> xa_canManageComfort a"
  by (auto simp: comfort_authority_of_def bind_res_Inr_iff resolve_current_Inr_iff)

lemma comfort_plan_of_Inr:
  assumes "comfort_plan_of env rawAuthority rawPolicy rawClimate rawWeather rawOccupancy now rawOverrides = Inr plan"
  obtains authority policy i active rows where
    "comfort_authority_of env rawAuthority = Inr authority" "comfort_policy_of env rawPolicy = Inr policy"
    "comfort_inputs_of rawClimate rawWeather rawOccupancy rawOverrides now = Inr i"
    "check_comfort_scope authority policy i = Inr ()"
    "comfort_overrides authority policy now (xn_overrides i) = Inr active"
    "plan_rooms policy i active now (sort_key xs_roomId (xp_rooms policy)) = Inr rows"
    "plan = comfort_plan_build env authority policy i active now rows" "valid_comfort_plan plan"
  using assms
  by (auto simp: comfort_plan_of_def comfort_plan_from_def bind_res_Inr_iff Let_def split: if_splits)

definition comfort_in_force :: "comfort_authority \<Rightarrow> comfort_policy \<Rightarrow> int \<Rightarrow> comfort_override \<Rightarrow> bool" where
  "comfort_in_force authority policy now v \<longleftrightarrow>
     xv_createdAtMs v \<le> now \<and> now < xv_expiresAtMs v \<and> xv_actorAccountId v = xa_accountId authority \<and>
     xv_expectedPolicyRevision v = xp_policyRevision policy \<and>
     (\<exists>room \<in> set (xp_rooms policy). xs_roomId room = xv_roomId v \<and> xs_roomRevision room = xv_expectedRoomRevision v)"

lemma comfort_override_step_Inr:
  assumes "comfort_override_step authority policy now v active = Inr active'"
  shows "active' = active \<or> (active' = active @ [v] \<and> comfort_in_force authority policy now v)"
  using assms
  by (auto simp: comfort_override_step_def comfort_in_force_def split: option.splits if_splits
      dest: select_where_Some)

lemma comfort_overrides_Inr:
  assumes "comfort_overrides authority policy now overrides = Inr active"
  shows "\<forall>v \<in> set active. v \<in> set overrides \<and> comfort_in_force authority policy now v"
  by (rule fold_res_invariant [OF assms [unfolded comfort_overrides_def]])
    (auto dest!: comfort_override_step_Inr)

text \<open>The items are a function of the rooms, the climate, the weather and the overrides.\<close>

lemma plan_rooms_items:
  assumes "plan_rooms policy i active now rooms = Inr rows"
  shows "map fst rows = map (\<lambda>room. room_item policy (xn_weather i) active now room
      (the (select_key xc_roomId (xs_roomId room) (xn_climate i)))) rooms \<and>
    map (fst \<circ> snd) rows = map xs_roomId rooms \<and>
    (\<forall>room \<in> set rooms. select_key xc_roomId (xs_roomId room) (xn_climate i) \<noteq> None)"
  using assms
  by (induction rooms arbitrary: rows) (auto simp: bind_res_Inr_iff split: option.splits)

text \<open>The gates that no override passes.\<close>

definition comfort_hazard :: "comfort_policy \<Rightarrow> outdoor_weather \<Rightarrow> room_climate \<Rightarrow> int \<Rightarrow> bool" where
  "comfort_hazard policy weather inside now =
     (indoor_stale policy inside now \<or> weather_stale policy weather now \<or> xc_smokeDetected inside \<or>
      xw_temperatureMilliC weather \<le> xp_freezeThresholdMilliC policy)"

definition outdoor_air_ok :: "comfort_policy \<Rightarrow> outdoor_weather \<Rightarrow> bool" where
  "outdoor_air_ok policy weather = (\<not> xw_raining weather \<and> xw_airQualityIndex weather < xp_outdoorAqiLimit policy)"

lemma room_item_room [simp]: "xi_room (room_item policy weather active now room inside) = room"
  by (simp add: room_item_def Let_def split: option.split)

lemma room_item_hazard:
  assumes "comfort_hazard policy weather inside now"
  shows "xi_status (room_item policy weather active now room inside) = RoomBlocked"
    "xi_windowState (room_item policy weather active now room inside) = WindowClosed"
    "xi_hvacMode (room_item policy weather active now room inside) \<in> {HvacOff, HvacHeat}"
    "xc_smokeDetected inside \<Longrightarrow> xi_hvacMode (room_item policy weather active now room inside) = HvacOff"
  using assms by (auto simp: room_item_def comfort_hazard_def Let_def)

lemma room_item_open:
  assumes "xi_windowState (room_item policy weather active now room inside) = WindowOpen"
  shows "\<not> comfort_hazard policy weather inside now" "air_refresh policy inside \<Longrightarrow> outdoor_air_ok policy weather"
    "air_refresh policy inside \<and> xi_hvacMode (room_item policy weather active now room inside) = HvacOff \<or>
     (\<exists>v \<in> set active. xv_roomId v = xs_roomId room \<and> xv_windowState v = WindowOpen \<and>
        xi_hvacMode (room_item policy weather active now room inside) = xv_hvacMode v)"
  using assms select_where_Some [of "\<lambda>v. xv_roomId v = xs_roomId room" active]
  by (auto simp: room_item_def comfort_hazard_def outdoor_air_ok_def Let_def split: if_splits option.splits)

text \<open>C25: Comfort never overrides safety. In a plan, a room whose sensors or weather are stale,
  that reports smoke, or while it freezes outside is blocked, with its window closed, the heating off or at
  most on, and off under smoke, whatever the overrides say. A window is opened only when none of this holds
  and the heating and cooling are off, and either the room needs fresh air and it does not rain and the
  outdoor air quality is within its limit, or an override in force, made by the acting administrator for this
  room and policy revision, asks for the open window.\<close>

theorem comfort_safety_gates:
  assumes "comfort_plan_of env (Some authority) (Some policy) rawClimate (Some weather) rawOccupancy now rawOverrides
    = Inr plan" and "it \<in> set (xl_items plan)"
  shows "\<exists>inside. Some inside \<in> set rawClimate \<and> xc_roomId inside = xs_roomId (xi_room it) \<and>
    (comfort_hazard policy weather inside now \<longrightarrow>
       xi_status it = RoomBlocked \<and> xi_windowState it = WindowClosed \<and> xi_hvacMode it \<in> {HvacOff, HvacHeat} \<and>
       (xc_smokeDetected inside \<longrightarrow> xi_hvacMode it = HvacOff)) \<and>
    (xi_windowState it = WindowOpen \<longrightarrow>
       \<not> comfort_hazard policy weather inside now \<and> xi_hvacMode it = HvacOff \<and>
       (air_refresh policy inside \<longrightarrow> outdoor_air_ok policy weather) \<and>
       (air_refresh policy inside \<or>
        (\<exists>v. Some v \<in> set rawOverrides \<and> xv_roomId v = xs_roomId (xi_room it) \<and> xv_windowState v = WindowOpen \<and>
           comfort_in_force authority policy now v)))"
proof -
  obtain authority' policy' i active rows where run: "comfort_authority_of env (Some authority) = Inr authority'"
    "comfort_policy_of env (Some policy) = Inr policy'"
    "comfort_inputs_of rawClimate (Some weather) rawOccupancy rawOverrides now = Inr i"
    "comfort_overrides authority' policy' now (xn_overrides i) = Inr active"
    "plan_rooms policy' i active now (sort_key xs_roomId (xp_rooms policy')) = Inr rows"
    "plan = comfort_plan_build env authority' policy' i active now rows"
    by (rule comfort_plan_of_Inr [OF assms(1)])
  have same: "policy' = policy" "authority' = authority" "xn_weather i = weather"
    "rawClimate = map Some (xn_climate i)" "rawOverrides = map Some (xn_overrides i)"
    "list_all valid_comfort_override (xn_overrides i)"
    using run(1-3) by (simp_all add: comfort_policy_of_Inr comfort_authority_of_Inr comfort_inputs_of_Inr)
  have "it \<in> set (map fst rows)" using assms(2) run(6) by (simp add: comfort_plan_build_def Let_def)
  then obtain room where room: "room \<in> set (xp_rooms policy)"
    "it = room_item policy weather active now room (the (select_key xc_roomId (xs_roomId room) (xn_climate i)))"
    "select_key xc_roomId (xs_roomId room) (xn_climate i) \<noteq> None"
    using plan_rooms_items [OF run(5)] same by auto
  obtain inside where inside: "select_key xc_roomId (xs_roomId room) (xn_climate i) = Some inside" using room(3) by auto
  have it: "it = room_item policy weather active now room inside" using room(2) inside by simp
  have m: "Some inside \<in> set rawClimate" "xc_roomId inside = xs_roomId (xi_room it)"
    using select_where_Some [OF inside] same(4) it by auto
  have force: "v \<in> set (xn_overrides i) \<and> comfort_in_force authority policy now v \<and> valid_comfort_override v"
    if "v \<in> set active" for v
    using comfort_overrides_Inr [OF run(4)] that same by (auto simp: list_all_iff)
  have blocked: "comfort_hazard policy weather inside now \<longrightarrow>
       xi_status it = RoomBlocked \<and> xi_windowState it = WindowClosed \<and> xi_hvacMode it \<in> {HvacOff, HvacHeat} \<and>
       (xc_smokeDetected inside \<longrightarrow> xi_hvacMode it = HvacOff)"
    using room_item_hazard [of policy weather inside now active room] it by simp
  have opened: "\<not> comfort_hazard policy weather inside now \<and> xi_hvacMode it = HvacOff \<and>
       (air_refresh policy inside \<longrightarrow> outdoor_air_ok policy weather) \<and>
       (air_refresh policy inside \<or>
        (\<exists>v. Some v \<in> set rawOverrides \<and> xv_roomId v = xs_roomId (xi_room it) \<and> xv_windowState v = WindowOpen \<and>
           comfort_in_force authority policy now v))" if "xi_windowState it = WindowOpen"
    using room_item_open [OF that [unfolded it]] force same(5) it
    by (auto simp: valid_comfort_override_def)
  show ?thesis using m blocked opened by blast
qed

text \<open>Occupancy is advisory only: two accepted calls that differ in nothing but the occupancy
  snapshots recommend the same for every room.\<close>

theorem comfort_occupancy_advisory:
  assumes "comfort_plan_of env rawAuthority rawPolicy rawClimate rawWeather rawOccupancy now rawOverrides = Inr plan"
    and "comfort_plan_of env rawAuthority rawPolicy rawClimate rawWeather rawOccupancy' now rawOverrides = Inr plan'"
  shows "xl_items plan = xl_items plan'"
proof -
  obtain a p i act rows where 1: "comfort_authority_of env rawAuthority = Inr a" "comfort_policy_of env rawPolicy = Inr p"
    "comfort_inputs_of rawClimate rawWeather rawOccupancy rawOverrides now = Inr i"
    "comfort_overrides a p now (xn_overrides i) = Inr act"
    "plan_rooms p i act now (sort_key xs_roomId (xp_rooms p)) = Inr rows"
    "plan = comfort_plan_build env a p i act now rows"
    by (rule comfort_plan_of_Inr [OF assms(1)])
  obtain a' p' i' act' rows' where 2: "comfort_authority_of env rawAuthority = Inr a'"
    "comfort_policy_of env rawPolicy = Inr p'"
    "comfort_inputs_of rawClimate rawWeather rawOccupancy' rawOverrides now = Inr i'"
    "comfort_overrides a' p' now (xn_overrides i') = Inr act'"
    "plan_rooms p' i' act' now (sort_key xs_roomId (xp_rooms p')) = Inr rows'"
    "plan' = comfort_plan_build env a' p' i' act' now rows'"
    by (rule comfort_plan_of_Inr [OF assms(2)])
  have ap: "a' = a" "p' = p" using 1(1,2) 2(1,2) by simp_all
  have "map Some (xn_climate i) = map Some (xn_climate i')" "map Some (xn_overrides i) = map Some (xn_overrides i')"
    "xn_weather i = xn_weather i'"
    using 1(3) 2(3) by (simp_all add: comfort_inputs_of_Inr)
  then have i: "xn_climate i' = xn_climate i" "xn_overrides i' = xn_overrides i" "xn_weather i' = xn_weather i"
    by (metis inj_map_eq_map inj_Some)+
  then have "act' = act" using 1(4) 2(4) ap by simp
  then have "map fst rows = map fst rows'"
    using plan_rooms_items [OF 1(5)] plan_rooms_items [OF 2(5)] ap i by simp
  then show ?thesis using 1(6) 2(6) by (simp add: comfort_plan_build_def Let_def)
qed


section \<open>Totality\<close>

lemma plan_rooms_total:
  assumes "xs_roomId ` set rooms \<subseteq> xc_roomId ` set (xn_climate i)" "xs_roomId ` set rooms \<subseteq> xo_roomId ` set (xn_occupancy i)"
  shows "\<exists>rows. plan_rooms policy i active now rooms = Inr rows"
  using assms
proof (induction rooms)
  case (Cons room rooms)
  obtain inside where 1: "select_key xc_roomId (xs_roomId room) (xn_climate i) = Some inside"
    using Cons.prems(1) by (cases "select_key xc_roomId (xs_roomId room) (xn_climate i)") (auto simp: select_where_None_iff)
  obtain occupied where 2: "select_key xo_roomId (xs_roomId room) (xn_occupancy i) = Some occupied"
    using Cons.prems(2) by (cases "select_key xo_roomId (xs_roomId room) (xn_occupancy i)") (auto simp: select_where_None_iff)
  obtain rows where "plan_rooms policy i active now rooms = Inr rows" using Cons by auto
  with 1 2 show ?case by simp
qed simp

lemma comfort_scope_ok:
  assumes "check_comfort_scope authority policy i = Inr ()"
  shows "unique_on xc_roomId (xn_climate i)" "unique_on xo_roomId (xn_occupancy i)"
    "xc_roomId ` set (xn_climate i) = xs_roomId ` set (xp_rooms policy)"
    "xo_roomId ` set (xn_occupancy i) = xs_roomId ` set (xp_rooms policy)"
  using assms by (simp_all add: check_comfort_scope_def Let_def if_Inl_eq_Inr del: if_split)

definition comfort_hex_digests :: "comfort_env \<Rightarrow> bool" where
  "comfort_hex_digests env \<longleftrightarrow>
     (\<forall>p. is_snapshot (xe_policy_hash env p)) \<and> (\<forall>y. is_snapshot (xe_identity_hash env y))"

lemma comfort_revisions_valid:
  assumes "valid_comfort_policy policy" and "list_all valid_climate (xn_climate i)" "valid_weather (xn_weather i)"
    "list_all valid_occupancy (xn_occupancy i)"
    and "length (xn_climate i) = length (xp_rooms policy)" "length (xn_occupancy i) = length (xp_rooms policy)"
  shows "valid_comfort_revisions (comfort_revisions_of policy i)"
proof -
  have c: "1 \<le> length (sort_key xc_roomId (xn_climate i))" "length (sort_key xc_roomId (xn_climate i)) \<le> 32"
    and o: "1 \<le> length (sort_key xo_roomId (xn_occupancy i))" "length (sort_key xo_roomId (xn_occupancy i)) \<le> 32"
    using assms(1,5,6) by (simp_all add: valid_comfort_policy_def)
  have vc: "\<forall>r \<in> set (sort_key xc_roomId (xn_climate i)). valid_climate r"
    and vo: "\<forall>r \<in> set (sort_key xo_roomId (xn_occupancy i)). valid_occupancy r"
    using assms(2,4) by (simp_all add: list_all_iff)
  show ?thesis
    unfolding comfort_revisions_of_def Let_def valid_comfort_revisions_def comfort_revisions.simps
    using assms(1,3) vc vo
    by (intro conjI revision_dict_map [OF c] revision_dict_map [OF o])
      (auto simp: valid_comfort_policy_def valid_weather_def valid_climate_def valid_occupancy_def
        metric_dict_def climate_metrics_def valid_metric_def)
qed

lemma comfort_plan_build_valid:
  assumes "comfort_hex_digests env" and "now \<le> 2 ^ 63 - 1"
    and "comfort_authority_of env rawAuthority = Inr authority" "comfort_policy_of env rawPolicy = Inr policy"
    "comfort_inputs_of rawClimate rawWeather rawOccupancy rawOverrides now = Inr i"
    "check_comfort_scope authority policy i = Inr ()"
    "plan_rooms policy i active now (sort_key xs_roomId (xp_rooms policy)) = Inr rows"
  shows "valid_comfort_plan (comfort_plan_build env authority policy i active now rows)"
proof -
  have p: "valid_comfort_policy policy" and a: "valid_comfort_authority authority"
    using assms(3,4) by (simp_all add: comfort_policy_of_Inr comfort_authority_of_Inr)
  have v: "list_all valid_climate (xn_climate i)" "valid_weather (xn_weather i)" "list_all valid_occupancy (xn_occupancy i)"
    "0 \<le> now" using assms(5) by (simp_all add: comfort_inputs_of_Inr)
  have u: "unique_on xs_roomId (xp_rooms policy)" using p by (simp add: valid_comfort_policy_def unique_rooms_def)
  note sc = comfort_scope_ok [OF assms(6)]
  have len: "length (xn_climate i) = length (xp_rooms policy)" "length (xn_occupancy i) = length (xp_rooms policy)"
    by (rule unique_same_keys_length [OF sc(1) u sc(3)], rule unique_same_keys_length [OF sc(2) u sc(4)])
  note rv = comfort_revisions_valid [OF p v(1-3) len]
  have rows: "map xi_room (map fst rows) = sort_key xs_roomId (xp_rooms policy)"
    "map (fst \<circ> snd) rows = map xs_roomId (sort_key xs_roomId (xp_rooms policy))"
    using plan_rooms_items [OF assms(7)] by (simp_all add: comp_def map_idI)
  have n: "length rows = length (xp_rooms policy)" using rows(1) by (metis length_map length_sort)
  have rooms: "\<forall>r \<in> set (map xi_room (map fst rows)). valid_room r"
    unfolding rows(1) using p by (simp add: valid_comfort_policy_def list_all_iff)
  have ids: "\<forall>k \<in> set (map (fst \<circ> snd) rows). is_identity k"
    unfolding rows(2) using p by (auto simp: valid_comfort_policy_def list_all_iff valid_room_def)
  show ?thesis
    using p a rv rooms ids n assms(1,2) v(4)
    by (auto simp: comfort_plan_build_def Let_def valid_comfort_plan_def valid_comfort_policy_def
        valid_comfort_authority_def comfort_hex_digests_def take_snapshot is_timestamp_def list_all_iff)
qed

text \<open>The comfort planner answers every call with a valid plan or an error of the API: no
  lookup fails and no contract of its own output is violated, up to the last representable time stamp.\<close>

theorem comfort_plan_never_crashes:
  assumes "comfort_hex_digests env" and "now \<le> 2 ^ 63 - 1"
  shows "case comfort_plan_of env rawAuthority rawPolicy rawClimate rawWeather rawOccupancy now rawOverrides of
     Inl e \<Rightarrow> e \<in> {bad_request, forbidden, not_found, revision_conflict}
   | Inr plan \<Rightarrow> valid_comfort_plan plan"
proof -
  let ?errs = "{bad_request, forbidden, not_found, revision_conflict}"
  let ?run = "comfort_plan_of env rawAuthority rawPolicy rawClimate rawWeather rawOccupancy now rawOverrides"
  have auth: "e \<in> ?errs" if "comfort_authority_of env rawAuthority = Inl e" for e
    using that by (auto simp: comfort_authority_of_def resolve_current_def bind_res_Inl_iff
        split: option.splits lookup.splits if_splits)
  have pol: "e \<in> ?errs" if "comfort_policy_of env rawPolicy = Inl e" for e
    using that by (auto simp: comfort_policy_of_def resolve_current_def bind_res_Inl_iff
        split: option.splits lookup.splits if_splits)
  have inp: "e \<in> ?errs" if "comfort_inputs_of rawClimate rawWeather rawOccupancy rawOverrides now = Inl e" for e
    using that by (auto simp: comfort_inputs_of_def split: option.splits if_splits)
  have scope: "e \<in> ?errs" if "check_comfort_scope authority policy i = Inl e" for authority policy i e
    using that by (auto simp: check_comfort_scope_def Let_def split: if_splits)
  have step: "e \<in> ?errs" if "comfort_override_step authority policy now v active = Inl e" for authority policy v active e
    using that by (auto simp: comfort_override_step_def split: option.splits if_splits)
  have over: "e \<in> ?errs" if failed: "comfort_overrides authority policy now ovs = Inl e" for authority policy ovs e
  proof -
    obtain v active where "comfort_override_step authority policy now v active = Inl e"
      using fold_res_error [OF failed [unfolded comfort_overrides_def]] by (elim exE conjE)
    then show ?thesis by (rule step)
  qed
  show ?thesis
  proof (cases ?run)
    case (Inr plan)
    then show ?thesis using comfort_plan_of_Inr [OF Inr, of "valid_comfort_plan plan"] by simp
  next
    case (Inl e)
    have "e \<in> ?errs"
    proof (rule ccontr)
      assume ne: "e \<notin> ?errs"
      obtain authority where 1: "comfort_authority_of env rawAuthority = Inr authority"
        using Inl ne auth by (cases "comfort_authority_of env rawAuthority") (simp_all add: comfort_plan_of_def)
      obtain policy where 2: "comfort_policy_of env rawPolicy = Inr policy"
        using Inl ne pol 1 by (cases "comfort_policy_of env rawPolicy") (simp_all add: comfort_plan_of_def)
      obtain i where 3: "comfort_inputs_of rawClimate rawWeather rawOccupancy rawOverrides now = Inr i"
        using Inl ne inp 1 2
        by (cases "comfort_inputs_of rawClimate rawWeather rawOccupancy rawOverrides now")
          (simp_all add: comfort_plan_of_def)
      have from_eq: "comfort_plan_from env authority policy i now = Inl e"
        using Inl 1 2 3 by (simp add: comfort_plan_of_def)
      have 4: "check_comfort_scope authority policy i = Inr ()"
        using from_eq ne scope [of authority policy i]
        by (cases "check_comfort_scope authority policy i") (simp_all add: comfort_plan_from_def)
      obtain active where 5: "comfort_overrides authority policy now (xn_overrides i) = Inr active"
        using from_eq ne over [of authority policy "xn_overrides i"] 4
        by (cases "comfort_overrides authority policy now (xn_overrides i)") (simp_all add: comfort_plan_from_def)
      obtain rows where 6: "plan_rooms policy i active now (sort_key xs_roomId (xp_rooms policy)) = Inr rows"
        using plan_rooms_total [of "sort_key xs_roomId (xp_rooms policy)" i policy active now] comfort_scope_ok(3,4) [OF 4]
        by (metis order_refl set_sort)
      show False
        using from_eq 4 5 6 comfort_plan_build_valid [OF assms 1 2 3 4 6] by (simp add: comfort_plan_from_def)
    qed
    with Inl show ?thesis by simp
  qed
qed

section \<open>A concrete home\<close>

definition com_authority :: comfort_authority where
  "com_authority = \<lparr>xa_coreId = id_of CHR ''a'', xa_homeId = id_of CHR ''b'', xa_homeRevision = 1,
     xa_accountId = id_of CHR ''c'', xa_accountRevision = 1, xa_sessionFamilyId = id_of CHR ''d'',
     xa_role = ComfortAdmin, xa_active = True, xa_canManageComfort = True\<rparr>"

definition com_device :: "device_kind \<Rightarrow> char \<Rightarrow> comfort_device" where
  "com_device k c = \<lparr>xd_kind = k, xd_deviceId = id_of c, xd_deviceRevision = 1, xd_serviceId = id_of c,
     xd_serviceRevision = 1, xd_bindingId = id_of c, xd_bindingRevision = 1\<rparr>"

definition com_room :: room_scope where
  "com_room = \<lparr>xs_coreId = id_of CHR ''a'', xs_homeId = id_of CHR ''b'', xs_roomId = id_of CHR ''1'',
     xs_roomRevision = 1, xs_areaId = id_of CHR ''2'', xs_areaRevision = 1,
     xs_hvac = com_device HvacDevice CHR ''3'', xs_window = com_device WindowDevice CHR ''4''\<rparr>"

definition com_policy :: comfort_policy where
  "com_policy = \<lparr>xp_coreId = id_of CHR ''a'', xp_homeId = id_of CHR ''b'', xp_policyId = id_of CHR ''e'',
     xp_policyRevision = 2, xp_rooms = [com_room], xp_targetTemperatureMilliC = 21000,
     xp_temperatureToleranceMilliC = 1000, xp_humidityHighPermille = 700, xp_co2HighPpm = 1200,
     xp_vocHighPpb = 500, xp_outdoorAqiLimit = 100, xp_freezeThresholdMilliC = 0, xp_indoorMaxAgeMs = 60000,
     xp_outdoorMaxAgeMs = 60000, xp_occupancyMaxAgeMs = 60000, xp_previewTtlMs = 30000, xp_active = True\<rparr>"

definition com_metric :: "metric_kind \<Rightarrow> char \<Rightarrow> int \<Rightarrow> metric_reading" where
  "com_metric k c v = \<lparr>xm_kind = k, xm_sensorId = id_of c, xm_sensorRevision = 1, xm_readingRevision = 1,
     xm_value = v, xm_observedAtMs = 90000\<rparr>"

definition com_climate :: "int \<Rightarrow> room_climate" where
  "com_climate co2 = \<lparr>xc_coreId = id_of CHR ''a'', xc_homeId = id_of CHR ''b'', xc_roomId = id_of CHR ''1'',
     xc_roomRevision = 1, xc_snapshotRevision = 1, xc_temperature = com_metric TemperatureMilliC CHR ''5'' 21000,
     xc_humidity = com_metric HumidityPermille CHR ''6'' 400, xc_co2 = com_metric Co2Ppm CHR ''7'' co2,
     xc_voc = com_metric VocPpb CHR ''8'' 100, xc_smokeDetected = False, xc_smokeSensorId = id_of CHR ''9'',
     xc_smokeSensorRevision = 1, xc_smokeReadingRevision = 1, xc_smokeObservedAtMs = 90000\<rparr>"

definition com_weather :: "bool \<Rightarrow> int \<Rightarrow> outdoor_weather" where
  "com_weather rain aqi = \<lparr>xw_coreId = id_of CHR ''a'', xw_homeId = id_of CHR ''b'', xw_sourceId = id_of CHR ''f'',
     xw_sourceRevision = 1, xw_weatherRevision = 1, xw_temperatureMilliC = 15000, xw_raining = rain,
     xw_airQualityIndex = aqi, xw_observedAtMs = 90000\<rparr>"

definition com_occupancy :: "bool \<Rightarrow> occupancy_snapshot" where
  "com_occupancy b = \<lparr>xo_coreId = id_of CHR ''a'', xo_homeId = id_of CHR ''b'', xo_roomId = id_of CHR ''1'',
     xo_roomRevision = 1, xo_sourceId = id_of CHR ''f'', xo_sourceRevision = 1, xo_occupancyRevision = 1,
     xo_occupied = b, xo_observedAtMs = 90000\<rparr>"

definition com_override :: comfort_override where
  "com_override = \<lparr>xv_overrideId = id_of CHR ''0'', xv_coreId = id_of CHR ''a'', xv_homeId = id_of CHR ''b'',
     xv_policyId = id_of CHR ''e'', xv_expectedPolicyRevision = 2, xv_roomId = id_of CHR ''1'',
     xv_expectedRoomRevision = 1, xv_actorAccountId = id_of CHR ''c'', xv_hvacMode = HvacOff,
     xv_windowState = WindowOpen, xv_createdAtMs = 50000, xv_expiresAtMs = 150000\<rparr>"

definition com_env :: comfort_env where
  "com_env = \<lparr>xe_authority = (\<lambda>_. Found (Some com_authority)), xe_policy = (\<lambda>_. Found (Some com_policy)),
     xe_policy_hash = (\<lambda>_. digest_of CHR ''1''), xe_identity_hash = (\<lambda>_. digest_of CHR ''2'')\<rparr>"

definition com_inputs :: "int \<Rightarrow> outdoor_weather \<Rightarrow> bool \<Rightarrow> comfort_override list \<Rightarrow> comfort_inputs" where
  "com_inputs co2 weather occupied overrides = \<lparr>xn_climate = [com_climate co2], xn_weather = weather,
     xn_occupancy = [com_occupancy occupied], xn_overrides = overrides\<rparr>"

definition com_plan :: "int \<Rightarrow> outdoor_weather \<Rightarrow> bool \<Rightarrow> comfort_override list \<Rightarrow> comfort_plan result" where
  "com_plan co2 weather occupied overrides =
     comfort_plan_of com_env (Some com_authority) (Some com_policy) [Some (com_climate co2)] (Some weather)
       [Some (com_occupancy occupied)] 100000 (map Some overrides)"

definition com_rows :: "int \<Rightarrow> outdoor_weather \<Rightarrow> bool \<Rightarrow> comfort_override list
    \<Rightarrow> (comfort_item \<times> (string \<times> occupancy_advice)) list result" where
  "com_rows co2 weather occupied active =
     plan_rooms com_policy (com_inputs co2 weather occupied active) active 100000 (sort_key xs_roomId (xp_rooms com_policy))"

lemma com_admitted:
  "comfort_authority_of com_env (Some com_authority) = Inr com_authority"
  "comfort_policy_of com_env (Some com_policy) = Inr com_policy" "comfort_hex_digests com_env"
proof -
  have "valid_comfort_authority com_authority" "valid_comfort_policy com_policy" by code_simp+
  then show "comfort_authority_of com_env (Some com_authority) = Inr com_authority"
    "comfort_policy_of com_env (Some com_policy) = Inr com_policy"
    by (simp_all add: comfort_authority_of_Inr comfort_policy_of_Inr com_env_def com_authority_def com_policy_def)
  show "comfort_hex_digests com_env"
    by (simp add: comfort_hex_digests_def com_env_def digest_of_def is_snapshot_def lower_hex_def list_all_iff)
qed

lemma com_planned:
  assumes "valid_climate (com_climate co2)" and "valid_weather weather" "list_all valid_comfort_override overrides"
    and "check_comfort_scope com_authority com_policy (com_inputs co2 weather occupied overrides) = Inr ()"
    and "comfort_overrides com_authority com_policy 100000 overrides = Inr overrides"
    and "com_rows co2 weather occupied overrides = Inr rows"
  shows "com_plan co2 weather occupied overrides =
    Inr (comfort_plan_build com_env com_authority com_policy (com_inputs co2 weather occupied overrides) overrides 100000 rows)"
proof -
  let ?i = "com_inputs co2 weather occupied overrides"
  have "valid_occupancy (com_occupancy True)" "valid_occupancy (com_occupancy False)" by code_simp+
  then have i: "comfort_inputs_of [Some (com_climate co2)] (Some weather) [Some (com_occupancy occupied)]
      (map Some overrides) 100000 = Inr ?i"
    using assms(1-3) by (cases occupied) (simp_all add: comfort_inputs_of_Inr com_inputs_def)
  have o: "xn_overrides ?i = overrides" by (simp add: com_inputs_def)
  have "valid_comfort_plan (comfort_plan_build com_env com_authority com_policy ?i overrides 100000 rows)"
    by (rule comfort_plan_build_valid [OF com_admitted(3) _ com_admitted(1,2) i assms(4) assms(6) [unfolded com_rows_def]]) simp
  then show ?thesis
    using assms(4-6) by (simp add: com_plan_def comfort_plan_of_def comfort_plan_from_def com_admitted i o com_rows_def)
qed

lemma com_refresh:
  "\<exists>plan. com_plan 1500 (com_weather False 40) b [] = Inr plan \<and>
     map (\<lambda>it. (xi_reason it, xi_windowState it)) (xl_items plan) = [(AirRefresh, WindowOpen)]"
proof -
  have v: "valid_climate (com_climate 1500)" "valid_weather (com_weather False 40)"
    "list_all valid_comfort_override []" by code_simp+
  have sc: "check_comfort_scope com_authority com_policy (com_inputs 1500 (com_weather False 40) True []) = Inr ()"
    "check_comfort_scope com_authority com_policy (com_inputs 1500 (com_weather False 40) False []) = Inr ()" by code_simp+
  have ov: "comfort_overrides com_authority com_policy 100000 [] = Inr []" by (simp add: comfort_overrides_def)
  have "case com_rows 1500 (com_weather False 40) True [] of Inl e \<Rightarrow> False
    | Inr rows \<Rightarrow> map (\<lambda>it. (xi_reason it, xi_windowState it)) (map fst rows) = [(AirRefresh, WindowOpen)]"
    "case com_rows 1500 (com_weather False 40) False [] of Inl e \<Rightarrow> False
    | Inr rows \<Rightarrow> map (\<lambda>it. (xi_reason it, xi_windowState it)) (map fst rows) = [(AirRefresh, WindowOpen)]"
    by code_simp+
  then obtain rows where rows: "com_rows 1500 (com_weather False 40) b [] = Inr rows"
    "map (\<lambda>it. (xi_reason it, xi_windowState it)) (map fst rows) = [(AirRefresh, WindowOpen)]"
    by (cases b) (auto split: sum.splits)
  have "check_comfort_scope com_authority com_policy (com_inputs 1500 (com_weather False 40) b []) = Inr ()"
    using sc by (cases b) simp_all
  from com_planned [OF v this ov rows(1)] rows(2) show ?thesis by (simp add: comfort_plan_build_def Let_def)
qed

lemma comfort_safety_gates_witness:
  "\<exists>plan it. com_plan 1500 (com_weather False 40) True [] = Inr plan \<and> it \<in> set (xl_items plan) \<and>
     xi_windowState it = WindowOpen \<and> xi_hvacMode it = HvacOff"
proof -
  obtain plan where run: "com_plan 1500 (com_weather False 40) True [] = Inr plan"
    "map (\<lambda>it. (xi_reason it, xi_windowState it)) (xl_items plan) = [(AirRefresh, WindowOpen)]"
    using com_refresh [of True] by (elim exE conjE) (rule that)
  obtain it where it: "it \<in> set (xl_items plan)" "xi_windowState it = WindowOpen"
    using run(2) by (cases "xl_items plan") auto
  have "xi_hvacMode it = HvacOff"
    using comfort_safety_gates [OF run(1) [unfolded com_plan_def] it(1)] it(2) by auto
  then show ?thesis using run(1) it by blast
qed

lemma comfort_occupancy_advisory_witness:
  "\<exists>plan plan'. com_plan 1500 (com_weather False 40) True [] = Inr plan \<and>
     com_plan 1500 (com_weather False 40) False [] = Inr plan' \<and> xl_items plan = xl_items plan'"
proof -
  obtain plan plan' where runs: "com_plan 1500 (com_weather False 40) True [] = Inr plan"
    "com_plan 1500 (com_weather False 40) False [] = Inr plan'"
    using com_refresh [of True] com_refresh [of False] by blast
  show ?thesis
    using comfort_occupancy_advisory [OF runs(1) [unfolded com_plan_def] runs(2) [unfolded com_plan_def]] runs by blast
qed

lemma comfort_plan_never_crashes_witness:
  "comfort_hex_digests com_env \<and>
   (case com_plan 1500 (com_weather False 40) True [] of Inl e \<Rightarrow> False | Inr plan \<Rightarrow> valid_comfort_plan plan)"
proof -
  obtain plan where run: "com_plan 1500 (com_weather False 40) True [] = Inr plan" using com_refresh by blast
  then show ?thesis
    using com_admitted(3) comfort_plan_never_crashes [OF com_admitted(3), of 100000 "Some com_authority"
      "Some com_policy" "[Some (com_climate 1500)]" "Some (com_weather False 40)" "[Some (com_occupancy True)]"
      "map Some []", folded com_plan_def]
    by simp
qed

text \<open>A manual override does get past two of the blocks: in a room that needs no fresh air,
  with rain outside and an air quality index far above the policy's limit, the plan opens the window
  because the override says so.\<close>

theorem comfort_override_passes_air_block:
  "\<exists>plan. com_plan 600 (com_weather True 400) True [com_override] = Inr plan \<and>
     \<not> outdoor_air_ok com_policy (com_weather True 400) \<and>
     map (\<lambda>it. (xi_status it, xi_reason it, xi_windowState it)) (xl_items plan) =
       [(RoomPlanned, ComfortOverride, WindowOpen)]"
proof -
  have v: "valid_climate (com_climate 600)" "valid_weather (com_weather True 400)"
    "list_all valid_comfort_override [com_override]" by code_simp+
  have sc: "check_comfort_scope com_authority com_policy (com_inputs 600 (com_weather True 400) True [com_override]) = Inr ()"
    "comfort_overrides com_authority com_policy 100000 [com_override] = Inr [com_override]" by code_simp+
  have "case com_rows 600 (com_weather True 400) True [com_override] of Inl e \<Rightarrow> False
    | Inr rows \<Rightarrow> map (\<lambda>it. (xi_status it, xi_reason it, xi_windowState it)) (map fst rows) =
        [(RoomPlanned, ComfortOverride, WindowOpen)]" by code_simp
  then obtain rows where rows: "com_rows 600 (com_weather True 400) True [com_override] = Inr rows"
    "map (\<lambda>it. (xi_status it, xi_reason it, xi_windowState it)) (map fst rows) = [(RoomPlanned, ComfortOverride, WindowOpen)]"
    by (cases "com_rows 600 (com_weather True 400) True [com_override]") auto
  moreover have "\<not> outdoor_air_ok com_policy (com_weather True 400)" by code_simp
  ultimately show ?thesis
    using com_planned [OF v sc rows(1)] by (simp add: comfort_plan_build_def Let_def)
qed


end
