(* ===== verification/Room_Presence.thy ===== *)
theory Room_Presence
  imports Larenor_Prelude "HOL-Library.List_Lexorder" "HOL-Library.Char_ord"
    "HOL-Library.Product_Lexorder"
begin

text \<open>
  Room presence: the contracts of \<open>server/larenor_server/room_presence/models.py\<close> and the fusion
  engine of \<open>room_presence/fusion.py\<close>, a state machine that turns batches of private signals into an
  estimate of the room a device is in, with hysteresis on entering and leaving. The engine keeps
  counters and one replay checkpoint per signal source, keyed by a digest. The digests and the resolvers
  are parameters.
\<close>

section \<open>Contracts\<close>

definition MAX_REVISION :: int where "MAX_REVISION = 2 ^ 63 - 1"

lemma MAX_REVISION_code [code]: "MAX_REVISION = 9223372036854775807"
  by (simp add: MAX_REVISION_def)

definition is_confidence :: "int \<Rightarrow> bool" where "is_confidence c = between 0 1000 c"

record presence_authority =
  qa_coreId :: string
  qa_homeId :: string
  qa_homeRevision :: int
  qa_accountId :: string
  qa_accountRevision :: int
  qa_sessionFamilyId :: string
  qa_active :: bool
  qa_canReadPresence :: bool
  qa_canManagePresence :: bool

definition valid_presence_authority :: "presence_authority \<Rightarrow> bool" where
  "valid_presence_authority a =
     (is_identity (qa_coreId a) \<and> is_identity (qa_homeId a) \<and> is_revision (qa_homeRevision a) \<and>
      is_identity (qa_accountId a) \<and> is_revision (qa_accountRevision a) \<and>
      is_identity (qa_sessionFamilyId a))"

record presence_room =
  qm_coreId :: string
  qm_homeId :: string
  qm_roomId :: string
  qm_roomRevision :: int

definition valid_presence_room :: "presence_room \<Rightarrow> bool" where
  "valid_presence_room r =
     (is_identity (qm_coreId r) \<and> is_identity (qm_homeId r) \<and> is_identity (qm_roomId r) \<and>
      is_revision (qm_roomRevision r))"

record presence_device =
  qd_coreId :: string
  qd_homeId :: string
  qd_deviceId :: string
  qd_deviceRevision :: int
  qd_modelId :: string
  qd_modelRevision :: int
  qd_consentId :: string
  qd_consentRevision :: int
  qd_consentActive :: bool
  qd_allowAutomationHandoff :: bool

definition valid_presence_device :: "presence_device \<Rightarrow> bool" where
  "valid_presence_device d =
     (is_identity (qd_coreId d) \<and> is_identity (qd_homeId d) \<and> is_identity (qd_deviceId d) \<and>
      is_revision (qd_deviceRevision d) \<and> is_identity (qd_modelId d) \<and> is_revision (qd_modelRevision d) \<and>
      is_identity (qd_consentId d) \<and> is_revision (qd_consentRevision d))"

datatype source_kind = HaPerson | HaDeviceTracker | Ble | Uwb

record presence_source =
  qs_sourceId :: string
  qs_sourceKind :: source_kind
  qs_sourceRevision :: int

definition valid_presence_source :: "presence_source \<Rightarrow> bool" where
  "valid_presence_source s = (is_identity (qs_sourceId s) \<and> is_revision (qs_sourceRevision s))"

record presence_policy =
  qp_coreId :: string
  qp_homeId :: string
  qp_homeRevision :: int
  qp_policyId :: string
  qp_policyRevision :: int
  qp_device :: presence_device
  qp_sources :: "presence_source list"
  qp_rooms :: "presence_room list"
  qp_enterConfidencePermille :: int
  qp_exitConfidencePermille :: int
  qp_enterObservations :: int
  qp_exitObservations :: int
  qp_maxSignalAgeMs :: int
  qp_active :: bool

definition exact_scope_and_hysteresis :: "presence_policy \<Rightarrow> bool" where
  "exact_scope_and_hysteresis p =
     (\<not> qp_enterConfidencePermille p \<le> qp_exitConfidencePermille p \<and>
      (qd_coreId (qp_device p), qd_homeId (qp_device p)) = (qp_coreId p, qp_homeId p) \<and>
      unique_on qm_roomId (qp_rooms p) \<and> unique_on qs_sourceId (qp_sources p) \<and>
      list_all (\<lambda>r. (qm_coreId r, qm_homeId r) = (qp_coreId p, qp_homeId p)) (qp_rooms p))"

definition valid_presence_policy :: "presence_policy \<Rightarrow> bool" where
  "valid_presence_policy p =
     (is_identity (qp_coreId p) \<and> is_identity (qp_homeId p) \<and> is_revision (qp_homeRevision p) \<and>
      is_identity (qp_policyId p) \<and> is_revision (qp_policyRevision p) \<and> valid_presence_device (qp_device p) \<and>
      1 \<le> length (qp_sources p) \<and> length (qp_sources p) \<le> 16 \<and> list_all valid_presence_source (qp_sources p) \<and>
      1 \<le> length (qp_rooms p) \<and> length (qp_rooms p) \<le> 32 \<and> list_all valid_presence_room (qp_rooms p) \<and>
      is_confidence (qp_enterConfidencePermille p) \<and> is_confidence (qp_exitConfidencePermille p) \<and>
      between 1 10 (qp_enterObservations p) \<and> between 1 10 (qp_exitObservations p) \<and>
      between 1000 (15 * 60 * 1000) (qp_maxSignalAgeMs p) \<and> exact_scope_and_hysteresis p)"

record presence_signal =
  qg_coreId :: string
  qg_homeId :: string
  qg_homeRevision :: int
  qg_roomId :: string
  qg_roomRevision :: int
  qg_deviceId :: string
  qg_deviceRevision :: int
  qg_modelId :: string
  qg_modelRevision :: int
  qg_policyId :: string
  qg_policyRevision :: int
  qg_consentId :: string
  qg_consentRevision :: int
  qg_sourceId :: string
  qg_sourceKind :: source_kind
  qg_sourceRevision :: int
  qg_observationRevision :: int
  qg_rawIdentifier :: string
  qg_confidencePermille :: int
  qg_observedAtMs :: int

definition valid_signal :: "presence_signal \<Rightarrow> bool" where
  "valid_signal g =
     (is_identity (qg_coreId g) \<and> is_identity (qg_homeId g) \<and> is_revision (qg_homeRevision g) \<and>
      is_identity (qg_roomId g) \<and> is_revision (qg_roomRevision g) \<and> is_identity (qg_deviceId g) \<and>
      is_revision (qg_deviceRevision g) \<and> is_identity (qg_modelId g) \<and> is_revision (qg_modelRevision g) \<and>
      is_identity (qg_policyId g) \<and> is_revision (qg_policyRevision g) \<and> is_identity (qg_consentId g) \<and>
      is_revision (qg_consentRevision g) \<and> is_identity (qg_sourceId g) \<and> is_revision (qg_sourceRevision g) \<and>
      is_revision (qg_observationRevision g) \<and>
      1 \<le> length (qg_rawIdentifier g) \<and> length (qg_rawIdentifier g) \<le> 160 \<and> \<not> has_control (qg_rawIdentifier g) \<and>
      is_confidence (qg_confidencePermille g) \<and> is_timestamp (qg_observedAtMs g))"

datatype presence_status = Unknown | Candidate | Uncertain | Present

record presence_estimate =
  qe_estimateId :: string
  qe_coreId :: string
  qe_homeId :: string
  qe_homeRevision :: int
  qe_deviceId :: string
  qe_deviceRevision :: int
  qe_modelId :: string
  qe_modelRevision :: int
  qe_policyId :: string
  qe_policyRevision :: int
  qe_consentId :: string
  qe_consentRevision :: int
  qe_status :: presence_status
  qe_roomId :: "string option"
  qe_roomRevision :: "int option"
  qe_confidencePermille :: int
  qe_observedAtMs :: int
  qe_sampleCount :: int
  qe_transitionRevision :: int
  qe_advisoryOnly :: bool
  qe_grantsAccess :: bool

definition room_matches_status :: "presence_estimate \<Rightarrow> bool" where
  "room_matches_status e =
     ((if qe_status e \<in> {Present, Uncertain} then qe_roomId e \<noteq> None \<and> qe_roomRevision e \<noteq> None
       else qe_roomId e = None \<and> qe_roomRevision e = None) \<and>
      \<not> (qe_status e = Unknown \<and> (qe_confidencePermille e \<noteq> 0 \<or> qe_sampleCount e \<noteq> 0)))"

definition valid_estimate :: "presence_estimate \<Rightarrow> bool" where
  "valid_estimate e =
     (is_identity (qe_estimateId e) \<and> is_identity (qe_coreId e) \<and> is_identity (qe_homeId e) \<and>
      is_revision (qe_homeRevision e) \<and> is_identity (qe_deviceId e) \<and> is_revision (qe_deviceRevision e) \<and>
      is_identity (qe_modelId e) \<and> is_revision (qe_modelRevision e) \<and> is_identity (qe_policyId e) \<and>
      is_revision (qe_policyRevision e) \<and> is_identity (qe_consentId e) \<and> is_revision (qe_consentRevision e) \<and>
      (case qe_roomId e of None \<Rightarrow> True | Some r \<Rightarrow> is_identity r) \<and>
      (case qe_roomRevision e of None \<Rightarrow> True | Some r \<Rightarrow> is_revision r) \<and>
      is_confidence (qe_confidencePermille e) \<and> is_timestamp (qe_observedAtMs e) \<and>
      between 0 64 (qe_sampleCount e) \<and> is_timestamp (qe_transitionRevision e) \<and>
      qe_advisoryOnly e \<and> \<not> qe_grantsAccess e \<and> room_matches_status e)"

section \<open>The engine\<close>

text \<open>The scope an engine is bound to: home, policy, device, model and consent with their revisions.\<close>

type_synonym presence_scope =
  "string \<times> string \<times> int \<times> string \<times> int \<times> string \<times> int \<times> string \<times> int \<times> string \<times> int"

record fusion =
  fu_max_source_checkpoints :: int
  fu_bound_scope :: "presence_scope option"
  fu_current_room :: "string option"
  fu_candidate_room :: "string option"
  fu_candidate_count :: int
  fu_exit_count :: int
  fu_transition_revision :: int
  fu_last_observations :: "(string \<times> int) list"

record estimate_identity =
  qi_home :: string
  qi_device :: string
  qi_policyRevision :: int
  qi_consentRevision :: int
  qi_status :: presence_status
  qi_roomId :: "string option"
  qi_roomRevision :: "int option"
  qi_confidence :: int
  qi_observedAt :: int
  qi_samples :: int
  qi_transition :: int

record fusion_env =
  fe_authority :: "string \<Rightarrow> presence_authority lookup"
  fe_policy :: "string \<Rightarrow> presence_policy lookup"
  fe_source_key :: "string \<Rightarrow> source_kind \<Rightarrow> string \<Rightarrow> string"
  fe_estimate_hash :: "estimate_identity \<Rightarrow> string"

definition new_fusion :: "int \<Rightarrow> fusion result" where
  "new_fusion maxSourceCheckpoints =
     (if \<not> between 1 4096 maxSourceCheckpoints then Inl ValueError
      else Inr \<lparr>fu_max_source_checkpoints = maxSourceCheckpoints, fu_bound_scope = None, fu_current_room = None,
                fu_candidate_room = None, fu_candidate_count = 0, fu_exit_count = 0, fu_transition_revision = 0,
                fu_last_observations = []\<rparr>)"

text \<open>What \<open>snapshot_state\<close> gives and \<open>restore_state\<close> takes. The scope is a list of eleven
  strings or numbers there; a presented scope of another shape is \<open>None\<close> inside \<open>Some\<close>.\<close>

record fusion_snapshot =
  fs_boundScope :: "presence_scope raw option"
  fs_currentRoom :: "string option"
  fs_candidateRoom :: "string option"
  fs_candidateCount :: int
  fs_exitCount :: int
  fs_transitionRevision :: int
  fs_observationCheckpoints :: "(string \<times> int) list"

definition snapshot_state :: "fusion \<Rightarrow> fusion_snapshot" where
  "snapshot_state s =
     \<lparr>fs_boundScope = map_option Some (fu_bound_scope s), fs_currentRoom = fu_current_room s,
      fs_candidateRoom = fu_candidate_room s, fs_candidateCount = fu_candidate_count s,
      fs_exitCount = fu_exit_count s, fs_transitionRevision = fu_transition_revision s,
      fs_observationCheckpoints = fu_last_observations s\<rparr>"

definition restore_state :: "fusion_snapshot \<Rightarrow> fusion \<Rightarrow> fusion result" where
  "restore_state raw s =
     (if fs_boundScope raw = Some None then Inl ValueError
      else if list_ex (\<lambda>r. case r of None \<Rightarrow> False | Some v \<Rightarrow> \<not> is_identity v)
                [fs_currentRoom raw, fs_candidateRoom raw] then Inl ValueError
      else if list_ex (\<lambda>n. \<not> between 0 MAX_REVISION n)
                [fs_candidateCount raw, fs_exitCount raw, fs_transitionRevision raw] then Inl ValueError
      else if int (length (fs_observationCheckpoints raw)) > fu_max_source_checkpoints s
              \<or> list_ex (\<lambda>(k, v). \<not> is_snapshot k \<or> \<not> between 1 MAX_REVISION v) (fs_observationCheckpoints raw)
      then Inl ValueError
      else Inr (s\<lparr>fu_bound_scope := (case fs_boundScope raw of None \<Rightarrow> None | Some sc \<Rightarrow> sc),
                  fu_current_room := fs_currentRoom raw, fu_candidate_room := fs_candidateRoom raw,
                  fu_candidate_count := fs_candidateCount raw, fu_exit_count := fs_exitCount raw,
                  fu_transition_revision := fs_transitionRevision raw,
                  fu_last_observations := fs_observationCheckpoints raw\<rparr>))"

text \<open>The two admission checks. Of what the policy resolver may raise, \<open>Raised\<close> stands for
  anything but a \<open>ValueError\<close>; an answer that does not validate is one.\<close>

abbreviation consent_required :: error where "consent_required \<equiv> ApiError ''consent_required'' 403"

definition presence_authority_of :: "fusion_env \<Rightarrow> presence_authority raw \<Rightarrow> presence_authority result" where
  "presence_authority_of env presented =
     bind_res (resolve_current valid_presence_authority (fe_authority env) qa_accountId
                 forbidden forbidden forbidden presented)
       (\<lambda>a. if \<not> qa_active a \<or> \<not> qa_canReadPresence a then Inl forbidden else Inr a)"

definition presence_policy_of :: "fusion_env \<Rightarrow> presence_policy raw \<Rightarrow> presence_policy result" where
  "presence_policy_of env presented =
     (case model_validate valid_presence_policy presented of
        None \<Rightarrow> Inl bad_request
      | Some p \<Rightarrow>
         (case fe_policy env (qp_policyId p) of
            Raised \<Rightarrow> Inl revision_conflict
          | Missing \<Rightarrow> Inl bad_request
          | Found r \<Rightarrow>
             (case model_validate valid_presence_policy r of
                None \<Rightarrow> Inl bad_request
              | Some current \<Rightarrow>
                  if current \<noteq> p then Inl revision_conflict
                  else if \<not> qp_active p then Inl forbidden
                  else if \<not> qd_consentActive (qp_device p) then Inl consent_required
                  else Inr p)))"

definition exact_scope :: "presence_policy \<Rightarrow> presence_scope" where
  "exact_scope p =
     (qp_coreId p, qp_homeId p, qp_homeRevision p, qp_policyId p, qp_policyRevision p,
      qd_deviceId (qp_device p), qd_deviceRevision (qp_device p), qd_modelId (qp_device p),
      qd_modelRevision (qp_device p), qd_consentId (qp_device p), qd_consentRevision (qp_device p))"

definition source_key :: "fusion_env \<Rightarrow> presence_signal \<Rightarrow> string" where
  "source_key env g = fe_source_key env (qg_sourceId g) (qg_sourceKind g) (qg_rawIdentifier g)"

definition checkpoint :: "fusion \<Rightarrow> string \<Rightarrow> int" where
  "checkpoint s key = (case map_of (fu_last_observations s) key of None \<Rightarrow> 0 | Some v \<Rightarrow> v)"

text \<open>One turn of the validating loop; \<open>seen\<close> are the source keys of the batch so far.\<close>

definition signal_step :: "fusion_env \<Rightarrow> presence_policy \<Rightarrow> fusion \<Rightarrow> presence_signal \<Rightarrow> string list
    \<Rightarrow> string list result" where
  "signal_step env p s g seen =
     (case (select_key qm_roomId (qg_roomId g) (qp_rooms p), select_key qs_sourceId (qg_sourceId g) (qp_sources p)) of
        (Some room, Some source) \<Rightarrow>
          if (qg_coreId g, qg_homeId g, qg_homeRevision g, qg_roomRevision g, qg_deviceId g, qg_deviceRevision g,
              qg_modelId g, qg_modelRevision g, qg_policyId g, qg_policyRevision g, qg_consentId g,
              qg_consentRevision g)
             \<noteq> (qp_coreId p, qp_homeId p, qp_homeRevision p, qm_roomRevision room, qd_deviceId (qp_device p),
                qd_deviceRevision (qp_device p), qd_modelId (qp_device p), qd_modelRevision (qp_device p),
                qp_policyId p, qp_policyRevision p, qd_consentId (qp_device p), qd_consentRevision (qp_device p))
          then Inl revision_conflict
          else if (qg_sourceKind g, qg_sourceRevision g) \<noteq> (qs_sourceKind source, qs_sourceRevision source)
          then Inl revision_conflict
          else if source_key env g \<in> set seen then Inl bad_request
          else if qg_observationRevision g \<le> checkpoint s (source_key env g) then Inl revision_conflict
          else Inr (seen @ [source_key env g])
      | _ \<Rightarrow> Inl not_found)"

text \<open>Everything \<open>fuse\<close> checks before it changes its state.\<close>

definition fuse_checks :: "fusion_env \<Rightarrow> presence_authority raw \<Rightarrow> presence_policy raw \<Rightarrow> presence_signal raw list
    \<Rightarrow> int \<Rightarrow> fusion \<Rightarrow> (presence_authority \<times> presence_policy \<times> presence_signal list) result" where
  "fuse_checks env rawAuthority rawPolicy rawSignals now s =
     bind_res (presence_authority_of env rawAuthority) (\<lambda>authority.
     bind_res (presence_policy_of env rawPolicy) (\<lambda>p.
       if (qa_coreId authority, qa_homeId authority, qa_homeRevision authority)
            \<noteq> (qp_coreId p, qp_homeId p, qp_homeRevision p) then Inl not_found
       else if now < 0 then Inl bad_request
       else if \<not> (1 \<le> length rawSignals \<and> length rawSignals \<le> 64) then Inl bad_request
       else case validate_all valid_signal rawSignals of
              None \<Rightarrow> Inl bad_request
            | Some signals \<Rightarrow>
                if fu_bound_scope s \<noteq> None \<and> fu_bound_scope s \<noteq> Some (exact_scope p)
                then Inl (ApiError ''scope_mismatch'' 409)
                else bind_res (fold_res (signal_step env p s) signals []) (\<lambda>seen.
                  let fresh_keys = filter (\<lambda>k. k \<notin> fst ` set (fu_last_observations s)) seen in
                  if int (length (fu_last_observations s)) + int (length fresh_keys) > fu_max_source_checkpoints s
                  then Inl (ApiError ''source_checkpoint_limit'' 409)
                  else Inr (authority, p, signals))))"

definition advance_checkpoints :: "fusion_env \<Rightarrow> presence_policy \<Rightarrow> presence_signal list \<Rightarrow> fusion \<Rightarrow> fusion" where
  "advance_checkpoints env p signals s =
     s\<lparr>fu_bound_scope := Some (exact_scope p),
       fu_last_observations :=
         fold (\<lambda>g d. AList.update (source_key env g) (qg_observationRevision g) d) signals (fu_last_observations s)\<rparr>"

definition fresh_signals :: "presence_policy \<Rightarrow> int \<Rightarrow> presence_signal list \<Rightarrow> presence_signal list" where
  "fresh_signals p now signals =
     filter (\<lambda>g. qg_observedAtMs g \<le> now \<and> now - qg_observedAtMs g \<le> qp_maxSignalAgeMs p) signals"

definition by_room_step :: "presence_signal \<Rightarrow> (string \<times> presence_signal) list \<Rightarrow> (string \<times> presence_signal) list" where
  "by_room_step g d =
     (case map_of d (qg_roomId g) of
        None \<Rightarrow> AList.update (qg_roomId g) g d
      | Some c \<Rightarrow>
          if (qg_confidencePermille g, qg_observedAtMs g, qg_observationRevision g)
               > (qg_confidencePermille c, qg_observedAtMs c, qg_observationRevision c)
          then AList.update (qg_roomId g) g d else d)"

definition by_room :: "presence_signal list \<Rightarrow> (string \<times> presence_signal) list" where
  "by_room fresh = fold by_room_step fresh []"

text \<open>\<open>max(values, key=\<dots>)\<close> returns the first of the greatest.\<close>

fun max_by :: "('a \<Rightarrow> 'k::linorder) \<Rightarrow> 'a \<Rightarrow> 'a list \<Rightarrow> 'a" where
  "max_by key x [] = x"
| "max_by key x (y # ys) = max_by key (if key y > key x then y else x) ys"

definition best_signal :: "presence_signal list \<Rightarrow> presence_signal" where
  "best_signal fresh =
     (case map snd (by_room fresh) of
        g # gs \<Rightarrow> max_by (\<lambda>g. (qg_confidencePermille g, qg_observedAtMs g, qg_roomId g)) g gs)"

definition observed_at :: "presence_signal list \<Rightarrow> int" where
  "observed_at fresh = foldr (\<lambda>g m. max (qg_observedAtMs g) m) fresh 0"

definition advance_candidate :: "string \<Rightarrow> fusion \<Rightarrow> fusion" where
  "advance_candidate room s =
     (if fu_candidate_room s = Some room then s\<lparr>fu_candidate_count := fu_candidate_count s + 1\<rparr>
      else s\<lparr>fu_candidate_room := Some room, fu_candidate_count := 1\<rparr>)"

definition clear_presence :: "fusion \<Rightarrow> fusion" where
  "clear_presence s =
     s\<lparr>fu_current_room := None, fu_candidate_room := None, fu_candidate_count := 0, fu_exit_count := 0\<rparr>"

definition enter_room :: "string \<Rightarrow> fusion \<Rightarrow> fusion" where
  "enter_room room s =
     s\<lparr>fu_current_room := Some room, fu_candidate_room := None, fu_candidate_count := 0, fu_exit_count := 0,
       fu_transition_revision := fu_transition_revision s + 1\<rparr>"

text \<open>What is said of a batch: status, room with its revision, confidence and number of samples.\<close>

type_synonym presence_report = "presence_status \<times> (string \<times> int) option \<times> int \<times> int"

definition uncertain_in :: "presence_policy \<Rightarrow> string \<Rightarrow> int \<Rightarrow> int \<Rightarrow> presence_report result" where
  "uncertain_in p room confidence samples =
     (case select_key qm_roomId room (qp_rooms p) of
        None \<Rightarrow> Inl KeyError
      | Some r \<Rightarrow> Inr (Uncertain, Some (qm_roomId r, qm_roomRevision r), confidence, samples))"

definition fuse_decide :: "presence_policy \<Rightarrow> presence_signal list \<Rightarrow> fusion \<Rightarrow> presence_report result \<times> fusion" where
  "fuse_decide p fresh s =
     (let rooms = by_room fresh; best = best_signal fresh; n = int (length fresh);
          found = (Present, Some (qg_roomId best, qg_roomRevision best), qg_confidencePermille best, n) in
      case fu_current_room s of
        None \<Rightarrow>
          if qg_confidencePermille best < qp_enterConfidencePermille p
          then (Inr (Unknown, None, 0, 0), s\<lparr>fu_candidate_room := None, fu_candidate_count := 0\<rparr>)
          else let s1 = advance_candidate (qg_roomId best) s in
               if fu_candidate_count s1 < qp_enterObservations p
               then (Inr (Candidate, None, qg_confidencePermille best, n), s1)
               else (Inr found, enter_room (qg_roomId best) s1)
      | Some here \<Rightarrow>
          let current = map_of rooms here;
              confidence = (case current of None \<Rightarrow> 0 | Some g \<Rightarrow> qg_confidencePermille g) in
          if qg_roomId best \<noteq> here \<and> qg_confidencePermille best \<ge> qp_enterConfidencePermille p
          then let s1 = advance_candidate (qg_roomId best) s in
               if fu_candidate_count s1 \<ge> qp_enterObservations p
               then (Inr found, enter_room (qg_roomId best) s1)
               else (uncertain_in p here confidence n, s1)
          else let s1 = s\<lparr>fu_candidate_room := None, fu_candidate_count := 0\<rparr> in
               if confidence < qp_exitConfidencePermille p
               then let s2 = s1\<lparr>fu_exit_count := fu_exit_count s1 + 1\<rparr> in
                    if fu_exit_count s2 \<ge> qp_exitObservations p
                    then (Inr (Unknown, None, 0, 0), clear_presence s2)
                    else (uncertain_in p here confidence n, s2)
               else (Inr (Present, map_option (\<lambda>g. (qg_roomId g, qg_roomRevision g)) current, confidence, n),
                     s1\<lparr>fu_exit_count := 0\<rparr>))"

definition estimate_of :: "fusion_env \<Rightarrow> presence_policy \<Rightarrow> int \<Rightarrow> fusion \<Rightarrow> presence_report \<Rightarrow> presence_estimate result" where
  "estimate_of env p observed s report =
     (case report of (status, room, confidence, samples) \<Rightarrow>
       (let d = qp_device p;
            identity = \<lparr>qi_home = qp_homeId p, qi_device = qd_deviceId d, qi_policyRevision = qp_policyRevision p,
              qi_consentRevision = qd_consentRevision d, qi_status = status, qi_roomId = map_option fst room,
              qi_roomRevision = map_option snd room, qi_confidence = confidence, qi_observedAt = observed,
              qi_samples = samples, qi_transition = fu_transition_revision s\<rparr>;
            e = \<lparr>qe_estimateId = take 32 (fe_estimate_hash env identity), qe_coreId = qp_coreId p,
              qe_homeId = qp_homeId p, qe_homeRevision = qp_homeRevision p, qe_deviceId = qd_deviceId d,
              qe_deviceRevision = qd_deviceRevision d, qe_modelId = qd_modelId d,
              qe_modelRevision = qd_modelRevision d, qe_policyId = qp_policyId p,
              qe_policyRevision = qp_policyRevision p, qe_consentId = qd_consentId d,
              qe_consentRevision = qd_consentRevision d, qe_status = status, qe_roomId = map_option fst room,
              qe_roomRevision = map_option snd room, qe_confidencePermille = confidence,
              qe_observedAtMs = observed, qe_sampleCount = samples,
              qe_transitionRevision = fu_transition_revision s, qe_advisoryOnly = True, qe_grantsAccess = False\<rparr>
        in if valid_estimate e then Inr e else Inl ValidationError))"

text \<open>\<open>fuse\<close> changes the engine in place: what was written before an exception stays.\<close>

definition fuse :: "fusion_env \<Rightarrow> presence_authority raw \<Rightarrow> presence_policy raw \<Rightarrow> presence_signal raw list \<Rightarrow> int
    \<Rightarrow> fusion \<Rightarrow> presence_estimate result \<times> fusion" where
  "fuse env rawAuthority rawPolicy rawSignals now s =
     (case fuse_checks env rawAuthority rawPolicy rawSignals now s of
        Inl e \<Rightarrow> (Inl e, s)
      | Inr (authority, p, signals) \<Rightarrow>
         (let s1 = advance_checkpoints env p signals s;
              fresh = fresh_signals p now signals in
          if fresh = []
          then let s2 = clear_presence s1 in (estimate_of env p now s2 (Unknown, None, 0, 0), s2)
          else case fuse_decide p fresh s1 of
                 (r, s2) \<Rightarrow> (bind_res r (estimate_of env p (observed_at fresh) s2), s2)))"


section \<open>The best signal\<close>

lemma max_by_greatest:
  "max_by key x ys \<in> set (x # ys) \<and> (\<forall>y \<in> set (x # ys). key y \<le> key (max_by key x ys))"
proof (induction ys arbitrary: x)
  case (Cons y ys)
  let ?z = "if key y > key x then y else x"
  have ih: "max_by key ?z ys \<in> set (?z # ys)" "\<forall>w \<in> set (?z # ys). key w \<le> key (max_by key ?z ys)"
    using Cons.IH [of ?z] by blast+
  have "key x \<le> key ?z" "key y \<le> key ?z" by auto
  then have "key x \<le> key (max_by key ?z ys)" "key y \<le> key (max_by key ?z ys)"
    using ih(2) by (meson list.set_intros(1) order_trans)+
  then show ?case using ih by (auto split: if_splits)
qed simp

text \<open>Every fresh signal is represented by one of its room that is at least as confident.\<close>

lemma by_room_facts:
  "(\<forall>(k, c) \<in> set (by_room gs). c \<in> set gs \<and> qg_roomId c = k) \<and>
   (\<forall>g \<in> set gs. \<exists>c. map_of (by_room gs) (qg_roomId g) = Some c \<and> qg_confidencePermille g \<le> qg_confidencePermille c)"
proof (induction gs rule: rev_induct)
  case (snoc g gs)
  let ?d = "by_room gs"
  have mem: "p = (k, v) \<or> p \<in> set d" if "p \<in> set (AList.update k v d)"
    for p k and v :: presence_signal and d using that by (induction d) (auto split: if_splits)
  have step: "by_room (gs @ [g]) = by_room_step g ?d" by (simp add: by_room_def)
  have sound: "\<forall>(k, c) \<in> set (by_room_step g ?d). c \<in> set (gs @ [g]) \<and> qg_roomId c = k"
    using snoc.IH by (auto simp: by_room_step_def split: option.splits if_splits dest!: mem)
  have self: "\<exists>c. map_of (by_room_step g ?d) (qg_roomId g) = Some c \<and> qg_confidencePermille g \<le> qg_confidencePermille c"
    by (auto simp: by_room_step_def update_conv' less_prod_def' not_less less_eq_prod_def split: option.splits if_splits)
  have old: "\<exists>c. map_of (by_room_step g ?d) (qg_roomId h) = Some c \<and> qg_confidencePermille h \<le> qg_confidencePermille c"
    if h: "h \<in> set gs" for h
  proof -
    obtain c where c: "map_of ?d (qg_roomId h) = Some c" "qg_confidencePermille h \<le> qg_confidencePermille c"
      using snoc.IH h by blast
    then show ?thesis
      by (cases "qg_roomId h = qg_roomId g")
        (auto simp: by_room_step_def update_conv' less_prod_def' split: option.splits if_splits)
  qed
  show ?case using sound self old unfolding step by auto
qed (simp add: by_room_def)

lemma best_signal_greatest:
  assumes "fresh \<noteq> []"
  shows "best_signal fresh \<in> set fresh"
    "g \<in> set fresh \<Longrightarrow> qg_confidencePermille g \<le> qg_confidencePermille (best_signal fresh)"
proof -
  let ?key = "\<lambda>g. (qg_confidencePermille g, qg_observedAtMs g, qg_roomId g)"
  obtain x xs where vs: "map snd (by_room fresh) = x # xs"
    using by_room_facts [of fresh] assms by (cases "by_room fresh"; cases fresh) auto
  then have best: "best_signal fresh = max_by ?key x xs" by (simp add: best_signal_def)
  have m: "best_signal fresh \<in> set (map snd (by_room fresh))"
    "\<forall>y \<in> set (map snd (by_room fresh)). ?key y \<le> ?key (best_signal fresh)"
    unfolding best vs using max_by_greatest [of ?key x xs] by blast+
  then show "best_signal fresh \<in> set fresh" using by_room_facts [of fresh] by auto
  show "qg_confidencePermille g \<le> qg_confidencePermille (best_signal fresh)" if g: "g \<in> set fresh"
  proof -
    obtain c where c: "map_of (by_room fresh) (qg_roomId g) = Some c" "qg_confidencePermille g \<le> qg_confidencePermille c"
      using by_room_facts [of fresh] g by blast
    have "c \<in> set (map snd (by_room fresh))" using map_of_SomeD [OF c(1)] by force
    then have "?key c \<le> ?key (best_signal fresh)" using m(2) by blast
    then show ?thesis using c(2) by (auto simp: less_eq_prod_def less_prod_def')
  qed
qed

text \<open>A batch supports a room when a fresh signal for it reaches the entry confidence and no fresh
  signal is more confident.\<close>

definition supports :: "presence_policy \<Rightarrow> string \<Rightarrow> presence_signal list \<times> int \<Rightarrow> bool" where
  "supports p room batch \<longleftrightarrow>
     (\<exists>g \<in> set (fresh_signals p (snd batch) (fst batch)). qg_roomId g = room \<and>
        qp_enterConfidencePermille p \<le> qg_confidencePermille g \<and>
        (\<forall>h \<in> set (fresh_signals p (snd batch) (fst batch)). qg_confidencePermille h \<le> qg_confidencePermille g))"

lemma best_supports:
  assumes "fresh_signals p now signals \<noteq> []"
    and "qp_enterConfidencePermille p \<le> qg_confidencePermille (best_signal (fresh_signals p now signals))"
  shows "supports p (qg_roomId (best_signal (fresh_signals p now signals))) (signals, now)"
  using best_signal_greatest [OF assms(1)] assms(2) by (auto simp: supports_def)

section \<open>Hysteresis\<close>

text \<open>The engine and the batches it has accepted under one policy, newest first.\<close>

inductive fusion_trace :: "presence_policy \<Rightarrow> (presence_signal list \<times> int) list \<Rightarrow> fusion \<Rightarrow> bool" for p where
  trace_new: "new_fusion n = Inr s \<Longrightarrow> fusion_trace p [] s"
| trace_fuse: "fusion_trace p bs s \<Longrightarrow> fuse_checks env rawAuthority (Some p) rawSignals now s = Inr (a, p, signals) \<Longrightarrow>
    fusion_trace p ((signals, now) # bs) (snd (fuse env rawAuthority (Some p) rawSignals now s))"

definition candidate_evidence :: "presence_policy \<Rightarrow> (presence_signal list \<times> int) list \<Rightarrow> fusion \<Rightarrow> bool" where
  "candidate_evidence p bs s \<longleftrightarrow>
     (case fu_candidate_room s of
        None \<Rightarrow> fu_candidate_count s = 0
      | Some room \<Rightarrow> 1 \<le> fu_candidate_count s \<and> nat (fu_candidate_count s) \<le> length bs \<and>
          (\<forall>b \<in> set (take (nat (fu_candidate_count s)) bs). supports p room b))"

lemma advance_evidence:
  assumes "candidate_evidence p bs s" and "supports p room b"
  shows "candidate_evidence p (b # bs) (advance_candidate room s)"
proof (cases "fu_candidate_room s = Some room")
  case True
  then have n: "1 \<le> fu_candidate_count s" "nat (fu_candidate_count s) \<le> length bs"
    "\<forall>b \<in> set (take (nat (fu_candidate_count s)) bs). supports p room b"
    using assms(1) by (auto simp: candidate_evidence_def)
  moreover have "nat (fu_candidate_count s + 1) = Suc (nat (fu_candidate_count s))" using n(1) by simp
  ultimately show ?thesis using True assms(2) by (simp add: candidate_evidence_def advance_candidate_def)
next
  case False
  then show ?thesis using assms(2) by (simp add: candidate_evidence_def advance_candidate_def)
qed

lemma candidate_evidence_frame:
  "fu_candidate_room s' = fu_candidate_room s \<Longrightarrow> fu_candidate_count s' = fu_candidate_count s \<Longrightarrow>
     candidate_evidence p bs s' = candidate_evidence p bs s"
  by (simp add: candidate_evidence_def split: option.split)

lemma no_candidate_evidence:
  "fu_candidate_room s = None \<Longrightarrow> fu_candidate_count s = 0 \<Longrightarrow> candidate_evidence p bs s"
  by (simp add: candidate_evidence_def)

text \<open>What a decision does to the candidate, and when it enters a room.\<close>

lemma fuse_decide_evidence:
  assumes "candidate_evidence p bs s" and "fresh_signals p now signals \<noteq> []"
    and "fuse_decide p (fresh_signals p now signals) s = (r, s')"
  shows "candidate_evidence p ((signals, now) # bs) s'"
    and "r = Inr (Present, Some (room, revision), confidence, samples) \<Longrightarrow> fu_current_room s \<noteq> Some room \<Longrightarrow>
      qp_enterObservations p \<le> fu_candidate_count (advance_candidate room s) \<and> supports p room (signals, now)"
proof -
  let ?fresh = "fresh_signals p now signals" and ?b = "(signals, now)"
  let ?best = "best_signal ?fresh"
  have adv: "candidate_evidence p (?b # bs) (advance_candidate (qg_roomId ?best) s)"
    if "qp_enterConfidencePermille p \<le> qg_confidencePermille ?best"
    by (rule advance_evidence [OF assms(1) best_supports [OF assms(2) that]])
  have frames: "fu_candidate_room (enter_room x t) = None" "fu_candidate_count (enter_room x t) = 0"
    "fu_candidate_room (clear_presence t) = None" "fu_candidate_count (clear_presence t) = 0" for x t
    by (simp_all add: enter_room_def clear_presence_def)
  show "candidate_evidence p (?b # bs) s'"
    using assms(3) adv
    by (auto simp: fuse_decide_def Let_def frames split: option.splits if_splits intro!: no_candidate_evidence)
  show "qp_enterObservations p \<le> fu_candidate_count (advance_candidate room s) \<and> supports p room ?b"
    if "r = Inr (Present, Some (room, revision), confidence, samples)" "fu_current_room s \<noteq> Some room"
  proof -
    have sound: "qg_roomId g = k" if "map_of (by_room ?fresh) k = Some g" for k g
      using by_room_facts [of ?fresh] map_of_SomeD [OF that] by blast
    show ?thesis
      using assms(3) that best_supports [OF assms(2)]
      by (auto simp: fuse_decide_def Let_def uncertain_in_def dest: sound split: option.splits if_splits)
  qed
qed


lemma fuse_accepted:
  assumes "fuse_checks env rawAuthority rawPolicy rawSignals now s = Inr (a, p, signals)"
  shows "fresh_signals p now signals = [] \<Longrightarrow> fuse env rawAuthority rawPolicy rawSignals now s =
      (estimate_of env p now (clear_presence (advance_checkpoints env p signals s)) (Unknown, None, 0, 0),
       clear_presence (advance_checkpoints env p signals s))"
    and "fresh_signals p now signals \<noteq> [] \<Longrightarrow>
      fuse_decide p (fresh_signals p now signals) (advance_checkpoints env p signals s) = (r, s') \<Longrightarrow>
      fuse env rawAuthority rawPolicy rawSignals now s =
        (bind_res r (estimate_of env p (observed_at (fresh_signals p now signals)) s'), s')"
  using assms by (simp_all add: fuse_def Let_def)

lemma advance_checkpoints_frame [simp]:
  "fu_current_room (advance_checkpoints env p signals s) = fu_current_room s"
  "fu_candidate_room (advance_checkpoints env p signals s) = fu_candidate_room s"
  "fu_candidate_count (advance_checkpoints env p signals s) = fu_candidate_count s"
  "fu_exit_count (advance_checkpoints env p signals s) = fu_exit_count s"
  "fu_transition_revision (advance_checkpoints env p signals s) = fu_transition_revision s"
  "fu_max_source_checkpoints (advance_checkpoints env p signals s) = fu_max_source_checkpoints s"
  by (simp_all add: advance_checkpoints_def)

lemma fusion_trace_evidence: "fusion_trace p bs s \<Longrightarrow> candidate_evidence p bs s"
proof (induction rule: fusion_trace.induct)
  case (trace_new n s)
  then show ?case by (auto simp: new_fusion_def split: if_splits intro: no_candidate_evidence)
next
  case (trace_fuse bs s env rawAuthority rawSignals now a signals)
  let ?s1 = "advance_checkpoints env p signals s" and ?fresh = "fresh_signals p now signals"
  have e: "candidate_evidence p bs ?s1"
    using trace_fuse.IH candidate_evidence_frame [of ?s1 s p bs] by simp
  show ?case
  proof (cases "?fresh = []")
    case True
    then show ?thesis
      using fuse_accepted(1) [OF trace_fuse.hyps(2)] by (simp add: clear_presence_def no_candidate_evidence)
  next
    case False
    obtain r s' where d: "fuse_decide p ?fresh ?s1 = (r, s')" by fastforce
    show ?thesis
      using fuse_accepted(2) [OF trace_fuse.hyps(2) False d] fuse_decide_evidence(1) [OF e False d] by simp
  qed
qed

lemma estimate_of_Inr:
  assumes "estimate_of env p t s (status, room, confidence, samples) = Inr e"
  shows "qe_status e = status" "qe_roomId e = map_option fst room" "qe_roomRevision e = map_option snd room"
    "valid_estimate e" "qe_sampleCount e = samples" "qe_confidencePermille e = confidence"
  using assms by (auto simp: estimate_of_def Let_def split: if_splits)

text \<open>C8: The engine reports a device in a new room only on sustained evidence. When it says
  present in a room it was not in before, each of the last accepted batches, as many as the policy's number of
  entry observations and ending with this one, had a fresh signal for that room at or above the entry
  confidence and none more confident for any room; rejected batches, stale batches and batches for another
  room start the count anew or leave it alone, whatever the order.\<close>

theorem presence_needs_evidence:
  assumes "fusion_trace p bs s" and "fuse env rawAuthority (Some p) rawSignals now s = (Inr e, s')"
    and "qe_status e = Present" and "qe_roomId e = Some room" and "fu_current_room s \<noteq> Some room"
  shows "\<exists>signals. rawSignals = map Some signals \<and>
    nat (qp_enterObservations p) \<le> Suc (length bs) \<and>
    (\<forall>b \<in> set (take (nat (qp_enterObservations p)) ((signals, now) # bs)). supports p room b)"
proof -
  obtain a p' signals where c: "fuse_checks env rawAuthority (Some p) rawSignals now s = Inr (a, p', signals)"
    using assms(2) by (cases "fuse_checks env rawAuthority (Some p) rawSignals now s") (auto simp: fuse_def)
  have raw: "rawSignals = map Some signals" and p': "p' = p"
    using c by (auto simp: fuse_checks_def bind_res_Inr_iff presence_policy_of_def validate_all_Some_iff Let_def
        split: if_splits option.splits lookup.splits)
  let ?s1 = "advance_checkpoints env p signals s" and ?fresh = "fresh_signals p now signals"
  have e: "candidate_evidence p bs ?s1"
    using fusion_trace_evidence [OF assms(1)] candidate_evidence_frame [of ?s1 s p bs] by simp
  have fresh: "?fresh \<noteq> []"
    using fuse_accepted(1) [OF c [unfolded p']] assms(2,3) estimate_of_Inr(1) by fastforce
  obtain r s2 where d: "fuse_decide p ?fresh ?s1 = (r, s2)" by fastforce
  then obtain status place confidence samples where
    r: "r = Inr (status, place, confidence, samples)"
      "estimate_of env p (observed_at ?fresh) s2 (status, place, confidence, samples) = Inr e"
    using fuse_accepted(2) [OF c [unfolded p'] fresh d] assms(2) by (cases r) (auto simp: bind_res_Inr_iff)
  then obtain revision where "r = Inr (Present, Some (room, revision), confidence, samples)"
    using estimate_of_Inr(1,2) [OF r(2)] assms(3,4) by (cases place) auto
  then have n: "qp_enterObservations p \<le> fu_candidate_count (advance_candidate room ?s1)" "supports p room (signals, now)"
    using fuse_decide_evidence(2) [OF e fresh d] assms(5) by simp_all
  have ev: "candidate_evidence p ((signals, now) # bs) (advance_candidate room ?s1)"
    by (rule advance_evidence [OF e n(2)])
  moreover have "fu_candidate_room (advance_candidate room ?s1) = Some room" by (simp add: advance_candidate_def)
  ultimately have k: "nat (fu_candidate_count (advance_candidate room ?s1)) \<le> Suc (length bs)"
    "\<forall>b \<in> set (take (nat (fu_candidate_count (advance_candidate room ?s1))) ((signals, now) # bs)). supports p room b"
    by (auto simp: candidate_evidence_def)
  have "set (take (nat (qp_enterObservations p)) ((signals, now) # bs)) \<subseteq>
      set (take (nat (fu_candidate_count (advance_candidate room ?s1))) ((signals, now) # bs))"
    using n(1) by (intro set_take_subset_set_take) simp
  then show ?thesis using raw n(1) k by (intro exI [of _ signals]) (auto intro: order_trans [OF nat_mono])
qed

section \<open>Replay protection\<close>

lemma map_of_update: "map_of (AList.update k v d) j = (if j = k then Some v else map_of d j)"
  by (simp add: update_conv')

lemma fold_checkpoints_other:
  assumes "k \<notin> source_key env ` set signals"
  shows "map_of (fold (\<lambda>g d. AList.update (source_key env g) (qg_observationRevision g) d) signals d) k = map_of d k"
  using assms by (induction signals arbitrary: d) (auto simp: map_of_update)

lemma fold_checkpoints_member:
  assumes "unique_on (source_key env) signals" and "g \<in> set signals"
  shows "map_of (fold (\<lambda>g d. AList.update (source_key env g) (qg_observationRevision g) d) signals d) (source_key env g)
    = Some (qg_observationRevision g)"
  using assms
proof (induction signals arbitrary: d)
  case (Cons h hs)
  show ?case
  proof (cases "g = h")
    case True
    then have "source_key env g \<notin> source_key env ` set hs" using Cons.prems(1) by (simp add: unique_on_def)
    from fold_checkpoints_other [OF this] show ?thesis using True by (simp add: map_of_update)
  next
    case False
    then show ?thesis using Cons by (simp add: unique_on_def)
  qed
qed simp

text \<open>What the validating loop has checked of a batch.\<close>

lemma signal_step_Inr:
  assumes "signal_step env p s g seen = Inr seen'"
  shows "seen' = seen @ [source_key env g]" "source_key env g \<notin> set seen"
    "checkpoint s (source_key env g) < qg_observationRevision g"
    "\<exists>room \<in> set (qp_rooms p). qm_roomId room = qg_roomId g \<and> qm_roomRevision room = qg_roomRevision g"
  using assms
  by (auto simp: signal_step_def split: option.splits if_splits dest!: select_where_Some)

lemma signal_steps_Inr:
  assumes "fold_res (signal_step env p s) signals seen = Inr seen'"
  shows "seen' = seen @ map (source_key env) signals \<and> (distinct seen \<longrightarrow> distinct seen') \<and>
    (\<forall>g \<in> set signals. checkpoint s (source_key env g) < qg_observationRevision g \<and>
      (\<exists>room \<in> set (qp_rooms p). qm_roomId room = qg_roomId g \<and> qm_roomRevision room = qg_roomRevision g))"
  using assms
proof (induction signals arbitrary: seen)
  case (Cons g gs)
  obtain seen1 where 1: "signal_step env p s g seen = Inr seen1" "fold_res (signal_step env p s) gs seen1 = Inr seen'"
    using Cons.prems by (auto simp: bind_res_Inr_iff)
  note g = signal_step_Inr [OF 1(1)] and ih = Cons.IH [OF 1(2)]
  have d: "distinct seen'" if "distinct seen"
  proof -
    have "distinct seen1" using g(1,2) that by simp
    then show ?thesis using ih by blast
  qed
  show ?case using ih g(1,3,4) d by simp
qed simp

lemma fuse_checks_Inr:
  assumes "fuse_checks env rawAuthority rawPolicy rawSignals now s = Inr (a, p, signals)"
  shows "presence_authority_of env rawAuthority = Inr a" "presence_policy_of env rawPolicy = Inr p"
    "rawSignals = map Some signals" "list_all valid_signal signals" "0 \<le> now" "1 \<le> length signals" "length signals \<le> 64"
    "fu_bound_scope s = None \<or> fu_bound_scope s = Some (exact_scope p)"
    "unique_on (source_key env) signals"
    "g \<in> set signals \<Longrightarrow> checkpoint s (source_key env g) < qg_observationRevision g"
    "g \<in> set signals \<Longrightarrow> \<exists>room \<in> set (qp_rooms p). qm_roomId room = qg_roomId g \<and> qm_roomRevision room = qg_roomRevision g"
    "int (length (fu_last_observations s))
      + int (length (filter (\<lambda>k. k \<notin> fst ` set (fu_last_observations s)) (map (source_key env) signals)))
      \<le> fu_max_source_checkpoints s"
proof -
  obtain seen where c: "presence_authority_of env rawAuthority = Inr a" "presence_policy_of env rawPolicy = Inr p"
    "validate_all valid_signal rawSignals = Some signals" "0 \<le> now" "1 \<le> length rawSignals" "length rawSignals \<le> 64"
    "fu_bound_scope s = None \<or> fu_bound_scope s = Some (exact_scope p)"
    "fold_res (signal_step env p s) signals [] = Inr seen"
    "int (length (fu_last_observations s)) + int (length (filter (\<lambda>k. k \<notin> fst ` set (fu_last_observations s)) seen))
      \<le> fu_max_source_checkpoints s"
    using assms unfolding fuse_checks_def Let_def bind_res_Inr_iff if_Inl_eq_Inr
    by (elim exE conjE)
      (auto simp: bind_res_Inr_iff simp del: split_paired_All split_paired_Ex not_None_eq split: if_splits option.splits)
  note v = c(3) [unfolded validate_all_Some_iff] and sg = signal_steps_Inr [OF c(8)]
  show "presence_authority_of env rawAuthority = Inr a" "presence_policy_of env rawPolicy = Inr p"
    "rawSignals = map Some signals" "list_all valid_signal signals" "0 \<le> now" "1 \<le> length signals" "length signals \<le> 64"
    "fu_bound_scope s = None \<or> fu_bound_scope s = Some (exact_scope p)"
    using c v by simp_all
  show "unique_on (source_key env) signals"
    "g \<in> set signals \<Longrightarrow> checkpoint s (source_key env g) < qg_observationRevision g"
    "g \<in> set signals \<Longrightarrow> \<exists>room \<in> set (qp_rooms p). qm_roomId room = qg_roomId g \<and> qm_roomRevision room = qg_roomRevision g"
    "int (length (fu_last_observations s))
      + int (length (filter (\<lambda>k. k \<notin> fst ` set (fu_last_observations s)) (map (source_key env) signals)))
      \<le> fu_max_source_checkpoints s"
    using sg c(9) unfolding unique_on_def by auto
qed

text \<open>The decision and the clearing do not touch the checkpoints.\<close>

lemma decide_checkpoints:
  "fu_last_observations (snd (fuse_decide p fresh s)) = fu_last_observations s"
  "fu_max_source_checkpoints (snd (fuse_decide p fresh s)) = fu_max_source_checkpoints s"
  "fu_bound_scope (snd (fuse_decide p fresh s)) = fu_bound_scope s"
  by (auto simp: fuse_decide_def Let_def advance_candidate_def enter_room_def clear_presence_def split: option.split)

lemma fuse_checkpoints:
  assumes "fuse_checks env rawAuthority rawPolicy rawSignals now s = Inr (a, p, signals)"
  shows "fu_last_observations (snd (fuse env rawAuthority rawPolicy rawSignals now s)) =
      fold (\<lambda>g d. AList.update (source_key env g) (qg_observationRevision g) d) signals (fu_last_observations s)"
    "fu_max_source_checkpoints (snd (fuse env rawAuthority rawPolicy rawSignals now s)) = fu_max_source_checkpoints s"
proof -
  let ?s1 = "advance_checkpoints env p signals s"
  have "snd (fuse env rawAuthority rawPolicy rawSignals now s) =
      (if fresh_signals p now signals = [] then clear_presence ?s1
       else snd (fuse_decide p (fresh_signals p now signals) ?s1))"
    using assms by (simp add: fuse_def Let_def split: prod.split)
  then show "fu_last_observations (snd (fuse env rawAuthority rawPolicy rawSignals now s)) =
      fold (\<lambda>g d. AList.update (source_key env g) (qg_observationRevision g) d) signals (fu_last_observations s)"
    "fu_max_source_checkpoints (snd (fuse env rawAuthority rawPolicy rawSignals now s)) = fu_max_source_checkpoints s"
    using decide_checkpoints [of p "fresh_signals p now signals" ?s1]
    by (auto simp: clear_presence_def advance_checkpoints_def)
qed


text \<open>An engine's life: batches, under any authority, policy and clock, and restarts that write the
  snapshot down and restore it in a new engine. The digest of a source is the same throughout.\<close>

inductive fusion_step :: "(string \<Rightarrow> source_kind \<Rightarrow> string \<Rightarrow> string) \<Rightarrow> fusion \<Rightarrow> fusion \<Rightarrow> bool" for digest where
  step_fuse: "fe_source_key env = digest \<Longrightarrow>
    fusion_step digest s (snd (fuse env rawAuthority rawPolicy rawSignals now s))"
| step_restart: "new_fusion n = Inr s0 \<Longrightarrow> restore_state (snapshot_state s) s0 = Inr s' \<Longrightarrow> fusion_step digest s s'"

lemma fuse_refused: "fuse_checks env rawAuthority rawPolicy rawSignals now s = Inl e \<Longrightarrow>
    fuse env rawAuthority rawPolicy rawSignals now s = (Inl e, s)"
  by (simp add: fuse_def)

lemma restore_snapshot_Inr:
  assumes "restore_state (snapshot_state s) s0 = Inr s'"
  shows "s' = s\<lparr>fu_max_source_checkpoints := fu_max_source_checkpoints s0\<rparr>"
    and "int (length (fu_last_observations s)) \<le> fu_max_source_checkpoints s0"
  using assms by (auto simp: restore_state_def snapshot_state_def split: if_splits option.splits)

lemma fuse_checkpoint:
  assumes "fuse_checks env rawAuthority rawPolicy rawSignals now s = Inr (a, p, signals)"
  shows "g \<in> set signals \<Longrightarrow>
      checkpoint (snd (fuse env rawAuthority rawPolicy rawSignals now s)) (source_key env g) = qg_observationRevision g"
    and "k \<notin> source_key env ` set signals \<Longrightarrow>
      checkpoint (snd (fuse env rawAuthority rawPolicy rawSignals now s)) k = checkpoint s k"
  using fold_checkpoints_member [OF fuse_checks_Inr(9) [OF assms]] fold_checkpoints_other
  by (simp_all add: checkpoint_def fuse_checkpoints(1) [OF assms])

lemma fusion_step_checkpoint: "fusion_step digest s s' \<Longrightarrow> checkpoint s k \<le> checkpoint s' k"
proof (induction rule: fusion_step.induct)
  case (step_fuse env s rawAuthority rawPolicy rawSignals now)
  show ?case
  proof (cases "fuse_checks env rawAuthority rawPolicy rawSignals now s")
    case (Inl e)
    then show ?thesis by (simp add: fuse_refused)
  next
    case (Inr x)
    then obtain a p signals where c: "fuse_checks env rawAuthority rawPolicy rawSignals now s = Inr (a, p, signals)"
      by (cases x) auto
    show ?thesis
    proof (cases "k \<in> source_key env ` set signals")
      case True
      then obtain g where g: "g \<in> set signals" "k = source_key env g" by blast
      then show ?thesis using fuse_checkpoint(1) [OF c g(1)] fuse_checks_Inr(10) [OF c g(1)] by simp
    next
      case False
      then show ?thesis using fuse_checkpoint(2) [OF c] by simp
    qed
  qed
next
  case (step_restart n s0 s s')
  show ?case using restore_snapshot_Inr(1) [OF step_restart.hyps(2)] by (simp add: checkpoint_def)
qed

lemma fusion_steps_checkpoint: "(fusion_step digest)\<^sup>*\<^sup>* s s' \<Longrightarrow> checkpoint s k \<le> checkpoint s' k"
  by (induction rule: rtranclp_induct) (auto dest: fusion_step_checkpoint intro: order_trans)

text \<open>C9: An observation counts once. After the engine has accepted a batch, a batch that has a signal
  of one of its sources with the same observation revision or an older one is refused, and the engine is
  left as it was: at once, after any further batches under any authority, policy or clock, and after restarts.\<close>

theorem presence_replay_refused:
  assumes "fuse_checks env rawAuthority rawPolicy rawSignals now s = Inr (a, p, signals)" and "g \<in> set signals"
    and "(fusion_step (fe_source_key env))\<^sup>*\<^sup>* (snd (fuse env rawAuthority rawPolicy rawSignals now s)) s'"
    and "fe_source_key env' = fe_source_key env" and "Some h \<in> set rawSignals'"
    and "qg_sourceId h = qg_sourceId g" and "qg_sourceKind h = qg_sourceKind g"
    and "qg_rawIdentifier h = qg_rawIdentifier g" and "qg_observationRevision h \<le> qg_observationRevision g"
  shows "\<exists>e. fuse env' rawAuthority' rawPolicy' rawSignals' now' s' = (Inl e, s')"
proof (cases "fuse_checks env' rawAuthority' rawPolicy' rawSignals' now' s'")
  case (Inl e)
  then show ?thesis by (simp add: fuse_refused)
next
  case (Inr x)
  then obtain a' p' signals' where
    c: "fuse_checks env' rawAuthority' rawPolicy' rawSignals' now' s' = Inr (a', p', signals')" by (cases x) auto
  have key: "source_key env' h = source_key env g" using assms(4,6-8) by (simp add: source_key_def)
  have "h \<in> set signals'" using assms(5) fuse_checks_Inr(3) [OF c] by auto
  then have "checkpoint s' (source_key env g) < qg_observationRevision h"
    using fuse_checks_Inr(10) [OF c, of h] key by simp
  moreover have "qg_observationRevision g \<le> checkpoint s' (source_key env g)"
    using fusion_steps_checkpoint [OF assms(3), of "source_key env g"] fuse_checkpoint(1) [OF assms(1,2)] by simp
  ultimately show ?thesis using assms(9) by simp
qed

section \<open>What the engine keeps\<close>

definition fusion_inv :: "fusion \<Rightarrow> bool" where
  "fusion_inv s \<longleftrightarrow> between 1 4096 (fu_max_source_checkpoints s) \<and>
     int (length (fu_last_observations s)) \<le> fu_max_source_checkpoints s \<and> unique_on fst (fu_last_observations s) \<and>
     (\<forall>(k, v) \<in> set (fu_last_observations s). between 1 MAX_REVISION v) \<and>
     between 0 9 (fu_candidate_count s) \<and> between 0 9 (fu_exit_count s) \<and> 0 \<le> fu_transition_revision s \<and>
     (\<forall>room. fu_current_room s = Some room \<or> fu_candidate_room s = Some room \<longrightarrow> is_identity room)"

lemma fold_update_length:
  "distinct (map key gs) \<Longrightarrow> distinct (map fst d) \<Longrightarrow>
    length (fold (\<lambda>g d. AList.update (key g) (val g) d) gs d) =
      length d + length (filter (\<lambda>k. k \<notin> fst ` set d) (map key gs))"
proof (induction gs arbitrary: d)
  case (Cons g gs)
  let ?d = "AList.update (key g) (val g) d"
  have "length (fold (\<lambda>g d. AList.update (key g) (val g) d) gs ?d) =
      length ?d + length (filter (\<lambda>k. k \<notin> fst ` set ?d) (map key gs))"
    using Cons by (intro Cons.IH) (simp_all add: distinct_update)
  moreover have "filter (\<lambda>k. k \<notin> fst ` set ?d) (map key gs) = filter (\<lambda>k. k \<notin> fst ` set d) (map key gs)"
    using Cons.prems(1) by (intro filter_cong) (auto simp: dom_update, metis imageI)
  moreover have "length ?d = (if key g \<in> fst ` set d then length d else Suc (length d))"
    by (induction d) auto
  ultimately show ?case by simp
qed simp

lemma fold_update_distinct:
  "distinct (map fst d) \<Longrightarrow> distinct (map fst (fold (\<lambda>g d. AList.update (key g) (val g) d) gs d))"
  by (induction gs arbitrary: d) (simp_all add: distinct_update)

lemma fold_update_set:
  "set (fold (\<lambda>g d. AList.update (key g) (val g) d) gs d) \<subseteq> set d \<union> (\<lambda>g. (key g, val g)) ` set gs"
proof (induction gs arbitrary: d)
  case (Cons g gs)
  have "set (AList.update k v d) \<subseteq> insert (k, v) (set d)" for k and v by (induction d) auto
  then show ?case using Cons.IH [of "AList.update (key g) (val g) d"] by fastforce
qed simp


lemma advance_candidate_inv:
  assumes "fusion_inv s" and "is_identity room" and "fu_candidate_count (advance_candidate room s) < n" and "n \<le> 10"
  shows "fusion_inv (advance_candidate room s)"
  using assms by (auto simp: fusion_inv_def advance_candidate_def split: if_splits)

lemma enter_room_inv:
  "fusion_inv s \<Longrightarrow> is_identity room \<Longrightarrow> fusion_inv (enter_room room (advance_candidate room s))"
  by (simp add: fusion_inv_def enter_room_def advance_candidate_def)

lemma clear_presence_inv:
  "fusion_inv s \<Longrightarrow> fusion_inv (clear_presence (s\<lparr>fu_candidate_room := c, fu_candidate_count := i, fu_exit_count := j\<rparr>))"
  "fusion_inv s \<Longrightarrow> fusion_inv (clear_presence s)"
  by (simp_all add: fusion_inv_def clear_presence_def)

lemma no_candidate_inv:
  "fusion_inv s \<Longrightarrow> fusion_inv (s\<lparr>fu_candidate_room := None, fu_candidate_count := 0\<rparr>)"
  "fusion_inv s \<Longrightarrow> 0 \<le> j \<Longrightarrow> j \<le> 9 \<Longrightarrow>
    fusion_inv (s\<lparr>fu_candidate_room := None, fu_candidate_count := 0, fu_exit_count := j\<rparr>)"
  by (simp_all add: fusion_inv_def)



lemma fuse_decide_inv:
  assumes "fusion_inv s" and "valid_presence_policy p" and "is_identity (qg_roomId (best_signal fresh))"
  shows "fusion_inv (snd (fuse_decide p fresh s))"
proof -
  have n: "qp_enterObservations p \<le> 10" "qp_exitObservations p \<le> 10"
    using assms(2) by (simp_all add: valid_presence_policy_def)
  have x: "0 \<le> fu_exit_count s" using assms(1) by (simp add: fusion_inv_def)
  have adv: "fusion_inv (advance_candidate (qg_roomId (best_signal fresh)) s)"
    if "fu_candidate_count (advance_candidate (qg_roomId (best_signal fresh)) s) < qp_enterObservations p"
    by (rule advance_candidate_inv [OF assms(1,3) that n(1)])
  show ?thesis
    using assms(1,3) n x adv by (auto simp: fuse_decide_def Let_def 
        intro!: enter_room_inv clear_presence_inv(1) no_candidate_inv split: option.split)
qed

lemma advance_checkpoints_inv:
  assumes "fusion_inv s" and "fuse_checks env rawAuthority rawPolicy rawSignals now s = Inr (a, p, signals)"
  shows "fusion_inv (advance_checkpoints env p signals s)"
proof -
  let ?d = "fold (\<lambda>g d. AList.update (source_key env g) (qg_observationRevision g) d) signals (fu_last_observations s)"
  note c = fuse_checks_Inr [OF assms(2)]
  have d: "distinct (map fst (fu_last_observations s))" using assms(1) by (simp add: fusion_inv_def unique_on_def)
  have len: "int (length ?d) \<le> fu_max_source_checkpoints s"
    using fold_update_length [OF c(9) [unfolded unique_on_def] d, of qg_observationRevision] c(12) by simp
  have "between 1 MAX_REVISION v" if kv: "(k, v) \<in> set ?d" for k v
  proof -
    consider "(k, v) \<in> set (fu_last_observations s)" | g where "g \<in> set signals" "v = qg_observationRevision g"
      using fold_update_set [of "source_key env" qg_observationRevision signals "fu_last_observations s"] kv by blast
    then show ?thesis
    proof cases
      case 1
      then show ?thesis using assms(1) by (auto simp: fusion_inv_def)
    next
      case 2
      then show ?thesis using c(4) by (auto simp: list_all_iff valid_signal_def is_revision_def MAX_REVISION_def)
    qed
  qed
  then show ?thesis
    using assms(1) len fold_update_distinct [OF d]
    by (auto simp: fusion_inv_def advance_checkpoints_def unique_on_def)
qed

lemma presence_policy_of_valid: "presence_policy_of env raw = Inr p \<Longrightarrow> valid_presence_policy p"
  by (auto simp: presence_policy_of_def split: option.splits lookup.splits if_splits)

lemma fuse_inv:
  assumes "fusion_inv s"
  shows "fusion_inv (snd (fuse env rawAuthority rawPolicy rawSignals now s))"
proof (cases "fuse_checks env rawAuthority rawPolicy rawSignals now s")
  case (Inl e)
  then show ?thesis using assms by (simp add: fuse_refused)
next
  case (Inr x)
  then obtain a p signals where c: "fuse_checks env rawAuthority rawPolicy rawSignals now s = Inr (a, p, signals)"
    by (cases x) auto
  let ?s1 = "advance_checkpoints env p signals s" and ?fresh = "fresh_signals p now signals"
  have inv: "fusion_inv ?s1" by (rule advance_checkpoints_inv [OF assms c])
  show ?thesis
  proof (cases "?fresh = []")
    case True
    then show ?thesis using fuse_accepted(1) [OF c] clear_presence_inv(2) [OF inv] by simp
  next
    case False
    obtain r s2 where d: "fuse_decide p ?fresh ?s1 = (r, s2)" by fastforce
    have "best_signal ?fresh \<in> set signals" using best_signal_greatest(1) [OF False] by (simp add: fresh_signals_def)
    then have "is_identity (qg_roomId (best_signal ?fresh))"
      using fuse_checks_Inr(4) [OF c] by (auto simp: list_all_iff valid_signal_def)
    then have "fusion_inv s2"
      using fuse_decide_inv [OF inv presence_policy_of_valid [OF fuse_checks_Inr(2) [OF c]], of ?fresh] d by simp
    then show ?thesis using fuse_accepted(2) [OF c False d] by simp
  qed
qed

lemma fusion_step_inv: "fusion_step digest s s' \<Longrightarrow> fusion_inv s \<Longrightarrow> fusion_inv s'"
proof (induction rule: fusion_step.induct)
  case (step_restart n s0 s s')
  then show ?case using restore_snapshot_Inr [OF step_restart.hyps(2)]
    by (auto simp: fusion_inv_def new_fusion_def split: if_splits)
qed (rule fuse_inv)

lemma new_fusion_inv: "new_fusion n = Inr s \<Longrightarrow> fusion_inv s"
  by (auto simp: new_fusion_def fusion_inv_def unique_on_def split: if_splits)

lemma fusion_steps_inv: "(fusion_step digest)\<^sup>*\<^sup>* s s' \<Longrightarrow> fusion_inv s \<Longrightarrow> fusion_inv s'"
  by (induction rule: rtranclp_induct) (auto dest: fusion_step_inv)

text \<open>C29: The engine's memory is bounded for good. From a new engine, whatever batches it is given,
  accepted or refused, and however often it is restarted, it keeps at most its limit of replay checkpoints, never
  more than 4096, one for a source, each a revision; and neither counter ever passes nine.\<close>

theorem presence_state_bounded:
  assumes "new_fusion n = Inr s0" and "(fusion_step digest)\<^sup>*\<^sup>* s0 s"
  shows "int (length (fu_last_observations s)) \<le> fu_max_source_checkpoints s \<and> fu_max_source_checkpoints s \<le> 4096 \<and>
    unique_on fst (fu_last_observations s) \<and> list_all (\<lambda>(k, v). is_revision v) (fu_last_observations s) \<and>
    fu_candidate_count s \<in> {0..9} \<and> fu_exit_count s \<in> {0..9}"
  using fusion_steps_inv [OF assms(2) new_fusion_inv [OF assms(1)]]
  by (auto simp: fusion_inv_def list_all_iff is_revision_def MAX_REVISION_def)


lemma fusion_step_keys:
  assumes "fusion_step digest s s'" and "\<forall>sourceId kind raw. is_snapshot (digest sourceId kind raw)"
    and "list_all (is_snapshot \<circ> fst) (fu_last_observations s)"
  shows "list_all (is_snapshot \<circ> fst) (fu_last_observations s')"
  using assms
proof (induction rule: fusion_step.induct)
  case (step_fuse env s rawAuthority rawPolicy rawSignals now)
  show ?case
  proof (cases "fuse_checks env rawAuthority rawPolicy rawSignals now s")
    case (Inl e)
    then show ?thesis using step_fuse.prems(2) by (simp add: fuse_refused)
  next
    case (Inr x)
    then obtain a p signals where c: "fuse_checks env rawAuthority rawPolicy rawSignals now s = Inr (a, p, signals)"
      by (cases x) auto
    have "is_snapshot (source_key env g)" for g using step_fuse.prems(1) step_fuse.hyps by (simp add: source_key_def)
    then show ?thesis
      using step_fuse.prems(2)
        fold_update_set [of "source_key env" qg_observationRevision signals "fu_last_observations s"]
      unfolding fuse_checkpoints(1) [OF c] by (fastforce simp: list_all_iff)
  qed
next
  case (step_restart n s0 s s')
  then show ?case using restore_snapshot_Inr(1) [OF step_restart.hyps(2)] by simp
qed

lemma fusion_steps_keys:
  assumes "(fusion_step digest)\<^sup>*\<^sup>* s s'" and "\<forall>sourceId kind raw. is_snapshot (digest sourceId kind raw)"
    and "list_all (is_snapshot \<circ> fst) (fu_last_observations s)"
  shows "list_all (is_snapshot \<circ> fst) (fu_last_observations s')"
  using assms by (induction rule: rtranclp_induct) (auto dest: fusion_step_keys)

text \<open>C28: A restart loses nothing. When source digests are SHA-256 sums in hexadecimal, what an engine
  has written down at any moment of its life is accepted by a new engine with the same limit, which is then
  equal to the old one: its scope, room, candidate, counters and every replay checkpoint.\<close>

theorem presence_snapshot_roundtrip:
  assumes "\<forall>sourceId kind raw. is_snapshot (digest sourceId kind raw)"
    and "new_fusion n = Inr s0" and "(fusion_step digest)\<^sup>*\<^sup>* s0 s" and "fu_transition_revision s \<le> MAX_REVISION"
    and "new_fusion (fu_max_source_checkpoints s) = Inr s1"
  shows "restore_state (snapshot_state s) s1 = Inr s"
proof -
  have inv: "fusion_inv s" by (rule fusion_steps_inv [OF assms(3) new_fusion_inv [OF assms(2)]])
  have "fu_last_observations s0 = []" using assms(2) by (auto simp: new_fusion_def split: if_splits)
  then have keys: "list_all (is_snapshot \<circ> fst) (fu_last_observations s)"
    using fusion_steps_keys [OF assms(3,1)] by simp
  have s1: "fu_max_source_checkpoints s1 = fu_max_source_checkpoints s"
    using assms(5) by (auto simp: new_fusion_def split: if_splits)
  have ok: "list_all (\<lambda>(k, v). is_snapshot k \<and> between 1 MAX_REVISION v) (fu_last_observations s)"
    using inv keys by (auto simp: fusion_inv_def list_all_iff)
  have counts: "between 0 MAX_REVISION (fu_candidate_count s)" "between 0 MAX_REVISION (fu_exit_count s)"
    "between 0 MAX_REVISION (fu_transition_revision s)"
    using inv assms(4) by (simp_all add: fusion_inv_def MAX_REVISION_def)
  have rooms: "case fu_current_room s of None \<Rightarrow> True | Some v \<Rightarrow> is_identity v"
    "case fu_candidate_room s of None \<Rightarrow> True | Some v \<Rightarrow> is_identity v"
    using inv by (auto simp: fusion_inv_def split: option.split)
  have guards: "\<not> list_ex (\<lambda>(k, v). \<not> is_snapshot k \<or> \<not> between 1 MAX_REVISION v) (fu_last_observations s)"
    "\<not> list_ex (\<lambda>r. case r of None \<Rightarrow> False | Some v \<Rightarrow> \<not> is_identity v) [fu_current_room s, fu_candidate_room s]"
    using ok rooms by (auto simp: list_ex_iff list_all_iff split: option.splits)
  have len: "\<not> int (length (fu_last_observations s)) > fu_max_source_checkpoints s1"
    using inv s1 by (simp add: fusion_inv_def)
  have scope: "(case map_option Some (fu_bound_scope s) of None \<Rightarrow> None | Some sc \<Rightarrow> sc) = fu_bound_scope s"
    "map_option Some (fu_bound_scope s) \<noteq> Some None" by (auto split: option.split)
  show ?thesis
    using counts guards len scope s1 by (simp add: restore_state_def snapshot_state_def)
qed

section \<open>Samples\<close>

definition presence_id :: "char \<Rightarrow> string" where "presence_id c = replicate 32 c"

definition sample_presence_authority :: presence_authority where
  "sample_presence_authority =
     \<lparr>qa_coreId = presence_id CHR ''1'', qa_homeId = presence_id CHR ''2'', qa_homeRevision = 3,
      qa_accountId = presence_id CHR ''3'', qa_accountRevision = 1, qa_sessionFamilyId = presence_id CHR ''4'',
      qa_active = True, qa_canReadPresence = True, qa_canManagePresence = True\<rparr>"

definition sample_presence_room :: "char \<Rightarrow> presence_room" where
  "sample_presence_room c =
     \<lparr>qm_coreId = presence_id CHR ''1'', qm_homeId = presence_id CHR ''2'', qm_roomId = presence_id c, qm_roomRevision = 5\<rparr>"

definition sample_presence_policy :: "int \<Rightarrow> int \<Rightarrow> presence_policy" where
  "sample_presence_policy exitConfidence observations =
     \<lparr>qp_coreId = presence_id CHR ''1'', qp_homeId = presence_id CHR ''2'', qp_homeRevision = 3,
      qp_policyId = presence_id CHR ''5'', qp_policyRevision = 2,
      qp_device = \<lparr>qd_coreId = presence_id CHR ''1'', qd_homeId = presence_id CHR ''2'',
        qd_deviceId = presence_id CHR ''6'', qd_deviceRevision = 4, qd_modelId = presence_id CHR ''7'',
        qd_modelRevision = 1, qd_consentId = presence_id CHR ''8'', qd_consentRevision = 9, qd_consentActive = True,
        qd_allowAutomationHandoff = True\<rparr>,
      qp_sources = [\<lparr>qs_sourceId = presence_id CHR ''9'', qs_sourceKind = Ble, qs_sourceRevision = 1\<rparr>],
      qp_rooms = [sample_presence_room CHR ''a'', sample_presence_room CHR ''b''],
      qp_enterConfidencePermille = 600, qp_exitConfidencePermille = exitConfidence,
      qp_enterObservations = observations, qp_exitObservations = 2, qp_maxSignalAgeMs = 1000, qp_active = True\<rparr>"

definition sample_signal :: "char \<Rightarrow> int \<Rightarrow> int \<Rightarrow> presence_signal" where
  "sample_signal room confidence revision =
     \<lparr>qg_coreId = presence_id CHR ''1'', qg_homeId = presence_id CHR ''2'', qg_homeRevision = 3,
      qg_roomId = presence_id room, qg_roomRevision = 5, qg_deviceId = presence_id CHR ''6'', qg_deviceRevision = 4,
      qg_modelId = presence_id CHR ''7'', qg_modelRevision = 1, qg_policyId = presence_id CHR ''5'',
      qg_policyRevision = 2, qg_consentId = presence_id CHR ''8'', qg_consentRevision = 9,
      qg_sourceId = presence_id CHR ''9'', qg_sourceKind = Ble, qg_sourceRevision = 1,
      qg_observationRevision = revision, qg_rawIdentifier = ''tag'', qg_confidencePermille = confidence,
      qg_observedAtMs = 100 + revision\<rparr>"

definition sample_fusion_env :: "presence_policy \<Rightarrow> fusion_env" where
  "sample_fusion_env p =
     \<lparr>fe_authority = (\<lambda>_. Found (Some sample_presence_authority)), fe_policy = (\<lambda>_. Found (Some p)),
      fe_source_key = (\<lambda>_ _ _. replicate 64 CHR ''e''), fe_estimate_hash = (\<lambda>_. replicate 64 CHR ''f'')\<rparr>"

definition sample_fuse :: "presence_policy \<Rightarrow> presence_signal \<Rightarrow> fusion \<Rightarrow> presence_estimate result \<times> fusion" where
  "sample_fuse p g = fuse (sample_fusion_env p) (Some sample_presence_authority) (Some p) [Some g] 150"

definition fusion0 :: fusion where
  "fusion0 = \<lparr>fu_max_source_checkpoints = 8, fu_bound_scope = None, fu_current_room = None,
     fu_candidate_room = None, fu_candidate_count = 0, fu_exit_count = 0, fu_transition_revision = 0,
     fu_last_observations = []\<rparr>"

lemma new_fusion0: "new_fusion 8 = Inr fusion0"
  by (simp add: new_fusion_def fusion0_def)

text \<open>Two batches of 900 permille for room \<open>a\<close> with two observations to enter.\<close>

definition fusion1 :: fusion where
  "fusion1 = fusion0\<lparr>fu_bound_scope := Some (exact_scope (sample_presence_policy 300 2)),
     fu_candidate_room := Some (presence_id CHR ''a''), fu_candidate_count := 1,
     fu_last_observations := [(replicate 64 CHR ''e'', 1)]\<rparr>"

lemma sample_checks1:
  "fuse_checks (sample_fusion_env (sample_presence_policy 300 2)) (Some sample_presence_authority)
     (Some (sample_presence_policy 300 2)) [Some (sample_signal CHR ''a'' 900 1)] 150 fusion0
   = Inr (sample_presence_authority, sample_presence_policy 300 2, [sample_signal CHR ''a'' 900 1])"
  by code_simp


lemma sample_fuse1: "sample_fuse (sample_presence_policy 300 2) (sample_signal CHR ''a'' 900 1) fusion0 =
    (fst (sample_fuse (sample_presence_policy 300 2) (sample_signal CHR ''a'' 900 1) fusion0), fusion1)"
  by code_simp

lemma sample_fuse2:
  "fst (sample_fuse (sample_presence_policy 300 2) (sample_signal CHR ''a'' 900 2) fusion1) =
     Inr (case sample_presence_policy 300 2 of p \<Rightarrow>
       \<lparr>qe_estimateId = presence_id CHR ''f'', qe_coreId = qp_coreId p,
        qe_homeId = qp_homeId p, qe_homeRevision = 3, qe_deviceId = presence_id CHR ''6'', qe_deviceRevision = 4,
        qe_modelId = presence_id CHR ''7'', qe_modelRevision = 1, qe_policyId = qp_policyId p, qe_policyRevision = 2,
        qe_consentId = presence_id CHR ''8'', qe_consentRevision = 9, qe_status = Present,
        qe_roomId = Some (presence_id CHR ''a''), qe_roomRevision = Some 5, qe_confidencePermille = 900,
        qe_observedAtMs = 102, qe_sampleCount = 1, qe_transitionRevision = 1, qe_advisoryOnly = True,
        qe_grantsAccess = False\<rparr>)"
  by code_simp

lemma presence_needs_evidence_witness:
  "let p = sample_presence_policy 300 2; b1 = ([sample_signal CHR ''a'' 900 1], 150) in
   (\<exists>signals. [Some (sample_signal CHR ''a'' 900 2)] = map Some signals \<and> nat 2 \<le> Suc (length [b1]) \<and>
     list_all (supports p (presence_id CHR ''a'')) (take (nat 2) [(signals, 150), b1]))"
proof -
  let ?p = "sample_presence_policy 300 2" and ?b1 = "([sample_signal CHR ''a'' 900 1], 150)"
  have "fusion_trace ?p [?b1] fusion1"
    using trace_fuse [OF trace_new [OF new_fusion0] sample_checks1] sample_fuse1 unfolding sample_fuse_def
    by (metis snd_conv)
  moreover have "fuse (sample_fusion_env ?p) (Some sample_presence_authority) (Some ?p)
      [Some (sample_signal CHR ''a'' 900 2)] 150 fusion1
    = (Inr (projr (fst (sample_fuse ?p (sample_signal CHR ''a'' 900 2) fusion1))),
       snd (sample_fuse ?p (sample_signal CHR ''a'' 900 2) fusion1))"
    using sample_fuse2 unfolding sample_fuse_def by (metis prod.collapse sum.sel(2))
  ultimately show ?thesis
    using presence_needs_evidence [of ?p "[?b1]" fusion1 "sample_fusion_env ?p" "Some sample_presence_authority"
        "[Some (sample_signal CHR ''a'' 900 2)]" 150 _ _ "presence_id CHR ''a''"] sample_fuse2
    by (simp add: list_all_iff fusion1_def fusion0_def sample_presence_policy_def Let_def)
qed

lemma sample_steps: "(fusion_step (\<lambda>_ _ _. replicate 64 CHR ''e''))\<^sup>*\<^sup>* fusion0 fusion1"
  using fusion_step.step_fuse [of "sample_fusion_env (sample_presence_policy 300 2)" _ fusion0
      "Some sample_presence_authority" "Some (sample_presence_policy 300 2)" "[Some (sample_signal CHR ''a'' 900 1)]" 150]
    sample_fuse1 unfolding sample_fuse_def
  by (metis (no_types, lifting) fusion_env.select_convs(3) r_into_rtranclp sample_fusion_env_def snd_conv)

lemma presence_replay_refused_witness:
  "\<exists>e. sample_fuse (sample_presence_policy 0 1) (sample_signal CHR ''b'' 700 1) fusion1 = (Inl e, fusion1)"
proof -
  have f: "snd (fuse (sample_fusion_env (sample_presence_policy 300 2)) (Some sample_presence_authority)
      (Some (sample_presence_policy 300 2)) [Some (sample_signal CHR ''a'' 900 1)] 150 fusion0) = fusion1"
    using sample_fuse1 unfolding sample_fuse_def by (metis snd_conv)
  have st: "(fusion_step (fe_source_key (sample_fusion_env (sample_presence_policy 300 2))))\<^sup>*\<^sup>*
      (snd (fuse (sample_fusion_env (sample_presence_policy 300 2)) (Some sample_presence_authority)
        (Some (sample_presence_policy 300 2)) [Some (sample_signal CHR ''a'' 900 1)] 150 fusion0)) fusion1"
    by (simp add: f)
  show ?thesis
    unfolding sample_fuse_def
    by (rule presence_replay_refused [OF sample_checks1 _ st,
          of "sample_signal CHR ''a'' 900 1" _ "sample_signal CHR ''b'' 700 1"])
      (simp_all add: sample_fusion_env_def sample_signal_def)
qed

lemma presence_state_bounded_witness:
  "int (length (fu_last_observations fusion1)) \<le> fu_max_source_checkpoints fusion1 \<and>
   fu_candidate_count fusion1 \<in> {0..9} \<and> length (fu_last_observations fusion1) = 1"
  using presence_state_bounded [OF new_fusion0 sample_steps] by (simp add: fusion1_def)

lemma presence_snapshot_roundtrip_witness: "restore_state (snapshot_state fusion1) fusion0 = Inr fusion1"
proof (rule presence_snapshot_roundtrip [OF _ new_fusion0 sample_steps])
  show "\<forall>sourceId kind raw. is_snapshot (replicate 64 CHR ''e'')" by simp code_simp
  show "fu_transition_revision fusion1 \<le> MAX_REVISION" by code_simp
  show "new_fusion (fu_max_source_checkpoints fusion1) = Inr fusion0" using new_fusion0 by (simp add: fusion1_def fusion0_def)
qed



end
