(* ===== verification/Presence_Handoff.thy ===== *)
theory Presence_Handoff
  imports Room_Presence
begin

text \<open>
  The hand-over of a presence estimate to a home automation: \<open>PresenceAutomationHandoff\<close> of
  \<open>server/larenor_server/room_presence/fusion.py\<close> with its contracts in \<open>models.py\<close>. The
  resolvers, the digests and the worker that runs the automation are parameters. \<open>ho_sent\<close> lists the
  commands given to the worker.
\<close>

section \<open>Contracts\<close>

text \<open>A command also says \<open>advisoryOnly\<close> true and \<open>grantsAccess\<close> false, which nothing reads.\<close>

record presence_command =
  ql_commandId :: string
  ql_requestId :: string
  ql_automationId :: string
  ql_automationRevision :: int
  ql_estimateId :: string
  ql_transitionRevision :: int
  ql_deviceId :: string
  ql_deviceRevision :: int
  ql_modelRevision :: int
  ql_policyRevision :: int
  ql_consentRevision :: int
  ql_roomId :: string
  ql_roomRevision :: int

definition valid_presence_command :: "presence_command \<Rightarrow> bool" where
  "valid_presence_command c =
     (is_identity (ql_commandId c) \<and> is_identity (ql_requestId c) \<and> is_identity (ql_automationId c) \<and>
      is_revision (ql_automationRevision c) \<and> is_identity (ql_estimateId c) \<and>
      is_revision (ql_transitionRevision c) \<and> is_identity (ql_deviceId c) \<and> is_revision (ql_deviceRevision c) \<and>
      is_revision (ql_modelRevision c) \<and> is_revision (ql_policyRevision c) \<and> is_revision (ql_consentRevision c) \<and>
      is_identity (ql_roomId c) \<and> is_revision (ql_roomRevision c))"

datatype observed_state = ObservedPresent | ObservedRejected | ObservedUnknown

record worker_presence_receipt =
  qw_commandId :: string
  qw_requestId :: string
  qw_automationId :: string
  qw_automationRevision :: int
  qw_estimateId :: string
  qw_transitionRevision :: int
  qw_deviceId :: string
  qw_roomId :: string
  qw_accepted :: bool
  qw_observedState :: observed_state
  qw_readbackRevision :: int

definition valid_worker_receipt :: "worker_presence_receipt \<Rightarrow> bool" where
  "valid_worker_receipt w =
     (is_identity (qw_commandId w) \<and> is_identity (qw_requestId w) \<and> is_identity (qw_automationId w) \<and>
      is_revision (qw_automationRevision w) \<and> is_identity (qw_estimateId w) \<and>
      is_revision (qw_transitionRevision w) \<and> is_identity (qw_deviceId w) \<and> is_identity (qw_roomId w) \<and>
      is_revision (qw_readbackRevision w))"

datatype handoff_status = HandoffVerified | HandoffRejected | HandoffUnknown

record handoff_receipt =
  qr_requestId :: string
  qr_commandId :: string
  qr_automationId :: string
  qr_automationRevision :: int
  qr_estimateId :: string
  qr_transitionRevision :: int
  qr_status :: handoff_status
  qr_verified :: bool
  qr_readbackRevision :: "int option"

definition verified_only_for_exact_success :: "handoff_receipt \<Rightarrow> bool" where
  "verified_only_for_exact_success r =
     (qr_verified r = (qr_status r = HandoffVerified) \<and>
      (qr_status r = HandoffUnknown) = (qr_readbackRevision r = None))"

definition valid_handoff_receipt :: "handoff_receipt \<Rightarrow> bool" where
  "valid_handoff_receipt r =
     (is_identity (qr_requestId r) \<and> is_identity (qr_commandId r) \<and> is_identity (qr_automationId r) \<and>
      is_revision (qr_automationRevision r) \<and> is_identity (qr_estimateId r) \<and>
      is_revision (qr_transitionRevision r) \<and>
      (case qr_readbackRevision r of None \<Rightarrow> True | Some v \<Rightarrow> is_revision v) \<and> verified_only_for_exact_success r)"

section \<open>The hand-over\<close>

record handoff =
  ho_max_receipts :: int
  ho_receipts :: "(string \<times> string \<times> handoff_receipt) list"
  ho_sent :: "presence_command list"

record handoff_env =
  he_authority :: "string \<Rightarrow> presence_authority lookup"
  he_policy :: "string \<Rightarrow> presence_policy lookup"
  he_estimate :: "string \<Rightarrow> presence_estimate lookup"
  he_command_id :: "string \<Rightarrow> string \<Rightarrow> string \<Rightarrow> int \<Rightarrow> string"
  he_fingerprint :: "presence_command \<Rightarrow> string"
  he_worker :: "presence_command \<Rightarrow> worker_presence_receipt lookup"

definition new_handoff :: "int \<Rightarrow> handoff result" where
  "new_handoff maxReceipts =
     (if \<not> between 1 4096 maxReceipts then Inl ValueError
      else Inr \<lparr>ho_max_receipts = maxReceipts, ho_receipts = [], ho_sent = []\<rparr>)"

text \<open>Everything \<open>dispatch\<close> checks of what it is shown. Any failure to validate or to resolve one
  of the three is the same conflict.\<close>

definition handoff_live :: "handoff_env \<Rightarrow> presence_authority raw \<Rightarrow> presence_policy raw \<Rightarrow> presence_estimate raw
    \<Rightarrow> (presence_authority \<times> presence_policy \<times> presence_estimate) result" where
  "handoff_live env rawAuthority rawPolicy rawEstimate =
     bind_res (resolve_current valid_presence_authority (he_authority env) qa_accountId
                 revision_conflict revision_conflict revision_conflict rawAuthority) (\<lambda>authority.
     bind_res (resolve_current valid_presence_policy (he_policy env) qp_policyId
                 revision_conflict revision_conflict revision_conflict rawPolicy) (\<lambda>policy.
     bind_res (resolve_current valid_estimate (he_estimate env) qe_estimateId
                 revision_conflict revision_conflict revision_conflict rawEstimate) (\<lambda>estimate.
       Inr (authority, policy, estimate))))"

definition handoff_checks :: "presence_authority \<Rightarrow> presence_policy \<Rightarrow> presence_estimate \<Rightarrow> (string \<times> int) result" where
  "handoff_checks authority policy estimate =
     (let device = qp_device policy in
      if \<not> qa_active authority \<or> \<not> qa_canManagePresence authority then Inl forbidden
      else if (qa_coreId authority, qa_homeId authority, qa_homeRevision authority)
                \<noteq> (qp_coreId policy, qp_homeId policy, qp_homeRevision policy)
              \<or> (qe_coreId estimate, qe_homeId estimate) \<noteq> (qp_coreId policy, qp_homeId policy)
      then Inl not_found
      else if \<not> qp_active policy \<or> \<not> qd_consentActive device \<or> \<not> qd_allowAutomationHandoff device
              \<or> qe_status estimate \<noteq> Present
      then Inl forbidden
      else case (qe_roomId estimate, qe_roomRevision estimate) of
        (Some roomId, Some roomRevision) \<Rightarrow>
          (case select_key qm_roomId roomId (qp_rooms policy) of
             None \<Rightarrow> Inl revision_conflict
           | Some room \<Rightarrow>
               if (qe_homeRevision estimate, qe_deviceId estimate, qe_deviceRevision estimate, qe_modelId estimate,
                   qe_modelRevision estimate, qe_policyId estimate, qe_policyRevision estimate, qe_consentId estimate,
                   qe_consentRevision estimate, roomRevision)
                  \<noteq> (qp_homeRevision policy, qd_deviceId device, qd_deviceRevision device, qd_modelId device,
                     qd_modelRevision device, qp_policyId policy, qp_policyRevision policy, qd_consentId device,
                     qd_consentRevision device, qm_roomRevision room)
               then Inl revision_conflict
               else Inr (roomId, roomRevision))
      | _ \<Rightarrow> Inl forbidden)"

definition handoff_command :: "handoff_env \<Rightarrow> presence_estimate \<Rightarrow> string \<times> int \<Rightarrow> string \<Rightarrow> int \<Rightarrow> string
    \<Rightarrow> presence_command result" where
  "handoff_command env e place automationId automationRevision requestId =
     (if \<not> is_identity requestId \<or> \<not> is_identity automationId \<or> \<not> between 1 MAX_REVISION automationRevision
      then Inl bad_request
      else let c = \<lparr>ql_commandId = take 32 (he_command_id env requestId (qe_estimateId e) automationId automationRevision),
             ql_requestId = requestId, ql_automationId = automationId, ql_automationRevision = automationRevision,
             ql_estimateId = qe_estimateId e, ql_transitionRevision = qe_transitionRevision e,
             ql_deviceId = qe_deviceId e, ql_deviceRevision = qe_deviceRevision e,
             ql_modelRevision = qe_modelRevision e, ql_policyRevision = qe_policyRevision e,
             ql_consentRevision = qe_consentRevision e, ql_roomId = fst place, ql_roomRevision = snd place\<rparr>
           in if valid_presence_command c then Inr c else Inl bad_request)"

definition handoff_prepare :: "handoff_env \<Rightarrow> presence_authority raw \<Rightarrow> presence_policy raw \<Rightarrow> presence_estimate raw
    \<Rightarrow> string \<Rightarrow> int \<Rightarrow> string \<Rightarrow> presence_command result" where
  "handoff_prepare env rawAuthority rawPolicy rawEstimate automationId automationRevision requestId =
     bind_res (handoff_live env rawAuthority rawPolicy rawEstimate) (\<lambda>(authority, policy, estimate).
     bind_res (handoff_checks authority policy estimate) (\<lambda>place.
       handoff_command env estimate place automationId automationRevision requestId))"

definition handoff_exact :: "presence_command \<Rightarrow> worker_presence_receipt \<Rightarrow> bool" where
  "handoff_exact c w =
     ((qw_commandId w, qw_requestId w, qw_automationId w, qw_automationRevision w, qw_estimateId w,
       qw_transitionRevision w, qw_deviceId w, qw_roomId w)
      = (ql_commandId c, ql_requestId c, ql_automationId c, ql_automationRevision c, ql_estimateId c,
         ql_transitionRevision c, ql_deviceId c, ql_roomId c))"

text \<open>The outcome of a command, from what the worker answered; \<open>None\<close> is an exception or an
  answer that does not validate.\<close>

definition handoff_outcome :: "presence_command \<Rightarrow> worker_presence_receipt option
    \<Rightarrow> handoff_status \<times> bool \<times> int option" where
  "handoff_outcome c readback =
     (case readback of
        None \<Rightarrow> (HandoffUnknown, False, None)
      | Some w \<Rightarrow>
          if \<not> handoff_exact c w then (HandoffUnknown, False, None)
          else if qw_accepted w \<and> qw_observedState w = ObservedPresent
          then (HandoffVerified, True, Some (qw_readbackRevision w))
          else if \<not> qw_accepted w \<and> qw_observedState w = ObservedRejected
          then (HandoffRejected, False, Some (qw_readbackRevision w))
          else (HandoffUnknown, False, None))"

definition worker_readback_of :: "handoff_env \<Rightarrow> presence_command \<Rightarrow> worker_presence_receipt option" where
  "worker_readback_of env c =
     (case he_worker env c of Found r \<Rightarrow> model_validate valid_worker_receipt r | _ \<Rightarrow> None)"

definition handoff_receipt_of :: "handoff_env \<Rightarrow> presence_command \<Rightarrow> handoff_receipt" where
  "handoff_receipt_of env c =
     (case handoff_outcome c (worker_readback_of env c) of (status, verified, revision) \<Rightarrow>
       \<lparr>qr_requestId = ql_requestId c, qr_commandId = ql_commandId c, qr_automationId = ql_automationId c,
        qr_automationRevision = ql_automationRevision c, qr_estimateId = ql_estimateId c,
        qr_transitionRevision = ql_transitionRevision c, qr_status = status, qr_verified = verified,
        qr_readbackRevision = revision\<rparr>)"

definition handoff_dispatch :: "handoff_env \<Rightarrow> presence_authority raw \<Rightarrow> presence_policy raw \<Rightarrow> presence_estimate raw
    \<Rightarrow> string \<Rightarrow> int \<Rightarrow> string \<Rightarrow> handoff \<Rightarrow> handoff_receipt result \<times> handoff" where
  "handoff_dispatch env rawAuthority rawPolicy rawEstimate automationId automationRevision requestId s =
     (case handoff_prepare env rawAuthority rawPolicy rawEstimate automationId automationRevision requestId of
        Inl e \<Rightarrow> (Inl e, s)
      | Inr c \<Rightarrow>
         (case map_of (ho_receipts s) requestId of
            Some (fingerprint, receipt) \<Rightarrow>
              (if fingerprint \<noteq> he_fingerprint env c then Inl command_conflict else Inr receipt, s)
          | None \<Rightarrow>
              if int (length (ho_receipts s)) \<ge> ho_max_receipts s then (Inl (ApiError ''receipt_limit'' 409), s)
              else let sent = s\<lparr>ho_sent := ho_sent s @ [c]\<rparr>; receipt = handoff_receipt_of env c in
                   if \<not> valid_handoff_receipt receipt then (Inl ValidationError, sent)
                   else (Inr receipt,
                         sent\<lparr>ho_receipts := AList.update requestId (he_fingerprint env c, receipt) (ho_receipts s)\<rparr>)))"

section \<open>What a dispatch does\<close>

text \<open>The estimate, the policy and the authority a command rests on.\<close>

definition handoff_grounds :: "handoff_env \<Rightarrow> presence_authority \<Rightarrow> presence_policy \<Rightarrow> presence_estimate
    \<Rightarrow> presence_command \<Rightarrow> bool" where
  "handoff_grounds env a p e c \<longleftrightarrow>
     he_authority env (qa_accountId a) = Found (Some a) \<and> he_policy env (qp_policyId p) = Found (Some p) \<and>
     he_estimate env (qe_estimateId e) = Found (Some e) \<and>
     qa_active a \<and> qa_canManagePresence a \<and> qa_homeId a = qp_homeId p \<and> qa_homeRevision a = qp_homeRevision p \<and>
     qp_active p \<and> qd_consentActive (qp_device p) \<and> qd_allowAutomationHandoff (qp_device p) \<and>
     qe_status e = Present \<and> qe_homeId e = qp_homeId p \<and> qe_policyRevision e = qp_policyRevision p \<and>
     qe_deviceId e = qd_deviceId (qp_device p) \<and> qe_consentRevision e = qd_consentRevision (qp_device p) \<and>
     (\<exists>room \<in> set (qp_rooms p). qe_roomId e = Some (qm_roomId room) \<and> qe_roomRevision e = Some (qm_roomRevision room) \<and>
        ql_roomId c = qm_roomId room \<and> ql_roomRevision c = qm_roomRevision room) \<and>
     ql_estimateId c = qe_estimateId e \<and> ql_deviceId c = qe_deviceId e"

lemma handoff_checks_Inr:
  assumes "handoff_checks a p e = Inr place"
  shows "qa_active a" "qa_canManagePresence a" "qa_homeId a = qp_homeId p" "qa_homeRevision a = qp_homeRevision p"
    "qp_active p" "qd_consentActive (qp_device p)" "qd_allowAutomationHandoff (qp_device p)" "qe_status e = Present"
    "qe_homeId e = qp_homeId p" "qe_policyRevision e = qp_policyRevision p"
    "qe_deviceId e = qd_deviceId (qp_device p)" "qe_consentRevision e = qd_consentRevision (qp_device p)"
    "\<exists>room \<in> set (qp_rooms p). qe_roomId e = Some (qm_roomId room) \<and> qe_roomRevision e = Some (qm_roomRevision room) \<and>
       fst place = qm_roomId room \<and> snd place = qm_roomRevision room"
  using assms
  by (auto simp: handoff_checks_def Let_def split: if_splits option.splits dest!: select_where_Some)

lemma handoff_command_Inr:
  assumes "handoff_command env e place automationId automationRevision requestId = Inr c"
  shows "valid_presence_command c" "ql_requestId c = requestId" "ql_automationId c = automationId"
    "ql_estimateId c = qe_estimateId e" "ql_deviceId c = qe_deviceId e" "ql_roomId c = fst place" "ql_roomRevision c = snd place"
  using assms by (auto simp: handoff_command_def Let_def split: if_splits)

lemma handoff_prepare_Inr:
  assumes "handoff_prepare env rawAuthority rawPolicy rawEstimate automationId automationRevision requestId = Inr c"
  shows "valid_presence_command c" "ql_requestId c = requestId" "ql_automationId c = automationId"
    "\<exists>a p e. rawAuthority = Some a \<and> rawPolicy = Some p \<and> rawEstimate = Some e \<and> handoff_grounds env a p e c"
proof -
  obtain a p e place where l: "handoff_live env rawAuthority rawPolicy rawEstimate = Inr (a, p, e)"
    and k: "handoff_checks a p e = Inr place"
    and c: "handoff_command env e place automationId automationRevision requestId = Inr c"
    using assms by (auto simp: handoff_prepare_def bind_res_Inr_iff)
  show "valid_presence_command c" "ql_requestId c = requestId" "ql_automationId c = automationId"
    by (rule handoff_command_Inr [OF c])+
  have raw: "rawAuthority = Some a" "rawPolicy = Some p" "rawEstimate = Some e"
    "he_authority env (qa_accountId a) = Found (Some a)" "he_policy env (qp_policyId p) = Found (Some p)"
    "he_estimate env (qe_estimateId e) = Found (Some e)"
    using l by (auto simp: handoff_live_def bind_res_Inr_iff resolve_current_Inr_iff)
  have "handoff_grounds env a p e c"
    using raw(4-6) handoff_checks_Inr [OF k] handoff_command_Inr(4-7) [OF c] by (simp add: handoff_grounds_def)
  then show "\<exists>a p e. rawAuthority = Some a \<and> rawPolicy = Some p \<and> rawEstimate = Some e \<and> handoff_grounds env a p e c"
    using raw(1-3) by blast
qed

text \<open>A receipt of a command that validates does too.\<close>

lemma handoff_receipt_valid:
  assumes "valid_presence_command c"
  shows "valid_handoff_receipt (handoff_receipt_of env c)"
proof -
  have "is_revision (qw_readbackRevision w)" if "worker_readback_of env c = Some w" for w
    using that by (auto simp: worker_readback_of_def valid_worker_receipt_def split: lookup.splits)
  then show ?thesis
    using assms
    by (auto simp: handoff_receipt_of_def handoff_outcome_def valid_handoff_receipt_def valid_presence_command_def
        verified_only_for_exact_success_def split: option.split)
qed

lemma handoff_dispatch_cases:
  assumes "handoff_dispatch env rawAuthority rawPolicy rawEstimate automationId automationRevision requestId s = (r, s')"
  obtains (refused) e where "r = Inl e" "s' = s"
  | (replayed) fingerprint receipt where "map_of (ho_receipts s) requestId = Some (fingerprint, receipt)"
      "r = Inr receipt" "s' = s"
  | (sent) c where
      "handoff_prepare env rawAuthority rawPolicy rawEstimate automationId automationRevision requestId = Inr c"
      "requestId \<notin> fst ` set (ho_receipts s)" "int (length (ho_receipts s)) < ho_max_receipts s"
      "r = Inr (handoff_receipt_of env c)"
      "s' = s\<lparr>ho_sent := ho_sent s @ [c],
         ho_receipts := AList.update requestId (he_fingerprint env c, handoff_receipt_of env c) (ho_receipts s)\<rparr>"
proof (cases "handoff_prepare env rawAuthority rawPolicy rawEstimate automationId automationRevision requestId")
  case (Inl e)
  then show thesis using assms by (intro refused [of e]) (simp_all add: handoff_dispatch_def)
next
  case (Inr c)
  note valid = handoff_receipt_valid [OF handoff_prepare_Inr(1) [OF Inr], of env]
  show thesis
  proof (cases "map_of (ho_receipts s) requestId")
    case None
    then have "requestId \<notin> fst ` set (ho_receipts s)" by (simp add: map_of_eq_None_iff)
    then show thesis
      using assms Inr None valid
      by (cases "int (length (ho_receipts s)) < ho_max_receipts s")
        (rule sent [OF Inr], simp_all add: handoff_dispatch_def Let_def,
         rule refused [of "ApiError ''receipt_limit'' 409"], simp_all)
  next
    case (Some x)
    then have d: "r = (if fst x \<noteq> he_fingerprint env c then Inl command_conflict else Inr (snd x))" "s' = s"
      using assms Inr by (auto simp: handoff_dispatch_def split: prod.splits)
    show thesis
    proof (cases "fst x = he_fingerprint env c")
      case True
      then show thesis using d Some by (intro replayed [of "fst x" "snd x"]) (simp_all add: prod_eq_iff)
    next
      case False
      then show thesis using d by (intro refused [of command_conflict]) simp_all
    qed
  qed
qed

inductive handoff_step :: "handoff \<Rightarrow> handoff \<Rightarrow> bool" where
  handoff_dispatched: "handoff_step s
    (snd (handoff_dispatch env rawAuthority rawPolicy rawEstimate automationId automationRevision requestId s))"

definition handoff_inv :: "handoff \<Rightarrow> bool" where
  "handoff_inv s \<longleftrightarrow> int (length (ho_receipts s)) \<le> ho_max_receipts s \<and> unique_on fst (ho_receipts s)"

lemma handoff_step_cases:
  assumes "handoff_step s s'"
  obtains (same) "s' = s"
  | (sent) env c requestId where "ql_requestId c = requestId" "requestId \<notin> fst ` set (ho_receipts s)"
      "int (length (ho_receipts s)) < ho_max_receipts s"
      "s' = s\<lparr>ho_sent := ho_sent s @ [c],
         ho_receipts := ho_receipts s @ [(requestId, he_fingerprint env c, handoff_receipt_of env c)]\<rparr>"
  using assms
proof cases
  case (handoff_dispatched env rawAuthority rawPolicy rawEstimate automationId automationRevision requestId)
  obtain r where "handoff_dispatch env rawAuthority rawPolicy rawEstimate automationId automationRevision requestId s = (r, s')"
    using handoff_dispatched by (metis prod.collapse)
  then show thesis
  proof (cases rule: handoff_dispatch_cases)
    case (sent c)
    then show thesis using that(2) [OF handoff_prepare_Inr(2) [OF sent(1)] sent(2,3)] by (simp add: update_fresh)
  qed (auto intro: same)
qed

interpretation handoffs: dispatch_log handoff_step handoff_inv ho_sent ql_requestId "\<lambda>_. ()"
    "\<lambda>s. fst ` set (ho_receipts s)"
proof
  fix s t
  show "handoff_inv t" if step: "handoff_step s t" and "handoff_inv s"
    using step \<open>handoff_inv s\<close> by (cases rule: handoff_step_cases) (auto simp: handoff_inv_def unique_on_def)
  assume "handoff_step s t"
  then show "fst ` set (ho_receipts s) \<subseteq> fst ` set (ho_receipts t) \<and>
    (ho_sent t = ho_sent s \<or>
     (\<exists>r cs. r \<notin> fst ` set (ho_receipts s) \<and> r \<in> fst ` set (ho_receipts t) \<and> ho_sent t = ho_sent s @ cs \<and>
        (\<forall>c \<in> set cs. ql_requestId c = r) \<and> distinct (map (\<lambda>_. ()) cs)))"
  proof (cases rule: handoff_step_cases)
    case (sent env c requestId)
    then show ?thesis by (auto intro!: exI [of _ requestId] exI [of _ "[c]"])
  qed simp
qed


text \<open>C26: An automation is run at most once per request. From a new hand-over, whatever sequence of
  dispatches with whatever answers, failures and exceptions of the worker, no two commands given to the worker
  have the same request id, exactly the requests that reached it have a receipt, and there are never more receipts
  than the limit.\<close>

theorem handoff_runs_once:
  assumes "new_handoff n = Inr s0" and "handoff_step\<^sup>*\<^sup>* s0 s"
  shows "distinct (map ql_requestId (ho_sent s)) \<and> ql_requestId ` set (ho_sent s) = fst ` set (ho_receipts s) \<and>
    int (length (ho_receipts s)) \<le> n"
proof -
  have start: "handoff_inv s0" "ho_sent s0 = []" "ho_receipts s0 = []" "ho_max_receipts s0 = n"
    using assms(1) by (auto simp: new_handoff_def handoff_inv_def unique_on_def split: if_splits)
  have kept: "ql_requestId ` set (ho_sent s) = fst ` set (ho_receipts s) \<and> ho_max_receipts s = n"
  proof (rule handoffs.steps_keep [OF assms(2) start(1)])
    fix u v assume "handoff_step u v" "ql_requestId ` set (ho_sent u) = fst ` set (ho_receipts u) \<and> ho_max_receipts u = n"
    then show "ql_requestId ` set (ho_sent v) = fst ` set (ho_receipts v) \<and> ho_max_receipts v = n"
      by (cases rule: handoff_step_cases) auto
  qed (simp add: start)
  have inv: "handoff_inv s" by (rule handoffs.steps_inv [OF assms(2) start(1)])
  have "distinct (map (\<lambda>c. (ql_requestId c, ())) (ho_sent s))"
    using handoffs.sent_once [OF assms(2) start(1,2)] by simp
  then have "distinct (map ql_requestId (ho_sent s))" by (auto simp: distinct_map inj_on_def)
  then show ?thesis using kept inv by (simp add: handoff_inv_def)
qed


text \<open>A retried request gets the receipt it got before, or an error, and does nothing. Once a
  dispatch has answered, every later dispatch of the request, whatever else it names and whatever the
  resolvers and the worker have become, leaves the hand-over as it is and returns that receipt if it returns one.\<close>

theorem handoff_retry_same:
  assumes "handoff_dispatch env rawAuthority rawPolicy rawEstimate automationId automationRevision requestId s
      = (Inr receipt, s1)" and "handoff_inv s" and "handoff_step\<^sup>*\<^sup>* s1 t"
  shows "snd (handoff_dispatch env' rawAuthority' rawPolicy' rawEstimate' automationId' automationRevision' requestId t) = t \<and>
    (\<forall>r. fst (handoff_dispatch env' rawAuthority' rawPolicy' rawEstimate' automationId' automationRevision' requestId t)
       = Inr r \<longrightarrow> r = receipt)"
proof -
  let ?kept = "\<lambda>s. \<exists>f. map_of (ho_receipts s) requestId = Some (f, receipt)"
  have s1: "?kept s1"
    using assms(1) by (cases rule: handoff_dispatch_cases) (auto simp: update_conv')
  have step: "handoff_step s s1" using assms(1) handoff_step.intros by (metis snd_conv)
  have inv: "handoff_inv s1" by (rule handoffs.step_inv [OF step assms(2)])
  have "?kept t"
    using assms(3) inv s1
  proof (rule handoffs.steps_keep)
    fix u v assume "handoff_inv u" "handoff_step u v" "?kept u"
    from this(2,3) show "?kept v" by (cases rule: handoff_step_cases) (auto simp: map_add_def map_of_append split: option.split)
  qed
  then obtain f where f: "map_of (ho_receipts t) requestId = Some (f, receipt)" by blast
  then have in_t: "requestId \<in> fst ` set (ho_receipts t)" by (metis domI dom_map_of_conv_image_fst)
  obtain r t' where d: "handoff_dispatch env' rawAuthority' rawPolicy' rawEstimate' automationId' automationRevision' requestId t
      = (r, t')" by fastforce
  then show ?thesis by (cases rule: handoff_dispatch_cases) (use d f in_t in auto)
qed


section \<open>Samples\<close>

definition sample_estimate :: presence_estimate where
  "sample_estimate =
     \<lparr>qe_estimateId = presence_id CHR ''f'', qe_coreId = presence_id CHR ''1'', qe_homeId = presence_id CHR ''2'',
      qe_homeRevision = 3, qe_deviceId = presence_id CHR ''6'', qe_deviceRevision = 4,
      qe_modelId = presence_id CHR ''7'', qe_modelRevision = 1, qe_policyId = presence_id CHR ''5'',
      qe_policyRevision = 2, qe_consentId = presence_id CHR ''8'', qe_consentRevision = 9, qe_status = Present,
      qe_roomId = Some (presence_id CHR ''a''), qe_roomRevision = Some 5, qe_confidencePermille = 900,
      qe_observedAtMs = 102, qe_sampleCount = 1, qe_transitionRevision = 1, qe_advisoryOnly = True,
      qe_grantsAccess = False\<rparr>"

text \<open>The worker accepts what it is told and sees the device where the command says.\<close>

definition sample_worker :: "presence_command \<Rightarrow> worker_presence_receipt lookup" where
  "sample_worker c = Found (Some \<lparr>qw_commandId = ql_commandId c, qw_requestId = ql_requestId c,
     qw_automationId = ql_automationId c, qw_automationRevision = ql_automationRevision c,
     qw_estimateId = ql_estimateId c, qw_transitionRevision = ql_transitionRevision c,
     qw_deviceId = ql_deviceId c, qw_roomId = ql_roomId c, qw_accepted = True,
     qw_observedState = ObservedPresent, qw_readbackRevision = 7\<rparr>)"

definition sample_handoff_env :: handoff_env where
  "sample_handoff_env =
     \<lparr>he_authority = (\<lambda>_. Found (Some sample_presence_authority)),
      he_policy = (\<lambda>_. Found (Some (sample_presence_policy 300 2))), he_estimate = (\<lambda>_. Found (Some sample_estimate)),
      he_command_id = (\<lambda>_ _ _ _. replicate 64 CHR ''c''), he_fingerprint = (\<lambda>_. replicate 64 CHR ''d''),
      he_worker = sample_worker\<rparr>"

definition sample_dispatch :: "handoff \<Rightarrow> handoff_receipt result \<times> handoff" where
  "sample_dispatch = handoff_dispatch sample_handoff_env (Some sample_presence_authority)
     (Some (sample_presence_policy 300 2)) (Some sample_estimate) (presence_id CHR ''0'') 4 (presence_id CHR ''9'')"

definition handoff0 :: handoff where "handoff0 = \<lparr>ho_max_receipts = 2, ho_receipts = [], ho_sent = []\<rparr>"

definition sample_handoff_command :: presence_command where
  "sample_handoff_command =
     \<lparr>ql_commandId = presence_id CHR ''c'', ql_requestId = presence_id CHR ''9'', ql_automationId = presence_id CHR ''0'',
      ql_automationRevision = 4, ql_estimateId = presence_id CHR ''f'', ql_transitionRevision = 1,
      ql_deviceId = presence_id CHR ''6'', ql_deviceRevision = 4, ql_modelRevision = 1, ql_policyRevision = 2,
      ql_consentRevision = 9, ql_roomId = presence_id CHR ''a'', ql_roomRevision = 5\<rparr>"

definition sample_handoff_receipt :: handoff_receipt where
  "sample_handoff_receipt =
     \<lparr>qr_requestId = presence_id CHR ''9'', qr_commandId = presence_id CHR ''c'', qr_automationId = presence_id CHR ''0'',
      qr_automationRevision = 4, qr_estimateId = presence_id CHR ''f'', qr_transitionRevision = 1,
      qr_status = HandoffVerified, qr_verified = True, qr_readbackRevision = Some 7\<rparr>"

definition handoff1 :: handoff where
  "handoff1 = \<lparr>ho_max_receipts = 2,
     ho_receipts = [(presence_id CHR ''9'', replicate 64 CHR ''d'', sample_handoff_receipt)],
     ho_sent = [sample_handoff_command]\<rparr>"

lemma new_handoff0: "new_handoff 2 = Inr handoff0" "handoff_inv handoff0"
  by (simp_all add: new_handoff_def handoff0_def handoff_inv_def unique_on_def)

lemma sample_dispatched: "sample_dispatch handoff0 = (Inr sample_handoff_receipt, handoff1)"
  by code_simp

lemma sample_handoff_steps: "handoff_step\<^sup>*\<^sup>* handoff0 handoff1"
  using handoff_dispatched [of handoff0] sample_dispatched unfolding sample_dispatch_def
  by (metis r_into_rtranclp snd_conv)

lemma handoff_runs_once_witness:
  "ql_requestId ` set (ho_sent handoff1) = fst ` set (ho_receipts handoff1) \<and> ho_sent handoff1 \<noteq> []"
  using handoff_runs_once [OF new_handoff0(1) sample_handoff_steps] by (simp add: handoff1_def)


lemma handoff_retry_same_witness: "snd (sample_dispatch handoff1) = handoff1"
  using handoff_retry_same [OF _ new_handoff0(2) rtranclp.rtrancl_refl, of sample_handoff_env
      "Some sample_presence_authority" "Some (sample_presence_policy 300 2)" "Some sample_estimate" "presence_id CHR ''0''" 4
      "presence_id CHR ''9''" sample_handoff_receipt handoff1] sample_dispatched
  by (simp add: sample_dispatch_def)


end
