(* ===== verification/Spec2Isabelle.thy ===== *)
theory Spec2Isabelle
  imports Accounts_System Energy_Commands Shared_Expenses Fair_Chores Pantry_Stock Reservation_Service
    Irrigation_Effects Room_Comfort Presence_Handoff
begin

text \<open>
  \<^bold>\<open>A verification of the Larenor server core.\<close>

  Larenor is a home server with a Flutter client. The Python package \<open>src/server/larenor_server\<close>
  holds its services: each one checks who is calling, validates the request against a strict contract,
  and changes SQLite tables (or, for some of them, dictionaries in memory) inside one transaction,
  usually leaving an entry in a keyed hash chain. This development models the services that decide
  something: who is logged in, who may change what, how energy is planned and commanded, the
  household ledgers for money, chores, food and shared resources, and what the home does by itself: when the
  garden is watered, how rooms are heated and aired, and in which room a device is. The definitions follow the code
  operation by operation; the theorems state what the operations guarantee.

  \<^bold>\<open>Parts, theories and sources.\<close> Paths are below \<open>src/server/larenor_server\<close>.

  \<^item> \<open>Larenor_Prelude\<close>: errors as values (\<open>error\<close>, \<open>'a result\<close>, \<open>bind_res\<close>), transactions that commit or
    roll back (\<open>database.py\<close>, \<open>Database.transaction\<close>), contracts (\<open>model_validate\<close>), tables as lists of rows
    in insertion order (\<open>select_key\<close>, \<open>update_where\<close>), and the interfaces \<open>guarded_tx\<close> (a transaction whose
    body runs behind a check of the principal), \<open>stable_step\<close> (steps that keep an invariant),
    \<open>idempotent_calls\<close> (a call answered once is answered the same for ever) and \<open>dispatch_log\<close> (commands are sent
    only for a request that has no answer, which it then has).
  \<^item> \<open>Hash_Chain\<close>: the check all histories make, and the interface \<open>hash_chain\<close> under which two histories
    with the same last hash are equal; numbering of log entries.
  \<^item> \<open>Auth_Sessions\<close>: \<open>auth.py\<close> and the account tables of \<open>database.py\<close>. Login, refresh with rotation, logout,
    password change, access checks and rate limits over users, session families and tokens.
  \<^item> \<open>Admin_Accounts\<close>: \<open>admin/service.py\<close>. Creation, update, password reset and session revocation by an
    administrator, with the audit trail and the paged listings.
  \<^item> \<open>Vault\<close>: \<open>vault.py\<close>. The bounds check on client documents (an explicit work list, with its
    termination proof) and the encrypted, revision-checked store.
  \<^item> \<open>Accounts_System\<close>: the three together as one transition system; every call is a sequence of its
    transactions, also when other calls run in between.
  \<^item> \<open>Energy_Planner\<close>, \<open>Energy_Commands\<close>: \<open>energy_priorities/models.py\<close>, \<open>planner.py\<close>, \<open>commands.py\<close>. Planning the
    battery slot by slot, and the preview, confirmation and audit of inverter commands.
  \<^item> \<open>Shared_Expenses\<close>: \<open>shared_expenses/service.py\<close>. Splitting, recording and exporting expenses.
  \<^item> \<open>Fair_Chores\<close>: \<open>fair_chores/service.py\<close>. Chores whose assignee rotates through the household.
  \<^item> \<open>Pantry_Stock\<close>: \<open>pantry_stock/models.py\<close>, \<open>ledger.py\<close>. Lots consumed first-expiring-first, and undo.
  \<^item> \<open>Reservations\<close>: \<open>resource_reservations/service.py\<close>. The calendar of a resource: recurring local times,
    admission under a capacity, cancellation.
  \<^item> \<open>Resource_Catalog\<close>: \<open>resource_reservations/catalog.py\<close>. The resources of a home and the commands on them.
  \<^item> \<open>Reservation_Service\<close>: \<open>resource_reservations/integration.py\<close> and the bodies of \<open>api.py\<close>. The calls of the
    service, which derive the caller's authority from accounts, catalog and calendar.
  \<^item> \<open>Garden_Irrigation\<close>: \<open>garden_irrigation/models.py\<close>, \<open>planner.py\<close>. Planning the zones of a garden under a water
    budget, from soil, weather and safety readings.
  \<^item> \<open>Irrigation_Effects\<close>: \<open>garden_irrigation/effects.py\<close>, \<open>audit.py\<close>. Preview and confirmation of a plan, the commands
    to the valves, their receipts and the audit chain with its export and restore.
  \<^item> \<open>Room_Comfort\<close>: \<open>room_comfort/models.py\<close>, \<open>planner.py\<close>. What to heat, cool and air in each room.
  \<^item> \<open>Room_Presence\<close>: \<open>room_presence/models.py\<close>, \<open>fusion.py\<close>. The engine that turns private signals into the room a device
    is in, with hysteresis, replay checkpoints, snapshot and restore.
  \<^item> \<open>Presence_Handoff\<close>: the rest of \<open>fusion.py\<close>. Giving an estimate to a home automation, once and with a readback.

  In every theory the state is a record of tables, an operation is a function from the state to an
  answer and a new state, and an exception is an \<open>Inl\<close> value; a transaction that raises returns the state
  it began with. Services that keep their state in memory have no transaction (\<open>pantry_stock\<close>, \<open>energy_priorities/commands.py\<close>,
  the irrigation coordinator, the presence engine and its hand-over): there the state at the moment of the
  exception is returned. Fields \<open>\<dots>_sent\<close> list the commands given to a worker outside. The clock, random identifiers and nonces are arguments of
  the operations. A call that takes several transactions is split (\<open>login\<close>, \<open>change_password\<close>,
  \<open>update_resource\<close>, \<open>service_create\<close>), with an argument or a step in between for what others do meanwhile.

  \<^bold>\<open>Code that is not modelled but relied on\<close> is a parameter: password hashing, HMAC and SHA-256 digests,
  AES-GCM, JSON encoding and decoding, ISO dates, the time-zone database, the inverter, the valves, the automation
  worker, and the resolvers the planners and engines are given. What the theorems need of it is a named hypothesis:
  decryption inverts encryption (\<open>sound_crypto\<close>, \<open>sound_calendar\<close>), hexadecimal digests are ASCII, UTC is
  a known zone (\<open>sound_catalog\<close>), the digests of different movements differ (\<open>movements_apart\<close>), a keyed
  hash has no collision among the entries compared (tamper evidence only).

  \<^bold>\<open>What the theorems show.\<close>

  \<^item> Sessions: a replayed refresh token ends its session family, rotation issues exactly one successor,
    a password change or deactivation ends all other sessions, rate limits hold, and any sequence of
    account transactions keeps the tables consistent and one administrator active.
  \<^item> Vault: the work-list check accepts exactly the documents within the bounds; what is put is got back.
  \<^item> Energy: plans respect battery and power limits; a confirmed command is dispatched at most once, only
    behind all its guards, and the audit log always verifies.
  \<^item> Household ledgers: shares add up to the total and differ by at most one unit; a full round of a
    chore reaches every member once; stock is conserved, taken first-expiring-first and restored by undo;
    histories verify in every reachable store; repeated commands change nothing.
  \<^item> Reservations: under calls run one after the other no resource is reserved beyond the capacity the
    catalog shows, a lost acknowledgement can be recovered, the catalog stays usable and keeps an active
    resource, and the recurrence can be read back from the occurrences. \<open>update_race_overbooks\<close> shows that
    overlapping calls can break the capacity.
  \<^item> Irrigation: a plan stays within the day's water, waters no zone in frost, wind, after a leak or on stale
    readings, and the planner never fails on its own output; valves are driven at most once per request, behind every guard
    and exactly as planned, a confirmed preview completes whatever the valves do, and an exported audit restores.
    \<open>irrigation_override_order_matters\<close> shows that the order of overrides can decide whether there is a plan.
  \<^item> Comfort: smoke, frost and stale readings close a room whatever is overridden, and occupancy does not change
    what is recommended. \<open>comfort_override_passes_air_block\<close> shows an override opening a window into bad air.
  \<^item> Presence: a new room is reported only after the policy's number of supporting batches in a row, an observation counts
    once through restarts, memory and counters are bounded, a snapshot restores, and an automation runs at most once per
    request, on current consent, with an honest receipt. \<open>presence_zero_exit_crashes\<close> shows the one policy value on
    which the engine fails.
  \<^item> Across parts, below: a deactivated account can no longer act on reservations.

  \<^bold>\<open>Bounds and fuel.\<close> No operation uses fuel: every loop of the code is a structural recursion over a list
  it has read, or the work list of \<open>Vault.walk\<close>, which ends because the remaining nodes shrink; \<open>walk_within\<close> counts its
  turns, and 40001 are always enough. The constants
  (\<open>MAX_NODES\<close>, \<open>MAX_RESERVATIONS\<close>, \<open>MAX_RESOURCES\<close>, ...) are those of the code. Integers are unbounded as
  in Python; the 63-bit member revision is cut from a machine word. Time stamps that the code keeps as
  floats are exact rationals. Strings are sequences of the 256 Latin-1 characters, except in the vault, where they are
  sequences of code points.

  \<^bold>\<open>Not modelled.\<close> The wiring and the HTTP routes (\<open>core.py\<close>, \<open>app.py\<close>, most \<open>api.py\<close> files) only pass
  values on. Schema migrations compare SQL text at startup. Plugins, backups and the device adapters
  (\<open>plugins\<close>, \<open>core_backups\<close>, \<open>proxmox_commands\<close>, \<open>keenetic_commands\<close>, \<open>home_assistant\<close>) drive containers, file descriptors
  and network services, whose behaviour is not in this repository. The tables, routes and gateways around the irrigation, comfort and presence
  engines, the comfort effects (which repeat the irrigation coordinator over other devices) and the remaining services (tablet
  fleet, floor plan, camera and media services, sound events, power budget, household records) have the shape of the
  modelled ones over other tables. The client is written in Dart and Kotlin.
\<close>

section \<open>Accounts and reservations\<close>

lemma disabled_no_authority:
  assumes "select_key u_id (p_id actor) (users (sv_accounts s)) = Some u" and "u_disabled u"
  shows "isl (service_authority env now actor core home rid s)"
proof (rule ccontr)
  assume "\<not> ?thesis"
  then obtain a where a: "service_authority env now actor core home rid s = Inr a"
    by (cases "service_authority env now actor core home rid s") simp_all
  show False
  proof (rule service_authority_Inr [OF a])
    fix item account
    assume "facts env now actor (mr_id item) s = Inr (account, ra_members a, ra_members_revision a, ra_calendar_revision a)"
    then show False using assms by (auto simp: facts_def bind_res_Inr_iff Let_def)
  qed
qed

text \<open>C40: A deactivated account can no longer act on reservations. As soon as an administrator's update
  has answered that the account is disabled, and whatever session its owner still holds, reserving,
  cancelling, reading the calendar, exporting it and asking for a receipt are all refused, and nothing
  is written.\<close>

theorem disabled_account_locked_out:
  assumes "update_user c n0 n1 n2 n3 admin (p_id actor) b (sv_accounts s) = (Inr view, accounts)"
    and "au_disabled view"
  shows "let t = s\<lparr>sv_accounts := accounts\<rparr> in
    isl (fst (service_create env fr now now2 actor core home rid q t)) \<and>
    snd (service_create env fr now now2 actor core home rid q t) = t \<and>
    isl (fst (service_cancel env eid now now2 actor core home rid cq t)) \<and>
    snd (service_cancel env eid now now2 actor core home rid cq t) = t \<and>
    isl (service_snapshot env now actor core home rid body t) \<and>
    isl (service_export env now actor core home rid limit body t) \<and>
    isl (service_receipt env now actor core home rid cmd body t)"
proof -
  obtain u where "select_key u_id (p_id actor) (users accounts) = Some u" "admin_public_user u = view"
    by (rule update_user_answer [OF assms(1)])
  with assms(2) have "isl (service_authority env now actor core home (Some rid) (s\<lparr>sv_accounts := accounts\<rparr>))"
    by (intro disabled_no_authority) (auto simp: admin_public_user_def)
  then obtain e where "service_authority env now actor core home (Some rid) (s\<lparr>sv_accounts := accounts\<rparr>) = Inl e"
    by (auto simp: isl_def)
  then show ?thesis
    by (simp add: Let_def expected_def create_admitted_def service_create_def service_cancel_def service_snapshot_def
        service_export_def service_receipt_def)
qed

theorem disabled_account_locked_out_witness:
  "\<not> isl (fst (svc_create svc1)) \<and>
   (\<exists>view accounts. update_user demo_crypto 10 10 10 10 demo_principal ''u2'' \<lparr>ur_expected_revision = 1, ur_role = None, ur_disabled = Some True\<rparr>
      (sv_accounts svc1) = (Inr view, accounts) \<and>
    isl (fst (service_create svc_env \<lparr>fr_reservation = ''b1'', fr_event = ''v1'', fr_nonce = ''n''\<rparr> 10 11 (demo_principal\<lparr>p_id := ''u2''\<rparr>)
      ''core'' ''home'' ''r1'' svc_request (svc1\<lparr>sv_accounts := accounts\<rparr>))))"
proof -
  let ?run = "update_user demo_crypto 10 10 10 10 demo_principal ''u2'' \<lparr>ur_expected_revision = 1, ur_role = None, ur_disabled = Some True\<rparr> (sv_accounts svc1)"
  have "case fst ?run of Inl _ \<Rightarrow> False | Inr v \<Rightarrow> au_disabled v" by code_simp
  then obtain v where v: "?run = (Inr v, snd ?run)" "au_disabled v"
    by (metis (no_types, lifting) prod.collapse sum.case_eq_if sum.collapse(2))
  have id: "p_id (demo_principal\<lparr>p_id := ''u2''\<rparr>) = ''u2''" by simp
  have "\<not> isl (fst (svc_create svc1))" by code_simp
  with v disabled_account_locked_out [where actor = "demo_principal\<lparr>p_id := ''u2''\<rparr>", unfolded id, OF v]
  show ?thesis unfolding Let_def by blast
qed

end
